(* ===== verification/Prelude.thy ===== *)
theory Prelude
  imports Main "HOL-Library.Signed_Division" "HOL-Library.Multiset"
begin

text \<open>
  Shared vocabulary of the development: the result type of a fallible Go function and its
  sequencing, loops with early return, 64-bit signed integers, and the generic facts about
  lists, filters and step systems the component theories rest on.
\<close>

section \<open>Collections of rewrite rules\<close>

named_theorems res_simps \<open>inversion and evaluation of fallible computations\<close>
named_theorems i64_simps \<open>64-bit arithmetic inside the representable range\<close>
named_theorems store_simps \<open>what a table holds after a statement\<close>

section \<open>Results\<close>

text \<open>
  A Go function that returns \<open>(T, error)\<close> is a function into \<open>'e + 'a\<close>, with \<open>Inl\<close> for a
  non-nil error. \<open>bindR\<close> is the idiom \<open>v, err := f(); if err != nil { return err }\<close>.
\<close>

definition bindR :: "'e + 'a \<Rightarrow> ('a \<Rightarrow> 'e + 'b) \<Rightarrow> 'e + 'b" where
  "bindR r f = (case r of Inl e \<Rightarrow> Inl e | Inr v \<Rightarrow> f v)"

text \<open>\<open>guardR e b k\<close> is \<open>if b { return e }\<close> followed by \<open>k\<close>.\<close>

definition guardR :: "'e \<Rightarrow> bool \<Rightarrow> 'e + 'b \<Rightarrow> 'e + 'b" where
  "guardR e b k = (if b then Inl e else k)"

lemma bindR_Inl [simp]: "bindR (Inl e) f = Inl e"
  by (simp add: bindR_def)

lemma bindR_Inr [simp]: "bindR (Inr v) f = f v"
  by (simp add: bindR_def)

lemma bindR_eq_Inr [res_simps]: "bindR r f = Inr y \<longleftrightarrow> (\<exists>v. r = Inr v \<and> f v = Inr y)"
  by (cases r) auto

lemma bindR_eq_Inl [res_simps]:
  "bindR r f = Inl e \<longleftrightarrow> r = Inl e \<or> (\<exists>v. r = Inr v \<and> f v = Inl e)"
  by (cases r) auto

lemma guardR_eq_Inr [res_simps]: "guardR e b k = Inr y \<longleftrightarrow> \<not> b \<and> k = Inr y"
  by (simp add: guardR_def)

lemma guardR_True [simp]: "guardR e True k = Inl e"
  by (simp add: guardR_def)

lemma guardR_False [simp]: "guardR e False k = k"
  by (simp add: guardR_def)

lemma bindR_cong [fundef_cong]:
  "r = r' \<Longrightarrow> (\<And>v. r' = Inr v \<Longrightarrow> f v = g v) \<Longrightarrow> bindR r f = bindR r' g"
  by (cases r') auto

section \<open>Loops with early return\<close>

fun foldR :: "('s \<Rightarrow> 'x \<Rightarrow> 'e + 's) \<Rightarrow> 's \<Rightarrow> 'x list \<Rightarrow> 'e + 's" where
  "foldR f s [] = Inr s"
| "foldR f s (x # xs) = bindR (f s x) (\<lambda>s'. foldR f s' xs)"

lemma foldR_invariant:
  assumes "foldR f s xs = Inr s'" and "P s"
    and "\<And>s x s'. x \<in> set xs \<Longrightarrow> P s \<Longrightarrow> f s x = Inr s' \<Longrightarrow> P s'"
  shows "P s'"
  using assms
proof (induction xs arbitrary: s)
  case Nil
  then show ?case by simp
next
  case (Cons x xs)
  then obtain t where t: "f s x = Inr t" "foldR f t xs = Inr s'"
    by (auto simp: res_simps)
  then have "P t" using Cons.prems by (auto intro: Cons.prems(3))
  then show ?case using t(2) Cons.prems(3) by (intro Cons.IH [of t]) auto
qed

lemma foldR_append [res_simps]: "foldR f s (xs @ ys) = bindR (foldR f s xs) (\<lambda>t. foldR f t ys)"
proof (induction xs arbitrary: s)
  case Nil
  show ?case by simp
next
  case (Cons x xs)
  then show ?case by (cases "f s x") auto
qed

fun mapR :: "('x \<Rightarrow> 'e + 'y) \<Rightarrow> 'x list \<Rightarrow> 'e + 'y list" where
  "mapR f [] = Inr []"
| "mapR f (x # xs) = bindR (f x) (\<lambda>y. bindR (mapR f xs) (\<lambda>ys. Inr (y # ys)))"

lemma mapR_eq_Inr:
  "mapR f xs = Inr ys \<longleftrightarrow> list_all2 (\<lambda>x y. f x = Inr y) xs ys"
  by (induction xs arbitrary: ys) (auto simp: res_simps list_all2_Cons1)

lemma mapR_length: "mapR f xs = Inr ys \<Longrightarrow> length ys = length xs"
  by (auto simp: mapR_eq_Inr dest: list_all2_lengthD)

section \<open>Methods with state\<close>

text \<open>
  A method of a long-lived object returns a result and leaves a state behind, also when it fails.
  \<open>doS m f\<close> runs \<open>m\<close> and, unless it failed, continues with \<open>f\<close> in the state \<open>m\<close> left.
\<close>

type_synonym ('s, 'e, 'a) stateful = "'s \<Rightarrow> ('e + 'a) \<times> 's"

definition doS :: "('s, 'e, 'a) stateful \<Rightarrow> ('a \<Rightarrow> ('s, 'e, 'b) stateful) \<Rightarrow> ('s, 'e, 'b) stateful" where
  "doS m f s = (case m s of (Inl e, s') \<Rightarrow> (Inl e, s') | (Inr v, s') \<Rightarrow> f v s')"

definition returnS :: "'a \<Rightarrow> ('s, 'e, 'a) stateful" where
  "returnS v s = (Inr v, s)"

definition liftS :: "('s \<Rightarrow> 'e + 'a) \<Rightarrow> ('s, 'e, 'a) stateful" where
  "liftS f s = (f s, s)"

lemma doS_eq_Inr [res_simps]: "doS m f s = (Inr y, s') \<longleftrightarrow> (\<exists>v t. m s = (Inr v, t) \<and> f v t = (Inr y, s'))"
  by (auto simp: doS_def split: prod.splits sum.splits)

lemma doS_eq_Inl [res_simps]:
  "doS m f s = (Inl e, s') \<longleftrightarrow> m s = (Inl e, s') \<or> (\<exists>v t. m s = (Inr v, t) \<and> f v t = (Inl e, s'))"
  by (auto simp: doS_def split: prod.splits sum.splits)

lemma returnS_eq [res_simps]: "returnS v s = (r, s') \<longleftrightarrow> r = Inr v \<and> s' = s"
  by (auto simp: returnS_def)

lemma liftS_eq [res_simps]: "liftS f s = (r, s') \<longleftrightarrow> f s = r \<and> s' = s"
  by (auto simp: liftS_def)

lemma liftS_Inr: "liftS f s = (Inr v, s') \<longleftrightarrow> f s = Inr v \<and> s' = s"
  by (rule liftS_eq)

section \<open>64-bit signed integers\<close>

text \<open>
  Go's \<open>int64\<close> is two's complement: arithmetic wraps modulo \<open>2 ^ 64\<close>, and division truncates
  towards zero (\<open>sdiv\<close>, \<open>smod\<close>). \<open>wrap64\<close> is the wrap-around of an exact result, so \<open>a + b\<close>
  on \<open>int64\<close> operands is \<open>wrap64 (a + b)\<close>.
\<close>

definition wrap64 :: "int \<Rightarrow> int" where
  "wrap64 x = (x + 2 ^ 63) mod 2 ^ 64 - 2 ^ 63"

definition in64 :: "int \<Rightarrow> bool" where
  "in64 x \<longleftrightarrow> - (2 ^ 63) \<le> x \<and> x < 2 ^ 63"

lemma wrap64_id [i64_simps]: "in64 x \<Longrightarrow> wrap64 x = x"
  by (simp add: wrap64_def in64_def)

lemma wrap64_range: "in64 (wrap64 x)"
proof -
  have "0 \<le> (x + 2 ^ 63) mod 2 ^ 64" and "(x + 2 ^ 63) mod 2 ^ 64 < (2 ^ 64 :: int)"
    by simp_all
  then show ?thesis by (simp add: wrap64_def in64_def)
qed

lemma wrap64_idem [simp]: "wrap64 (wrap64 x) = wrap64 x"
  by (rule wrap64_id) (rule wrap64_range)

lemma wrap64_mod: "wrap64 x mod 2 ^ 64 = x mod 2 ^ 64"
  by (simp add: wrap64_def mod_diff_left_eq)

lemma sdiv_nonneg [i64_simps]: "0 \<le> a \<Longrightarrow> 0 < b \<Longrightarrow> a sdiv b = a div (b::int)"
  by (cases "a = 0") (auto simp: signed_divide_int_def)

lemma smod_nonneg [i64_simps]: "0 \<le> a \<Longrightarrow> 0 < b \<Longrightarrow> a smod b = a mod (b::int)"
  by (cases "a = 0") (auto simp: signed_modulo_int_def)

section \<open>Lists\<close>

text \<open>The first row that satisfies a condition: a \<open>LIMIT 1\<close> query over an ordered table.\<close>

abbreviation first_of :: "('a \<Rightarrow> bool) \<Rightarrow> 'a list \<Rightarrow> 'a option" where
  "first_of P xs \<equiv> List.find P xs"

lemma first_of_SomeD: "first_of P xs = Some x \<Longrightarrow> x \<in> set xs \<and> P x"
  by (auto simp: find_Some_iff in_set_conv_nth)

lemma first_of_None_iff: "first_of P xs = None \<longleftrightarrow> (\<forall>x \<in> set xs. \<not> P x)"
  by (auto simp: find_None_iff)

lemma first_of_append:
  "first_of P (xs @ ys) = (case first_of P xs of None \<Rightarrow> first_of P ys | Some x \<Rightarrow> Some x)"
  by (induction xs) auto

lemma sum_list_filter_le:
  fixes f :: "'a \<Rightarrow> int"
  assumes "\<And>x. x \<in> set xs \<Longrightarrow> 0 \<le> f x"
  shows "sum_list (map f (filter P xs)) \<le> sum_list (map f xs)"
  using assms by (induction xs) (auto intro: order_trans)

lemma sum_list_map_nonneg:
  fixes f :: "'a \<Rightarrow> int"
  shows "(\<And>x. x \<in> set xs \<Longrightarrow> 0 \<le> f x) \<Longrightarrow> 0 \<le> sum_list (map f xs)"
  by (rule sum_list_nonneg) auto

lemma sum_list_map_le:
  fixes f g :: "'a \<Rightarrow> int"
  shows "(\<And>x. x \<in> set xs \<Longrightarrow> f x \<le> g x) \<Longrightarrow> sum_list (map f xs) \<le> sum_list (map g xs)"
  by (induction xs) (auto intro: add_mono)

lemma div_sum_list_le:
  fixes f :: "'a \<Rightarrow> int"
  assumes "0 < d"
  shows "(\<Sum>x\<leftarrow>xs. f x div d) \<le> (\<Sum>x\<leftarrow>xs. f x) div d"
proof (induction xs)
  case Nil
  show ?case by simp
next
  case (Cons x xs)
  have "f x div d + (\<Sum>x\<leftarrow>xs. f x) div d \<le> (f x + (\<Sum>x\<leftarrow>xs. f x)) div d"
    using assms by (simp add: div_add1_eq [of "f x"] pos_imp_zdiv_nonneg_iff)
  with Cons.IH show ?case by simp
qed

section \<open>Step systems\<close>

text \<open>
  Reachable states of a step relation, and the induction every safety property of the
  development goes through: an interface of an initial predicate, a step relation and an
  inductive invariant.
\<close>

inductive reach :: "('s \<Rightarrow> bool) \<Rightarrow> ('s \<Rightarrow> 's \<Rightarrow> bool) \<Rightarrow> 's \<Rightarrow> bool"
  for init :: "'s \<Rightarrow> bool" and step :: "'s \<Rightarrow> 's \<Rightarrow> bool" where
  reach_init: "init s \<Longrightarrow> reach init step s"
| reach_step: "reach init step s \<Longrightarrow> step s t \<Longrightarrow> reach init step t"

locale step_invariant =
  fixes init :: "'s \<Rightarrow> bool" and step :: "'s \<Rightarrow> 's \<Rightarrow> bool" and inv :: "'s \<Rightarrow> bool"
  assumes inv_init: "init s \<Longrightarrow> inv s"
    and inv_step: "inv s \<Longrightarrow> step s t \<Longrightarrow> inv t"
begin

lemma reach_inv: "reach init step s \<Longrightarrow> inv s"
  by (induction rule: reach.induct) (auto intro: inv_init inv_step)

lemma steps_inv: "step\<^sup>*\<^sup>* s t \<Longrightarrow> inv s \<Longrightarrow> inv t"
  by (induction rule: rtranclp_induct) (auto intro: inv_step)

end

end
