(* ===== verification/Calendar.thy ===== *)
theory Calendar
  imports Prelude
begin

text \<open>
  The civil calendar and time zones as \<open>internal/timezone/calendar.go\<close> and
  \<open>internal/allocations/calendar.go\<close> use them. An instant is a Unix second, a civil date at UTC
  midnight is its day number, a location is its table of offset changes. The Gregorian
  conversion, \<open>Time.Zone\<close>, \<open>Time.ZoneBounds\<close> and \<open>time.Date\<close> are the parts of Go's \<open>time\<close> package
  the code calls.
\<close>

section \<open>The Gregorian calendar\<close>

text \<open>
  Months are counted through: index \<open>k\<close> is month \<open>k mod 12 + 1\<close> of year \<open>k div 12\<close>. The day
  count starts in March, so that a leap day is the last day of its cycle year; \<open>719468\<close> is the
  number of days from 0000-03-01 to 1970-01-01.
\<close>

definition days_before_year :: "int \<Rightarrow> int" where
  "days_before_year y = 365 * y + y div 4 - y div 100 + y div 400"

definition days_before_month :: "int \<Rightarrow> int" where
  "days_before_month mp = (153 * mp + 2) div 5"

definition first_day :: "int \<Rightarrow> int" where
  "first_day k = days_before_year ((k - 2) div 12) + days_before_month ((k - 2) mod 12) - 719468"

text \<open>\<open>time.Date(y, m, d, 0, 0, 0, 0, time.UTC)\<close>, which normalises months and days out of range.\<close>

definition date_days :: "int \<Rightarrow> int \<Rightarrow> int \<Rightarrow> int" where
  "date_days y m d = first_day (12 * y + (m - 1)) + d - 1"

text \<open>The cycle year of a March-based day count and the day within it, by 400-, 100-, 4- and
  1-year cycles.\<close>

definition cycle_year :: "int \<Rightarrow> int \<times> int" where
  "cycle_year z = (let era = z div 146097; doe = z mod 146097;
     c = min 3 (doe div 36524); r = doe - 36524 * c;
     q = r div 1461; s = r mod 1461;
     a = min 3 (s div 365)
     in (400 * era + 100 * c + 4 * q + a, s - 365 * a))"

definition month_index :: "int \<Rightarrow> int" where
  "month_index n = (let (y, doy) = cycle_year (n + 719468) in 12 * y + (5 * doy + 2) div 153 + 2)"

definition civil :: "int \<Rightarrow> int \<times> int \<times> int" where
  "civil n = (let k = month_index n in (k div 12, k mod 12 + 1, n - first_day k + 1))"

lemma days_before_year_cycle:
  assumes "0 \<le> c" "c \<le> 3" "0 \<le> q" "q \<le> 24" "0 \<le> a" "a \<le> 3"
  shows "days_before_year (400 * era + 100 * c + 4 * q + a) =
    146097 * era + 36524 * c + 1461 * q + 365 * a"
proof -
  have "(400 * era + 100 * c + 4 * q + a) div 4 = 100 * era + 25 * c + q" using assms by linarith
  moreover have "(400 * era + 100 * c + 4 * q + a) div 100 = 4 * era + c" using assms by linarith
  moreover have "(400 * era + 100 * c + 4 * q + a) div 400 = era" using assms by linarith
  ultimately show ?thesis by (simp add: days_before_year_def)
qed

lemma days_before_year_step: "days_before_year y + 365 \<le> days_before_year (y + 1)"
proof -
  have c: "x div 100 = (x div 4) div 25" for x :: int by (simp add: zdiv_zmult2_eq [symmetric])
  have "(y + 1) div 4 = y div 4 \<or> (y + 1) div 4 = y div 4 + 1" by linarith
  moreover have "(y div 4 + 1) div 25 \<le> (y div 4) div 25 + 1" by linarith
  ultimately have "(y + 1) div 100 - y div 100 \<le> (y + 1) div 4 - y div 4"
    unfolding c by (elim disjE) simp_all
  moreover have "y div 400 \<le> (y + 1) div 400" by (simp add: zdiv_mono1)
  ultimately show ?thesis by (simp add: days_before_year_def)
qed

lemma cycle_year_spec:
  assumes "cycle_year z = (y, doy)"
  shows "z = days_before_year y + doy" "0 \<le> doy" "doy \<le> 365" "z < days_before_year (y + 1)"
proof -
  define era where "era = z div 146097"
  define doe where "doe = z mod 146097"
  define c where "c = min 3 (doe div 36524)"
  define r where "r = doe - 36524 * c"
  define q where "q = r div 1461"
  define s where "s = r mod 1461"
  define a where "a = min 3 (s div 365)"
  have "cycle_year z = (400 * era + 100 * c + 4 * q + a, s - 365 * a)"
    unfolding cycle_year_def Let_def era_def doe_def c_def r_def q_def s_def a_def by (rule refl)
  then have y: "y = 400 * era + 100 * c + 4 * q + a" and doy: "doy = s - 365 * a"
    using assms by simp_all
  have doe: "0 \<le> doe" "doe \<le> 146096" "z = 146097 * era + doe" by (auto simp: doe_def era_def)
  have c: "0 \<le> c" "c \<le> 3" using doe by (auto simp: c_def)
  have r: "0 \<le> r" "c < 3 \<Longrightarrow> r \<le> 36523" "r \<le> 36524" using doe by (auto simp: r_def c_def min_def)
  have q: "0 \<le> q" "q \<le> 24" and s: "0 \<le> s" "s \<le> 1460" "r = 1461 * q + s"
    using r by (auto simp: q_def s_def)
  have a: "0 \<le> a" "a \<le> 3" and d: "0 \<le> doy" "doy \<le> 365" "a < 3 \<Longrightarrow> doy \<le> 364"
    using s by (auto simp: a_def doy min_def)
  note F = days_before_year_cycle [OF c q a, of era]
  show eq: "z = days_before_year y + doy" using F y doy s doe by (simp add: r_def)
  show "0 \<le> doy" "doy \<le> 365" by (fact d)+
  show "z < days_before_year (y + 1)"
  proof (cases "doy = 365")
    case False
    then show ?thesis using eq d days_before_year_step [of y] by linarith
  next
    case True
    then have a3: "a = 3" using d a by fastforce
    then have s': "s = 1460" using True doy by simp
    consider "q < 24" | "q = 24" "c = 3" using q c r s s' by fastforce
    then show ?thesis
    proof cases
      case 1
      then show ?thesis using F y a3 c q True eq days_before_year_cycle [of c "q + 1" 0 era]
        by (simp add: algebra_simps)
    next
      case 2
      then show ?thesis using F y a3 True eq days_before_year_cycle [of 0 0 0 "era + 1"]
        by (simp add: algebra_simps)
    qed
  qed
qed

lemma month_of_doy:
  assumes "0 \<le> doy" "doy \<le> 365"
  defines "mp \<equiv> (5 * doy + 2) div 153"
  shows "0 \<le> mp" "mp \<le> 11" "days_before_month mp \<le> doy" "doy < days_before_month (mp + 1)"
proof -
  have "153 * mp \<le> 5 * doy + 2" "5 * doy + 2 < 153 * mp + 153" unfolding mp_def by linarith+
  note mp = this
  show "0 \<le> mp" "mp \<le> 11" "days_before_month mp \<le> doy"
    using mp assms(1,2) unfolding days_before_month_def by linarith+
  have "5 * (doy + 1) \<le> 153 * (mp + 1) + 2" using mp(2) by simp
  then have "5 * (doy + 1) div 5 \<le> (153 * (mp + 1) + 2) div 5" by (rule zdiv_mono1) simp
  then show "doy < days_before_month (mp + 1)" by (simp add: days_before_month_def)
qed

lemma month_index_bounds: "first_day (month_index n) \<le> n" "n < first_day (month_index n + 1)"
proof -
  obtain y doy where yd: "cycle_year (n + 719468) = (y, doy)" by fastforce
  define mp where "mp = (5 * doy + 2) div 153"
  note cy = cycle_year_spec [OF yd]
  have mp: "0 \<le> mp" "mp \<le> 11" "days_before_month mp \<le> doy" "doy < days_before_month (mp + 1)"
    unfolding mp_def by (rule month_of_doy [OF cy(2,3)])+
  have k: "month_index n = 12 * y + mp + 2" by (simp add: month_index_def yd mp_def)
  have "first_day (month_index n) = days_before_year y + days_before_month mp - 719468"
    using mp by (simp add: k first_day_def)
  then show "first_day (month_index n) \<le> n" using cy(1) mp(3) by linarith
  show "n < first_day (month_index n + 1)"
  proof (cases "mp = 11")
    case True
    then have "(month_index n + 1 - 2) div 12 = y + 1" "(month_index n + 1 - 2) mod 12 = 0"
      by (simp_all add: k)
    then have "first_day (month_index n + 1) = days_before_year (y + 1) - 719468"
      by (simp add: first_day_def days_before_month_def)
    then show ?thesis using cy(4) by linarith
  next
    case False
    then have "(month_index n + 1 - 2) div 12 = y" "(month_index n + 1 - 2) mod 12 = mp + 1"
      using mp(1,2) unfolding k by (simp_all add: div_pos_pos_trivial int_div_pos_eq int_mod_pos_eq [where q = y])
    then have "first_day (month_index n + 1) = days_before_year y + days_before_month (mp + 1) - 719468"
      by (simp add: first_day_def)
    then show ?thesis using cy(1) mp(4) by linarith
  qed
qed

lemma first_day_step: "first_day k < first_day (k + 1)"
proof -
  define y where "y = (k - 2) div 12"
  define mp where "mp = (k - 2) mod 12"
  have mp: "0 \<le> mp" "mp \<le> 11" by (auto simp: mp_def)
  have k: "k = 12 * y + mp + 2" by (simp add: y_def mp_def)
  show ?thesis
  proof (cases "mp = 11")
    case True
    then have "(k + 1 - 2) div 12 = y + 1" "(k + 1 - 2) mod 12 = 0" by (simp_all add: k)
    moreover have "(k - 2) div 12 = y" "(k - 2) mod 12 = 11" using True by (simp_all add: k)
    ultimately show ?thesis using days_before_year_step [of y]
      unfolding first_day_def days_before_month_def by simp
  next
    case False
    then have "(k + 1 - 2) div 12 = y" "(k + 1 - 2) mod 12 = mp + 1"
      using mp unfolding k by (simp_all add: int_div_pos_eq int_mod_pos_eq [where q = y])
    moreover have "days_before_month mp < days_before_month (mp + 1)"
      unfolding days_before_month_def using zdiv_mono1 [of "153 * mp + 2 + 5" "153 * (mp + 1) + 2" 5]
      by simp
    ultimately show ?thesis using mp by (simp add: first_day_def k)
  qed
qed

lemma first_day_strict: "j < k \<Longrightarrow> first_day j < first_day k"
proof (induction k rule: int_gr_induct [where k = j])
  case base
  show ?case by (rule first_day_step)
next
  case (step i)
  then show ?case using first_day_step [of i] by linarith
qed

lemma first_day_le_iff: "first_day j \<le> first_day k \<longleftrightarrow> j \<le> k"
  by (metis first_day_strict linorder_not_le order_le_less)

text \<open>The two conversions are adjoint: the month of a day is the last one that starts by then.\<close>

lemma first_day_le: "first_day k \<le> n \<longleftrightarrow> k \<le> month_index n"
proof
  assume "k \<le> month_index n"
  then have "first_day k \<le> first_day (month_index n)" by (simp add: first_day_le_iff)
  then show "first_day k \<le> n" using month_index_bounds(1) [of n] by linarith
next
  assume "first_day k \<le> n"
  then have "first_day k < first_day (month_index n + 1)"
    using month_index_bounds(2) [of n] by linarith
  then show "k \<le> month_index n" using first_day_le_iff [of "month_index n + 1" k] by linarith
qed

lemma month_index_first_day [simp]: "month_index (first_day k) = k"
  by (metis first_day_le first_day_le_iff order_antisym order_refl)

lemma month_index_mono: "m \<le> n \<Longrightarrow> month_index m \<le> month_index n"
  using first_day_le [of "month_index m" n] month_index_bounds(1) [of m] by linarith

lemma date_days_civil [simp]: "civil n = (y, m, d) \<Longrightarrow> date_days y m d = n"
  by (auto simp: civil_def date_days_def Let_def algebra_simps)

lemma civil_inject: "civil a = civil b \<Longrightarrow> a = b"
  by (metis date_days_civil prod_cases3)

text \<open>Comparing civil dates field by field, as the code does, is comparing day numbers.\<close>

definition date_ge :: "int \<times> int \<times> int \<Rightarrow> int \<times> int \<times> int \<Rightarrow> bool" where
  "date_ge = (\<lambda>(y, m, d) (y', m', d').
     y > y' \<or> (y = y' \<and> (m > m' \<or> (m = m' \<and> d \<ge> d'))))"

lemma civil_ge_iff: "date_ge (civil a) (civil b) \<longleftrightarrow> b \<le> a"
proof -
  define j where "j = month_index a"
  define k where "k = month_index b"
  have eq: "j = 12 * (j div 12) + j mod 12" "k = 12 * (k div 12) + k mod 12"
    "0 \<le> j mod 12" "j mod 12 < 12" "0 \<le> k mod 12" "k mod 12 < 12" by simp_all
  have split: "j = k \<longleftrightarrow> j div 12 = k div 12 \<and> j mod 12 = k mod 12"
    "k < j \<longleftrightarrow> k div 12 < j div 12 \<or> (j div 12 = k div 12 \<and> k mod 12 < j mod 12)"
    using eq by (metis, linarith)
  have "date_ge (civil a) (civil b) \<longleftrightarrow>
      (k div 12 < j div 12 \<or> (j div 12 = k div 12 \<and> k mod 12 < j mod 12)) \<or>
      (j div 12 = k div 12 \<and> j mod 12 = k mod 12) \<and> b - first_day k \<le> a - first_day j"
    by (auto simp: date_ge_def civil_def Let_def j_def k_def)
  also have "\<dots> \<longleftrightarrow> k < j \<or> (j = k \<and> b \<le> a)"
    unfolding split(1) [symmetric] split(2) [symmetric] by auto
  also have "\<dots> \<longleftrightarrow> b \<le> a"
  proof -
    have "k < j \<Longrightarrow> b \<le> a" using month_index_mono [of a b] by (fastforce simp: j_def k_def not_le)
    moreover have "b \<le> a \<Longrightarrow> k \<le> j" by (simp add: j_def k_def month_index_mono)
    ultimately show ?thesis by auto
  qed
  finally show ?thesis .
qed

end
