(* ===== verification/Timezone.thy ===== *)
theory Timezone
  imports Calendar
begin

text \<open>
  Locations, the first instant of a civil date (\<open>internal/timezone/calendar.go\<close>) and the wall
  clock search of \<open>internal/allocations/calendar.go\<close>.
\<close>

section \<open>Locations\<close>

text \<open>
  A location is the offset in force before its first transition and the transitions in order,
  each the instant it takes effect and the offset from then on. \<open>zoneOffset\<close> is the offset
  \<open>t.In(location).Zone()\<close> returns and \<open>zoneEnd\<close> the end \<open>t.In(location).ZoneBounds()\<close> returns, with
  \<open>None\<close> for the zero time.
\<close>

record location =
  zone_base :: int
  zone_transitions :: "(int \<times> int) list"

fun offset_at :: "int \<Rightarrow> (int \<times> int) list \<Rightarrow> int \<Rightarrow> int" where
  "offset_at base [] t = base"
| "offset_at base ((i, off) # rest) t = (if t < i then base else offset_at off rest t)"

fun end_at :: "(int \<times> int) list \<Rightarrow> int \<Rightarrow> int option" where
  "end_at [] t = None"
| "end_at ((i, off) # rest) t = (if t < i then Some i else end_at rest t)"

definition zoneOffset :: "location \<Rightarrow> int \<Rightarrow> int" where
  "zoneOffset loc t = offset_at (zone_base loc) (zone_transitions loc) t"

definition zoneEnd :: "location \<Rightarrow> int \<Rightarrow> int option" where
  "zoneEnd loc t = end_at (zone_transitions loc) t"

definition UTC :: location where
  "UTC = \<lparr>zone_base = 0, zone_transitions = []\<rparr>"

text \<open>The local clock reading as seconds, and its civil day.\<close>

definition localSec :: "location \<Rightarrow> int \<Rightarrow> int" where
  "localSec loc t = t + zoneOffset loc t"

definition localDay :: "location \<Rightarrow> int \<Rightarrow> int" where
  "localDay loc t = localSec loc t div 86400"

lemma end_at_gt: "end_at trs t = Some b \<Longrightarrow> t < b"
  by (induction trs t rule: end_at.induct) (auto split: if_splits)

lemma offset_at_const:
  "t \<le> u \<Longrightarrow> (\<And>b. end_at trs t = Some b \<Longrightarrow> u < b) \<Longrightarrow> offset_at base trs u = offset_at base trs t"
  by (induction base trs t rule: offset_at.induct) auto

section \<open>First instants\<close>

text \<open>
  \<open>r\<close> is the first instant from \<open>lo\<close> on where \<open>P\<close> holds, or \<open>hi\<close> when there is none before.
\<close>

definition first_in :: "(int \<Rightarrow> bool) \<Rightarrow> int \<Rightarrow> int \<Rightarrow> int \<Rightarrow> bool" where
  "first_in P lo hi r \<longleftrightarrow>
     lo \<le> r \<and> r \<le> hi \<and> (\<forall>t. lo \<le> t \<and> t < r \<longrightarrow> \<not> P t) \<and> (r < hi \<longrightarrow> P r)"

lemma first_in_unique: "first_in P lo hi r \<Longrightarrow> first_in P lo hi r' \<Longrightarrow> r = r'"
  unfolding first_in_def by (metis dual_order.trans linorder_not_less order_le_less_trans order_less_le)

lemma first_in_extend:
  "first_in P mid hi r \<Longrightarrow> lo \<le> mid \<Longrightarrow> (\<And>t. lo \<le> t \<Longrightarrow> t < mid \<Longrightarrow> \<not> P t) \<Longrightarrow> first_in P lo hi r"
  unfolding first_in_def by force

lemma first_in_interior: "first_in P lo hi r \<Longrightarrow> P hi \<Longrightarrow> \<not> P lo \<Longrightarrow> P r \<and> \<not> P (r - 1)"
  unfolding first_in_def by (cases "r = lo") auto

section \<open>The zone interface\<close>

text \<open>
  What the wall clock search relies on: between an instant and the end of its zone period the
  offset does not change, and that end lies ahead.
\<close>

locale zone_periods =
  fixes off :: "int \<Rightarrow> int" and period_end :: "int \<Rightarrow> int option"
  assumes period_end_gt: "period_end t = Some b \<Longrightarrow> t < b"
    and off_const: "t \<le> u \<Longrightarrow> (\<And>b. period_end t = Some b \<Longrightarrow> u < b) \<Longrightarrow> off u = off t"

text \<open>
  The loop of \<open>wallTime\<close>: walk the offset segments from \<open>segment\<close> to \<open>stop\<close> and return the first
  instant whose local reading has reached \<open>want\<close>. An end of period that does not lie ahead would
  keep Go's loop from advancing; the model stops there, and the interface rules it out.
\<close>

definition clipEnd :: "int option \<Rightarrow> int \<Rightarrow> int" where
  "clipEnd b stop = (case b of None \<Rightarrow> stop | Some e \<Rightarrow> if e > stop then stop else e)"

function wallScan :: "(int \<Rightarrow> int) \<Rightarrow> (int \<Rightarrow> int option) \<Rightarrow> int \<Rightarrow> int \<Rightarrow> int \<Rightarrow> int" where
  "wallScan off period_end want stop segment =
     (if segment < stop then
        (let boundary = clipEnd (period_end segment) stop;
             candidate = want - off segment;
             candidate = (if candidate < segment then segment else candidate)
         in if candidate < boundary then candidate
            else if boundary \<le> segment then stop
            else wallScan off period_end want stop boundary)
      else stop)"
  by pat_completeness auto
termination
  by (relation "measure (\<lambda>(off, period_end, want, stop, segment). nat (stop - segment))")
    (auto simp: Let_def clipEnd_def split: option.splits if_splits)

declare wallScan.simps [simp del]

context zone_periods
begin

lemma clipEnd_gt: "s < stop \<Longrightarrow> s < clipEnd (period_end s) stop"
  by (auto simp: clipEnd_def split: option.splits dest: period_end_gt)

lemma clipEnd_le: "clipEnd (period_end s) stop \<le> stop"
  by (auto simp: clipEnd_def split: option.splits)

lemma off_segment: "s \<le> t \<Longrightarrow> t < clipEnd (period_end s) stop \<Longrightarrow> off t = off s"
  by (rule off_const) (auto simp: clipEnd_def split: option.splits if_splits)

lemma wallScan_first:
  "segment \<le> stop \<Longrightarrow>
   first_in (\<lambda>t. want \<le> t + off t) segment stop (wallScan off period_end want stop segment)"
proof (induction "nat (stop - segment)" arbitrary: segment rule: less_induct)
  case less
  let ?b = "clipEnd (period_end segment) stop"
  let ?c = "if want - off segment < segment then segment else want - off segment"
  show ?case
  proof (cases "segment < stop")
    case False
    with less.prems have "segment = stop" by simp
    then show ?thesis by (simp add: wallScan.simps [of off period_end want stop stop] first_in_def)
  next
    case True
    note b = clipEnd_gt [OF True] clipEnd_le [of segment stop]
    have seg: "want \<le> t + off t \<longleftrightarrow> ?c \<le> t" if "segment \<le> t" "t < ?b" for t
      using off_segment [OF that] that(1) by auto
    show ?thesis
    proof (cases "?c < ?b")
      case found: True
      then have "wallScan off period_end want stop segment = ?c"
        using True by (simp add: wallScan.simps [of _ _ _ _ segment] Let_def)
      moreover have "first_in (\<lambda>t. want \<le> t + off t) segment stop ?c"
        using seg found b unfolding first_in_def by auto
      ultimately show ?thesis by simp
    next
      case False
      then have eq: "wallScan off period_end want stop segment = wallScan off period_end want stop ?b"
        using True b by (simp add: wallScan.simps [of _ _ _ _ segment] Let_def)
      have "first_in (\<lambda>t. want \<le> t + off t) ?b stop (wallScan off period_end want stop ?b)"
        using b by (intro less.hyps) auto
      then show ?thesis unfolding eq
        by (rule first_in_extend) (use b seg False in auto)
    qed
  qed
qed

end

interpretation zt: zone_periods "zoneOffset loc" "zoneEnd loc" for loc
proof
  show "zoneEnd loc t = Some b \<Longrightarrow> t < b" for t b
    by (simp add: zoneEnd_def end_at_gt)
  show "zoneOffset loc u = zoneOffset loc t"
    if "t \<le> u" "\<And>b. zoneEnd loc t = Some b \<Longrightarrow> u < b" for t u
    using that unfolding zoneOffset_def zoneEnd_def by (rule offset_at_const)
qed

section \<open>The first instant of a civil date\<close>

text \<open>
  \<open>time.Date(y, m, d, 0, 0, 0, 0, location)\<close>: look the offset up as if the reading were UTC, and
  once more when the instant that gives lies in another zone period.
\<close>

fun start_at :: "int option \<Rightarrow> (int \<times> int) list \<Rightarrow> int \<Rightarrow> int option" where
  "start_at s [] t = s"
| "start_at s ((i, off) # rest) t = (if t < i then s else start_at (Some i) rest t)"

definition zoneStart :: "location \<Rightarrow> int \<Rightarrow> int option" where
  "zoneStart loc t = start_at None (zone_transitions loc) t"

definition timeDate :: "location \<Rightarrow> int \<Rightarrow> int" where
  "timeDate loc unix =
     (let offset = zoneOffset loc unix in
      if offset \<noteq> 0 then
        (let utc = unix - offset;
             before = (case zoneStart loc unix of None \<Rightarrow> False | Some s \<Rightarrow> utc < s);
             after = (case zoneEnd loc unix of None \<Rightarrow> False | Some e \<Rightarrow> utc \<ge> e)
         in unix - (if before \<or> after then zoneOffset loc utc else offset))
      else unix)"

text \<open>The binary search of \<open>DayStart\<close> over the instants around the date.\<close>

function dayScan :: "(int \<Rightarrow> bool) \<Rightarrow> int \<Rightarrow> int \<Rightarrow> int" where
  "dayScan reached lo hi =
     (if lo < hi then
        (let mid = lo + (hi - lo) sdiv 2
         in if reached mid then dayScan reached lo mid else dayScan reached (mid + 1) hi)
      else lo)"
  by pat_completeness auto
termination
  by (relation "measure (\<lambda>(reached, lo, hi). nat (hi - lo))") (auto simp: Let_def sdiv_nonneg)

declare dayScan.simps [simp del]

definition DayStart :: "int \<Rightarrow> int \<Rightarrow> int \<Rightarrow> location \<Rightarrow> int" where
  "DayStart year month day loc =
     (let date = (\<lambda>v. civil (localDay loc v) = (year, month, day));
          base = date_days year month day * 86400;
          guess = timeDate loc base;
          clock = localSec loc guess mod 86400
      in if date guess \<and> clock div 3600 = 0 \<and> clock mod 3600 div 60 = 0 \<and> \<not> date (guess - 1)
         then guess
         else dayScan (\<lambda>v. date_ge (civil (localDay loc v)) (year, month, day))
                (base - 48 * 3600) (base + 48 * 3600))"

lemma dayScan_first:
  assumes "lo \<le> hi" and "\<And>t u. lo \<le> t \<Longrightarrow> t \<le> u \<Longrightarrow> u \<le> hi \<Longrightarrow> reached t \<Longrightarrow> reached u"
  shows "first_in reached lo hi (dayScan reached lo hi)"
  using assms
proof (induction reached lo hi rule: dayScan.induct)
  case (1 reached lo hi)
  show ?case
  proof (cases "lo < hi")
    case False
    with "1.prems"(1) have "lo = hi" by simp
    then show ?thesis by (auto simp: dayScan.simps [of reached hi hi] first_in_def)
  next
    case True
    define mid where "mid = lo + (hi - lo) sdiv 2"
    have mid: "lo \<le> mid" "mid < hi" using True by (auto simp: mid_def sdiv_nonneg)
    have eq: "dayScan reached lo hi =
        (if reached mid then dayScan reached lo mid else dayScan reached (mid + 1) hi)"
      using True by (simp add: dayScan.simps [of reached lo hi] mid_def Let_def)
    show ?thesis
    proof (cases "reached mid")
      case left: True
      have "first_in reached lo mid (dayScan reached lo mid)"
      proof (rule "1.IH"(1) [OF True mid_def left])
        show "reached u" if "lo \<le> t" "t \<le> u" "u \<le> mid" "reached t" for t u
          using "1.prems"(2) [of t u] that mid by simp
      qed (rule mid(1))
      moreover have "dayScan reached lo mid \<noteq> mid \<or> reached mid" using left by simp
      ultimately show ?thesis using left mid unfolding eq first_in_def by auto
    next
      case False
      have right: "first_in reached (mid + 1) hi (dayScan reached (mid + 1) hi)"
      proof (rule "1.IH"(2) [OF True mid_def False])
        show "reached u" if "mid + 1 \<le> t" "t \<le> u" "u \<le> hi" "reached t" for t u
          using "1.prems"(2) [of t u] that mid by simp
      qed (use mid in simp)
      have below: "\<not> reached t" if "lo \<le> t" "t < mid + 1" for t
        using "1.prems"(2) [of t mid] that mid False by (intro notI) simp
      have "lo \<le> mid + 1" using mid by simp
      from first_in_extend [OF right this below] show ?thesis using False unfolding eq by simp
    qed
  qed
qed

section \<open>Well-formed locations\<close>

text \<open>
  Offsets stay within a day, and a transition never sets the civil date back: the local day
  just before it is not later than the local day it starts. Every zone of the tz database whose
  clocks are not set back across midnight has this form.
\<close>

fun zone_ok_from :: "int \<Rightarrow> int option \<Rightarrow> (int \<times> int) list \<Rightarrow> bool" where
  "zone_ok_from base prev [] \<longleftrightarrow> \<bar>base\<bar> \<le> 86400"
| "zone_ok_from base prev ((i, off) # rest) \<longleftrightarrow>
     \<bar>base\<bar> \<le> 86400 \<and> (case prev of None \<Rightarrow> True | Some p \<Rightarrow> p < i) \<and>
     (i - 1 + base) div 86400 \<le> (i + off) div 86400 \<and> zone_ok_from off (Some i) rest"

definition zone_ok :: "location \<Rightarrow> bool" where
  "zone_ok loc \<longleftrightarrow> zone_ok_from (zone_base loc) None (zone_transitions loc)"

lemma zone_ok_from_bound: "zone_ok_from base prev trs \<Longrightarrow> \<bar>offset_at base trs t\<bar> \<le> 86400"
  by (induction base prev trs rule: zone_ok_from.induct) auto

lemma zone_ok_from_head:
  "zone_ok_from base (Some p) trs \<Longrightarrow> p \<le> t \<Longrightarrow>
   (p + base) div 86400 \<le> (t + offset_at base trs t) div 86400"
proof (induction base "Some p" trs arbitrary: p rule: zone_ok_from.induct)
  case (1 base)
  then show ?case by (auto intro: zdiv_mono1)
next
  case (2 base i off rest)
  show ?case
  proof (cases "t < i")
    case True
    with 2 show ?thesis by (auto intro: zdiv_mono1)
  next
    case False
    have "(p + base) div 86400 \<le> (i - 1 + base) div 86400" using 2 by (auto intro: zdiv_mono1)
    also have "\<dots> \<le> (i + off) div 86400" using 2 by simp
    also have "\<dots> \<le> (t + offset_at off rest t) div 86400" using 2 False by simp
    finally show ?thesis using False by simp
  qed
qed

lemma zone_ok_from_mono:
  "zone_ok_from base prev trs \<Longrightarrow> t \<le> u \<Longrightarrow>
   (t + offset_at base trs t) div 86400 \<le> (u + offset_at base trs u) div 86400"
proof (induction base prev trs rule: zone_ok_from.induct)
  case (1 base prev)
  then show ?case by (auto intro: zdiv_mono1)
next
  case (2 base prev i off rest)
  consider "u < i" | "i \<le> t" | "t < i" "i \<le> u" by linarith
  then show ?case
  proof cases
    case 1
    with \<open>t \<le> u\<close> show ?thesis by (simp add: zdiv_mono1)
  next
    case 2
    with "2.IH" "2.prems" show ?thesis by simp
  next
    case False: 3
    have "(t + base) div 86400 \<le> (i - 1 + base) div 86400" using False by (auto intro: zdiv_mono1)
    also have "\<dots> \<le> (i + off) div 86400" using "2.prems" by simp
    also have "\<dots> \<le> (u + offset_at off rest u) div 86400"
      using "2.prems" False by (intro zone_ok_from_head) auto
    finally show ?thesis using False by simp
  qed
qed

lemma zone_ok_UTC [simp]: "zone_ok UTC"
  by (simp add: zone_ok_def UTC_def)

text \<open>
  The contract of \<open>DayStart\<close>, as an adjunction: an instant is on or after the start of a day
  exactly when its local date is that day or a later one.
\<close>

locale civil_zone =
  fixes loc :: location
  assumes ok: "zone_ok loc"
begin

lemma localDay_mono: "t \<le> u \<Longrightarrow> localDay loc t \<le> localDay loc u"
  using ok zone_ok_from_mono unfolding zone_ok_def localDay_def localSec_def zoneOffset_def by blast

lemma offset_bound: "\<bar>zoneOffset loc t\<bar> \<le> 86400"
  using ok zone_ok_from_bound unfolding zone_ok_def zoneOffset_def by blast

lemma localDay_near: "n \<le> localDay loc (n * 86400 + 48 * 3600)" "localDay loc (n * 86400 - 48 * 3600) < n"
proof -
  have "n * 86400 \<le> localSec loc (n * 86400 + 48 * 3600)"
    using offset_bound [of "n * 86400 + 48 * 3600"] by (simp add: localSec_def)
  then have "n * 86400 div 86400 \<le> localSec loc (n * 86400 + 48 * 3600) div 86400"
    by (rule zdiv_mono1) simp
  then show "n \<le> localDay loc (n * 86400 + 48 * 3600)" by (simp add: localDay_def)
  have "localSec loc (n * 86400 - 48 * 3600) < n * 86400"
    using offset_bound [of "n * 86400 - 48 * 3600"] by (simp add: localSec_def)
  then show "localDay loc (n * 86400 - 48 * 3600) < n" by (simp add: localDay_def div_less_iff_less_mult)
qed

lemma DayStart_le_iff:
  assumes c: "civil n = (y, m, d)"
  shows "DayStart y m d loc \<le> t \<longleftrightarrow> n \<le> localDay loc t"
proof -
  let ?reached = "\<lambda>v. date_ge (civil (localDay loc v)) (y, m, d)"
  have reached: "?reached v \<longleftrightarrow> n \<le> localDay loc v" for v
    using civil_ge_iff [of "localDay loc v" n] c by simp
  have date: "civil (localDay loc v) = (y, m, d) \<longleftrightarrow> localDay loc v = n" for v
    using c civil_inject by metis
  have least: "r \<le> t \<longleftrightarrow> n \<le> localDay loc t" if "n \<le> localDay loc r" "localDay loc (r - 1) < n" for r
    using that localDay_mono [of r t] localDay_mono [of t "r - 1"] by linarith
  define base where "base = date_days y m d * 86400"
  have base: "base = n * 86400" using c by (simp add: base_def)
  define s where "s = dayScan ?reached (base - 48 * 3600) (base + 48 * 3600)"
  have "first_in ?reached (base - 48 * 3600) (base + 48 * 3600) s"
    unfolding s_def by (rule dayScan_first) (use localDay_mono reached in \<open>auto intro: order_trans\<close>)
  then have s: "n \<le> localDay loc s" "localDay loc (s - 1) < n"
    using first_in_interior [of "\<lambda>t. n \<le> localDay loc t"] localDay_near [of n]
    unfolding reached base by (auto simp: not_le)
  define g where "g = timeDate loc base"
  have g: "n \<le> localDay loc g" "localDay loc (g - 1) < n"
    if "localDay loc g = n" "localDay loc (g - 1) \<noteq> n"
    using that localDay_mono [of "g - 1" g] by auto
  show ?thesis
    unfolding DayStart_def Let_def base_def [symmetric] g_def [symmetric] s_def [symmetric] date
    using least [OF s] least [OF g] by auto
qed

end

interpretation utc: civil_zone UTC
  by unfold_locales simp

end
