(* ===== verification/Errors.thy ===== *)
theory Errors
  imports Prelude
begin

text \<open>
  The sentinel and structured errors of the packages the development models, one datatype per
  package, and their union: errors cross package boundaries unchanged, so \<open>Alloc AErrQuota\<close> is
  \<open>allocations.ErrQuota\<close> wherever it is returned. \<open>StoreError\<close> is any driver failure of a
  statement other than \<open>sql.ErrNoRows\<close> (\<open>NoRows\<close>).
\<close>

datatype alloc_error =
    AErrInput | AErrNotFound | AErrPoolConflict | AErrUnavailable | AErrQuota | AErrPending
  | AErrRisk | AErrUnpriced | AErrUnknownWindowOverride | AErrSettlement
  | AErrVersionRequired | AErrVersionConflict | AErrEffectiveRequired | AErrEffectiveConflict
  | AErrStateConflict | AErrMemberConflict | AErrFunding | AErrReplacement | AErrInitialSchedule

datatype group_error =
  GErrInput | GErrAllocated | GErrNotFound | GErrDuplicate | GErrLimit | GErrUnavailable

datatype account_error =
    RErrAllocated | RErrInput | RErrDuplicate | RErrNotFound | RErrDisabled | RErrProviderDisabled
  | RErrReauthorize | RErrRefresh | RErrLimit

text \<open>
  A \<open>Retry-After\<close> header is a number of seconds, an HTTP date (an instant), or anything else. A rejection
  by the provider carries its status, this header and the model the provider says is limited.
\<close>

datatype retryValue = RetrySeconds int | RetryDate int | RetryNone

datatype upstream_error =
    UErrInput | UErrResponse | UErrInterrupted | UErrContinuation | UErrUpstream
  | UpstreamError int retryValue string

datatype content_error = CErrBlocked | CErrUnavailable

datatype vault_error = VErrDecrypt | VErrAccountID | VErrOwnerID

datatype key_error =
    KErrNotCopyable | KErrRevoked | KErrInput | KErrLimit | KErrNotFound | KErrInvalidKey | KErrOwnerUnavailable
  | KErrInactive

datatype auth_error =
    IErrInitialized | IErrCredentials | IErrInput | IErrBusy | IErrUsernameTaken | IErrMemberNotFound
  | IErrInvitationInvalid | IErrCurrentPassword | IErrPasswordChanged | IErrTwoFactorRequired | IErrFactor
  | IErrChallenge | FactorRateLimitError int

datatype tenant_error = TErrForbidden | TErrInput | TErrNotFound | TErrAlreadyMember | TErrWorkspaceLimit

datatype gateway_error =
    ErrAffinityUnavailable | ErrModelConflict | ErrNoAccount | ErrBusy | ErrAffinityLimit
  | ErrAccountBusy | ErrAccountQueueFull | ErrAccountWaitTimeout
  | ErrAccountCooling | ErrModelCooling | CoolingError int string
  | ErrMemberBusy | ErrMemberRate | MemberRateError int
  | ErrQuotaExhausted | QuotaError int
  | ErrModelNotAllowed | ErrModelUnavailable | ErrCatalogUnavailable
  | ErrAllocationAccounting | ErrContextLimit

datatype error =
    StoreError | NoRows | Canceled | DeadlineExceeded | DecodeError | AuditErrInput | ErrMemberNotFound
  | Alloc alloc_error | Groups group_error | Accounts account_error | Upstream upstream_error
  | Content content_error | Vault vault_error | ApiKey key_error | Auth auth_error | Tenant tenant_error | Gateway gateway_error

type_synonym 'a result = "error + 'a"

text \<open>
  \<open>Unwrap\<close> of the structured errors: a cooling error unwraps to the model or the account
  sentinel, the two queue errors unwrap to \<open>ErrAccountBusy\<close>, a quota error and a member rate
  error to their sentinel. \<open>errors.Is\<close> compares along the chain, whose length here is at most two.
\<close>

definition Unwrap :: "error \<Rightarrow> error option" where
  "Unwrap e = (case e of Gateway g \<Rightarrow> (case g of
       ErrAccountQueueFull \<Rightarrow> Some (Gateway ErrAccountBusy)
     | ErrAccountWaitTimeout \<Rightarrow> Some (Gateway ErrAccountBusy)
     | CoolingError retryAfter model \<Rightarrow>
         Some (Gateway (if model \<noteq> [] then ErrModelCooling else ErrAccountCooling))
     | MemberRateError retryAfter \<Rightarrow> Some (Gateway ErrMemberRate)
     | QuotaError retryAfter \<Rightarrow> Some (Gateway ErrQuotaExhausted)
     | _ \<Rightarrow> None) | _ \<Rightarrow> None)"

definition errorsIs :: "error \<Rightarrow> error \<Rightarrow> bool" where
  "errorsIs e target \<longleftrightarrow> e = target \<or> Unwrap e = Some target"

lemma Unwrap_ends: "Unwrap e = Some e' \<Longrightarrow> Unwrap e' = None"
  by (auto simp: Unwrap_def split: error.splits gateway_error.splits if_splits)

lemma errorsIs_refl [simp]: "errorsIs e e"
  by (simp add: errorsIs_def)

end
