(* ===== verification/Groups_Policy.thy ===== *)
theory Groups_Policy
  imports Errors "HOL-Library.Sublist"
begin

text \<open>
  Pool policy (\<open>internal/groups/policy.go\<close>, \<open>internal/groups/resources.go\<close>): model names, the model
  allowlist of a pool and its normal form, the API fallback rule and the routing preference.
\<close>

section \<open>Strings\<close>

text \<open>Strings are Go's byte strings. The white space of \<open>strings.TrimSpace\<close> is Unicode's, in UTF-8.\<close>

definition spaces :: "string list" where
  "spaces = [[CHR 0x20], [CHR 0x09], [CHR 0x0A], [CHR 0x0B], [CHR 0x0C], [CHR 0x0D],
     [CHR 0xC2, CHR 0x85], [CHR 0xC2, CHR 0xA0], [CHR 0xE1, CHR 0x9A, CHR 0x80],
     [CHR 0xE2, CHR 0x80, CHR 0x80], [CHR 0xE2, CHR 0x80, CHR 0x81], [CHR 0xE2, CHR 0x80, CHR 0x82],
     [CHR 0xE2, CHR 0x80, CHR 0x83], [CHR 0xE2, CHR 0x80, CHR 0x84], [CHR 0xE2, CHR 0x80, CHR 0x85],
     [CHR 0xE2, CHR 0x80, CHR 0x86], [CHR 0xE2, CHR 0x80, CHR 0x87], [CHR 0xE2, CHR 0x80, CHR 0x88],
     [CHR 0xE2, CHR 0x80, CHR 0x89], [CHR 0xE2, CHR 0x80, CHR 0x8A], [CHR 0xE2, CHR 0x80, CHR 0xA8],
     [CHR 0xE2, CHR 0x80, CHR 0xA9], [CHR 0xE2, CHR 0x80, CHR 0xAF], [CHR 0xE2, CHR 0x81, CHR 0x9F],
     [CHR 0xE3, CHR 0x80, CHR 0x80]]"

text \<open>Drop leading words of a list as long as one of them is a prefix.\<close>

fun stripFuel :: "nat \<Rightarrow> string list \<Rightarrow> string \<Rightarrow> string" where
  "stripFuel 0 ws s = s"
| "stripFuel (Suc n) ws s =
     (case first_of (\<lambda>w. prefix w s) ws of None \<Rightarrow> s | Some w \<Rightarrow> stripFuel n ws (drop (length w) s))"

definition TrimSpace :: "string \<Rightarrow> string" where
  "TrimSpace s =
     (let l = stripFuel (length s) spaces s
      in rev (stripFuel (length l) (map rev spaces) (rev l)))"

text \<open>\<open>strings.Cut(s, "/")\<close>: the parts around the first slash, and whether there is one.\<close>

definition Cut :: "string \<Rightarrow> string \<times> string \<times> bool" where
  "Cut s = (let before = takeWhile (\<lambda>c. c \<noteq> CHR ''/'') s; rest = dropWhile (\<lambda>c. c \<noteq> CHR ''/'') s
     in case rest of [] \<Rightarrow> (s, [], False) | _ # after \<Rightarrow> (before, after, True))"

definition alnum :: "char \<Rightarrow> bool" where
  "alnum c = (let n = of_char c :: nat
     in 48 \<le> n \<and> n \<le> 57 \<or> 65 \<le> n \<and> n \<le> 90 \<or> 97 \<le> n \<and> n \<le> 122)"

text \<open>The regular expression of a model identifier.\<close>

definition modelID :: "string \<Rightarrow> bool" where
  "modelID s = (case s of [] \<Rightarrow> False | c # cs \<Rightarrow>
     alnum c \<and> length cs \<le> 127 \<and> list_all (\<lambda>x. alnum x \<or> x \<in> set ''._:/()+-'') cs)"

section \<open>Providers and model names\<close>

definition SubscriptionProvider :: "string \<Rightarrow> bool" where
  "SubscriptionProvider p \<longleftrightarrow> p = ''codex'' \<or> p = ''claude'' \<or> p = ''antigravity'' \<or> p = ''xai''"

definition SplitModel :: "string \<Rightarrow> string \<times> string" where
  "SplitModel model = (let (provider, native, found) = Cut model
     in if found \<and> SubscriptionProvider provider then (provider, native) else ([], model))"

text \<open>\<open>upstream.CatalogModelID\<close>: a name ending in a parenthesised variant, without the variant.\<close>

definition LastIndex :: "char \<Rightarrow> string \<Rightarrow> int" where
  "LastIndex c s = int (length s) - 1 - int (length (takeWhile (\<lambda>x. x \<noteq> c) (rev s)))"

definition CatalogModelID :: "string \<Rightarrow> string" where
  "CatalogModelID model = (let index = LastIndex (CHR ''('') model
     in if index > 0 \<and> suffix '')'' model then take (nat index) model else model)"

section \<open>Routing preference\<close>

record Routing =
  Preference :: string
  AllowAPIFallback :: bool

definition routing_valid :: "Routing \<Rightarrow> bool" where
  "routing_valid r \<longleftrightarrow>
     Preference r = ''protocol'' \<or> Preference r = ''subscription_first'' \<or> Preference r = ''api_first''"

definition resourceKind :: "string \<Rightarrow> string" where
  "resourceKind provider = (if provider = ''openai'' then ''channel'' else ''subscription'')"

definition Rank :: "Routing \<Rightarrow> string \<Rightarrow> string \<Rightarrow> int" where
  "Rank r provider preferred =
     (let base = (if Preference r = ''subscription_first'' \<and> provider = ''openai'' \<or>
                     Preference r = ''api_first'' \<and> SubscriptionProvider provider then 2 else 0)
      in if provider \<noteq> preferred then base + 1 else base)"

section \<open>The model allowlist\<close>

record ModelPolicy =
  Routing' :: Routing
  HasSubscriptions :: bool
  Restricted :: bool
  Models :: "string list"

definition Allows :: "ModelPolicy \<Rightarrow> string \<Rightarrow> bool" where
  "Allows p model =
     (if \<not> Restricted p then True
      else let (provider, native) = SplitModel model
           in list_ex (\<lambda>allowed. let (scope, name) = SplitModel allowed
                in name = native \<and> (provider = [] \<or> scope = [] \<or> provider = scope)) (Models p))"

definition AllowsProvider :: "ModelPolicy \<Rightarrow> string \<Rightarrow> bool" where
  "AllowsProvider p provider \<longleftrightarrow>
     \<not> (provider = ''openai'' \<and> HasSubscriptions p \<and>
        Preference (Routing' p) = ''subscription_first'' \<and> \<not> AllowAPIFallback (Routing' p))"

definition AllowsResource :: "ModelPolicy \<Rightarrow> string \<Rightarrow> string \<Rightarrow> bool" where
  "AllowsResource p provider model =
     (if \<not> AllowsProvider p provider then False
      else if \<not> Restricted p then True
      else list_ex (\<lambda>permitted. let (scope, native) = SplitModel permitted
             in native = model \<and> (scope = [] \<or> scope = provider)) (Models p))"

text \<open>
  \<open>normalized\<close>: at most 100 rules, trimmed, each a valid identifier, duplicates dropped in order.
  Routing and the subscription flag of the result are Go's zero values.
\<close>

definition noRouting :: Routing where
  "noRouting = \<lparr>Preference = [], AllowAPIFallback = False\<rparr>"

fun normalizeModels :: "string list \<Rightarrow> string list \<Rightarrow> string list result" where
  "normalizeModels seen [] = Inr seen"
| "normalizeModels seen (raw # rest) =
     (let id = TrimSpace raw; native = snd (SplitModel id)
      in if \<not> modelID native then Inl (Groups GErrInput)
         else if id \<in> set seen then normalizeModels seen rest
         else normalizeModels (seen @ [id]) rest)"

definition normalized :: "ModelPolicy \<Rightarrow> ModelPolicy result" where
  "normalized p =
     (if length (Models p) > 100 then Inl (Groups GErrInput)
      else bindR (normalizeModels [] (Models p)) (\<lambda>models.
        Inr \<lparr>Routing' = noRouting, HasSubscriptions = False, Restricted = Restricted p, Models = models\<rparr>))"

text \<open>\<open>gateway.policyHasProvider\<close>: whether any rule can serve a provider.\<close>

definition policyHasProvider :: "ModelPolicy \<Rightarrow> string \<Rightarrow> bool" where
  "policyHasProvider p provider =
     (if \<not> AllowsProvider p provider then False
      else if \<not> Restricted p then True
      else list_ex (\<lambda>model. let (scope, native) = SplitModel model
             in scope = [] \<or> scope = provider) (Models p))"

section \<open>Resource lists\<close>

record Resource =
  Kind' :: string
  ResourceID :: string

text \<open>
  \<open>resourceIDs\<close>: a request names either resources or the legacy account list, never both. A nil
  slice is \<open>None\<close>; the second result is the kind each resource was declared with.
\<close>

fun collectResources :: "string list \<Rightarrow> (string \<rightharpoonup> string) \<Rightarrow> Resource list \<Rightarrow>
    (string list \<times> (string \<rightharpoonup> string)) result" where
  "collectResources ids kinds [] = Inr (ids, kinds)"
| "collectResources ids kinds (r # rest) =
     (if Kind' r \<noteq> ''subscription'' \<and> Kind' r \<noteq> ''channel'' \<or> ResourceID r = [] then Inl (Groups GErrInput)
      else if kinds (ResourceID r) \<noteq> None then Inl (Groups GErrInput)
      else collectResources (ids @ [ResourceID r]) (kinds(ResourceID r \<mapsto> Kind' r)) rest)"

definition resourceIDs :: "Resource list option \<Rightarrow> string list option \<Rightarrow>
    (string list option \<times> (string \<rightharpoonup> string) option) result" where
  "resourceIDs resources accountIDs = (case resources of
     None \<Rightarrow> Inr (accountIDs, None)
   | Some rs \<Rightarrow>
       if accountIDs \<noteq> None \<or> length rs > 100 then Inl (Groups GErrInput)
       else bindR (collectResources [] Map.empty rs) (\<lambda>(ids, kinds). Inr (Some ids, Some kinds)))"

section \<open>Trimming\<close>

lemma spaces_nonempty: "w \<in> set spaces \<Longrightarrow> w \<noteq> []"
  by (auto simp: spaces_def)

lemma stripFuel_suffix: "suffix (stripFuel n ws s) s"
proof (induction n arbitrary: s)
  case (Suc n)
  show ?case
    using suffix_order.trans [OF Suc.IH suffix_drop] by (auto split: option.splits)
qed simp

lemma stripFuel_stuck:
  assumes "\<And>w. w \<in> set ws \<Longrightarrow> w \<noteq> []" and "length s \<le> n" and "w \<in> set ws"
  shows "\<not> prefix w (stripFuel n ws s)"
  using assms(2)
proof (induction n arbitrary: s)
  case 0
  then show ?case using assms(1,3) by auto
next
  case (Suc n)
  show ?case
  proof (cases "first_of (\<lambda>w. prefix w s) ws")
    case None
    then have "stripFuel (Suc n) ws s = s" by simp
    moreover from None have "\<not> prefix w s" using assms(3) by (auto simp: first_of_None_iff)
    ultimately show ?thesis by simp
  next
    case (Some v)
    then have "v \<noteq> []" "prefix v s" using assms(1) first_of_SomeD by fastforce+
    then have "length (drop (length v) s) \<le> n" using Suc.prems by (cases v) auto
    from Suc.IH [OF this] Some show ?thesis by simp
  qed
qed

lemma stripFuel_id: "(\<And>w. w \<in> set ws \<Longrightarrow> \<not> prefix w s) \<Longrightarrow> stripFuel n ws s = s"
  by (cases n) (auto simp: first_of_None_iff split: option.splits dest!: first_of_SomeD)

lemma TrimSpace_idem [simp]: "TrimSpace (TrimSpace s) = TrimSpace s"
proof -
  define l where "l = stripFuel (length s) spaces s"
  define t where "t = rev (stripFuel (length l) (map rev spaces) (rev l))"
  have ne: "\<And>w. w \<in> set spaces \<Longrightarrow> w \<noteq> []" by (rule spaces_nonempty)
  have "prefix t l"
    unfolding t_def using stripFuel_suffix [of "length l" "map rev spaces" "rev l"]
    by (simp add: suffix_to_prefix)
  moreover have "\<not> prefix w l" if "w \<in> set spaces" for w
    unfolding l_def by (rule stripFuel_stuck [OF ne _ that]) auto
  ultimately have left: "\<not> prefix w t" if "w \<in> set spaces" for w
    using that prefix_order.trans by blast
  have right: "\<not> prefix w (rev t)" if "w \<in> set (map rev spaces)" for w
    unfolding t_def rev_rev_ident by (rule stripFuel_stuck [OF _ _ that]) (use ne in auto)
  have "TrimSpace s = t" by (simp add: TrimSpace_def l_def t_def Let_def)
  moreover have "TrimSpace t = t"
  proof -
    have "stripFuel (length t) spaces t = t" by (rule stripFuel_id) (rule left)
    moreover have "stripFuel (length t) (map rev spaces) (rev t) = rev t"
      by (rule stripFuel_id) (rule right)
    ultimately show ?thesis by (simp add: TrimSpace_def Let_def)
  qed
  ultimately show ?thesis by simp
qed

section \<open>Normal form of an allowlist\<close>

definition normal_model :: "string \<Rightarrow> bool" where
  "normal_model m \<longleftrightarrow> TrimSpace m = m \<and> modelID (snd (SplitModel m))"

lemma normalizeModels_normal:
  "normalizeModels seen ms = Inr out \<Longrightarrow> list_all normal_model seen \<Longrightarrow> distinct seen \<Longrightarrow>
   list_all normal_model out \<and> distinct out \<and> set out = set seen \<union> TrimSpace ` set ms"
proof (induction ms arbitrary: seen)
  case (Cons raw rest)
  show ?case
  proof (cases "TrimSpace raw \<in> set seen")
    case True
    then have "normalizeModels seen rest = Inr out" using Cons.prems by (simp add: Let_def split: if_splits)
    from Cons.IH [OF this Cons.prems(2,3)] True show ?thesis by auto
  next
    case False
    then have next_out: "normalizeModels (seen @ [TrimSpace raw]) rest = Inr out"
      and "normal_model (TrimSpace raw)"
      using Cons.prems by (simp_all add: Let_def normal_model_def split: if_splits)
    with Cons.IH [OF next_out] Cons.prems False show ?thesis by auto
  qed
qed simp

lemma normalizeModels_length: "normalizeModels seen ms = Inr out \<Longrightarrow> length out \<le> length seen + length ms"
proof (induction ms arbitrary: seen)
  case (Cons raw rest)
  then consider "normalizeModels seen rest = Inr out" | "normalizeModels (seen @ [TrimSpace raw]) rest = Inr out"
    by (auto simp: Let_def split: if_splits)
  then show ?case by cases (use Cons.IH in fastforce)+
qed simp

lemma normalizeModels_fixed:
  "list_all normal_model ms \<Longrightarrow> distinct (seen @ ms) \<Longrightarrow> normalizeModels seen ms = Inr (seen @ ms)"
  by (induction ms arbitrary: seen) (auto simp: normal_model_def Let_def)

text \<open>
  A normalised policy is a fixed point of normalisation: its rules are trimmed, valid and
  distinct, they are the trimmed rules of the input, and normalising again changes nothing.
\<close>

lemma normalized_fixed_point:
  assumes "normalized p = Inr q"
  shows "normalized q = Inr q \<and> distinct (Models q) \<and> list_all normal_model (Models q) \<and>
    set (Models q) = TrimSpace ` set (Models p) \<and> Restricted q = Restricted p"
proof -
  from assms obtain ms where ms: "normalizeModels [] (Models p) = Inr ms" "length (Models p) \<le> 100"
    and q: "q = \<lparr>Routing' = noRouting, HasSubscriptions = False, Restricted = Restricted p, Models = ms\<rparr>"
    by (auto simp: normalized_def res_simps split: if_splits)
  have n: "list_all normal_model ms" "distinct ms" "set ms = TrimSpace ` set (Models p)"
    using normalizeModels_normal [OF ms(1)] by simp_all
  moreover have "length ms \<le> 100" using normalizeModels_length [OF ms(1)] ms(2) by simp
  ultimately show ?thesis
    using normalizeModels_fixed [of ms "[]"] by (simp add: normalized_def q)
qed

lemma normalized_fixed_point_witness:
  "\<exists>q. normalized \<lparr>Routing' = noRouting, HasSubscriptions = True, Restricted = True,
      Models = ['' gpt-5'', ''codex/o3'', ''gpt-5'']\<rparr> = Inr q \<and> normalized q = Inr q \<and> Models q = [''gpt-5'', ''codex/o3'']"
proof -
  let ?p = "\<lparr>Routing' = noRouting, HasSubscriptions = True, Restricted = True, Models = ['' gpt-5'', ''codex/o3'', ''gpt-5'']\<rparr>"
  let ?q = "\<lparr>Routing' = noRouting, HasSubscriptions = False, Restricted = True, Models = [''gpt-5'', ''codex/o3'']\<rparr>"
  have n: "normalized ?p = Inr ?q" by code_simp
  from normalized_fixed_point [OF n] n show ?thesis by (intro exI [of _ ?q]) simp
qed

section \<open>The resource check refines the request check\<close>

lemma SplitModel_cases:
  "SplitModel m = ([], m) \<or> (\<exists>p n. SubscriptionProvider p \<and> m = p @ ''/'' @ n \<and> SplitModel m = (p, n))"
proof -
  obtain b a f where c: "Cut m = (b, a, f)" by (cases "Cut m") auto
  show ?thesis
  proof (cases "f \<and> SubscriptionProvider b")
    case True
    then have "m = b @ ''/'' @ a"
      using c takeWhile_dropWhile_id [of "\<lambda>c. c \<noteq> CHR ''/''" m]
      by (auto simp: Cut_def Let_def split: list.splits dest: dropWhile_eq_Cons_conv [THEN iffD1])
    with True c show ?thesis by (auto simp: SplitModel_def)
  next
    case False
    with c have "SplitModel m = ([], m)" by (auto simp: SplitModel_def)
    then show ?thesis ..
  qed
qed

lemma SplitModel_provider: "SplitModel m = (p, n) \<Longrightarrow> p = [] \<and> n = m \<or> SubscriptionProvider p"
  using SplitModel_cases [of m] by auto

lemma AllowsProvider_subscription: "SubscriptionProvider provider \<Longrightarrow> AllowsProvider p provider"
  by (auto simp: AllowsProvider_def SubscriptionProvider_def)

text \<open>Both checks over the rules of the pool, each a scope and a name.\<close>

lemma Allows_rules:
  assumes "SplitModel requested = (provider, native)"
  shows "Allows p requested \<longleftrightarrow> \<not> Restricted p \<or>
    (\<exists>scope. (scope, native) \<in> SplitModel ` set (Models p) \<and> (provider = [] \<or> scope = [] \<or> provider = scope))"
  using assms by (force simp: Allows_def list_ex_iff)

lemma AllowsResource_rules:
  "AllowsResource p provider native \<longleftrightarrow> AllowsProvider p provider \<and> (\<not> Restricted p \<or>
    ([], native) \<in> SplitModel ` set (Models p) \<or> (provider, native) \<in> SplitModel ` set (Models p))"
  by (force simp: AllowsResource_def list_ex_iff)

text \<open>
  C33: Selection rechecks the provider of the account it picked with the native name of the requested model. For
  a request that names a subscription provider the recheck of that provider admits exactly what the request check
  admitted; a request for a bare name passes the request check exactly when some provider would pass the
  recheck. So whatever resource the recheck admits, of the named provider or for a bare name, the pool's allowlist
  names the model for every provider or for that very one - a rule scoped to one provider never opens
  another - and no API account serves a pool that must stay on its subscriptions.
\<close>

theorem AllowsResource_Allows:
  assumes "SplitModel requested = (named, native)"
  shows "(named \<noteq> [] \<longrightarrow> (AllowsResource p named native \<longleftrightarrow> Allows p requested)) \<and>
    (named = [] \<longrightarrow> (Allows p requested \<longleftrightarrow> (\<exists>provider. AllowsResource p provider native))) \<and>
    (\<forall>provider. AllowsResource p provider native \<longrightarrow>
       (Restricted p \<longrightarrow> (\<exists>rule \<in> set (Models p). SplitModel rule = ([], native) \<or> SplitModel rule = (provider, native))) \<and>
       \<not> (provider = ''openai'' \<and> HasSubscriptions p \<and> Preference (Routing' p) = ''subscription_first'' \<and> \<not> AllowAPIFallback (Routing' p)))"
proof (intro conjI impI allI)
  assume "named \<noteq> []"
  then have "AllowsProvider p named" using SplitModel_provider [OF assms] AllowsProvider_subscription by blast
  with \<open>named \<noteq> []\<close> show "AllowsResource p named native \<longleftrightarrow> Allows p requested"
    unfolding AllowsResource_rules Allows_rules [OF assms] by auto
next
  assume named: "named = []"
  have codex: "AllowsProvider p ''codex''" by (simp add: AllowsProvider_def)
  have scoped: "AllowsProvider p scope" if "(scope, native) \<in> SplitModel ` set (Models p)" "scope \<noteq> []" for scope
    using that SplitModel_provider AllowsProvider_subscription by (metis image_iff)
  show "Allows p requested \<longleftrightarrow> (\<exists>provider. AllowsResource p provider native)"
    unfolding AllowsResource_rules Allows_rules [OF assms] using named codex scoped by metis
next
  fix provider
  assume a: "AllowsResource p provider native"
  then show "\<not> (provider = ''openai'' \<and> HasSubscriptions p \<and> Preference (Routing' p) = ''subscription_first'' \<and> \<not> AllowAPIFallback (Routing' p))"
    by (simp add: AllowsResource_rules AllowsProvider_def)
  assume "Restricted p"
  with a show "\<exists>rule \<in> set (Models p). SplitModel rule = ([], native) \<or> SplitModel rule = (provider, native)"
    unfolding AllowsResource_rules image_iff by force
qed

theorem AllowsResource_Allows_witness:
  "let p = \<lparr>Routing' = noRouting, HasSubscriptions = True, Restricted = True, Models = [''codex/o3'']\<rparr>
   in Allows p ''codex/o3'' \<and> Allows p ''o3'' \<and> \<not> Allows p ''claude/o3'' \<and>
     AllowsResource p ''codex'' ''o3'' \<and> \<not> AllowsResource p ''claude'' ''o3''"
proof -
  let ?p = "\<lparr>Routing' = noRouting, HasSubscriptions = True, Restricted = True, Models = [''codex/o3'']\<rparr>"
  have s: "SplitModel ''codex/o3'' = (''codex'', ''o3'')" "SplitModel ''claude/o3'' = (''claude'', ''o3'')" "SplitModel ''o3'' = ([], ''o3'')"
    by code_simp+
  have a: "AllowsResource ?p ''codex'' ''o3''" "\<not> AllowsResource ?p ''claude'' ''o3''" by code_simp+
  from AllowsResource_Allows [OF s(1), of ?p] AllowsResource_Allows [OF s(2), of ?p] AllowsResource_Allows [OF s(3), of ?p] a
  show ?thesis unfolding Let_def by blast
qed

lemma AllowsResource_provider: "AllowsResource p provider model \<Longrightarrow> AllowsProvider p provider"
  by (simp add: AllowsResource_def split: if_splits)

section \<open>Ranks\<close>

lemma Rank_range: "0 \<le> Rank r provider preferred" "Rank r provider preferred \<le> 3"
  by (auto simp: Rank_def Let_def)

text \<open>Under a preference every account of the preferred class ranks before every other one.\<close>

lemma Rank_preference:
  "Preference r = ''subscription_first'' \<Longrightarrow> SubscriptionProvider a \<Longrightarrow>
     Rank r a preferred < Rank r ''openai'' preferred'"
  "Preference r = ''api_first'' \<Longrightarrow> SubscriptionProvider a \<Longrightarrow>
     Rank r ''openai'' preferred < Rank r a preferred'"
  by (auto simp: Rank_def Let_def SubscriptionProvider_def)

end
