(* ===== verification/Alloc_Config.thy ===== *)
theory Alloc_Config
  imports Groups_Policy
begin

text \<open>
  Allocation rules (\<open>internal/allocations/allocations.go\<close>): members, rates and windows of a rule,
  its validation and normal form, member limits, reservations and the price of a request.
\<close>

section \<open>Data\<close>

text \<open>
  The selectors carry the initial of their record where the source gives two structures the same
  field name. A nil slice and an empty one are the same list. \<open>ResetDay\<close> is Go's \<open>int\<close>; all
  other numbers are \<open>int64\<close>, and every arithmetic result is taken through \<open>wrap64\<close>.
\<close>

record MemberWindowLimit =
  O_DurationSeconds :: int
  O_Limit :: int

record Share =
  UserID :: int
  Limit :: int
  WindowOverrides :: "MemberWindowLimit list"

record WindowCondition =
  W_DurationSeconds :: int
  W_Limit :: int

record Rate =
  R_Model :: string
  R_Input :: int
  R_Cached :: int
  R_Output :: int

record Config =
  Mode :: string
  Period :: string
  ResetTime :: string
  ResetDay :: int
  Members :: "Share list"
  Rates :: "Rate list"
  RatioUnit :: string
  Windows :: "WindowCondition list"
  Total :: int

record allocationWindow =
  kind :: string
  start :: int
  stop :: int
  seconds :: int
  limit :: int

text \<open>The largest allowance or limit a rule may carry, \<open>1_000_000_000_000\<close>.\<close>

abbreviation maxAmount :: int where
  "maxAmount \<equiv> 1000000000000"

section \<open>Reset schedule\<close>

definition digit :: "char \<Rightarrow> bool" where
  "digit c = (let n = of_char c :: nat in 48 \<le> n \<and> n \<le> 57)"

definition digitVal :: "char \<Rightarrow> int" where
  "digitVal c = int (of_char c) - 48"

text \<open>The regular expression \<open>^(?:[01][0-9]|2[0-3]):[0-5][0-9]$\<close>.\<close>

definition resetClock :: "string \<Rightarrow> bool" where
  "resetClock s = (case s of
     [h, h', c, m, m'] \<Rightarrow>
       digit h \<and> digit h' \<and> c = CHR '':'' \<and> digit m \<and> digit m' \<and>
       (digitVal h \<le> 1 \<or> digitVal h = 2 \<and> digitVal h' \<le> 3) \<and> digitVal m \<le> 5
   | _ \<Rightarrow> False)"

text \<open>\<open>strconv.Atoi\<close> of a run of digits; a syntax error leaves the value zero.\<close>

definition Atoi :: "string \<Rightarrow> int" where
  "Atoi s = (if s \<noteq> [] \<and> list_all digit s then foldl (\<lambda>n c. n * 10 + digitVal c) 0 s else 0)"

definition resetMinutes :: "Config \<Rightarrow> int" where
  "resetMinutes c =
     (if ResetTime c = [] then 0
      else Atoi (take 2 (ResetTime c)) * 60 + Atoi (drop 3 (ResetTime c)))"

definition validResetSchedule :: "Config \<Rightarrow> bool" where
  "validResetSchedule c =
     (if Period c = ''durations'' then ResetTime c = [] \<and> ResetDay c = 0
      else if ResetTime c \<noteq> [] \<and> \<not> resetClock (ResetTime c) then False
      else if Period c = ''day'' then ResetDay c = 0
      else 0 \<le> ResetDay c \<and> ResetDay c \<le> 31)"

definition validPeriod :: "Config \<Rightarrow> bool" where
  "validPeriod c =
     (if \<not> validResetSchedule c then False
      else if Period c = ''durations'' then Mode c = ''windows'' \<or> Mode c = ''ratio''
      else (Period c = ''day'' \<or> Period c = ''month'') \<and> Mode c \<noteq> ''windows'')"

text \<open>A ratio rule stores percentages while entries use the selected accounting unit.\<close>

definition entryMode :: "Config \<Rightarrow> string" where
  "entryMode c =
     (if Mode c = ''ratio'' then RatioUnit c
      else if Mode c = ''windows'' then ''amount''
      else Mode c)"

definition sameSchedule :: "Config \<Rightarrow> Config \<Rightarrow> bool" where
  "sameSchedule a b =
     (if \<not> validPeriod a \<or> \<not> validPeriod b then False
      else if Mode a \<noteq> Mode b \<or> entryMode a \<noteq> entryMode b \<or> Period a \<noteq> Period b \<or>
        resetMinutes a \<noteq> resetMinutes b \<or> max 1 (ResetDay a) \<noteq> max 1 (ResetDay b) \<or>
        length (Windows a) \<noteq> length (Windows b) then False
      else list_all (\<lambda>x. list_ex (\<lambda>y. W_DurationSeconds x = W_DurationSeconds y) (Windows b)) (Windows a))"

definition pricedConfig :: "Config \<Rightarrow> bool" where
  "pricedConfig c \<longleftrightarrow>
     Mode c = ''amount'' \<or> Mode c = ''windows'' \<or> Mode c = ''ratio'' \<and> RatioUnit c = ''amount''"

section \<open>Limits\<close>

definition ratioLimit :: "int \<Rightarrow> int \<Rightarrow> int" where
  "ratioLimit tot share = wrap64 (tot * share) sdiv 10000"

definition memberLimit :: "Config \<Rightarrow> Share \<Rightarrow> allocationWindow \<Rightarrow> int" where
  "memberLimit config member window =
     (if Mode config = ''ratio'' then
        ratioLimit (if Period config = ''durations'' then limit window else Total config) (Limit member)
      else if Mode config = ''windows'' then
        (case first_of (\<lambda>ov. O_DurationSeconds ov = seconds window) (WindowOverrides member) of
           Some ov \<Rightarrow> O_Limit ov
         | None \<Rightarrow> limit window)
      else Limit member)"

definition reservation :: "int \<Rightarrow> int" where
  "reservation lim = max 1 (wrap64 (lim + 9) sdiv 10)"

definition windowTotal :: "allocationWindow \<Rightarrow> Config \<Rightarrow> int" where
  "windowTotal w config = (if Period config = ''durations'' then limit w else Total config)"

section \<open>Validation and normal form\<close>

text \<open>The duplicate check of the override loop; \<open>seen\<close> holds the durations of the earlier ones.\<close>

fun validOverrides :: "int set \<Rightarrow> MemberWindowLimit list \<Rightarrow> bool" where
  "validOverrides seen [] = True"
| "validOverrides seen (ov # rest) =
     (if O_DurationSeconds ov \<in> seen \<or> O_Limit ov < 0 \<or> O_Limit ov > maxAmount then False
      else validOverrides (insert (O_DurationSeconds ov) seen) rest)"

definition validMemberLimit :: "Config \<Rightarrow> Share \<Rightarrow> bool" where
  "validMemberLimit c m =
     (if UserID m \<le> 0 \<or> Limit m < 0 \<or> Limit m > maxAmount then False
      else if Mode c = ''ratio'' then
        (if Limit m \<le> 0 \<or> Limit m > 10000 \<or> WindowOverrides m \<noteq> [] then False
         else if Period c = ''durations'' then list_all (\<lambda>w. ratioLimit (W_Limit w) (Limit m) > 0) (Windows c)
         else ratioLimit (Total c) (Limit m) > 0)
      else if Mode c = ''windows'' then
        (if Limit m \<noteq> 0 then False else validOverrides {} (WindowOverrides m))
      else Limit m > 0 \<and> WindowOverrides m = [])"

fun normalizeWindows :: "string \<Rightarrow> int set \<Rightarrow> WindowCondition list \<Rightarrow> int set result" where
  "normalizeWindows mode seen [] = Inr seen"
| "normalizeWindows mode seen (w # rest) =
     (if W_DurationSeconds w < 3600 \<or> W_DurationSeconds w > 365 * 86400 \<or>
         W_DurationSeconds w smod 3600 \<noteq> 0 \<or> W_DurationSeconds w \<in> seen \<or>
         (W_Limit w < 0 \<or> mode = ''ratio'' \<and> W_Limit w = 0) \<or> W_Limit w > maxAmount
      then Inl (Alloc AErrInput)
      else normalizeWindows mode (insert (W_DurationSeconds w) seen) rest)"

text \<open>The member loop adds the limits up as it goes.\<close>

fun normalizeMembers :: "Config \<Rightarrow> int set \<Rightarrow> int \<Rightarrow> Share list \<Rightarrow> int result" where
  "normalizeMembers c seen tot [] = Inr tot"
| "normalizeMembers c seen tot (m # rest) =
     (if UserID m \<in> seen \<or> \<not> validMemberLimit c m then Inl (Alloc AErrInput)
      else normalizeMembers c (insert (UserID m) seen) (wrap64 (tot + Limit m)) rest)"

fun normalizeRates :: "string set \<Rightarrow> Rate list \<Rightarrow> Rate list result" where
  "normalizeRates models [] = Inr []"
| "normalizeRates models (r # rest) =
     (let model = snd (SplitModel (R_Model r)) in
      if model = [] \<or> length model > 128 \<or> model \<in> models \<or>
         list_ex (\<lambda>c. c \<in> {CHR '' '', CHR 0x09, CHR 0x0A, CHR ''*''}) model
      then Inl (Alloc AErrInput)
      else if R_Input r \<le> 0 \<or> R_Cached r < 0 \<or> R_Output r \<le> 0 \<or>
         R_Input r > 1000000000 \<or> R_Cached r > 1000000000 \<or> R_Output r > 1000000000
      then Inl (Alloc AErrInput)
      else bindR (normalizeRates (insert model models) rest) (\<lambda>rs. Inr (r\<lparr>R_Model := model\<rparr> # rs)))"

definition checkShape :: "Config \<Rightarrow> unit result" where
  "checkShape c =
     (if Mode c \<noteq> ''tokens'' \<and> Mode c \<noteq> ''amount'' \<and> Mode c \<noteq> ''ratio'' \<and> Mode c \<noteq> ''windows'' \<or>
         length (Members c) = 0 \<or> length (Members c) > 100 \<or> length (Rates c) > 4096
      then Inl (Alloc AErrInput)
      else if \<not> validPeriod c then Inl (Alloc AErrInput)
      else if Mode c = ''ratio'' then
        (if RatioUnit c \<noteq> ''tokens'' \<and> RatioUnit c \<noteq> ''amount'' \<or>
            Period c = ''durations'' \<and> Total c \<noteq> 0 \<or>
            Period c \<noteq> ''durations'' \<and> (Total c \<le> 0 \<or> Total c > maxAmount) then Inl (Alloc AErrInput)
         else if RatioUnit c = ''tokens'' \<and> length (Rates c) > 0 then Inl (Alloc AErrInput)
         else Inr ())
      else if Total c \<noteq> 0 \<or> RatioUnit c \<noteq> [] then Inl (Alloc AErrInput)
      else Inr ())"

definition checkWindows :: "Config \<Rightarrow> unit result" where
  "checkWindows c =
     (if Period c = ''durations'' then
        (if length (Windows c) = 0 \<or> length (Windows c) > 8 then Inl (Alloc AErrInput)
         else bindR (normalizeWindows (Mode c) {} (Windows c)) (\<lambda>seen.
           if list_all (\<lambda>m. list_all (\<lambda>ov. O_DurationSeconds ov \<in> seen) (WindowOverrides m)) (Members c)
           then Inr () else Inl (Alloc AErrUnknownWindowOverride)))
      else if length (Windows c) > 0 then Inl (Alloc AErrInput)
      else Inr ())"

definition normalize :: "Config \<Rightarrow> Config result" where
  "normalize c =
     bindR (checkShape c) (\<lambda>_.
     bindR (checkWindows c) (\<lambda>_.
     bindR (normalizeMembers c {} 0 (Members c)) (\<lambda>tot.
     guardR (Alloc AErrInput) (Mode c = ''ratio'' \<and> tot > 10000) (
     guardR (Alloc AErrInput) (pricedConfig c \<and> length (Rates c) = 0) (
     bindR (normalizeRates {} (Rates c)) (\<lambda>rates.
     Inr (c\<lparr>Rates := rates, Members := sort_key UserID (Members c)\<rparr>)))))))"

section \<open>The price of a request\<close>

definition rateFor :: "Config \<Rightarrow> string \<Rightarrow> Rate result" where
  "rateFor config model = (case first_of (\<lambda>r. R_Model r = model) (Rates config) of
     Some r \<Rightarrow> Inr r | None \<Rightarrow> Inl (Alloc AErrUnpriced))"

text \<open>
  The three products are added as big integers; only a result that fits \<open>int64\<close> is returned.
  \<open>big.Int.Div\<close> by a positive number is Euclidean division, HOL's \<open>div\<close>.
\<close>

definition Cost :: "Rate \<Rightarrow> int \<Rightarrow> int \<Rightarrow> int \<Rightarrow> int result" where
  "Cost r input out cached =
     (if input < 0 \<or> out < 0 \<or> cached < 0 \<or> cached > input \<or> input > 1000000000 \<or> out > 1000000000
      then Inl (Alloc AErrInput)
      else bindR
        (foldR (\<lambda>acc v. if snd v < 0 then Inl (Alloc AErrInput) else Inr (acc + fst v * snd v)) 0
           [(wrap64 (input - cached), R_Input r), (cached, R_Cached r), (out, R_Output r)])
        (\<lambda>acc. let cost = (acc + 999999) div 1000000
               in if \<not> in64 cost then Inl (Alloc AErrInput) else Inr cost))"

section \<open>Limit arithmetic\<close>

lemma ratioLimit_exact:
  assumes "0 \<le> t" "t \<le> maxAmount" "0 \<le> s" "s \<le> 10000"
  shows "ratioLimit t s = t * s div 10000"
proof -
  have "t * s \<le> maxAmount * 10000" using assms by (intro mult_mono) auto
  moreover have "0 \<le> t * s" using assms by simp
  ultimately have "in64 (t * s)" by (simp add: in64_def)
  then show ?thesis using assms by (simp add: ratioLimit_def i64_simps)
qed

lemma ratioLimit_range:
  assumes "0 \<le> t" "t \<le> maxAmount" "0 \<le> s" "s \<le> 10000"
  shows "0 \<le> ratioLimit t s" "ratioLimit t s \<le> t"
proof -
  have "t * s \<le> t * 10000" using assms by (intro mult_left_mono) auto
  then have "t * s div 10000 \<le> t * 10000 div 10000" by (rule zdiv_mono1) simp
  then show "ratioLimit t s \<le> t" using assms by (simp add: ratioLimit_exact)
  show "0 \<le> ratioLimit t s" using assms by (simp add: ratioLimit_exact pos_imp_zdiv_nonneg_iff)
qed

lemma reservation_exact:
  "0 \<le> l \<Longrightarrow> l \<le> maxAmount \<Longrightarrow> reservation l = max 1 ((l + 9) div 10)"
  by (simp add: reservation_def i64_simps in64_def)

lemma reservation_ge1: "1 \<le> reservation l"
  by (simp add: reservation_def)

lemma reservation_range:
  assumes "0 \<le> l" "l \<le> maxAmount"
  shows "reservation l \<le> maxAmount" and "0 < l \<Longrightarrow> reservation l \<le> l"
    and "l \<le> 10 * reservation l" and "0 < l \<Longrightarrow> 10 * reservation l \<le> l + 9"
  using assms by (auto simp: reservation_exact)

section \<open>Well-formed rules\<close>

definition wfWindow :: "string \<Rightarrow> WindowCondition \<Rightarrow> bool" where
  "wfWindow mode w \<longleftrightarrow> 3600 \<le> W_DurationSeconds w \<and> W_DurationSeconds w \<le> 365 * 86400 \<and>
     W_DurationSeconds w mod 3600 = 0 \<and> 0 \<le> W_Limit w \<and> W_Limit w \<le> maxAmount \<and>
     (mode = ''ratio'' \<longrightarrow> 0 < W_Limit w)"

definition wfRate :: "Rate \<Rightarrow> bool" where
  "wfRate r \<longleftrightarrow> R_Model r \<noteq> [] \<and> length (R_Model r) \<le> 128 \<and>
     \<not> list_ex (\<lambda>c. c \<in> {CHR '' '', CHR 0x09, CHR 0x0A, CHR ''*''}) (R_Model r) \<and>
     0 < R_Input r \<and> R_Input r \<le> 1000000000 \<and> 0 \<le> R_Cached r \<and> R_Cached r \<le> 1000000000 \<and>
     0 < R_Output r \<and> R_Output r \<le> 1000000000"

text \<open>What the accounting relies on in a stored rule.\<close>

definition wfConfig :: "Config \<Rightarrow> bool" where
  "wfConfig c \<longleftrightarrow>
     Mode c \<in> {''tokens'', ''amount'', ''ratio'', ''windows''} \<and> validPeriod c \<and>
     Members c \<noteq> [] \<and> length (Members c) \<le> 100 \<and> length (Rates c) \<le> 4096 \<and>
     distinct (map UserID (Members c)) \<and> sorted (map UserID (Members c)) \<and>
     list_all (validMemberLimit c) (Members c) \<and>
     (Mode c = ''ratio'' \<longrightarrow> RatioUnit c \<in> {''tokens'', ''amount''} \<and>
        (\<Sum>m\<leftarrow>Members c. Limit m) \<le> 10000 \<and> (RatioUnit c = ''tokens'' \<longrightarrow> Rates c = [])) \<and>
     (Mode c \<noteq> ''ratio'' \<longrightarrow> RatioUnit c = []) \<and>
     (if Mode c = ''ratio'' \<and> Period c \<noteq> ''durations'' then 0 < Total c \<and> Total c \<le> maxAmount
      else Total c = 0) \<and>
     (if Period c = ''durations'' then Windows c \<noteq> [] \<and> length (Windows c) \<le> 8 else Windows c = []) \<and>
     distinct (map W_DurationSeconds (Windows c)) \<and> list_all (wfWindow (Mode c)) (Windows c) \<and>
     list_all (\<lambda>m. O_DurationSeconds ` set (WindowOverrides m) \<subseteq> W_DurationSeconds ` set (Windows c)) (Members c) \<and>
     (pricedConfig c \<longrightarrow> Rates c \<noteq> []) \<and> distinct (map R_Model (Rates c)) \<and> list_all wfRate (Rates c)"

lemma validMemberLimit_range: "validMemberLimit c m \<Longrightarrow> 0 < UserID m \<and> 0 \<le> Limit m \<and> Limit m \<le> maxAmount"
  by (simp add: validMemberLimit_def split: if_splits)

lemma validMemberLimit_cong:
  "Mode c = Mode d \<Longrightarrow> Period c = Period d \<Longrightarrow> Windows c = Windows d \<Longrightarrow> Total c = Total d \<Longrightarrow>
   validMemberLimit c = validMemberLimit d"
  by (rule ext) (simp add: validMemberLimit_def)

lemma validPeriod_cong:
  "Mode c = Mode d \<Longrightarrow> Period c = Period d \<Longrightarrow> ResetTime c = ResetTime d \<Longrightarrow> ResetDay c = ResetDay d \<Longrightarrow>
   validPeriod c = validPeriod d"
  by (simp add: validPeriod_def validResetSchedule_def)

lemma normalizeWindows_Cons:
  "normalizeWindows mode seen (w # rest) =
     (if wfWindow mode w \<and> W_DurationSeconds w \<notin> seen
      then normalizeWindows mode (insert (W_DurationSeconds w) seen) rest else Inl (Alloc AErrInput))"
proof -
  have smod: "W_DurationSeconds w smod 3600 = W_DurationSeconds w mod 3600" if "3600 \<le> W_DurationSeconds w"
    using that by (simp add: smod_nonneg)
  have "\<not> (W_DurationSeconds w < 3600 \<or> W_DurationSeconds w > 365 * 86400 \<or>
       W_DurationSeconds w smod 3600 \<noteq> 0 \<or> W_DurationSeconds w \<in> seen \<or>
       (W_Limit w < 0 \<or> mode = ''ratio'' \<and> W_Limit w = 0) \<or> W_Limit w > maxAmount) \<longleftrightarrow>
     wfWindow mode w \<and> W_DurationSeconds w \<notin> seen"
    using smod unfolding wfWindow_def by auto
  then show ?thesis unfolding normalizeWindows.simps by argo
qed

lemma normalizeWindows_iff:
  "normalizeWindows mode seen ws = Inr out \<longleftrightarrow>
     list_all (wfWindow mode) ws \<and> distinct (map W_DurationSeconds ws) \<and>
     W_DurationSeconds ` set ws \<inter> seen = {} \<and> out = seen \<union> W_DurationSeconds ` set ws"
  by (induction ws arbitrary: seen) (auto simp: normalizeWindows_Cons simp del: normalizeWindows.simps(2))

text \<open>With at most a hundred members the running total never wraps.\<close>

lemma normalizeMembers_iff:
  assumes "0 \<le> t" "t + int (length ms) * maxAmount \<le> 1000 * maxAmount"
  shows "normalizeMembers c seen t ms = Inr out \<longleftrightarrow>
     list_all (validMemberLimit c) ms \<and> distinct (map UserID ms) \<and> UserID ` set ms \<inter> seen = {} \<and>
     out = t + (\<Sum>m\<leftarrow>ms. Limit m)"
  using assms
proof (induction ms arbitrary: seen t)
  case (Cons m ms)
  show ?case
  proof (cases "UserID m \<in> seen \<or> \<not> validMemberLimit c m")
    case False
    note r = validMemberLimit_range [of c m]
    then have "wrap64 (t + Limit m) = t + Limit m"
      using Cons.prems False by (intro wrap64_id) (simp add: in64_def)
    moreover have "normalizeMembers c (insert (UserID m) seen) (t + Limit m) ms = Inr out \<longleftrightarrow>
        list_all (validMemberLimit c) ms \<and> distinct (map UserID ms) \<and>
        UserID ` set ms \<inter> insert (UserID m) seen = {} \<and> out = t + Limit m + (\<Sum>m\<leftarrow>ms. Limit m)"
      using Cons.prems r False by (intro Cons.IH) (auto simp: distrib_right)
    ultimately show ?thesis using False by auto
  qed auto
qed auto

lemma normalizeRates_Cons:
  "normalizeRates seen (r # rs) = Inr out \<longleftrightarrow>
     (let r' = r\<lparr>R_Model := snd (SplitModel (R_Model r))\<rparr> in
      wfRate r' \<and> R_Model r' \<notin> seen \<and>
      (\<exists>rs'. normalizeRates (insert (R_Model r') seen) rs = Inr rs' \<and> r' # rs' = out))"
  unfolding normalizeRates.simps Let_def wfRate_def by (simp add: res_simps)

lemma normalizeRates_sound:
  "normalizeRates seen rs = Inr out \<Longrightarrow>
     list_all wfRate out \<and> distinct (map R_Model out) \<and> R_Model ` set out \<inter> seen = {} \<and>
     length out = length rs"
proof (induction rs arbitrary: seen out)
  case (Cons r rs)
  let ?r = "r\<lparr>R_Model := snd (SplitModel (R_Model r))\<rparr>"
  obtain rs' where rs': "wfRate ?r" "R_Model ?r \<notin> seen" "out = ?r # rs'"
      "normalizeRates (insert (R_Model ?r) seen) rs = Inr rs'"
    using Cons.prems unfolding normalizeRates_Cons Let_def by blast
  from Cons.IH [OF rs'(4)] rs'(1-3) show ?case by auto
qed simp

lemma normalizeRates_fixed:
  "list_all wfRate rs \<Longrightarrow> distinct (map R_Model rs) \<Longrightarrow> R_Model ` set rs \<inter> seen = {} \<Longrightarrow>
   list_all (\<lambda>r. snd (SplitModel (R_Model r)) = R_Model r) rs \<Longrightarrow> normalizeRates seen rs = Inr rs"
  by (induction rs arbitrary: seen) (auto simp: normalizeRates_Cons simp del: normalizeRates.simps(2))

section \<open>What normalisation establishes\<close>

lemma checkShape_iff:
  "checkShape c = Inr u \<longleftrightarrow>
     Mode c \<in> {''tokens'', ''amount'', ''ratio'', ''windows''} \<and> validPeriod c \<and>
     Members c \<noteq> [] \<and> length (Members c) \<le> 100 \<and> length (Rates c) \<le> 4096 \<and>
     (Mode c = ''ratio'' \<longrightarrow> RatioUnit c \<in> {''tokens'', ''amount''} \<and> (RatioUnit c = ''tokens'' \<longrightarrow> Rates c = [])) \<and>
     (Mode c \<noteq> ''ratio'' \<longrightarrow> RatioUnit c = []) \<and>
     (if Mode c = ''ratio'' \<and> Period c \<noteq> ''durations'' then 0 < Total c \<and> Total c \<le> maxAmount
      else Total c = 0)"
  unfolding checkShape_def by (cases "Mode c = ''ratio''") (auto simp: not_less not_le)

lemma checkWindows_iff:
  "checkWindows c = Inr u \<longleftrightarrow>
     (if Period c = ''durations'' then Windows c \<noteq> [] \<and> length (Windows c) \<le> 8 else Windows c = []) \<and>
     distinct (map W_DurationSeconds (Windows c)) \<and> list_all (wfWindow (Mode c)) (Windows c) \<and>
     (Period c = ''durations'' \<longrightarrow>
      list_all (\<lambda>m. O_DurationSeconds ` set (WindowOverrides m) \<subseteq> W_DurationSeconds ` set (Windows c)) (Members c))"
proof (cases "Period c = ''durations''")
  case True
  have "(if list_all (\<lambda>m. list_all (\<lambda>ov. O_DurationSeconds ov \<in> seen) (WindowOverrides m)) (Members c)
       then Inr () else Inl (Alloc AErrUnknownWindowOverride)) = Inr u \<longleftrightarrow>
     list_all (\<lambda>m. O_DurationSeconds ` set (WindowOverrides m) \<subseteq> seen) (Members c)" for seen :: "int set"
    by (auto simp: list_all_iff)
  with True show ?thesis
    unfolding checkWindows_def by (auto simp: res_simps normalizeWindows_iff not_less)
next
  case False
  then show ?thesis by (auto simp: checkWindows_def)
qed

text \<open>Outside the duration windows no member may carry an override.\<close>

lemma no_overrides:
  "validPeriod c \<Longrightarrow> validMemberLimit c m \<Longrightarrow> Period c \<noteq> ''durations'' \<Longrightarrow> WindowOverrides m = []"
  by (auto simp: validPeriod_def validMemberLimit_def split: if_splits)

lemma normalize_iff:
  "normalize c = Inr c' \<longleftrightarrow>
     checkShape c = Inr () \<and> checkWindows c = Inr () \<and>
     list_all (validMemberLimit c) (Members c) \<and> distinct (map UserID (Members c)) \<and>
     (Mode c = ''ratio'' \<longrightarrow> (\<Sum>m\<leftarrow>Members c. Limit m) \<le> 10000) \<and>
     (pricedConfig c \<longrightarrow> Rates c \<noteq> []) \<and>
     (\<exists>rates. normalizeRates {} (Rates c) = Inr rates \<and>
        c' = c\<lparr>Rates := rates, Members := sort_key UserID (Members c)\<rparr>)"
proof (cases "checkShape c")
  case (Inr u)
  then have "length (Members c) \<le> 100" using checkShape_iff by blast
  then have "normalizeMembers c {} 0 (Members c) = Inr out \<longleftrightarrow>
      list_all (validMemberLimit c) (Members c) \<and> distinct (map UserID (Members c)) \<and>
      out = (\<Sum>m\<leftarrow>Members c. Limit m)" for out
    using normalizeMembers_iff [of 0 "Members c" c "{}" out] by simp
  then show ?thesis using Inr by (auto simp: normalize_def res_simps not_less)
qed (simp add: normalize_def)

lemma sum_list_sort_key: "(\<Sum>m\<leftarrow>sort_key k ms. f m :: int) = (\<Sum>m\<leftarrow>ms. f m)"
  by (metis mset_map mset_sort sum_mset_sum_list)

lemma list_all_sort_key: "list_all P (sort_key k ms) = list_all P ms"
  by (simp add: list_all_iff)

lemma normalize_members:
  "normalize c = Inr c' \<Longrightarrow> mset (Members c') = mset (Members c) \<and> sorted (map UserID (Members c'))"
  by (auto simp: normalize_iff)

lemma normalize_wf:
  assumes "normalize c = Inr c'"
  shows "wfConfig c'"
proof -
  from assms obtain rates where r: "normalizeRates {} (Rates c) = Inr rates"
    and c': "c' = c\<lparr>Rates := rates, Members := sort_key UserID (Members c)\<rparr>"
    by (auto simp: normalize_iff)
  note n = assms [unfolded normalize_iff]
  have same: "Mode c' = Mode c" "Period c' = Period c" "RatioUnit c' = RatioUnit c" "Total c' = Total c"
    "Windows c' = Windows c" "validPeriod c' = validPeriod c" "pricedConfig c' = pricedConfig c"
    "validMemberLimit c' = validMemberLimit c" "Rates c' = rates" "Members c' = sort_key UserID (Members c)"
    unfolding c' by (simp_all add: pricedConfig_def cong: validPeriod_cong validMemberLimit_cong)
  have s: "list_all wfRate rates" "distinct (map R_Model rates)" "length rates = length (Rates c)"
    using normalizeRates_sound [OF r] by auto
  have ov: "list_all (\<lambda>m. O_DurationSeconds ` set (WindowOverrides m) \<subseteq> W_DurationSeconds ` set (Windows c)) (Members c)"
  proof (cases "Period c = ''durations''")
    case True
    with n show ?thesis unfolding checkWindows_iff by blast
  next
    case False
    then have "\<forall>m \<in> set (Members c). WindowOverrides m = []"
      using n no_overrides unfolding checkShape_iff list_all_iff by blast
    then show ?thesis by (simp add: list_all_iff)
  qed
  have d: "distinct (map UserID (sort_key UserID (Members c)))"
    using n by (metis mset_map mset_sort mset_eq_imp_distinct_iff)
  have e: "sort_key UserID (Members c) \<noteq> [] \<longleftrightarrow> Members c \<noteq> []" "rates = [] \<longleftrightarrow> Rates c = []"
    using s(3) by (metis length_0_conv length_sort) (metis length_0_conv s(3))
  show ?thesis
    using n s(1,2) ov d sorted_sort_key [of UserID "Members c"]
    unfolding wfConfig_def same checkShape_iff checkWindows_iff sum_list_sort_key list_all_sort_key
      length_sort s(3) e by argo
qed

section \<open>Member limits of a stored rule\<close>

text \<open>A window of the rule: its limit is that of a configured window when windows are durations.\<close>

definition windowOf :: "Config \<Rightarrow> allocationWindow \<Rightarrow> bool" where
  "windowOf c w \<longleftrightarrow>
     (if Period c = ''durations'' then list_ex (\<lambda>x. W_DurationSeconds x = seconds w \<and> W_Limit x = limit w) (Windows c)
      else limit w = 0)"

lemma wfConfig_windows: "wfConfig c \<Longrightarrow> x \<in> set (Windows c) \<Longrightarrow> wfWindow (Mode c) x"
  unfolding wfConfig_def list_all_iff by blast

lemma wfConfig_member: "wfConfig c \<Longrightarrow> m \<in> set (Members c) \<Longrightarrow> validMemberLimit c m"
  unfolding wfConfig_def list_all_iff by blast

lemma windowOf_limit: "wfConfig c \<Longrightarrow> windowOf c w \<Longrightarrow> 0 \<le> limit w \<and> limit w \<le> maxAmount"
  using wfConfig_windows [of c]
  by (fastforce simp: windowOf_def list_ex_iff wfWindow_def split: if_splits)

lemma windowTotal_range:
  assumes "wfConfig c" "windowOf c w" "Mode c = ''ratio''"
  shows "0 < windowTotal w c \<and> windowTotal w c \<le> maxAmount"
proof (cases "Period c = ''durations''")
  case True
  with assms(2) obtain x where "x \<in> set (Windows c)" "W_Limit x = limit w"
    by (auto simp: windowOf_def list_ex_iff)
  moreover from assms(1) this(1) have "wfWindow (Mode c) x" by (rule wfConfig_windows)
  ultimately show ?thesis using True assms(3) by (auto simp: windowTotal_def wfWindow_def)
next
  case False
  with assms show ?thesis by (simp add: windowTotal_def wfConfig_def)
qed

lemma memberLimit_ratio:
  "Mode c = ''ratio'' \<Longrightarrow> memberLimit c m w = ratioLimit (windowTotal w c) (Limit m)"
  by (simp add: memberLimit_def windowTotal_def)

lemma ratio_share_range:
  "validMemberLimit c m \<Longrightarrow> Mode c = ''ratio'' \<Longrightarrow> 0 < Limit m \<and> Limit m \<le> 10000"
  by (simp add: validMemberLimit_def split: if_splits)

lemma validOverrides_range:
  "validOverrides seen ovs \<Longrightarrow> ov \<in> set ovs \<Longrightarrow> 0 \<le> O_Limit ov \<and> O_Limit ov \<le> maxAmount"
  by (induction seen ovs rule: validOverrides.induct) (auto split: if_splits)

lemma memberLimit_range':
  assumes c: "wfConfig c" and w: "0 \<le> limit w" "limit w \<le> maxAmount" and m: "m \<in> set (Members c)"
  shows "0 \<le> memberLimit c m w \<and> memberLimit c m w \<le> maxAmount"
proof -
  have v: "validMemberLimit c m" using c m by (rule wfConfig_member)
  consider "Mode c = ''ratio''" | "Mode c = ''windows''" | "Mode c \<noteq> ''ratio''" "Mode c \<noteq> ''windows''" by blast
  then show ?thesis
  proof cases
    case 1
    have t: "0 \<le> windowTotal w c \<and> windowTotal w c \<le> maxAmount"
      using c w 1 by (auto simp: windowTotal_def wfConfig_def)
    note s = ratio_share_range [OF v 1]
    from ratioLimit_range [of "windowTotal w c" "Limit m"] t s
    have "0 \<le> ratioLimit (windowTotal w c) (Limit m)" "ratioLimit (windowTotal w c) (Limit m) \<le> windowTotal w c"
      by auto
    with t 1 show ?thesis by (simp add: memberLimit_ratio)
  next
    case 2
    then have "validOverrides {} (WindowOverrides m)" using v by (simp add: validMemberLimit_def split: if_splits)
    then show ?thesis using 2 w
      by (auto simp: memberLimit_def split: option.splits dest!: first_of_SomeD dest: validOverrides_range)
  next
    case 3
    then show ?thesis using validMemberLimit_range [OF v] by (simp add: memberLimit_def)
  qed
qed

lemma memberLimit_range:
  "wfConfig c \<Longrightarrow> windowOf c w \<Longrightarrow> m \<in> set (Members c) \<Longrightarrow> 0 \<le> memberLimit c m w \<and> memberLimit c m w \<le> maxAmount"
  using windowOf_limit memberLimit_range' by blast

lemma memberLimit_pos:
  assumes c: "wfConfig c" and w: "windowOf c w" and m: "m \<in> set (Members c)" and "Mode c \<noteq> ''windows''"
  shows "0 < memberLimit c m w"
proof -
  have v: "validMemberLimit c m" using c m by (rule wfConfig_member)
  show ?thesis
  proof (cases "Mode c = ''ratio''")
    case True
    show ?thesis
    proof (cases "Period c = ''durations''")
      case d: True
      with w obtain x where "x \<in> set (Windows c)" "W_Limit x = limit w" by (auto simp: windowOf_def list_ex_iff)
      with v True d show ?thesis by (force simp: validMemberLimit_def memberLimit_def list_all_iff split: if_splits)
    next
      case False
      with v True show ?thesis by (simp add: validMemberLimit_def memberLimit_def split: if_splits)
    qed
  next
    case False
    with v assms(4) show ?thesis by (simp add: validMemberLimit_def memberLimit_def split: if_splits)
  qed
qed

lemma ratio_limits_sum:
  assumes c: "wfConfig c" and w: "windowOf c w" and r: "Mode c = ''ratio''"
  shows "(\<Sum>m\<leftarrow>Members c. memberLimit c m w) \<le> windowTotal w c"
proof -
  let ?t = "windowTotal w c"
  note t = windowTotal_range [OF c w r]
  have "memberLimit c m w = ?t * Limit m div 10000" if "m \<in> set (Members c)" for m
  proof -
    have "validMemberLimit c m" using c that by (rule wfConfig_member)
    from ratio_share_range [OF this r] t show ?thesis by (simp add: memberLimit_ratio r ratioLimit_exact)
  qed
  then have "(\<Sum>m\<leftarrow>Members c. memberLimit c m w) = (\<Sum>m\<leftarrow>Members c. ?t * Limit m div 10000)"
    by (simp cong: map_cong)
  also have "\<dots> \<le> (\<Sum>m\<leftarrow>Members c. ?t * Limit m) div 10000" by (rule div_sum_list_le) simp
  also have "(\<Sum>m\<leftarrow>Members c. ?t * Limit m) = ?t * (\<Sum>m\<leftarrow>Members c. Limit m)"
    by (simp add: sum_list_const_mult)
  also have "\<dots> div 10000 \<le> ?t * 10000 div 10000"
    using c r t by (intro zdiv_mono1 mult_left_mono) (auto simp: wfConfig_def)
  finally show ?thesis by simp
qed

section \<open>Schedules\<close>

text \<open>On stored rules the one-sided window test is an equality of duration sets.\<close>

lemma sameSchedule_windows:
  assumes a: "wfConfig a" and b: "wfConfig b"
  shows "sameSchedule a b \<longleftrightarrow>
    (Mode a, entryMode a, Period a, resetMinutes a, max 1 (ResetDay a), W_DurationSeconds ` set (Windows a)) =
    (Mode b, entryMode b, Period b, resetMinutes b, max 1 (ResetDay b), W_DurationSeconds ` set (Windows b))"
proof -
  have card: "card (W_DurationSeconds ` set (Windows c)) = length (Windows c)" if "wfConfig c" for c
    using that distinct_card [of "map W_DurationSeconds (Windows c)"] by (simp add: wfConfig_def)
  let ?A = "W_DurationSeconds ` set (Windows a)" and ?B = "W_DurationSeconds ` set (Windows b)"
  have len: "length (Windows a) = length (Windows b) \<longleftrightarrow> card ?A = card ?B"
    using card [OF a] card [OF b] by simp
  have all: "list_all (\<lambda>x. list_ex (\<lambda>y. W_DurationSeconds x = W_DurationSeconds y) (Windows b)) (Windows a) \<longleftrightarrow> ?A \<subseteq> ?B"
    by (auto simp: list_all_iff list_ex_iff)
  have sub: "card ?A = card ?B \<and> ?A \<subseteq> ?B \<longleftrightarrow> ?A = ?B"
    using card_subset_eq [of ?B ?A] by auto
  have "validPeriod a" "validPeriod b" using a b by (simp_all add: wfConfig_def)
  then show ?thesis unfolding sameSchedule_def len all using sub by auto
qed

section \<open>Prices\<close>

definition charge :: "Rate \<Rightarrow> int \<Rightarrow> int \<Rightarrow> int \<Rightarrow> int" where
  "charge r input out cached = (input - cached) * R_Input r + cached * R_Cached r + out * R_Output r"

lemma Cost_wf:
  assumes r: "wfRate r" and "0 \<le> out" "0 \<le> cached" "cached \<le> input" "input \<le> 1000000000" "out \<le> 1000000000"
  shows "Cost r input out cached = Inr ((charge r input out cached + 999999) div 1000000)"
    and "0 \<le> charge r input out cached" "charge r input out cached \<le> 2 * 10 ^ 18"
proof -
  let ?c = "charge r input out cached"
  have "in64 (input - cached)" using assms by (simp add: in64_def)
  then have w: "wrap64 (input - cached) = input - cached" by (rule wrap64_id)
  show nonneg: "0 \<le> ?c" using assms by (simp add: charge_def wfRate_def)
  have "(input - cached) * R_Input r \<le> (input - cached) * 10 ^ 9"
    using assms by (intro mult_left_mono) (simp_all add: wfRate_def)
  moreover have "cached * R_Cached r \<le> cached * 10 ^ 9"
    using assms by (intro mult_left_mono) (simp_all add: wfRate_def)
  moreover have "out * R_Output r \<le> 10 ^ 9 * 10 ^ 9"
    using assms by (intro mult_mono) (simp_all add: wfRate_def)
  ultimately have "?c \<le> input * 10 ^ 9 + 10 ^ 18" by (simp add: charge_def algebra_simps)
  also have "\<dots> \<le> 10 ^ 9 * 10 ^ 9 + 10 ^ 18" using assms by simp
  finally show le: "?c \<le> 2 * 10 ^ 18" by simp
  have "(?c + 999999) div 1000000 \<le> (2 * 10 ^ 18 + 999999) div 1000000"
    by (rule zdiv_mono1) (use le in auto)
  moreover have "0 \<le> (?c + 999999) div 1000000" using nonneg by (simp add: pos_imp_zdiv_nonneg_iff)
  ultimately have "in64 ((?c + 999999) div 1000000)" by (simp add: in64_def)
  moreover have "\<not> R_Input r < 0" "\<not> R_Cached r < 0" "\<not> R_Output r < 0" using r by (auto simp: wfRate_def)
  ultimately show "Cost r input out cached = Inr ((?c + 999999) div 1000000)"
    using assms(2-) by (simp add: Cost_def w charge_def Let_def add.assoc)
qed

section \<open>Properties\<close>

text \<open>Two rules the witnesses evaluate: a shared ratio pool with two windows, and a token rule.\<close>

definition exampleRatio :: Config where
  "exampleRatio = \<lparr>Mode = ''ratio'', Period = ''durations'', ResetTime = [], ResetDay = 0,
     Members = [\<lparr>UserID = 7, Limit = 3333, WindowOverrides = []\<rparr>, \<lparr>UserID = 3, Limit = 6667, WindowOverrides = []\<rparr>],
     Rates = [\<lparr>R_Model = ''codex/gpt-5'', R_Input = 1250000, R_Cached = 125000, R_Output = 10000000\<rparr>],
     RatioUnit = ''amount'',
     Windows = [\<lparr>W_DurationSeconds = 18000, W_Limit = 10001\<rparr>, \<lparr>W_DurationSeconds = 604800, W_Limit = 90000\<rparr>],
     Total = 0\<rparr>"

definition exampleTokens :: Config where
  "exampleTokens = \<lparr>Mode = ''tokens'', Period = ''month'', ResetTime = ''08:30'', ResetDay = 31,
     Members = [\<lparr>UserID = 7, Limit = 1000, WindowOverrides = []\<rparr>], Rates = [], RatioUnit = [],
     Windows = [], Total = 0\<rparr>"

definition exampleRate :: Rate where
  "exampleRate = \<lparr>R_Model = ''gpt-5'', R_Input = 1250000, R_Cached = 125000, R_Output = 10000000\<rparr>"

text \<open>
  Saving a rule stores a well-formed one: the members are those of the input, sorted by user,
  every limit, window and rate is in range, durations, users and models are distinct. When no
  stored model still starts with a provider prefix, normalising a stored rule again, as a
  member update does, returns it unchanged.
\<close>

theorem normalize_normal_form:
  assumes "normalize c = Inr c'"
  shows "wfConfig c' \<and> mset (Members c') = mset (Members c) \<and> sorted (map UserID (Members c')) \<and>
    (list_all (\<lambda>r. snd (SplitModel (R_Model r)) = R_Model r) (Rates c') \<longrightarrow> normalize c' = Inr c')"
proof -
  have wf: "wfConfig c'" using assms by (rule normalize_wf)
  moreover have "normalize c' = Inr c'" if "list_all (\<lambda>r. snd (SplitModel (R_Model r)) = R_Model r) (Rates c')"
  proof -
    have "normalizeRates {} (Rates c') = Inr (Rates c')"
      using wf that by (intro normalizeRates_fixed) (auto simp: wfConfig_def)
    moreover have "sort_key UserID (Members c') = Members c'"
      using wf by (intro sort_key_id_if_sorted) (simp add: wfConfig_def)
    ultimately show ?thesis
      using wf unfolding normalize_iff checkShape_iff checkWindows_iff wfConfig_def by simp
  qed
  ultimately show ?thesis using normalize_members [OF assms] by blast
qed

theorem normalize_normal_form_witness:
  "\<exists>c'. normalize exampleRatio = Inr c' \<and> wfConfig c' \<and> map UserID (Members c') = [3, 7] \<and>
     map R_Model (Rates c') = [''gpt-5''] \<and> normalize c' = Inr c'"
proof -
  let ?c = "exampleRatio\<lparr>Rates := [exampleRate], Members := rev (Members exampleRatio)\<rparr>"
  have n: "normalize exampleRatio = Inr ?c" by code_simp
  have "list_all (\<lambda>r. snd (SplitModel (R_Model r)) = R_Model r) (Rates ?c)" by code_simp
  with n normalize_normal_form [OF n] show ?thesis
    by (intro exI [of _ ?c]) (simp add: exampleRatio_def exampleRate_def)
qed

text \<open>
  C31: In ratio mode the limits of the members of a saved rule, each rounded down, never add up
  to more than the total of a window, and every member's limit is positive.
\<close>

theorem ratio_members_within_total:
  assumes "normalize c = Inr c'" and "Mode c' = ''ratio''" and "windowOf c' w"
  shows "(\<Sum>m\<leftarrow>Members c'. memberLimit c' m w) \<le> windowTotal w c' \<and>
    (\<forall>m \<in> set (Members c'). 0 < memberLimit c' m w)"
  using ratio_limits_sum [OF normalize_wf [OF assms(1)] assms(3,2)]
    memberLimit_pos [OF normalize_wf [OF assms(1)] assms(3)] assms(2) by simp

theorem ratio_members_within_total_witness:
  "(\<Sum>m\<leftarrow>Members (exampleRatio\<lparr>Rates := [exampleRate], Members := rev (Members exampleRatio)\<rparr>).
      memberLimit exampleRatio m \<lparr>kind = ''duration'', start = 0, stop = 18000, seconds = 18000, limit = 10001\<rparr>) = 10000 \<and>
   (10000 :: int) \<le> 10001"
proof -
  let ?c = "exampleRatio\<lparr>Rates := [exampleRate], Members := rev (Members exampleRatio)\<rparr>"
  let ?w = "\<lparr>kind = ''duration'', start = 0, stop = 18000, seconds = 18000, limit = 10001\<rparr>"
  have n: "normalize exampleRatio = Inr ?c" by code_simp
  have w: "windowOf ?c ?w" by code_simp
  have "Mode ?c = ''ratio''" by (simp add: exampleRatio_def)
  from ratio_members_within_total [OF n this w] have "(\<Sum>m\<leftarrow>Members ?c. memberLimit ?c m ?w) \<le> windowTotal ?w ?c" ..
  moreover have "(\<Sum>m\<leftarrow>Members ?c. memberLimit exampleRatio m ?w) = 10000" by code_simp
  ultimately show ?thesis by simp
qed

text \<open>
  Limits and reservations never overflow. On a saved rule every member limit lies between 0
  and the largest configurable amount, the share product is exact, and a reservation is a tenth
  of the limit rounded up, at least 1.
\<close>

theorem member_limit_bounds:
  assumes "normalize c = Inr c'" and "windowOf c' w" and "m \<in> set (Members c')"
  shows "0 \<le> memberLimit c' m w \<and> memberLimit c' m w \<le> maxAmount \<and>
    (Mode c' = ''ratio'' \<longrightarrow> memberLimit c' m w = windowTotal w c' * Limit m div 10000) \<and>
    reservation (memberLimit c' m w) = max 1 ((memberLimit c' m w + 9) div 10)"
proof -
  note wf = normalize_wf [OF assms(1)]
  note r = memberLimit_range [OF wf assms(2,3)]
  have "memberLimit c' m w = windowTotal w c' * Limit m div 10000" if m: "Mode c' = ''ratio''"
    using ratio_share_range [OF wfConfig_member [OF wf assms(3)] m] windowTotal_range [OF wf assms(2) m]
    by (simp add: memberLimit_ratio m ratioLimit_exact)
  with r show ?thesis by (simp add: reservation_exact)
qed

theorem member_limit_bounds_witness:
  "memberLimit exampleTokens (hd (Members exampleTokens))
     \<lparr>kind = ''month'', start = 0, stop = 100, seconds = 0, limit = 0\<rparr> = 1000 \<and> reservation 1000 = 100"
proof -
  let ?w = "\<lparr>kind = ''month'', start = 0, stop = 100, seconds = 0, limit = 0\<rparr>"
  have n: "normalize exampleTokens = Inr exampleTokens" by code_simp
  have w: "windowOf exampleTokens ?w" by code_simp
  have m: "hd (Members exampleTokens) \<in> set (Members exampleTokens)" by (simp add: exampleTokens_def)
  have l: "memberLimit exampleTokens (hd (Members exampleTokens)) ?w = 1000" by code_simp
  from member_limit_bounds [OF n w m] l show ?thesis by simp
qed

text \<open>
  C32: The price of a request at a saved rate always exists for token counts in range, is the
  exact sum of the three token charges rounded up to a whole micro-dollar, and is zero only
  when nothing was charged.
\<close>

theorem Cost_rounds_up:
  assumes "wfRate r" and "0 \<le> out" "0 \<le> cached" "cached \<le> input" "input \<le> 1000000000" "out \<le> 1000000000"
  shows "\<exists>v. Cost r input out cached = Inr v \<and>
    1000000 * (v - 1) < charge r input out cached \<and> charge r input out cached \<le> 1000000 * v \<and>
    (v = 0 \<longleftrightarrow> charge r input out cached = 0) \<and> v \<le> 2 * 10 ^ 12"
proof -
  let ?c = "charge r input out cached" and ?v = "(charge r input out cached + 999999) div 1000000"
  note c = Cost_wf [OF assms]
  have d: "1000000 * ?v + (?c + 999999) mod 1000000 = ?c + 999999"
    "0 \<le> (?c + 999999) mod 1000000" "(?c + 999999) mod 1000000 < 1000000" by simp_all
  have "1000000 * (?v - 1) < ?c" "?c \<le> 1000000 * ?v" using d by simp_all
  moreover have "?v = 0 \<longleftrightarrow> ?c = 0" using d c(2) by linarith
  moreover have "?v \<le> 2 * 10 ^ 12" using d c(3) by simp
  ultimately show ?thesis using c(1) by blast
qed

theorem Cost_rounds_up_witness:
  "Cost exampleRate 1000 7 400 = Inr 870 \<and> charge exampleRate 1000 7 400 = 870000000 \<and> Cost exampleRate 1 0 1 = Inr 1"
proof -
  have r: "wfRate exampleRate" by code_simp
  from Cost_rounds_up [OF r, of 0 1 1] obtain v where "Cost exampleRate 1 0 1 = Inr v" "v \<noteq> 0 \<and> v \<le> 1"
    by (auto simp: charge_def exampleRate_def)
  moreover from this(2) have "v = 0 \<or> v = 1 \<or> v < 0" by linarith
  ultimately show ?thesis by code_simp
qed

text \<open>
  Whether two saved rules have the same schedule does not depend on the order they are
  compared in: the comparison is an equivalence relation, although its window test only looks
  for the windows of the first rule in the second.
\<close>

theorem sameSchedule_equivalence:
  assumes "wfConfig a" and "wfConfig b" and "wfConfig c"
  shows "sameSchedule a a \<and> (sameSchedule a b \<longleftrightarrow> sameSchedule b a) \<and>
    (sameSchedule a b \<longrightarrow> sameSchedule b c \<longrightarrow> sameSchedule a c)"
  using assms by (auto simp: sameSchedule_windows)

theorem sameSchedule_equivalence_witness:
  "\<exists>a b. wfConfig a \<and> wfConfig b \<and> Windows b = rev (Windows a) \<and> Windows a \<noteq> Windows b \<and> sameSchedule a b"
proof -
  let ?a = "exampleRatio\<lparr>Rates := [exampleRate], Members := rev (Members exampleRatio)\<rparr>"
  let ?b = "exampleRatio\<lparr>Rates := [exampleRate], Members := rev (Members exampleRatio), Windows := rev (Windows exampleRatio)\<rparr>"
  have a: "wfConfig ?a" by (rule normalize_wf [of exampleRatio]) code_simp
  have b: "wfConfig ?b" by (rule normalize_wf [of "exampleRatio\<lparr>Windows := rev (Windows exampleRatio)\<rparr>"]) code_simp
  have "sameSchedule ?b ?a" by code_simp
  with sameSchedule_equivalence [OF a b a] have "sameSchedule ?a ?b" by blast
  moreover have "Windows ?b = rev (Windows ?a)" "Windows ?a \<noteq> Windows ?b" by (simp_all add: exampleRatio_def)
  ultimately show ?thesis using a b by blast
qed

end
