(* ===== verification/Alloc_Calendar.thy ===== *)
theory Alloc_Calendar
  imports Timezone Alloc_Config
begin

text \<open>
  Accounting windows (\<open>internal/allocations/calendar.go\<close>): the reset instant of a day or month in a
  location, the calendar window of an instant, duration windows counted from an anchor, and the
  windows of a revision. Instants are Unix seconds; a UTC midnight is its day number.
\<close>

section \<open>Reset instants and calendar windows\<close>

definition wallTime :: "int \<Rightarrow> int \<Rightarrow> int \<Rightarrow> int \<Rightarrow> location \<Rightarrow> int" where
  "wallTime year month day minute loc =
     (let begin_day = DayStart year month day loc;
          nextDate = civil (date_days year month (day + 1));
          finish = DayStart (fst nextDate) (fst (snd nextDate)) (snd (snd nextDate)) loc;
          want = date_days year month day * 86400 + minute * 60
      in wallScan (zoneOffset loc) (zoneEnd loc) want finish begin_day)"

definition resetOn :: "int \<Rightarrow> Config \<Rightarrow> location \<Rightarrow> int" where
  "resetOn date c loc =
     (let ymd = civil date; year = fst ymd; month = fst (snd ymd); day = snd (snd ymd);
          last_day = snd (snd (civil (date_days year (month + 1) 0)));
          day = (if Period c = ''month'' then min (max 1 (ResetDay c)) last_day else day)
      in wallTime year month day (resetMinutes c) loc)"

text \<open>\<open>date.AddDate\<close> on the first of a month moves by months, otherwise by days.\<close>

definition Window :: "int \<Rightarrow> Config \<Rightarrow> location \<Rightarrow> int \<times> int" where
  "Window now c loc =
     (let ymd = civil (localDay loc now); year = fst ymd; month = fst (snd ymd); day = snd (snd ymd);
          date = (if Period c = ''month'' then date_days year month 1 else date_days year month day);
          current = resetOn date c loc
      in if now < current then
           (if Period c = ''month'' then (resetOn (date_days year (month - 1) 1) c loc, current)
            else (resetOn (date - 1) c loc, current))
         else if Period c = ''month'' then (current, resetOn (date_days year (month + 1) 1) c loc)
         else (current, resetOn (date + 1) c loc))"

section \<open>Duration windows\<close>

text \<open>
  \<open>anchor + (now-anchor)/seconds*seconds\<close> on \<open>int64\<close>. Go panics on a zero duration; a stored rule
  has none.
\<close>

definition durationWindow :: "int \<Rightarrow> int \<Rightarrow> int \<Rightarrow> allocationWindow" where
  "durationWindow now anchor secs =
     (if now < anchor then
        \<lparr>kind = [], start = anchor, stop = wrap64 (anchor + secs), seconds = 0, limit = 0\<rparr>
      else let st = wrap64 (anchor + wrap64 (wrap64 (now - anchor) sdiv secs * secs))
           in \<lparr>kind = [], start = st, stop = wrap64 (st + secs), seconds = 0, limit = 0\<rparr>)"

record PriceCoverage =
  MissingCatalogPrices :: "string list"
  UncoveredModels :: "string list"
  CatalogUnavailable :: bool

definition noCoverage :: PriceCoverage where
  "noCoverage = \<lparr>MissingCatalogPrices = [], UncoveredModels = [], CatalogUnavailable = False\<rparr>"

record Revision =
  RevID :: int
  EffectiveAt :: int
  AccountingAnchorAt :: int
  RevConfig :: Config
  RevCoverage :: PriceCoverage

definition effectiveWindows :: "Revision \<Rightarrow> int \<Rightarrow> location \<Rightarrow> allocationWindow list" where
  "effectiveWindows rv now loc =
     (if Period (RevConfig rv) = ''durations'' then
        map (\<lambda>condition. (durationWindow now (AccountingAnchorAt rv) (W_DurationSeconds condition))
               \<lparr>kind := ''duration'', seconds := W_DurationSeconds condition, limit := W_Limit condition\<rparr>)
          (Windows (RevConfig rv))
      else [\<lparr>kind = Period (RevConfig rv),
             start = max (fst (Window now (RevConfig rv) loc)) (AccountingAnchorAt rv),
             stop = snd (Window now (RevConfig rv) loc), seconds = 0, limit = 0\<rparr>])"

definition longestDuration :: "Config \<Rightarrow> int" where
  "longestDuration c = foldl (\<lambda>longest w. max longest (W_DurationSeconds w)) 0 (Windows c)"

definition nextEffective :: "Config \<Rightarrow> int \<Rightarrow> location \<Rightarrow> int \<Rightarrow> int" where
  "nextEffective c now loc anchor =
     (if Period c = ''durations'' then stop (durationWindow now anchor (longestDuration c))
      else snd (Window now c loc))"

text \<open>The latest-ending window, which retention follows. A revision has at least one window.\<close>

definition latestWindow :: "allocationWindow \<Rightarrow> allocationWindow list \<Rightarrow> allocationWindow" where
  "latestWindow w ws = foldl (\<lambda>longest window. if stop window > stop longest then window else longest) w ws"

definition effectiveWindow :: "Revision \<Rightarrow> int \<Rightarrow> location \<Rightarrow> int \<times> int" where
  "effectiveWindow rv now loc =
     (let ws = effectiveWindows rv now loc; longest = latestWindow (hd ws) (tl ws)
      in (start longest, stop longest))"

section \<open>Reset points\<close>

text \<open>
  The interface a calendar window is cut from: units of time (days or months) with the unit of an
  instant and the first instant of a unit, adjoint to each other, and one reset point in each
  unit, between its first instant and that of the next. Every instant then lies in exactly one
  window, the one between the last reset point before it and the next.
\<close>

locale reset_points =
  fixes unit_of :: "int \<Rightarrow> int" and first :: "int \<Rightarrow> int" and reset :: "int \<Rightarrow> int"
  assumes first_le: "first k \<le> t \<longleftrightarrow> k \<le> unit_of t"
    and first_reset: "first k \<le> reset k"
    and reset_first: "reset k \<le> first (k + 1)"
begin

definition window :: "int \<Rightarrow> int \<times> int" where
  "window t = (let k = unit_of t in if t < reset k then (reset (k - 1), reset k) else (reset k, reset (k + 1)))"

lemma reset_step: "reset k \<le> reset (k + 1)"
  using reset_first [of k] first_reset [of "k + 1"] by simp

lemma reset_mono: "j \<le> k \<Longrightarrow> reset j \<le> reset k"
proof (induction k rule: int_ge_induct)
  case (step k)
  then show ?case using reset_step [of k] by linarith
qed simp

lemma window_index: "\<exists>k. window t = (reset k, reset (k + 1)) \<and> reset k \<le> t \<and> t < reset (k + 1)"
proof (cases "t < reset (unit_of t)")
  case True
  have "reset (unit_of t - 1) \<le> t" using reset_first [of "unit_of t - 1"] first_le [of "unit_of t" t] by simp
  with True show ?thesis by (intro exI [of _ "unit_of t - 1"]) (simp add: window_def Let_def)
next
  case False
  have "t < first (unit_of t + 1)" using first_le [of "unit_of t + 1" t] by linarith
  then have "t < reset (unit_of t + 1)" using first_reset [of "unit_of t + 1"] by simp
  with False show ?thesis by (intro exI [of _ "unit_of t"]) (simp add: window_def Let_def)
qed

lemma index_unique:
  assumes "reset j \<le> t" "t < reset (j + 1)" "reset k \<le> t" "t < reset (k + 1)"
  shows "j = k"
proof (rule ccontr)
  assume "j \<noteq> k"
  then have "j + 1 \<le> k \<or> k + 1 \<le> j" by linarith
  then show False using reset_mono [of "j + 1" k] reset_mono [of "k + 1" j] assms by linarith
qed

lemma window_contains: "fst (window t) \<le> t" "t < snd (window t)"
  using window_index [of t] by auto

lemma window_same: "fst (window t) \<le> u \<Longrightarrow> u < snd (window t) \<Longrightarrow> window u = window t"
proof -
  assume u: "fst (window t) \<le> u" "u < snd (window t)"
  obtain j where j: "window t = (reset j, reset (j + 1))" using window_index by blast
  obtain k where k: "window u = (reset k, reset (k + 1))" "reset k \<le> u" "u < reset (k + 1)"
    using window_index by blast
  then have "k = j" using u unfolding j by (intro index_unique [of k u j]) auto
  with j k show ?thesis by simp
qed

lemma window_next: "fst (window (snd (window t))) = snd (window t)"
proof -
  let ?e = "snd (window t)"
  obtain j where j: "window t = (reset j, reset (j + 1))" using window_index by blast
  obtain k where k: "window ?e = (reset k, reset (k + 1))" "reset k \<le> ?e" "?e < reset (k + 1)"
    using window_index by blast
  have "j + 1 \<le> k"
  proof (rule ccontr)
    assume "\<not> j + 1 \<le> k"
    then show False using reset_mono [of "k + 1" "j + 1"] k(3) j by simp
  qed
  then have "?e \<le> reset k" using reset_mono [of "j + 1" k] j by simp
  with k show ?thesis by simp
qed

end

section \<open>Days and months of a location\<close>

definition startOf :: "location \<Rightarrow> int \<Rightarrow> int" where
  "startOf loc n = DayStart (fst (civil n)) (fst (snd (civil n))) (snd (snd (civil n))) loc"

definition wallOn :: "location \<Rightarrow> int \<Rightarrow> int \<Rightarrow> int" where
  "wallOn loc minute n =
     wallScan (zoneOffset loc) (zoneEnd loc) (n * 86400 + minute * 60) (startOf loc (n + 1)) (startOf loc n)"

text \<open>The day of a month a monthly rule resets on.\<close>

definition resetDate :: "Config \<Rightarrow> int \<Rightarrow> int" where
  "resetDate c k = first_day k + min (max 1 (ResetDay c)) (first_day (k + 1) - first_day k) - 1"

lemma wallTime_civil: "civil n = (y, m, d) \<Longrightarrow> wallTime y m d minute loc = wallOn loc minute n"
proof -
  assume c: "civil n = (y, m, d)"
  have "date_days y m (d + 1) = n + 1" using date_days_civil [OF c] by (simp add: date_days_def)
  then show ?thesis
    using c by (simp add: wallTime_def wallOn_def startOf_def Let_def date_days_civil)
qed

lemma civil_in_month:
  assumes "first_day k \<le> n" "n < first_day (k + 1)"
  shows "civil n = (k div 12, k mod 12 + 1, n - first_day k + 1)"
proof -
  have "k \<le> month_index n" "\<not> k + 1 \<le> month_index n" using assms first_day_le [of k n] first_day_le [of "k + 1" n] by auto
  then have "month_index n = k" by simp
  then show ?thesis by (simp add: civil_def Let_def)
qed

lemma resetDate_bounds: "first_day k \<le> resetDate c k" "resetDate c k < first_day (k + 1)"
  using first_day_strict [of k "k + 1"] by (auto simp: resetDate_def)

lemma month_date_days: "date_days (k div 12) (k mod 12 + 1 + j) 1 = first_day (k + j)"
  by (simp add: date_days_def algebra_simps)

lemma wallTime_on: "wallTime (fst (civil n)) (fst (snd (civil n))) (snd (snd (civil n))) minute loc = wallOn loc minute n"
  by (rule wallTime_civil) simp

lemma resetOn_day: "Period c \<noteq> ''month'' \<Longrightarrow> resetOn n c loc = wallOn loc (resetMinutes c) n"
  by (simp add: resetOn_def Let_def wallTime_on)

lemma resetOn_month:
  assumes "Period c = ''month''"
  shows "resetOn (first_day k) c loc = wallOn loc (resetMinutes c) (resetDate c k)"
proof -
  have first: "civil (first_day k) = (k div 12, k mod 12 + 1, 1)"
    using civil_in_month [of k "first_day k"] first_day_strict [of k "k + 1"] by simp
  have "date_days (k div 12) (k mod 12 + 1 + 1) 0 = first_day (k + 1) - 1"
    using month_date_days [of k 1] by (simp add: date_days_def)
  moreover have "civil (first_day (k + 1) - 1) = (k div 12, k mod 12 + 1, first_day (k + 1) - first_day k)"
    using civil_in_month [of k "first_day (k + 1) - 1"] first_day_strict [of k "k + 1"] by simp
  ultimately have "snd (snd (civil (date_days (k div 12) (k mod 12 + 1 + 1) 0))) = first_day (k + 1) - first_day k"
    by simp
  then have "resetOn (first_day k) c loc =
      wallTime (k div 12) (k mod 12 + 1) (min (max 1 (ResetDay c)) (first_day (k + 1) - first_day k)) (resetMinutes c) loc"
    using assms first by (simp add: resetOn_def Let_def)
  moreover have "civil (resetDate c k) =
      (k div 12, k mod 12 + 1, min (max 1 (ResetDay c)) (first_day (k + 1) - first_day k))"
    using civil_in_month [OF resetDate_bounds, of c k] by (simp add: resetDate_def)
  ultimately show ?thesis by (simp add: wallTime_civil)
qed

definition monthOf :: "location \<Rightarrow> int \<Rightarrow> int" where
  "monthOf loc t = month_index (localDay loc t)"

context civil_zone
begin

lemma startOf_le: "startOf loc n \<le> t \<longleftrightarrow> n \<le> localDay loc t"
  unfolding startOf_def by (rule DayStart_le_iff) simp

lemma startOf_mono: "m \<le> n \<Longrightarrow> startOf loc m \<le> startOf loc n"
  using startOf_le [of m "startOf loc n"] startOf_le [of n "startOf loc n"] by simp

text \<open>The reset instant of a day is the first one of that day whose clock has reached the time.\<close>

lemma wallOn_first:
  "first_in (\<lambda>t. n * 86400 + minute * 60 \<le> localSec loc t) (startOf loc n) (startOf loc (n + 1)) (wallOn loc minute n)"
  using zt.wallScan_first [of "startOf loc n" "startOf loc (n + 1)" "n * 86400 + minute * 60" loc] startOf_mono [of n "n + 1"]
  by (simp add: wallOn_def localSec_def)

lemma wallOn_bounds: "startOf loc n \<le> wallOn loc minute n" "wallOn loc minute n \<le> startOf loc (n + 1)"
  using wallOn_first [of n minute] by (auto simp: first_in_def)

end

sublocale civil_zone \<subseteq> day: reset_points "localDay loc" "startOf loc" "wallOn loc minute" for minute
  by unfold_locales (rule startOf_le wallOn_bounds)+

sublocale civil_zone \<subseteq> month: reset_points "monthOf loc" "\<lambda>k. startOf loc (first_day k)"
    "\<lambda>k. wallOn loc minute (resetDate c k)" for minute c
proof
  show "startOf loc (first_day k) \<le> t \<longleftrightarrow> k \<le> monthOf loc t" for k t
    by (simp add: startOf_le first_day_le monthOf_def)
  show "startOf loc (first_day k) \<le> wallOn loc minute (resetDate c k)" for k
    using startOf_mono [OF resetDate_bounds(1)] wallOn_bounds(1) by (rule order_trans)
  show "wallOn loc minute (resetDate c k) \<le> startOf loc (first_day (k + 1))" for k
    using wallOn_bounds(2) startOf_mono [of "resetDate c k + 1"] resetDate_bounds(2) [of c k]
    by (meson add1_zle_eq order_trans)
qed

context civil_zone
begin

lemma Window_day: "Period c \<noteq> ''month'' \<Longrightarrow> Window t c loc = day.window (resetMinutes c) t"
  by (simp add: Window_def day.window_def Let_def resetOn_day)

lemma Window_month:
  assumes "Period c = ''month''"
  shows "Window t c loc = month.window (resetMinutes c) c t"
proof -
  let ?k = "monthOf loc t"
  have ym: "fst (civil (localDay loc t)) = ?k div 12" "fst (snd (civil (localDay loc t))) = ?k mod 12 + 1"
    by (simp_all add: civil_def monthOf_def Let_def)
  have d: "date_days (?k div 12) (?k mod 12 + 1) 1 = first_day ?k"
    "date_days (?k div 12) (?k mod 12 + 1 - 1) 1 = first_day (?k - 1)"
    "date_days (?k div 12) (?k mod 12 + 1 + 1) 1 = first_day (?k + 1)"
    using month_date_days [of ?k 0] month_date_days [of ?k "-1"] month_date_days [of ?k 1] by simp_all
  show ?thesis
    unfolding Window_def Let_def ym d month.window_def by (simp add: assms resetOn_month)
qed

lemma Window_contains: "fst (Window t c loc) \<le> t" "t < snd (Window t c loc)"
  by (cases "Period c = ''month''";
      simp add: Window_day Window_month day.window_contains month.window_contains)+

lemma Window_same:
  assumes "fst (Window t c loc) \<le> u" "u < snd (Window t c loc)"
  shows "Window u c loc = Window t c loc"
proof (cases "Period c = ''month''")
  case True
  from assms show ?thesis unfolding Window_month [OF True] by (rule month.window_same)
next
  case False
  from assms show ?thesis unfolding Window_day [OF False] by (rule day.window_same)
qed

lemma Window_next: "fst (Window (snd (Window t c loc)) c loc) = snd (Window t c loc)"
  by (cases "Period c = ''month''") (simp_all add: Window_day Window_month day.window_next month.window_next)

end

section \<open>Duration windows tile time from their anchor\<close>

text \<open>The timestamps the code accepts end with the year 9999.\<close>

abbreviation maxTime :: int where
  "maxTime \<equiv> 253402300799"

lemma duration_bounds:
  assumes "0 < secs" "anchor \<le> (now::int)"
  defines "st \<equiv> anchor + (now - anchor) div secs * secs"
  shows "anchor \<le> st" "st \<le> now" "now < st + secs" "(st - anchor) mod secs = 0"
proof -
  have "(now - anchor) div secs * secs + (now - anchor) mod secs = now - anchor" by simp
  moreover have "0 \<le> (now - anchor) mod secs" "(now - anchor) mod secs < secs" using assms(1) by simp_all
  ultimately show "st \<le> now" "now < st + secs" unfolding st_def by linarith+
  show "anchor \<le> st" using assms by (simp add: st_def pos_imp_zdiv_nonneg_iff)
  show "(st - anchor) mod secs = 0" by (simp add: st_def)
qed

lemma durationWindow_exact:
  assumes "0 \<le> anchor" "anchor \<le> now" "now \<le> maxTime" "0 < secs" "secs \<le> 365 * 86400"
  shows "durationWindow now anchor secs =
    \<lparr>kind = [], start = anchor + (now - anchor) div secs * secs,
     stop = anchor + (now - anchor) div secs * secs + secs, seconds = 0, limit = 0\<rparr>"
proof -
  let ?q = "(now - anchor) div secs * secs"
  have q: "?q \<le> now - anchor" "0 \<le> ?q"
    using duration_bounds(1,2) [OF assms(4,2)] by simp_all
  then have "wrap64 ?q = ?q" "wrap64 (now - anchor) = now - anchor" "wrap64 (anchor + ?q) = anchor + ?q"
      "wrap64 (anchor + ?q + secs) = anchor + ?q + secs"
    using assms by (auto intro!: wrap64_id simp: in64_def)
  then show ?thesis using assms by (simp add: durationWindow_def sdiv_nonneg Let_def)
qed

lemma duration_same:
  assumes "0 < secs" "anchor + k * secs \<le> (u::int)" "u < anchor + k * secs + secs"
  shows "(u - anchor) div secs = k"
  using assms by (intro int_div_pos_eq [where r = "u - anchor - k * secs"]) (auto simp: algebra_simps)

section \<open>The windows of a revision\<close>

lemma foldl_max_le_iff:
  "foldl (\<lambda>l w. max l (f w)) a ws \<le> (b :: int) \<longleftrightarrow> a \<le> b \<and> (\<forall>w \<in> set ws. f w \<le> b)"
  by (induction ws arbitrary: a) auto

lemma longestDuration_bounds:
  assumes "wfConfig c" "Period c = ''durations''"
  shows "3600 \<le> longestDuration c" "longestDuration c \<le> 365 * 86400"
    and "\<And>w. w \<in> set (Windows c) \<Longrightarrow> W_DurationSeconds w \<le> longestDuration c"
proof -
  have le: "longestDuration c \<le> b \<longleftrightarrow> 0 \<le> b \<and> (\<forall>w \<in> set (Windows c). W_DurationSeconds w \<le> b)" for b
    by (simp add: longestDuration_def foldl_max_le_iff)
  have wf: "3600 \<le> W_DurationSeconds w" "W_DurationSeconds w \<le> 365 * 86400" if "w \<in> set (Windows c)" for w
    using wfConfig_windows [OF assms(1) that] by (auto simp: wfWindow_def)
  show ge: "W_DurationSeconds w \<le> longestDuration c" if "w \<in> set (Windows c)" for w
    using that le [of "longestDuration c"] by simp
  have "Windows c \<noteq> []" using assms by (simp add: wfConfig_def)
  then have "hd (Windows c) \<in> set (Windows c)" by simp
  then show "3600 \<le> longestDuration c" using wf(1) ge order_trans by blast
  show "longestDuration c \<le> 365 * 86400" using wf(2) by (simp add: le)
qed

lemma effectiveWindows_nonempty: "wfConfig (RevConfig rv) \<Longrightarrow> effectiveWindows rv now loc \<noteq> []"
  by (auto simp: effectiveWindows_def wfConfig_def)

context civil_zone
begin

lemma effectiveWindows_current:
  assumes wf: "wfConfig (RevConfig rv)" and t: "0 \<le> AccountingAnchorAt rv" "AccountingAnchorAt rv \<le> now" "now \<le> maxTime"
    and w: "w \<in> set (effectiveWindows rv now loc)"
  shows "start w \<le> now" "now < stop w" "AccountingAnchorAt rv \<le> start w" "windowOf (RevConfig rv) w"
proof -
  let ?c = "RevConfig rv"
  have "start w \<le> now \<and> now < stop w \<and> AccountingAnchorAt rv \<le> start w \<and> windowOf ?c w"
  proof (cases "Period ?c = ''durations''")
    case True
    with w obtain x where x: "x \<in> set (Windows ?c)" and
      eq: "w = (durationWindow now (AccountingAnchorAt rv) (W_DurationSeconds x))
         \<lparr>kind := ''duration'', seconds := W_DurationSeconds x, limit := W_Limit x\<rparr>"
      by (auto simp: effectiveWindows_def)
    have s: "0 < W_DurationSeconds x" "W_DurationSeconds x \<le> 365 * 86400"
      using wfConfig_windows [OF wf x] by (auto simp: wfWindow_def)
    show ?thesis
      using eq x True duration_bounds [OF s(1) t(2)]
      by (auto simp: durationWindow_exact [OF t s] windowOf_def list_ex_iff)
  next
    case False
    with w show ?thesis using t(2) Window_contains [of now ?c]
      by (auto simp: effectiveWindows_def windowOf_def)
  qed
  then show "start w \<le> now" "now < stop w" "AccountingAnchorAt rv \<le> start w" "windowOf ?c w" by auto
qed

lemma nextEffective_later:
  assumes wf: "wfConfig c" and t: "0 \<le> anchor" "anchor \<le> now" "now \<le> maxTime"
  shows "now < nextEffective c now loc anchor"
proof (cases "Period c = ''durations''")
  case True
  note l = longestDuration_bounds [OF wf True]
  have "0 < longestDuration c" using l(1) by simp
  from duration_bounds(3) [OF this t(2)] durationWindow_exact [OF t this l(2)] True
  show ?thesis by (simp add: nextEffective_def)
next
  case False
  then show ?thesis using Window_contains(2) by (simp add: nextEffective_def)
qed

end

section \<open>Properties\<close>

text \<open>
  The witnesses use the 2024 transitions of New York, where 02:30 did not exist on 10 March and
  01:30 occurred twice on 3 November, and a rule that resets every day at 02:30.
\<close>

definition newYork :: location where
  "newYork = \<lparr>zone_base = - 18000, zone_transitions = [(1710054000, - 14400), (1730613600, - 18000)]\<rparr>"

definition exampleDaily :: Config where
  "exampleDaily = exampleTokens\<lparr>Period := ''day'', ResetTime := ''02:30'', ResetDay := 0\<rparr>"

definition exampleRevision :: Revision where
  "exampleRevision = \<lparr>RevID = 1, EffectiveAt = 1000, AccountingAnchorAt = 1000,
     RevConfig = exampleRatio\<lparr>Rates := [exampleRate], Members := rev (Members exampleRatio)\<rparr>, RevCoverage = noCoverage\<rparr>"

lemma exampleRevision_wf: "wfConfig (RevConfig exampleRevision)"
proof -
  have "normalize exampleRatio = Inr (RevConfig exampleRevision)" by code_simp
  then show ?thesis by (rule normalize_wf)
qed

text \<open>
  \<open>DayStart\<close> finds the first instant of a civil date, whichever of its two searches answers: an
  instant is at or after the start of a day exactly when its local date is that day or later.
\<close>

theorem DayStart_first_instant:
  assumes "zone_ok loc" and "civil n = (y, m, d)"
  shows "DayStart y m d loc \<le> t \<longleftrightarrow> n \<le> localDay loc t"
  by (rule civil_zone.DayStart_le_iff) (use assms in \<open>auto intro: civil_zone.intro\<close>)

theorem DayStart_first_instant_witness:
  "DayStart 2024 3 10 newYork = 1710046800 \<and> \<not> 19792 \<le> localDay newYork 1710046799"
proof -
  have z: "zone_ok newYork" by code_simp
  have c: "civil 19792 = (2024, 3, 10)" by code_simp
  have "DayStart 2024 3 10 newYork = 1710046800" by code_simp
  then show ?thesis using DayStart_first_instant [OF z c, of 1710046799] by simp
qed

text \<open>
  A reset time is the first instant of its day whose local clock has reached it: a time the
  clock skips resets when the clock moves past it, a repeated time at its first occurrence, and
  a time the day never reaches at the start of the next day.
\<close>

theorem wallTime_first_instant:
  assumes "zone_ok loc" and "civil n = (y, m, d)" and "civil (n + 1) = (y', m', d')"
  shows "DayStart y m d loc \<le> wallTime y m d minute loc \<and> wallTime y m d minute loc \<le> DayStart y' m' d' loc \<and>
    (\<forall>t. DayStart y m d loc \<le> t \<and> t < wallTime y m d minute loc \<longrightarrow> localSec loc t < n * 86400 + minute * 60) \<and>
    (wallTime y m d minute loc < DayStart y' m' d' loc \<longrightarrow>
       n * 86400 + minute * 60 \<le> localSec loc (wallTime y m d minute loc))"
  using civil_zone.wallOn_first [OF civil_zone.intro [OF assms(1)], of n minute] assms(2,3)
  by (auto simp: first_in_def startOf_def wallTime_civil not_le)

theorem wallTime_first_instant_witness:
  "wallTime 2024 3 10 150 newYork = 1710054000 \<and> localSec newYork 1710053999 < 19792 * 86400 + 150 * 60"
proof -
  have z: "zone_ok newYork" by code_simp
  have c: "civil 19792 = (2024, 3, 10)" "civil (19792 + 1) = (2024, 3, 11)" by code_simp+
  have w: "wallTime 2024 3 10 150 newYork = 1710054000" "DayStart 2024 3 10 newYork = 1710046800" by code_simp+
  from wallTime_first_instant [OF z c, of 150] have
    "DayStart 2024 3 10 newYork \<le> t \<and> t < wallTime 2024 3 10 150 newYork \<longrightarrow> localSec newYork t < 19792 * 86400 + 150 * 60" for t
    by blast
  from this [of 1710053999] w show ?thesis by simp
qed

text \<open>
  C10: Calendar windows partition time. The daily or monthly window of an instant contains it,
  every instant inside has the same window, and the next window starts where this one ends; so
  no request is counted in two windows or in none.
\<close>

theorem calendar_windows_partition:
  assumes "zone_ok loc"
  shows "fst (Window now c loc) \<le> now \<and> now < snd (Window now c loc) \<and>
    (\<forall>t. fst (Window now c loc) \<le> t \<and> t < snd (Window now c loc) \<longrightarrow> Window t c loc = Window now c loc) \<and>
    fst (Window (snd (Window now c loc)) c loc) = snd (Window now c loc)"
proof -
  note z = civil_zone.intro [OF assms]
  show ?thesis
    using civil_zone.Window_contains [OF z] civil_zone.Window_same [OF z] civil_zone.Window_next [OF z] by blast
qed

theorem calendar_windows_partition_witness:
  "Window 1710053999 exampleDaily newYork = (1709969400, 1710054000) \<and>
   Window 1709969400 exampleDaily newYork = (1709969400, 1710054000)"
proof -
  have z: "zone_ok newYork" by code_simp
  have w: "Window 1710053999 exampleDaily newYork = (1709969400, 1710054000)" by code_simp
  from calendar_windows_partition [OF z, of 1710053999 exampleDaily]
  have "fst (Window 1710053999 exampleDaily newYork) \<le> t \<and> t < snd (Window 1710053999 exampleDaily newYork) \<longrightarrow>
      Window t exampleDaily newYork = Window 1710053999 exampleDaily newYork" for t
    by blast
  from this [of 1709969400] w show ?thesis by simp
qed

text \<open>
  Duration windows tile the time since their anchor: the window of an instant starts a whole
  number of durations after the anchor, contains the instant, and is the window of every instant
  inside it; the 64-bit arithmetic does not wrap before the year 10000.
\<close>

theorem duration_windows_tile:
  assumes "0 \<le> anchor" "anchor \<le> now" "now \<le> maxTime" "0 < secs" "secs \<le> 365 * 86400"
  shows "start (durationWindow now anchor secs) \<le> now \<and> now < stop (durationWindow now anchor secs) \<and>
    stop (durationWindow now anchor secs) = start (durationWindow now anchor secs) + secs \<and>
    anchor \<le> start (durationWindow now anchor secs) \<and> (start (durationWindow now anchor secs) - anchor) mod secs = 0 \<and>
    (\<forall>t. start (durationWindow now anchor secs) \<le> t \<and> t < stop (durationWindow now anchor secs) \<and> t \<le> maxTime \<longrightarrow>
       durationWindow t anchor secs = durationWindow now anchor secs)"
proof -
  let ?k = "(now - anchor) div secs"
  note b = duration_bounds [OF assms(4,2)]
  have w: "start (durationWindow now anchor secs) = anchor + ?k * secs" "stop (durationWindow now anchor secs) = anchor + ?k * secs + secs"
    by (simp_all add: durationWindow_exact [OF assms])
  have "durationWindow t anchor secs = durationWindow now anchor secs"
    if t: "anchor + ?k * secs \<le> t" "t < anchor + ?k * secs + secs" "t \<le> maxTime" for t
  proof -
    have "anchor \<le> t" using t(1) b(1) by linarith
    from durationWindow_exact [OF assms(1) this t(3) assms(4,5)] duration_same [OF assms(4) t(1,2)]
    show ?thesis by (simp add: durationWindow_exact [OF assms])
  qed
  then show ?thesis unfolding w by (intro conjI b refl) blast
qed

theorem duration_windows_tile_witness:
  "start (durationWindow 1709969400 1709000000 18000) = 1709954000 \<and>
   durationWindow 1709954000 1709000000 18000 = durationWindow 1709969400 1709000000 18000"
proof -
  have s: "start (durationWindow 1709969400 1709000000 18000) = 1709954000" by code_simp
  have e: "stop (durationWindow 1709969400 1709000000 18000) = 1709972000" by code_simp
  have h: "(0 :: int) \<le> 1709000000" "(1709000000 :: int) \<le> 1709969400" "1709969400 \<le> maxTime"
    "(0 :: int) < 18000" "(18000 :: int) \<le> 365 * 86400" by simp_all
  from duration_windows_tile [OF h]
  have "start (durationWindow 1709969400 1709000000 18000) \<le> t \<and> t < stop (durationWindow 1709969400 1709000000 18000) \<and> t \<le> maxTime \<longrightarrow>
     durationWindow t 1709000000 18000 = durationWindow 1709969400 1709000000 18000" for t
    by blast
  from this [of 1709954000] s e show ?thesis by simp
qed

text \<open>
  At any time since its anchor a saved revision has at least one window, and every one of
  them is current, starts no earlier than the accounting anchor and carries a configured limit.
  An edit scheduled for the next boundary takes effect strictly later.
\<close>

theorem effective_windows_current:
  assumes "zone_ok loc" and "wfConfig (RevConfig rv)" and "0 \<le> AccountingAnchorAt rv"
    and "AccountingAnchorAt rv \<le> now" and "now \<le> maxTime"
  shows "effectiveWindows rv now loc \<noteq> [] \<and>
    (\<forall>w \<in> set (effectiveWindows rv now loc).
       AccountingAnchorAt rv \<le> start w \<and> start w \<le> now \<and> now < stop w \<and> windowOf (RevConfig rv) w) \<and>
    now < nextEffective (RevConfig rv) now loc (AccountingAnchorAt rv)"
proof -
  note z = civil_zone.intro [OF assms(1)]
  show ?thesis
    using effectiveWindows_nonempty [OF assms(2)] civil_zone.effectiveWindows_current [OF z assms(2-5)]
      civil_zone.nextEffective_later [OF z assms(2-5)] by blast
qed

theorem effective_windows_current_witness:
  "length (effectiveWindows exampleRevision 19001 UTC) = 2 \<and>
   map start (effectiveWindows exampleRevision 19001 UTC) = [19000, 1000] \<and>
   19001 < nextEffective (RevConfig exampleRevision) 19001 UTC 1000"
proof -
  have "AccountingAnchorAt exampleRevision = 1000" by (simp add: exampleRevision_def)
  with effective_windows_current [OF zone_ok_UTC exampleRevision_wf, of 19001]
  have "19001 < nextEffective (RevConfig exampleRevision) 19001 UTC 1000" by simp
  moreover have "map start (effectiveWindows exampleRevision 19001 UTC) = [19000, 1000]" by code_simp
  moreover from this have "length (effectiveWindows exampleRevision 19001 UTC) = 2"
    by (metis length_map length_Cons list.size(3) One_nat_def Suc_1)
  ultimately show ?thesis by simp
qed

end
