(* ===== verification/Accounts_Catalog.thy ===== *)
theory Accounts_Catalog
  imports Groups_Policy "HOL-Library.List_Lexorder" "HOL-Library.Char_ord"
begin

text \<open>
  Account model catalogs (\<open>internal/accounts/catalog.go\<close>, \<open>internal/accounts/capabilities.go\<close>): the
  stored snapshot, its decoding and normal form. Text is ordered bytewise, as \<open>sort.Strings\<close> and
  SQLite's default collation order it.
\<close>

section \<open>Stored JSON\<close>

text \<open>
  A JSON column holds the encoding of a value or bytes that do not decode. \<open>encoding/json\<close> decodes
  what it encoded, so an encoded value is represented by the value itself.
\<close>

datatype 'a json = Json 'a | Malformed

definition Unmarshal :: "'a json \<Rightarrow> 'a result" where
  "Unmarshal raw = (case raw of Json v \<Rightarrow> Inr v | Malformed \<Rightarrow> Inl DecodeError)"

lemma Unmarshal_Json [simp]: "Unmarshal (Json v) = Inr v" "Unmarshal Malformed = Inl DecodeError"
  by (simp_all add: Unmarshal_def)

section \<open>Capabilities\<close>

record ModelCapabilities =
  ContextWindow :: "int option"
  MaxOutputTokens :: "int option"
  SupportedReasoningLevels :: "string list"
  SupportsImages :: "bool option"
  SupportsTools :: "bool option"

definition reasoningLevel :: "string \<Rightarrow> bool" where
  "reasoningLevel s = (case s of [] \<Rightarrow> False | c # cs \<Rightarrow>
     alnum c \<and> length cs \<le> 15 \<and> list_all (\<lambda>x. alnum x \<or> x \<in> set ''_-'') cs)"

definition capabilityValid :: "ModelCapabilities \<Rightarrow> bool" where
  "capabilityValid c \<longleftrightarrow>
     list_all (\<lambda>lim. case lim of None \<Rightarrow> True | Some n \<Rightarrow> \<not> (n \<le> 0 \<or> n > 1000000000))
       [ContextWindow c, MaxOutputTokens c] \<and>
     length (SupportedReasoningLevels c) \<le> 8 \<and> list_all reasoningLevel (SupportedReasoningLevels c)"

definition capabilityEmpty :: "ModelCapabilities \<Rightarrow> bool" where
  "capabilityEmpty c \<longleftrightarrow> ContextWindow c = None \<and> MaxOutputTokens c = None \<and>
     SupportedReasoningLevels c = [] \<and> SupportsImages c = None \<and> SupportsTools c = None"

text \<open>The map of capabilities is an association list with distinct keys.\<close>

definition normalizedCapabilities ::
    "string list \<Rightarrow> (string \<times> ModelCapabilities) list \<Rightarrow> (string \<times> ModelCapabilities) list result" where
  "normalizedCapabilities models caps =
     (if length caps > length models then Inl (Accounts RErrInput)
      else if list_ex (\<lambda>(i, c). i \<notin> set models \<or> \<not> capabilityValid c) caps then Inl (Accounts RErrInput)
      else Inr (filter (\<lambda>(i, c). \<not> capabilityEmpty c) caps))"

section \<open>Catalogs\<close>

record Catalog =
  C_Models :: "string list"
  Capabilities :: "(string \<times> ModelCapabilities) list"
  HiddenModels :: "string list"
  UpdatedAt :: int
  Source :: string
  C_Revision :: int

definition VisibleModels :: "Catalog \<Rightarrow> string list" where
  "VisibleModels c = filter (\<lambda>model. model \<notin> set (HiddenModels c)) (C_Models c)"

text \<open>Duplicates are dropped at their second occurrence, then the list is sorted.\<close>

fun collectCatalog :: "string list \<Rightarrow> string list \<Rightarrow> string list result" where
  "collectCatalog result [] = Inr result"
| "collectCatalog result (i # rest) =
     (if \<not> modelID i then Inl (Accounts RErrInput)
      else if i \<in> set result then collectCatalog result rest
      else collectCatalog (result @ [i]) rest)"

definition normalizedCatalog :: "string list \<Rightarrow> string list result" where
  "normalizedCatalog models =
     (if length models > 512 then Inl (Accounts RErrInput)
      else bindR (collectCatalog [] models) (\<lambda>result. Inr (sort result)))"

definition normalizedHiddenModels :: "string list \<Rightarrow> string list \<Rightarrow> string list result" where
  "normalizedHiddenModels models hidden =
     bindR (normalizedCatalog hidden) (\<lambda>hidden.
       if list_all (\<lambda>m. m \<in> set models) hidden then Inr hidden else Inl (Accounts RErrInput))"

text \<open>
  A snapshot is its length in bytes and its content. The missing catalog, an empty blob, is \<open>None\<close>.
  A snapshot whose model list is \<open>null\<close> is rejected like malformed bytes.
\<close>

type_synonym snapshot = "(int \<times> Catalog json) option"

definition DecodeCatalog :: "snapshot \<Rightarrow> int \<Rightarrow> Catalog result" where
  "DecodeCatalog raw revision = (case raw of
     None \<Rightarrow> Inr \<lparr>C_Models = [], Capabilities = [], HiddenModels = [], UpdatedAt = 0, Source = [], C_Revision = revision\<rparr>
   | Some (n, body) \<Rightarrow>
       (if n > 524288 then Inl (Accounts RErrInput)
        else case body of Malformed \<Rightarrow> Inl (Accounts RErrInput)
        | Json value \<Rightarrow>
            if UpdatedAt value \<le> 0 \<or> length (Source value) > 64 then Inl (Accounts RErrInput)
            else bindR (normalizedCatalog (C_Models value)) (\<lambda>models.
              bindR (normalizedHiddenModels models (HiddenModels value)) (\<lambda>hidden.
              bindR (normalizedCapabilities models (Capabilities value)) (\<lambda>caps.
              Inr (value\<lparr>C_Models := models, HiddenModels := hidden, Capabilities := caps, C_Revision := revision\<rparr>))))))"

section \<open>Normal form\<close>

lemma collectCatalog_normal:
  "collectCatalog res ms = Inr out \<Longrightarrow> distinct res \<Longrightarrow> list_all modelID res \<Longrightarrow>
   distinct out \<and> list_all modelID out \<and> set out = set res \<union> set ms \<and> length out \<le> length res + length ms"
proof (induction res ms rule: collectCatalog.induct)
  case (2 result i rest)
  show ?case
  proof (cases "i \<in> set result")
    case True
    then have "collectCatalog result rest = Inr out" "modelID i" using 2(3) by (auto split: if_splits)
    from 2(1) [OF _ True this(1)] this(2) 2(4,5) True show ?thesis by auto
  next
    case False
    then have "collectCatalog (result @ [i]) rest = Inr out" "modelID i" using 2(3) by (auto split: if_splits)
    from 2(2) [OF _ False this(1)] this(2) 2(4,5) False show ?thesis by auto
  qed
qed simp

lemma collectCatalog_fixed:
  "list_all modelID ms \<Longrightarrow> distinct (res @ ms) \<Longrightarrow> collectCatalog res ms = Inr (res @ ms)"
  by (induction res ms rule: collectCatalog.induct) auto

lemma normalizedCatalog_normal:
  assumes "normalizedCatalog ms = Inr out"
  shows "sorted out \<and> distinct out \<and> list_all modelID out \<and> set out = set ms \<and> length out \<le> 512"
proof -
  from assms obtain res where r: "collectCatalog [] ms = Inr res" "out = sort res" "length ms \<le> 512"
    by (auto simp: normalizedCatalog_def res_simps split: if_splits)
  from collectCatalog_normal [OF r(1)] r(2,3) show ?thesis by (auto simp: list_all_iff)
qed

lemma normalizedCatalog_fixed:
  "sorted ms \<Longrightarrow> distinct ms \<Longrightarrow> list_all modelID ms \<Longrightarrow> length ms \<le> 512 \<Longrightarrow> normalizedCatalog ms = Inr ms"
  by (simp add: normalizedCatalog_def collectCatalog_fixed sort_key_id_if_sorted)

lemma normalizedHiddenModels_normal:
  "normalizedHiddenModels models hidden = Inr out \<Longrightarrow>
   normalizedCatalog hidden = Inr out \<and> set out \<subseteq> set models"
  by (auto simp: normalizedHiddenModels_def res_simps list_all_iff split: if_splits)

text \<open>
  C34: Decoding a catalog snapshot yields a normal form: models are sorted, distinct and valid
  identifiers, hidden models are among them, and encoding the result and decoding it again gives
  the same catalog.
\<close>

theorem DecodeCatalog_round_trip:
  assumes "DecodeCatalog (Some (n, Json v)) revision = Inr c" and "n' \<le> 524288"
  shows "sorted (C_Models c) \<and> distinct (C_Models c) \<and> set (C_Models c) = set (C_Models v) \<and>
    set (HiddenModels c) \<subseteq> set (C_Models c) \<and> set (VisibleModels c) = set (C_Models c) - set (HiddenModels c) \<and>
    DecodeCatalog (Some (n', Json c)) revision = Inr c"
proof -
  from assms(1) obtain models hidden caps where
    m: "normalizedCatalog (C_Models v) = Inr models" and h: "normalizedHiddenModels models (HiddenModels v) = Inr hidden"
    and k: "normalizedCapabilities models (Capabilities v) = Inr caps"
    and c: "c = v\<lparr>C_Models := models, HiddenModels := hidden, Capabilities := caps, C_Revision := revision\<rparr>"
    and g: "\<not> (UpdatedAt v \<le> 0 \<or> length (Source v) > 64)"
    by (auto simp: DecodeCatalog_def res_simps split: if_splits)
  note nm = normalizedCatalog_normal [OF m]
  note nh = normalizedHiddenModels_normal [OF h]
  have "normalizedCatalog models = Inr models" using nm by (intro normalizedCatalog_fixed) auto
  moreover have "normalizedHiddenModels models hidden = Inr hidden"
  proof -
    have "normalizedCatalog hidden = Inr hidden"
      using normalizedCatalog_normal [of "HiddenModels v" hidden] nh by (intro normalizedCatalog_fixed) auto
    then show ?thesis using nh by (auto simp: normalizedHiddenModels_def list_all_iff)
  qed
  moreover have "normalizedCapabilities models caps = Inr caps"
  proof -
    from k have "caps = filter (\<lambda>(i, c). \<not> capabilityEmpty c) (Capabilities v)" "length (Capabilities v) \<le> length models"
        "\<not> list_ex (\<lambda>(i, c). i \<notin> set models \<or> \<not> capabilityValid c) (Capabilities v)"
      by (auto simp: normalizedCapabilities_def split: if_splits)
    moreover from this have "length caps \<le> length models" by (metis length_filter_le le_trans)
    ultimately show ?thesis by (auto simp: normalizedCapabilities_def list_ex_iff)
  qed
  ultimately have "DecodeCatalog (Some (n', Json c)) revision = Inr c"
    using g assms(2) by (simp add: DecodeCatalog_def c)
  then show ?thesis using nm nh by (auto simp: c VisibleModels_def)
qed

definition exampleCatalog :: Catalog where
  "exampleCatalog = \<lparr>C_Models = [''o3'', ''gpt-5'', ''o3''], Capabilities = [], HiddenModels = [''o3''],
     UpdatedAt = 5, Source = ''probe'', C_Revision = 0\<rparr>"

theorem DecodeCatalog_round_trip_witness:
  "DecodeCatalog (Some (60, Json exampleCatalog)) 3 =
     Inr (exampleCatalog\<lparr>C_Models := [''gpt-5'', ''o3''], C_Revision := 3\<rparr>) \<and>
   set (VisibleModels (exampleCatalog\<lparr>C_Models := [''gpt-5'', ''o3''], C_Revision := 3\<rparr>)) = {''gpt-5''}"
proof -
  let ?c = "exampleCatalog\<lparr>C_Models := [''gpt-5'', ''o3''], C_Revision := 3\<rparr>"
  have d: "DecodeCatalog (Some (60, Json exampleCatalog)) 3 = Inr ?c" by code_simp
  from DecodeCatalog_round_trip [OF d, of 60] have "set (VisibleModels ?c) = set (C_Models ?c) - set (HiddenModels ?c)"
    by simp
  moreover have "set (C_Models ?c) - set (HiddenModels ?c) = {''gpt-5''}" by (auto simp: exampleCatalog_def)
  ultimately show ?thesis using d by simp
qed

end
