(* ===== verification/Upstream_Usage.thy ===== *)
theory Upstream_Usage
  imports Prelude
begin

text \<open>
  Usage snapshots of subscription accounts, as \<open>internal/upstream/usage.go\<close> declares them and the
  database stores them. A \<open>float64\<close> is the dyadic rational it stands for, \<open>Float m s\<close> being
  \<open>m / 2 ^ s\<close>; JSON has no infinities and no NaN.
\<close>

datatype float64 = Float int nat

fun fle :: "float64 \<Rightarrow> float64 \<Rightarrow> bool" where
  "fle (Float a s) (Float b t) \<longleftrightarrow> a * 2 ^ t \<le> b * 2 ^ s"

definition ffrom :: "int \<Rightarrow> float64" where
  "ffrom n = Float n 0"

definition fmin :: "float64 \<Rightarrow> float64 \<Rightarrow> float64" where
  "fmin x y = (if fle x y then x else y)"

text \<open>Rounding to the nearest integer, ties to even.\<close>

definition nearest :: "int \<Rightarrow> int \<Rightarrow> int" where
  "nearest n d = (let q = n div d; r = n mod d in
     if 2 * r < d \<or> 2 * r = d \<and> even q then q else q + 1)"

text \<open>
  \<open>100 - x\<close> for a double \<open>x\<close> in \<open>[0, 100)\<close>. A result below 64 is exact: then \<open>x\<close> is above 36 and
  a multiple of \<open>2 ^ -47\<close>, and so is the result. From 64 on the result has 53 significant bits,
  the last worth \<open>2 ^ -46\<close>, and the exact difference is rounded to it.
\<close>

fun fsub100 :: "float64 \<Rightarrow> float64" where
  "fsub100 (Float m s) =
     (let r = 100 * 2 ^ s - m in
      if r < 64 * 2 ^ s then Float r s else Float (nearest (r * 2 ^ 46) (2 ^ s)) 46)"

fun fceil :: "float64 \<Rightarrow> int" where
  "fceil (Float m s) = - ((- m) div 2 ^ s)"

lemma fle_refl [simp]: "fle x x"
  by (cases x) simp

section \<open>Snapshots\<close>

record UsageWindow =
  uw_Kind :: string
  UsedPercent :: "float64 option"
  WindowSeconds :: "int option"
  ResetAt :: "int option"

record UsageLimit =
  ul_Name :: string
  ul_Hidden :: bool
  ul_Allowed :: "bool option"
  ul_LimitReached :: "bool option"
  ul_Windows :: "UsageWindow list"

text \<open>\<open>Limits\<close> may be absent, which a decoder tells from an empty list.\<close>

record Usage =
  ReadStartedAt :: int
  us_Limits :: "UsageLimit list option"
  ResetCredits :: "int option"
  us_UpdatedAt :: int

end
