(* ===== verification/Store.thy ===== *)
theory Store
  imports Alloc_Calendar Accounts_Catalog Upstream_Usage
begin

text \<open>
  The database: the tables the modelled queries read and write, as lists of rows, and the queries
  of \<open>internal/storage/db\<close> on access and pools. A statement may fail: \<open>faults\<close> names the statements
  that return a driver error in the run at hand, so every \<open>if err != nil\<close> of the callers is a
  branch of the model. A transaction is a function on the store whose result is used only when
  it commits; a rollback is dropping it.
\<close>

section \<open>Tables\<close>

record user_row =
  u_id :: int
  u_enabled :: bool
  u_username :: string
  u_role :: string
  u_password_hash :: string
  u_created_at :: int
  u_totp_secret :: "string option"
  u_totp_step :: int
  u_security_version :: int

record tenant_row = t_id :: int  t_status :: string  t_name :: string  t_owner :: int  t_created_at :: int

record membership_row =
  m_tenant :: int
  m_user :: int
  m_role :: string
  m_enabled :: bool
  m_requests_per_minute :: int
  m_max_concurrency :: int
  m_removed_at :: "int option"
  m_first_request_at :: int
  m_created_at :: int

record group_row =
  g_id :: int
  g_name :: string
  g_enabled :: bool
  g_restricted_models :: bool
  g_tenant :: int
  g_routing_preference :: string
  g_allow_api_fallback :: bool
  g_created_at :: int
  g_updated_at :: int

record account_row =
  a_id :: string
  a_provider :: string
  a_enabled :: bool
  a_status :: string
  a_models_snapshot :: snapshot
  a_models_revision :: int
  a_tenant :: int
  a_created_at :: int
  a_max_concurrency :: int
  a_usage_revision :: int
  a_name :: string

record scheme_row =
  s_id :: int
  s_name :: string
  s_group :: int
  s_enabled :: bool
  s_created_at :: int

record revision_row =
  r_id :: int
  r_scheme :: int
  r_effective_at :: int
  r_anchor_at :: int
  r_config :: "Config json"

record entry_row =
  e_request :: string
  e_scheme :: int
  e_revision :: int
  e_user :: int
  e_account :: string
  e_model :: string
  e_mode :: string
  e_window_start :: int
  e_reset_at :: int
  e_started_at :: int
  e_finished_at :: int
  e_state :: string
  e_input_tokens :: int
  e_output_tokens :: int
  e_cached_tokens :: int
  e_cost :: int
  e_manual :: bool

record key_row =
  k_id :: int
  k_user :: int
  k_group :: int
  k_revoked_at :: "int option"
  k_enabled :: bool
  k_expires_at :: "int option"
  k_name :: string
  k_prefix :: string
  k_token_hash :: string
  k_created_at :: int
  k_last_used_at :: "int option"
  k_secret :: "string option"

record audit_row =
  au_tenant :: int
  au_actor :: int
  au_action :: string
  au_resource :: string
  au_resource_id :: string
  au_created_at :: int

text \<open>The tables of the gateway: conversation bindings, rate windows, cooldowns and usage snapshots.\<close>

record affinity_row =
  af_user :: int
  af_group :: int
  af_hash :: string
  af_provider :: string
  af_account :: string
  af_expires_at :: int
  af_model :: string
  af_rebound :: bool

record rate_row = mr_tenant :: int  mr_user :: int  mr_window_start :: int  mr_requests :: int

record runtime_row =
  ar_account :: string
  ar_cooldown_until :: int
  ar_reason :: string
  ar_failures :: int
  ar_last_failure_at :: int
  ar_revision :: int

record model_row =
  mo_account :: string
  mo_model :: string
  mo_cooldown_until :: int
  mo_failures :: int
  mo_lifecycle :: int
  mo_runtime_revision :: int
  mo_version :: int
  mo_reason :: string
  mo_last_failure_at :: int
  mo_failure_window_at :: int

text \<open>A stored snapshot is its length in bytes and what it decodes to.\<close>

record usage_row =
  us_account :: string
  us_revision :: int
  us_snapshot :: "int \<times> Usage json"
  us_updated_at :: int

text \<open>The explanation of a routing decision, stored with its request.\<close>

record RouteExclusions =
  X_Model :: int
  X_Policy :: int
  X_Quota :: int
  X_Cooldown :: int
  X_Concurrency :: int
  X_Unavailable :: int

record RouteExplanation =
  R_Version :: int
  R_Strategy :: string
  R_Result :: string
  R_Candidates :: int
  R_ParentFallback :: bool
  R_Exclusions :: RouteExclusions

text \<open>What the content rules decided about a request.\<close>

record content_check =
  ContentMode :: string
  ContentRevision :: int
  ContentRuleIds :: "string list json"
  ContentCheckFailed :: int

record request_row =
  q_rowid :: int
  q_id :: string
  q_user :: int
  q_key :: int
  q_group :: int
  q_account :: string
  q_provider :: string
  q_model :: string
  q_transport :: string
  q_operation :: string
  q_started_at :: int
  q_duration_ms :: int
  q_outcome :: string
  q_error_code :: string
  q_status :: "int option"
  q_input :: "int option"
  q_output :: "int option"
  q_cached :: "int option"
  q_first_token_ms :: "int option"
  q_reasoning_effort :: string
  q_content :: content_check
  q_route :: "RouteExplanation option"

text \<open>
  Usage counters per day, per minute of a workspace and per hour of a workspace. The primary key of a
  row and its counters are kept apart; the hourly table has only some of the counters.
\<close>

record usage_key =
  uk_time :: int
  uk_user :: int
  uk_group :: int
  uk_provider :: string
  uk_model :: string
  uk_key :: int

record counters =
  n_requests :: int
  n_completed :: int
  n_incomplete :: int
  n_errors :: int
  n_canceled :: int
  n_rejected :: int
  n_duration :: int
  n_input :: int
  n_output :: int
  n_cached :: int
  n_input_reported :: int
  n_output_reported :: int
  n_cached_reported :: int

record hour_key = hk_tenant :: int  hk_hour :: int  hk_user :: int  hk_key :: int

text \<open>The tables of the identity service: sessions, invitations, recovery codes and pending challenges.\<close>

record session_row = se_token_hash :: string  se_user :: int  se_created_at :: int  se_expires_at :: int

record invitation_row =
  in_id :: int
  in_token_hash :: string
  in_tenant :: int
  in_created_by :: int
  in_created_at :: int
  in_expires_at :: int
  in_used_at :: "int option"
  in_used_by :: "int option"

record challenge_row =
  ch_token_hash :: string
  ch_kind :: string
  ch_user :: "int option"
  ch_session_hash :: string
  ch_security_version :: int
  ch_data :: string
  ch_expires_at :: int

record passkey_row =
  pk_id :: int
  pk_user :: int
  pk_credential_id :: string
  pk_credential :: string
  pk_name :: string
  pk_created_at :: int
  pk_last_used_at :: "int option"

text \<open>\<open>AUTOINCREMENT\<close> keeps the largest key ever given out, so keys are never reused.\<close>

record store =
  faults :: "string list"
  users :: "user_row list"
  tenants :: "tenant_row list"
  memberships :: "membership_row list"
  account_groups :: "group_row list"
  group_members :: "(int \<times> int) list"
  group_models :: "(int \<times> string) list"
  group_accounts :: "(int \<times> string) list"
  accounts :: "account_row list"
  allocation_schemes :: "scheme_row list"
  allocation_revisions :: "revision_row list"
  allocation_entries :: "entry_row list"
  allocation_keys :: "(int \<times> int) list"
  api_keys :: "key_row list"
  audit_events :: "audit_row list"
  account_affinity :: "affinity_row list"
  member_rate :: "rate_row list"
  account_runtime :: "runtime_row list"
  account_model_runtime :: "model_row list"
  account_usage :: "usage_row list"
  request_records :: "request_row list"
  usage_daily :: "(usage_key \<times> counters) list"
  usage_minutes :: "((int \<times> usage_key) \<times> counters) list"
  usage_hourly :: "(hour_key \<times> counters) list"
  settings :: "(string \<times> string) list"
  sessions :: "session_row list"
  invitations :: "invitation_row list"
  recovery_codes :: "(int \<times> string) list"
  auth_challenges :: "challenge_row list"
  passkeys :: "passkey_row list"
  request_seq :: int
  scheme_seq :: int
  revision_seq :: int

section \<open>Statements\<close>

abbreviation fails :: "store \<Rightarrow> string \<Rightarrow> bool" where
  "fails d name \<equiv> name \<in> set (faults d)"

definition query :: "store \<Rightarrow> string \<Rightarrow> 'a \<Rightarrow> 'a result" where
  "query d name v = (if fails d name then Inl StoreError else Inr v)"

text \<open>A \<open>:one\<close> query without a row is \<open>sql.ErrNoRows\<close>.\<close>

definition queryRow :: "store \<Rightarrow> string \<Rightarrow> 'a option \<Rightarrow> 'a result" where
  "queryRow d name r =
     (if fails d name then Inl StoreError else case r of None \<Rightarrow> Inl NoRows | Some v \<Rightarrow> Inr v)"

text \<open>A write that violates a constraint fails like any other statement.\<close>

definition exec :: "store \<Rightarrow> string \<Rightarrow> bool \<Rightarrow> 'a \<Rightarrow> 'a result" where
  "exec d name ok v = (if fails d name \<or> \<not> ok then Inl StoreError else Inr v)"

lemma query_Inr [res_simps]: "query d name v = Inr x \<longleftrightarrow> \<not> fails d name \<and> x = v"
  by (auto simp: query_def)

lemma query_Inl [res_simps]: "query d name v = Inl e \<longleftrightarrow> fails d name \<and> e = StoreError"
  by (auto simp: query_def)

lemma queryRow_Inr [res_simps]: "queryRow d name r = Inr x \<longleftrightarrow> \<not> fails d name \<and> r = Some x"
  by (auto simp: queryRow_def split: option.splits)

lemma queryRow_Inl [res_simps]:
  "queryRow d name r = Inl e \<longleftrightarrow> fails d name \<and> e = StoreError \<or> \<not> fails d name \<and> r = None \<and> e = NoRows"
  by (auto simp: queryRow_def split: option.splits)

lemma exec_Inr [res_simps]: "exec d name ok v = Inr x \<longleftrightarrow> \<not> fails d name \<and> ok \<and> x = v"
  by (auto simp: exec_def)

lemma exec_Inl [res_simps]: "exec d name ok v = Inl e \<longleftrightarrow> (fails d name \<or> \<not> ok) \<and> e = StoreError"
  by (auto simp: exec_def)

text \<open>\<open>ORDER BY k DESC LIMIT 1\<close>: among equal keys SQLite returns the first row scanned.\<close>

definition greatest :: "('a \<Rightarrow> 'k::linorder) \<Rightarrow> 'a list \<Rightarrow> 'a option" where
  "greatest k xs = (case xs of [] \<Rightarrow> None
     | y # ys \<Rightarrow> Some (foldl (\<lambda>best x. if k x > k best then x else best) y ys))"

lemma foldl_greatest:
  "foldl (\<lambda>best x. if k x > k best then x else best) y ys \<in> insert y (set ys) \<and>
   (\<forall>z \<in> insert y (set ys). k z \<le> k (foldl (\<lambda>best x. if k x > k best then x else best) y ys))"
  for k :: "'a \<Rightarrow> 'k::linorder"
proof (induction ys arbitrary: y)
  case (Cons x ys)
  let ?y = "if k x > k y then x else y"
  have "k x \<le> k ?y" "k y \<le> k ?y" by auto
  moreover have "?y \<in> {x, y}" by auto
  ultimately show ?case using Cons.IH [of ?y] by (auto split: if_splits intro: order_trans)
qed simp

lemma greatest_Some:
  "greatest k xs = Some x \<Longrightarrow> x \<in> set xs \<and> (\<forall>z \<in> set xs. k z \<le> k x)"
  using foldl_greatest [of k] by (cases xs) (auto simp: greatest_def)

lemma greatest_None [simp]: "greatest k xs = None \<longleftrightarrow> xs = []"
  by (cases xs) (auto simp: greatest_def)

lemma greatest_eq:
  assumes "x \<in> set xs" "\<And>z. z \<in> set xs \<Longrightarrow> z \<noteq> x \<Longrightarrow> k z < k x"
  shows "greatest k xs = Some x"
proof (cases "greatest k xs")
  case None
  with assms show ?thesis by auto
next
  case (Some y)
  then have "y \<in> set xs" "k x \<le> k y" using greatest_Some assms(1) by fastforce+
  then have "y = x" using assms(2) by fastforce
  with Some show ?thesis by simp
qed

section \<open>Access\<close>

text \<open>The view \<open>effective_group_access\<close>.\<close>

definition effective_group_access :: "store \<Rightarrow> int \<Rightarrow> int \<Rightarrow> bool" where
  "effective_group_access d user grp \<longleftrightarrow>
     list_ex (\<lambda>m. m_user m = user \<and> m_enabled m \<and>
       list_ex (\<lambda>t. t_id t = m_tenant m \<and> t_status t = ''active'') (tenants d) \<and>
       list_ex (\<lambda>u. u_id u = user \<and> u_enabled u) (users d) \<and>
       list_ex (\<lambda>g. g_id g = grp \<and> g_tenant g = m_tenant m \<and> g_enabled g) (account_groups d) \<and>
       (m_role m = ''owner'' \<or> m_role m = ''admin'' \<or> (grp, user) \<in> set (group_members d)))
     (memberships d)"

definition CanUseGroup :: "store \<Rightarrow> int \<Rightarrow> int \<Rightarrow> bool result" where
  "CanUseGroup d user grp = query d ''CanUseGroup''
     (list_ex (\<lambda>g. g_id g = grp \<and> g_enabled g) (account_groups d) \<and>
      list_ex (\<lambda>u. u_id u = user \<and> u_enabled u) (users d) \<and> effective_group_access d user grp)"

definition GetGroup :: "store \<Rightarrow> int \<Rightarrow> group_row result" where
  "GetGroup d grp = queryRow d ''GetGroup'' (first_of (\<lambda>g. g_id g = grp) (account_groups d))"

definition GetTenantGroup :: "store \<Rightarrow> int \<Rightarrow> int \<Rightarrow> group_row result" where
  "GetTenantGroup d grp tenant = queryRow d ''GetTenantGroup''
     (first_of (\<lambda>g. g_id g = grp \<and> g_tenant g = tenant) (account_groups d))"

definition ListGroupModels :: "store \<Rightarrow> int \<Rightarrow> string list result" where
  "ListGroupModels d grp = query d ''ListGroupModels''
     (sort (map snd (filter (\<lambda>gm. fst gm = grp) (group_models d))))"

text \<open>The accounts of a pool, in the order of the join; each account has one row.\<close>

definition poolAccounts :: "store \<Rightarrow> int \<Rightarrow> account_row list" where
  "poolAccounts d grp = filter (\<lambda>a. (grp, a_id a) \<in> set (group_accounts d)) (accounts d)"

definition GroupHasSubscriptions :: "store \<Rightarrow> int \<Rightarrow> bool result" where
  "GroupHasSubscriptions d grp = query d ''GroupHasSubscriptions''
     (list_ex (\<lambda>a. a_provider a \<noteq> ''openai'') (poolAccounts d grp))"

text \<open>\<open>groups.ReadPolicy\<close>.\<close>

definition ReadPolicy :: "store \<Rightarrow> int \<Rightarrow> int \<Rightarrow> ModelPolicy result" where
  "ReadPolicy d user grp =
     bindR (CanUseGroup d user grp) (\<lambda>allowed.
     guardR (Groups GErrUnavailable) (\<not> allowed) (
     bindR (GetGroup d grp) (\<lambda>g.
     bindR (ListGroupModels d grp) (\<lambda>models.
     bindR (GroupHasSubscriptions d grp) (\<lambda>hasSubscriptions.
     Inr \<lparr>Routing' = \<lparr>Preference = g_routing_preference g, AllowAPIFallback = g_allow_api_fallback g\<rparr>,
          HasSubscriptions = hasSubscriptions, Restricted = g_restricted_models g, Models = models\<rparr>)))))"

section \<open>Audit\<close>

text \<open>
  \<open>audit.Record\<close> (\<open>internal/audit/audit.go\<close>). The actor travels in the context; without one nothing
  is recorded. \<open>now\<close> is the clock at the call. Events older than ninety days and all but the
  newest ten thousand of the tenant are pruned.
\<close>

record Actor =
  ActorID :: int
  ActorTenant :: int
  ActorName :: string
  ActorRole :: string
  ActorSource :: string

fun showNat :: "nat \<Rightarrow> string" where
  "showNat n = (if n < 10 then [char_of (48 + n)] else showNat (n div 10) @ [char_of (48 + n mod 10)])"

definition FormatInt :: "int \<Rightarrow> string" where
  "FormatInt n = (if n < 0 then CHR ''-'' # showNat (nat (- n)) else showNat (nat n))"

definition actions :: "(string \<times> string list) list" where
  "actions = [
     (''allocation'', [''allocation.save'', ''allocation.settle'', ''allocation.reconcile'', ''allocation.delete'']),
     (''backup'', [''backup.export'', ''backup.prepare'', ''backup.verify'']),
     (''settings'', [''settings.update'', ''settings.test'', ''updates.request'']),
     (''key'', [''key.reveal'', ''key.create'', ''key.update'', ''key.revoke'']),
     (''group'', [''group.create'', ''group.update'']),
     (''member'', [''member.budget'', ''member.budget_settle'', ''member.create'', ''member.update'',
        ''member.groups'', ''member.limits'', ''member.password'', ''member.remove'']),
     (''invitation'', [''invitation.create'']),
     (''user'', [''user.password'', ''user.recover'', ''user.totp_enable'', ''user.totp_disable'',
        ''user.recovery_codes'', ''user.passkey_add'', ''user.passkey_delete'']),
     (''account'', [''account.create'', ''account.authorize'', ''account.update'', ''account.delete'',
        ''account.concurrency'', ''account.resume'', ''account.proxy'', ''account.reset_settings'', ''account.reset_use'']),
     (''proxy'', [''proxy.create'', ''proxy.update'', ''proxy.delete'', ''proxy.import'', ''proxy.prune''])]"

definition numericID :: "string \<Rightarrow> bool" where
  "numericID s = (case s of [] \<Rightarrow> False | c # cs \<Rightarrow>
     digit c \<and> c \<noteq> CHR ''0'' \<and> length cs \<le> 18 \<and> list_all digit cs)"

definition accountID :: "string \<Rightarrow> bool" where
  "accountID s \<longleftrightarrow> length s = 32 \<and> list_all (\<lambda>c. digit c \<or> c \<in> set ''abcdef'') s"

definition ValidTarget :: "string \<Rightarrow> string \<Rightarrow> string \<Rightarrow> bool" where
  "ValidTarget action resource i =
     (case map_of actions resource of None \<Rightarrow> False | Some as \<Rightarrow>
        if action \<notin> set as then False
        else if i = [] then True
        else if resource = ''account'' \<or> resource = ''proxy'' then accountID i
        else if resource = ''settings'' then
          i \<in> {''codex'', ''grok'', ''claude'', ''timezone'', ''alerts'', ''content'', ''turnstile''}
        else numericID i)"

definition actorValid :: "Actor \<Rightarrow> bool" where
  "actorValid a \<longleftrightarrow> \<not> (ActorTenant a \<le> 0 \<or> ActorID a < 0 \<or> length (ActorName a) > 64 \<or> ActorName a = [] \<or>
     list_ex (\<lambda>c. c = CHR 0x0D \<or> c = CHR 0x0A) (ActorName a) \<or>
     (ActorSource a \<noteq> ''user'' \<and> ActorSource a \<noteq> ''local'') \<or> (ActorRole a \<noteq> ''admin'' \<and> ActorRole a \<noteq> ''member''))"

text \<open>Pruning, on the events newest first; \<open>n\<close> of the tenant have been seen.\<close>

fun keepAudit :: "int \<Rightarrow> int \<Rightarrow> int \<Rightarrow> audit_row list \<Rightarrow> audit_row list" where
  "keepAudit tenant oldest n [] = []"
| "keepAudit tenant oldest n (e # es) =
     (if au_tenant e \<noteq> tenant then e # keepAudit tenant oldest n es
      else if au_created_at e < oldest \<or> n \<ge> 10000 then keepAudit tenant oldest (n + 1) es
      else e # keepAudit tenant oldest (n + 1) es)"

definition Record :: "Actor option \<Rightarrow> int \<Rightarrow> store \<Rightarrow> string \<Rightarrow> string \<Rightarrow> string \<Rightarrow> store result" where
  "Record actor now d action resource i =
     (if \<not> ValidTarget action resource i then Inl AuditErrInput
      else case actor of None \<Rightarrow> Inr d
      | Some a \<Rightarrow>
          if \<not> actorValid a then Inl AuditErrInput
          else bindR (exec d ''CreateAuditEvent'' True (d\<lparr>audit_events := audit_events d @
                 [\<lparr>au_tenant = ActorTenant a, au_actor = ActorID a, au_action = action,
                   au_resource = resource, au_resource_id = i, au_created_at = now\<rparr>]\<rparr>)) (\<lambda>d'.
               exec d' ''PruneAuditEvents'' True (d'\<lparr>audit_events :=
                 rev (keepAudit (ActorTenant a) (now - 7776000) 0 (rev (audit_events d')))\<rparr>)))"

lemma Record_frame:
  assumes "Record actor now d action resource i = Inr d'"
  shows "\<exists>evs. d' = d\<lparr>audit_events := evs\<rparr>"
proof (cases actor)
  case None
  then have "d' = d\<lparr>audit_events := audit_events d\<rparr>" using assms by (simp add: Record_def split: if_splits)
  then show ?thesis ..
qed (use assms in \<open>auto simp: Record_def res_simps split: if_splits\<close>)

end
