(* ===== verification/Alloc_Store.thy ===== *)
theory Alloc_Store
  imports Store
begin

text \<open>
  The allocation queries of \<open>internal/storage/db/allocations.sql.go\<close>, one definition per statement,
  with the constraints of the schema on every insert.
\<close>

section \<open>Schemes\<close>

definition schemeGroup :: "store \<Rightarrow> scheme_row \<Rightarrow> group_row option" where
  "schemeGroup d s = first_of (\<lambda>g. g_id g = s_group s) (account_groups d)"

text \<open>The joins with \<open>account_groups\<close> return the row with the name of its pool.\<close>

definition GetAllocationScheme :: "store \<Rightarrow> int \<Rightarrow> (scheme_row \<times> string) result" where
  "GetAllocationScheme d i = queryRow d ''GetAllocationScheme''
     (case first_of (\<lambda>s. s_id s = i) (allocation_schemes d) of None \<Rightarrow> None
      | Some s \<Rightarrow> (case schemeGroup d s of None \<Rightarrow> None | Some g \<Rightarrow> Some (s, g_name g)))"

definition GetTenantAllocationScheme :: "store \<Rightarrow> int \<Rightarrow> int \<Rightarrow> (scheme_row \<times> string) result" where
  "GetTenantAllocationScheme d i tenant = queryRow d ''GetTenantAllocationScheme''
     (case first_of (\<lambda>s. s_id s = i) (allocation_schemes d) of None \<Rightarrow> None
      | Some s \<Rightarrow> (case schemeGroup d s of None \<Rightarrow> None
          | Some g \<Rightarrow> if g_tenant g = tenant then Some (s, g_name g) else None))"

definition tenantScheme :: "store \<Rightarrow> int \<Rightarrow> scheme_row \<Rightarrow> bool" where
  "tenantScheme d tenant s = (case schemeGroup d s of None \<Rightarrow> False | Some g \<Rightarrow> g_tenant g = tenant)"

definition ListAllocationSchemes :: "store \<Rightarrow> int \<Rightarrow> scheme_row list result" where
  "ListAllocationSchemes d tenant = query d ''ListAllocationSchemes''
     (sort_key s_id (filter (tenantScheme d tenant) (allocation_schemes d)))"

definition GetPoolAllocation :: "store \<Rightarrow> int \<Rightarrow> int result" where
  "GetPoolAllocation d grp = queryRow d ''GetPoolAllocation''
     (map_option s_id (first_of (\<lambda>s. s_group s = grp) (allocation_schemes d)))"

definition GetKeyAllocation :: "store \<Rightarrow> int \<Rightarrow> int result" where
  "GetKeyAllocation d key = queryRow d ''GetKeyAllocation'' (map_of (allocation_keys d) key)"

definition CanUseAllocation :: "store \<Rightarrow> int \<Rightarrow> int \<Rightarrow> bool result" where
  "CanUseAllocation d i user = query d ''CanUseAllocation''
     (list_ex (\<lambda>s. s_id s = i \<and> s_enabled s \<and> effective_group_access d user (s_group s)) (allocation_schemes d))"

text \<open>\<open>length(name) BETWEEN 1 AND 64\<close> and one scheme per pool.\<close>

definition CreateAllocationScheme :: "store \<Rightarrow> string \<Rightarrow> int \<Rightarrow> bool \<Rightarrow> int \<Rightarrow> (store \<times> int) result" where
  "CreateAllocationScheme d name grp enabled createdAt =
     (let i = scheme_seq d + 1 in
      exec d ''CreateAllocationScheme''
        (name \<noteq> [] \<and> list_ex (\<lambda>g. g_id g = grp) (account_groups d) \<and>
         \<not> list_ex (\<lambda>s. s_group s = grp) (allocation_schemes d))
        (d\<lparr>allocation_schemes := allocation_schemes d @
             [\<lparr>s_id = i, s_name = name, s_group = grp, s_enabled = enabled, s_created_at = createdAt\<rparr>],
           scheme_seq := i\<rparr>, i))"

definition UpdateAllocationScheme :: "store \<Rightarrow> int \<Rightarrow> string \<Rightarrow> bool \<Rightarrow> store result" where
  "UpdateAllocationScheme d i name enabled =
     exec d ''UpdateAllocationScheme'' (name \<noteq> [])
       (d\<lparr>allocation_schemes := map (\<lambda>s. if s_id s = i then s\<lparr>s_name := name, s_enabled := enabled\<rparr> else s)
            (allocation_schemes d)\<rparr>)"

section \<open>Revisions\<close>

text \<open>\<open>ORDER BY effective_at DESC,id DESC LIMIT 1\<close> and \<open>ORDER BY effective_at,id DESC LIMIT 1\<close>.\<close>

definition currentRow :: "store \<Rightarrow> int \<Rightarrow> int \<Rightarrow> revision_row option" where
  "currentRow d scheme at =
     (let rows = filter (\<lambda>r. r_scheme r = scheme \<and> r_effective_at r \<le> at) (allocation_revisions d)
      in case greatest r_effective_at rows of None \<Rightarrow> None
         | Some b \<Rightarrow> greatest r_id (filter (\<lambda>r. r_effective_at r = r_effective_at b) rows))"

definition CurrentAllocationRevision :: "store \<Rightarrow> int \<Rightarrow> int \<Rightarrow> revision_row result" where
  "CurrentAllocationRevision d scheme at = queryRow d ''CurrentAllocationRevision'' (currentRow d scheme at)"

definition nextRow :: "store \<Rightarrow> int \<Rightarrow> int \<Rightarrow> revision_row option" where
  "nextRow d scheme at =
     (let rows = filter (\<lambda>r. r_scheme r = scheme \<and> r_effective_at r > at) (allocation_revisions d)
      in case greatest (\<lambda>r. - r_effective_at r) rows of None \<Rightarrow> None
         | Some b \<Rightarrow> greatest r_id (filter (\<lambda>r. r_effective_at r = r_effective_at b) rows))"

definition NextAllocationRevision :: "store \<Rightarrow> int \<Rightarrow> int \<Rightarrow> revision_row result" where
  "NextAllocationRevision d scheme at = queryRow d ''NextAllocationRevision'' (nextRow d scheme at)"

definition GetAllocationRevision :: "store \<Rightarrow> int \<Rightarrow> revision_row result" where
  "GetAllocationRevision d i = queryRow d ''GetAllocationRevision'' (first_of (\<lambda>r. r_id r = i) (allocation_revisions d))"

text \<open>\<open>json_remove(config,'$.rates')\<close>: the stored rule without its rates.\<close>

definition AllocationReservationConfig :: "store \<Rightarrow> int \<Rightarrow> int \<Rightarrow> Config json result" where
  "AllocationReservationConfig d i scheme = queryRow d ''AllocationReservationConfig''
     (map_option (\<lambda>r. map_json (\<lambda>c. c\<lparr>Rates := []\<rparr>) (r_config r))
        (first_of (\<lambda>r. r_id r = i \<and> r_scheme r = scheme) (allocation_revisions d)))"

definition SaveAllocationRevision :: "store \<Rightarrow> int \<Rightarrow> int \<Rightarrow> int \<Rightarrow> Config \<Rightarrow> (store \<times> int) result" where
  "SaveAllocationRevision d scheme effectiveAt anchorAt config =
     (let i = revision_seq d + 1 in
      exec d ''SaveAllocationRevision''
        (list_ex (\<lambda>s. s_id s = scheme) (allocation_schemes d) \<and> anchorAt \<ge> 0)
        (d\<lparr>allocation_revisions := allocation_revisions d @
             [\<lparr>r_id = i, r_scheme = scheme, r_effective_at = effectiveAt, r_anchor_at = anchorAt, r_config = Json config\<rparr>],
           revision_seq := i\<rparr>, i))"

definition DeleteAllocationPendingAt :: "store \<Rightarrow> int \<Rightarrow> int \<Rightarrow> int \<Rightarrow> store result" where
  "DeleteAllocationPendingAt d scheme effectiveAt now =
     exec d ''DeleteAllocationPendingAt'' True
       (d\<lparr>allocation_revisions := filter (\<lambda>r. \<not> (r_scheme r = scheme \<and> r_effective_at r = effectiveAt \<and>
            r_effective_at r > now \<and> \<not> list_ex (\<lambda>e. e_revision e = r_id r) (allocation_entries d)))
          (allocation_revisions d)\<rparr>)"

section \<open>Entries\<close>

text \<open>The rows an accounting query ranges over.\<close>

definition inWindow :: "int \<Rightarrow> int \<Rightarrow> int \<Rightarrow> string \<Rightarrow> entry_row \<Rightarrow> bool" where
  "inWindow scheme from to mode e \<longleftrightarrow>
     e_scheme e = scheme \<and> from \<le> e_started_at e \<and> e_started_at e < to \<and> e_mode e = mode"

text \<open>\<open>LIMIT 4097\<close>: one more than the caller accepts.\<close>

definition AllocationActiveEntries :: "store \<Rightarrow> int \<Rightarrow> int \<Rightarrow> int \<Rightarrow> int \<Rightarrow> string \<Rightarrow> entry_row list result" where
  "AllocationActiveEntries d scheme user from to mode = query d ''AllocationActiveEntries''
     (take 4097 (sort_key e_request (filter (\<lambda>e. inWindow scheme from to mode e \<and>
        (user = 0 \<or> e_user e = user) \<and> e_state e = ''active'') (allocation_entries d))))"

text \<open>SQLite's \<open>sum\<close> of integers fails with an error when it overflows.\<close>

definition sumCost :: "entry_row list \<Rightarrow> int" where
  "sumCost es = (\<Sum>e\<leftarrow>es. e_cost e)"

definition AllocationGroupUsage :: "store \<Rightarrow> int \<Rightarrow> int \<Rightarrow> int \<Rightarrow> string \<Rightarrow> int result" where
  "AllocationGroupUsage d scheme from to mode =
     (let s = sumCost (filter (\<lambda>e. inWindow scheme from to mode e \<and> e_state e = ''settled'') (allocation_entries d))
      in exec d ''AllocationGroupUsage'' (in64 s) s)"

definition AllocationMemberUsage :: "store \<Rightarrow> int \<Rightarrow> int \<Rightarrow> int \<Rightarrow> int \<Rightarrow> string \<Rightarrow> (int \<times> int) result" where
  "AllocationMemberUsage d scheme user from to mode =
     (let es = filter (\<lambda>e. inWindow scheme from to mode e \<and> e_user e = user \<and> e_state e = ''settled'') (allocation_entries d);
          used = sumCost es; tokens = (\<Sum>e\<leftarrow>es. e_input_tokens e + e_output_tokens e)
      in exec d ''AllocationMemberUsage'' (in64 used \<and> in64 tokens) (used, tokens))"

definition AllocationMemberExposure :: "store \<Rightarrow> int \<Rightarrow> int \<Rightarrow> int \<Rightarrow> int \<Rightarrow> string \<Rightarrow> (int \<times> int) result" where
  "AllocationMemberExposure d scheme user from to mode =
     (let es = filter (\<lambda>e. inWindow scheme from to mode e \<and> e_user e = user) (allocation_entries d)
      in query d ''AllocationMemberExposure''
        (int (length (filter (\<lambda>e. e_state e = ''active'') es)), int (length (filter (\<lambda>e. e_state e = ''pending'') es))))"

definition AllocationMemberPending :: "store \<Rightarrow> int \<Rightarrow> int \<Rightarrow> int result" where
  "AllocationMemberPending d scheme user = query d ''AllocationMemberPending''
     (int (length (filter (\<lambda>e. e_scheme e = scheme \<and> e_user e = user \<and> e_state e = ''pending'') (allocation_entries d))))"

definition AllocationHasEntries :: "store \<Rightarrow> int \<Rightarrow> bool result" where
  "AllocationHasEntries d scheme = query d ''AllocationHasEntries''
     (list_ex (\<lambda>e. e_scheme e = scheme) (allocation_entries d))"

definition GetAllocationEntry :: "store \<Rightarrow> string \<Rightarrow> entry_row result" where
  "GetAllocationEntry d i = queryRow d ''GetAllocationEntry'' (first_of (\<lambda>e. e_request e = i) (allocation_entries d))"

definition ListAllocationPending :: "store \<Rightarrow> int \<Rightarrow> int \<Rightarrow> entry_row list result" where
  "ListAllocationPending d scheme user = query d ''ListAllocationPending''
     (take 256 (rev (sort_key e_started_at (sort_key e_request (filter (\<lambda>e. e_scheme e = scheme \<and>
        (user = 0 \<or> e_user e = user) \<and> e_state e = ''pending'') (allocation_entries d))))))"

definition BeginAllocationEntry :: "store \<Rightarrow> entry_row \<Rightarrow> store result" where
  "BeginAllocationEntry d e =
     exec d ''BeginAllocationEntry''
       (\<not> list_ex (\<lambda>x. e_request x = e_request e) (allocation_entries d) \<and>
        list_ex (\<lambda>s. s_id s = e_scheme e) (allocation_schemes d) \<and>
        list_ex (\<lambda>r. r_id r = e_revision e) (allocation_revisions d) \<and>
        list_ex (\<lambda>u. u_id u = e_user e) (users d) \<and> (e_mode e = ''tokens'' \<or> e_mode e = ''amount''))
       (d\<lparr>allocation_entries := allocation_entries d @
            [e\<lparr>e_finished_at := 0, e_state := ''active'', e_input_tokens := 0, e_output_tokens := 0,
               e_cached_tokens := 0, e_cost := 0, e_manual := False\<rparr>]\<rparr>)"

definition FinishAllocationEntry ::
    "store \<Rightarrow> string \<Rightarrow> int \<Rightarrow> string \<Rightarrow> int \<Rightarrow> int \<Rightarrow> int \<Rightarrow> int \<Rightarrow> bool \<Rightarrow> store result" where
  "FinishAllocationEntry d i finishedAt state input out cached cost manual =
     exec d ''FinishAllocationEntry'' (cost \<ge> 0)
       (d\<lparr>allocation_entries := map (\<lambda>e. if e_request e = i
            then e\<lparr>e_finished_at := finishedAt, e_state := state, e_input_tokens := input,
                   e_output_tokens := out, e_cached_tokens := cached, e_cost := cost, e_manual := manual\<rparr>
            else e) (allocation_entries d)\<rparr>)"

text \<open>
  Retention deletes at most 500 settled entries of closed periods; which ones is the scan order.
  The second component is the number of rows deleted.
\<close>

fun dropFirst :: "nat \<Rightarrow> ('a \<Rightarrow> bool) \<Rightarrow> 'a list \<Rightarrow> 'a list" where
  "dropFirst n P [] = []"
| "dropFirst n P (x # xs) =
     (if P x then (case n of 0 \<Rightarrow> x # xs | Suc k \<Rightarrow> dropFirst k P xs) else x # dropFirst n P xs)"

definition PruneAllocations :: "store \<Rightarrow> int \<Rightarrow> (store \<times> int) result" where
  "PruneAllocations d before =
     (let kept = dropFirst 500 (\<lambda>e. e_state e = ''settled'' \<and> e_reset_at e < before) (allocation_entries d)
      in exec d ''PruneAllocations'' True
        (d\<lparr>allocation_entries := kept\<rparr>, int (length (allocation_entries d)) - int (length kept)))"

definition RecoverAllocationEntries :: "store \<Rightarrow> int \<Rightarrow> store result" where
  "RecoverAllocationEntries d tenant =
     exec d ''RecoverAllocationEntries'' True
       (d\<lparr>allocation_entries := map (\<lambda>e. if e_state e = ''active'' \<and>
            list_ex (\<lambda>s. s_id s = e_scheme e \<and> tenantScheme d tenant s) (allocation_schemes d)
          then e\<lparr>e_state := ''pending''\<rparr> else e) (allocation_entries d)\<rparr>)"

section \<open>Keys and pools\<close>

definition BindExistingAllocationKeys :: "store \<Rightarrow> int \<Rightarrow> int \<Rightarrow> int \<Rightarrow> store result" where
  "BindExistingAllocationKeys d scheme grp user =
     exec d ''BindExistingAllocationKeys'' True
       (d\<lparr>allocation_keys := allocation_keys d @ map (\<lambda>k. (k_id k, scheme))
            (filter (\<lambda>k. k_group k = grp \<and> k_user k = user \<and> k_revoked_at k = None \<and>
               map_of (allocation_keys d) (k_id k) = None) (api_keys d))\<rparr>)"

definition BindKeyAllocation :: "store \<Rightarrow> int \<Rightarrow> int \<Rightarrow> store result" where
  "BindKeyAllocation d key scheme =
     exec d ''BindKeyAllocation'' (map_of (allocation_keys d) key = None \<and>
        list_ex (\<lambda>k. k_id k = key) (api_keys d) \<and> list_ex (\<lambda>s. s_id s = scheme) (allocation_schemes d))
       (d\<lparr>allocation_keys := allocation_keys d @ [(key, scheme)]\<rparr>)"

text \<open>The accounts of a pool, each with the number of other pools it is in.\<close>

definition AllocationPoolAccounts :: "store \<Rightarrow> int \<Rightarrow> (string \<times> int) list result" where
  "AllocationPoolAccounts d grp = query d ''AllocationPoolAccounts''
     (map (\<lambda>a. (a_id a, int (length (filter (\<lambda>ga. snd ga = a_id a \<and> fst ga \<noteq> grp) (group_accounts d)))))
        (sort_key a_id (poolAccounts d grp)))"

definition ListGroupCatalogs :: "store \<Rightarrow> int \<Rightarrow> account_row list result" where
  "ListGroupCatalogs d grp = query d ''ListGroupCatalogs''
     (sort_key a_id (filter (\<lambda>a. a_enabled a \<and> a_status a \<noteq> ''reauth_required'') (poolAccounts d grp)))"

definition AccountHasAllocation :: "store \<Rightarrow> string \<Rightarrow> bool result" where
  "AccountHasAllocation d account = query d ''AccountHasAllocation''
     (list_ex (\<lambda>ga. snd ga = account \<and> list_ex (\<lambda>s. s_group s = fst ga) (allocation_schemes d)) (group_accounts d))"

end
