(* ===== verification/Alloc_Accounting.thy ===== *)
theory Alloc_Accounting
  imports Alloc_Store
begin

text \<open>
  Admission and settlement (\<open>internal/allocations/runtime.go\<close>, \<open>internal/allocations/accounting.go\<close>):
  the revision in force, the usage and outstanding reservations of a window, the check a request
  passes, and the life of its entry.
\<close>

lemma Unmarshal_Inr [res_simps]: "Unmarshal raw = Inr v \<longleftrightarrow> raw = Json v"
  by (cases raw) auto

lemma map_json_Json [res_simps]: "map_json f raw = Json v \<longleftrightarrow> (\<exists>u. raw = Json u \<and> v = f u)"
  by (cases raw) auto

section \<open>The revision in force\<close>

definition decodeRevision :: "int \<Rightarrow> int \<Rightarrow> Config json \<Rightarrow> Revision result" where
  "decodeRevision i at raw =
     bindR (Unmarshal raw) (\<lambda>c.
     guardR (Alloc AErrInput) (\<not> validPeriod c) (
     Inr \<lparr>RevID = i, EffectiveAt = at, AccountingAnchorAt = at, RevConfig = c, RevCoverage = noCoverage\<rparr>))"

definition storedRevision :: "revision_row \<Rightarrow> Revision result" where
  "storedRevision row =
     bindR (decodeRevision (r_id row) (r_effective_at row) (r_config row)) (\<lambda>r.
     Inr (r\<lparr>AccountingAnchorAt := r_anchor_at row\<rparr>))"

definition Current :: "store \<Rightarrow> int \<Rightarrow> int \<Rightarrow> Revision result" where
  "Current d i now = (case CurrentAllocationRevision d i now of
     Inl e \<Rightarrow> if errorsIs e NoRows then Inl (Alloc AErrUnavailable) else Inl e
   | Inr r \<Rightarrow> storedRevision r)"

definition Authorize :: "store \<Rightarrow> int \<Rightarrow> int \<Rightarrow> int \<Rightarrow> int \<Rightarrow> Revision result" where
  "Authorize d scheme user grp now = (case GetAllocationScheme d scheme of
     Inl e \<Rightarrow> Inl (Alloc AErrUnavailable)
   | Inr row \<Rightarrow>
       if s_group (fst row) \<noteq> grp then Inl (Alloc AErrUnavailable)
       else bindR (CanUseAllocation d scheme user) (\<lambda>allowed.
         guardR (Alloc AErrUnavailable) (\<not> allowed) (
         bindR (Current d scheme now) (\<lambda>rv.
         if list_ex (\<lambda>m. UserID m = user) (Members (RevConfig rv)) then Inr rv
         else Inl (Alloc AErrUnavailable)))))"

text \<open>Zero stands for a pool without a scheme.\<close>

definition KeyScheme :: "store \<Rightarrow> int \<Rightarrow> int \<Rightarrow> int \<Rightarrow> int \<Rightarrow> int result" where
  "KeyScheme d key user grp now = (case GetKeyAllocation d key of
     Inl e \<Rightarrow>
       if errorsIs e NoRows then
         (case GetPoolAllocation d grp of
            Inr i \<Rightarrow> Inl (Alloc AErrUnavailable)
          | Inl e' \<Rightarrow> if \<not> errorsIs e' NoRows then Inl e' else Inr 0)
       else Inl e
   | Inr i \<Rightarrow> bindR (Authorize d i user grp now) (\<lambda>_. Inr i))"

section \<open>Accounting of a snapshot\<close>

record sharedUsage = g_used :: int  g_held :: int  g_room :: int

text \<open>
  The calculation owns its snapshot: the active rows of a scope, the captured rules and the usage
  of the pool are each read once. Scope 0 is the whole pool.
\<close>

record accounting =
  ac_store :: store
  ac_scheme :: int
  ac_config :: Config
  ac_windows :: "allocationWindow list"
  ac_active :: "int \<rightharpoonup> entry_row list"
  ac_captured :: "int \<rightharpoonup> Config"
  ac_groups :: "allocationWindow \<rightharpoonup> sharedUsage"

definition newAccounting :: "store \<Rightarrow> int \<Rightarrow> Revision \<Rightarrow> allocationWindow list \<Rightarrow> accounting" where
  "newAccounting d scheme rv ws =
     \<lparr>ac_store = d, ac_scheme = scheme, ac_config = RevConfig rv, ac_windows = ws,
      ac_active = Map.empty, ac_captured = [RevID rv \<mapsto> RevConfig rv], ac_groups = Map.empty\<rparr>"

text \<open>The time span of the windows that limit a scope, or \<open>None\<close> when none does.\<close>

definition entrySpan :: "int \<Rightarrow> Config \<Rightarrow> Share \<Rightarrow> allocationWindow list \<Rightarrow> (int \<times> int) option" where
  "entrySpan scope config member ws =
     foldl (\<lambda>span w.
        if scope \<noteq> 0 \<and> Mode config = ''windows'' \<and> memberLimit config member w = 0 then span
        else case span of None \<Rightarrow> Some (start w, stop w)
             | Some (from, to) \<Rightarrow> Some (min from (start w), max to (stop w))) None ws"

definition entries :: "accounting \<Rightarrow> int \<Rightarrow> Share \<Rightarrow> Config \<Rightarrow> (accounting \<times> entry_row list) result" where
  "entries a user member config =
     (let scope = (if Mode (ac_config a) = ''ratio'' then 0 else user) in
      case ac_active a scope of Some rows \<Rightarrow> Inr (a, rows)
      | None \<Rightarrow> (case entrySpan scope config member (ac_windows a) of
          None \<Rightarrow> Inr (a\<lparr>ac_active := (ac_active a)(scope \<mapsto> [])\<rparr>, [])
        | Some (from, to) \<Rightarrow>
            bindR (AllocationActiveEntries (ac_store a) (ac_scheme a) scope from to (entryMode (ac_config a))) (\<lambda>rows.
            guardR (Alloc AErrRisk) (length rows > 4096) (
            Inr (a\<lparr>ac_active := (ac_active a)(scope \<mapsto> rows)\<rparr>, rows)))))"

definition capture :: "accounting \<Rightarrow> int \<Rightarrow> (accounting \<times> Config) result" where
  "capture a revision = (case ac_captured a revision of Some config \<Rightarrow> Inr (a, config)
     | None \<Rightarrow>
         bindR (AllocationReservationConfig (ac_store a) revision (ac_scheme a)) (\<lambda>raw.
         bindR (Unmarshal raw) (\<lambda>config.
         Inr (a\<lparr>ac_captured := (ac_captured a)(revision \<mapsto> config)\<rparr>, config))))"

text \<open>Admission captured the cap: the window limit of the captured rule, the last match winning.\<close>

definition capturedWindow :: "Config \<Rightarrow> allocationWindow \<Rightarrow> allocationWindow" where
  "capturedWindow captured w =
     foldl (\<lambda>cw condition. if W_DurationSeconds condition = seconds w then cw\<lparr>limit := W_Limit condition\<rparr> else cw)
       w (Windows captured)"

text \<open>What an active entry holds of a window.\<close>

definition lease :: "Config \<Rightarrow> allocationWindow \<Rightarrow> int \<Rightarrow> int" where
  "lease captured w user = (case first_of (\<lambda>m. UserID m = user) (Members captured) of
     None \<Rightarrow> 0
   | Some m \<Rightarrow> (let lim = memberLimit captured m (capturedWindow captured w)
       in if Mode captured \<noteq> ''windows'' \<or> lim \<noteq> 0 then reservation lim else 0))"

definition reserveRow ::
    "int \<Rightarrow> allocationWindow \<Rightarrow> accounting \<times> int \<times> int \<Rightarrow> entry_row \<Rightarrow> (accounting \<times> int \<times> int) result" where
  "reserveRow user w s row =
     (case s of (a, active, held) \<Rightarrow>
        if e_started_at row < start w \<or> e_started_at row \<ge> stop w \<or> user \<noteq> 0 \<and> e_user row \<noteq> user
        then Inr (a, active, held)
        else bindR (capture a (e_revision row)) (\<lambda>(a, captured).
          Inr (a, wrap64 (active + 1), wrap64 (held + lease captured w (e_user row)))))"

definition reservations ::
    "accounting \<Rightarrow> int \<Rightarrow> Share \<Rightarrow> Config \<Rightarrow> allocationWindow \<Rightarrow> (accounting \<times> int \<times> int) result" where
  "reservations a user member config w =
     bindR (entries a user member config) (\<lambda>(a, rows). foldR (reserveRow user w) (a, 0, 0) rows)"

definition groupUsage :: "accounting \<Rightarrow> allocationWindow \<Rightarrow> (accounting \<times> sharedUsage) result" where
  "groupUsage a w = (case ac_groups a w of Some u \<Rightarrow> Inr (a, u)
     | None \<Rightarrow>
         bindR (AllocationGroupUsage (ac_store a) (ac_scheme a) (start w) (stop w) (entryMode (ac_config a))) (\<lambda>used.
         bindR (reservations a 0 \<lparr>UserID = 0, Limit = 0, WindowOverrides = []\<rparr> (ac_config a) w) (\<lambda>(a, active, held).
         let lim = windowTotal w (ac_config a);
             room = max 0 (wrap64 (wrap64 (wrap64 (lim + reservation lim) - used) - held));
             u = \<lparr>g_used = used, g_held = held, g_room = room\<rparr>
         in Inr (a\<lparr>ac_groups := (ac_groups a)(w \<mapsto> u)\<rparr>, u))))"

record riskBudget = reserved :: int  room :: int  limited :: bool

record memberWindowUsage =
  mu_window :: allocationWindow
  mu_limit :: int
  mu_unlimited :: bool
  mu_used :: int
  mu_tokens :: int
  mu_active :: int
  mu_pending :: int
  mu_risk :: riskBudget

abbreviation maxOutstandingRiskRequests :: int where
  "maxOutstandingRiskRequests \<equiv> 4"

definition memberUsage ::
    "accounting \<Rightarrow> Share \<Rightarrow> Config \<Rightarrow> allocationWindow \<Rightarrow> (accounting \<times> memberWindowUsage) result" where
  "memberUsage a m config w =
     (let mode = entryMode config in
      bindR (AllocationMemberUsage (ac_store a) (ac_scheme a) (UserID m) (start w) (stop w) mode) (\<lambda>usage.
      bindR (AllocationMemberExposure (ac_store a) (ac_scheme a) (UserID m) (start w) (stop w) mode) (\<lambda>exposure.
      let lim = memberLimit config m w;
          unlimited = (Mode config = ''windows'' \<and> lim = 0);
          out = (\<lambda>risk. \<lparr>mu_window = w, mu_limit = lim, mu_unlimited = unlimited, mu_used = fst usage,
             mu_tokens = snd usage, mu_active = fst exposure, mu_pending = snd exposure, mu_risk = risk\<rparr>)
      in if unlimited then Inr (a, out \<lparr>reserved = 0, room = 0, limited = False\<rparr>)
         else bindR (reservations a (UserID m) m config w) (\<lambda>(a, active, held).
           let perRequest = reservation lim;
               rm = max 0 (wrap64 (wrap64 (wrap64 (lim + perRequest) - fst usage) - held))
           in Inr (a, out \<lparr>reserved = held, room = rm,
                limited = (active \<ge> maxOutstandingRiskRequests \<or> rm < perRequest)\<rparr>)))))"

section \<open>Admission\<close>

definition checkWindow ::
    "Config \<Rightarrow> Share \<Rightarrow> accounting \<times> bool \<Rightarrow> allocationWindow \<Rightarrow> (accounting \<times> bool) result" where
  "checkWindow config m ar w =
     bindR (memberUsage (fst ar) m config w) (\<lambda>(a, state).
     guardR (Alloc AErrQuota) (\<not> mu_unlimited state \<and> mu_used state \<ge> mu_limit state) (
     if Mode config = ''ratio'' then
       bindR (groupUsage a w) (\<lambda>(a, grp).
       guardR (Alloc AErrQuota) (g_used grp \<ge> windowTotal w config) (
       Inr (a, snd ar \<or> g_room grp < reservation (mu_limit state) \<or> limited (mu_risk state))))
     else Inr (a, snd ar \<or> limited (mu_risk state))))"

definition checkMember ::
    "Config \<Rightarrow> allocationWindow list \<Rightarrow> accounting \<Rightarrow> Share \<Rightarrow> accounting result" where
  "checkMember config ws a m =
     bindR (foldR (checkWindow config m) (a, False) ws) (\<lambda>(a, riskLimited).
     guardR (Alloc AErrRisk) riskLimited (Inr a))"

definition Check :: "store \<Rightarrow> int \<Rightarrow> int \<Rightarrow> int \<Rightarrow> string \<Rightarrow> int \<Rightarrow> location \<Rightarrow> Revision result" where
  "Check d scheme user grp model now loc =
     bindR (Authorize d scheme user grp now) (\<lambda>rv.
     bindR (if entryMode (RevConfig rv) = ''amount'' then bindR (rateFor (RevConfig rv) model) (\<lambda>_. Inr ()) else Inr ()) (\<lambda>_.
     let ws = effectiveWindows rv now loc in
     bindR (foldR (checkMember (RevConfig rv) ws) (newAccounting d scheme rv ws)
              (filter (\<lambda>m. UserID m = user) (Members (RevConfig rv)))) (\<lambda>_.
     Inr rv)))"

record Request =
  RequestID :: string
  SchemeID :: int
  RequestUser :: int
  GroupID :: int
  AccountID :: string
  RequestModel :: string
  StartedAt :: int

definition newEntry :: "Request \<Rightarrow> Revision \<Rightarrow> int \<times> int \<Rightarrow> entry_row" where
  "newEntry r rv w =
     \<lparr>e_request = RequestID r, e_scheme = SchemeID r, e_revision = RevID rv, e_user = RequestUser r,
      e_account = AccountID r, e_model = RequestModel r, e_mode = entryMode (RevConfig rv),
      e_window_start = fst w, e_reset_at = snd w, e_started_at = StartedAt r, e_finished_at = 0,
      e_state = ''active'', e_input_tokens = 0, e_output_tokens = 0, e_cached_tokens = 0, e_cost = 0, e_manual = False\<rparr>"

definition Begin :: "store \<Rightarrow> Request \<Rightarrow> int \<Rightarrow> location \<Rightarrow> store result" where
  "Begin d r now loc =
     bindR (Check d (SchemeID r) (RequestUser r) (GroupID r) (RequestModel r) now loc) (\<lambda>rv.
     BeginAllocationEntry d (newEntry r rv (effectiveWindow rv now loc)))"

section \<open>Settlement\<close>

record Completion =
  Input :: int
  Output :: int
  Cached :: int
  Known :: bool
  Dispatched :: bool
  Rejected :: bool

definition completionCost :: "store \<Rightarrow> entry_row \<Rightarrow> Completion \<Rightarrow> int result" where
  "completionCost d e c =
     (if e_mode e \<noteq> ''tokens'' then
        bindR (GetAllocationRevision d (e_revision e)) (\<lambda>row.
        bindR (storedRevision row) (\<lambda>rv.
        bindR (rateFor (RevConfig rv) (e_model e)) (\<lambda>rate.
        Cost rate (Input c) (Output c) (Cached c))))
      else Inr (wrap64 (Input c + Output c)))"

definition Finish :: "store \<Rightarrow> string \<Rightarrow> Completion \<Rightarrow> int \<Rightarrow> bool \<Rightarrow> store result" where
  "Finish d i c now manual =
     bindR (GetAllocationEntry d i) (\<lambda>e.
     if \<not> manual \<and> e_state e \<noteq> ''active'' then Inr d
     else if manual \<and> e_state e = ''settled'' \<and> e_manual e \<and> e_input_tokens e = Input c \<and>
       e_output_tokens e = Output c \<and> e_cached_tokens e = Cached c then Inr d
     else guardR (Alloc AErrSettlement)
       (manual \<and> (e_state e \<noteq> ''pending'' \<or> Input c < e_input_tokens e \<or> Output c < e_output_tokens e)) (
     let state = (if Dispatched c \<and> \<not> Rejected c \<and> \<not> Known c then ''pending'' else ''settled'') in
     guardR (Alloc AErrInput)
       (Input c < 0 \<or> Output c < 0 \<or> Cached c < 0 \<or> Cached c > Input c \<or>
        Input c > 1000000000 \<or> Output c > 1000000000) (
     bindR (completionCost d e c) (\<lambda>cost.
     FinishAllocationEntry d i now state (Input c) (Output c) (Cached c)
       (if state = ''pending'' then 0 else cost) manual))))"

text \<open>\<open>Service.Settle\<close>: an administrator's correction of a pending entry, in one transaction.\<close>

definition Settle :: "Actor option \<Rightarrow> int \<Rightarrow> store \<Rightarrow> int \<Rightarrow> string \<Rightarrow> Completion \<Rightarrow> int \<Rightarrow> store result" where
  "Settle actor tenant d scheme i c nowMilli =
     bindR (query d ''BeginTx'' ()) (\<lambda>_.
     case GetTenantAllocationScheme d scheme tenant of Inl e \<Rightarrow> Inl (Alloc AErrNotFound)
     | Inr row \<Rightarrow>
     (case GetAllocationEntry d i of Inl e \<Rightarrow> Inl (Alloc AErrSettlement)
      | Inr e \<Rightarrow>
          guardR (Alloc AErrSettlement) (e_scheme e \<noteq> scheme) (
          bindR (Finish d i (c\<lparr>Known := True, Dispatched := True\<rparr>) nowMilli True) (\<lambda>d.
          bindR (Record actor (nowMilli sdiv 1000) d ''allocation.settle'' ''allocation'' (FormatInt scheme)) (\<lambda>d.
          bindR (query d ''Commit'' ()) (\<lambda>_. Inr d))))))"

definition Prune :: "store \<Rightarrow> int \<Rightarrow> (store \<times> int) result" where
  "Prune d before = PruneAllocations d before"

section \<open>Reference usage of a window\<close>

text \<open>
  What the caches compute, read directly off the tables. User 0 is the whole pool.
\<close>

definition activeIn :: "store \<Rightarrow> int \<Rightarrow> int \<Rightarrow> allocationWindow \<Rightarrow> string \<Rightarrow> entry_row list" where
  "activeIn d scheme user w mode = filter (\<lambda>e. inWindow scheme (start w) (stop w) mode e \<and>
     (user = 0 \<or> e_user e = user) \<and> e_state e = ''active'') (allocation_entries d)"

definition usedIn :: "store \<Rightarrow> int \<Rightarrow> int \<Rightarrow> allocationWindow \<Rightarrow> string \<Rightarrow> int" where
  "usedIn d scheme user w mode = sumCost (filter (\<lambda>e. inWindow scheme (start w) (stop w) mode e \<and>
     (user = 0 \<or> e_user e = user) \<and> e_state e = ''settled'') (allocation_entries d))"

definition capturedOf :: "store \<Rightarrow> int \<Rightarrow> int \<Rightarrow> Config option" where
  "capturedOf d scheme i = (case first_of (\<lambda>r. r_id r = i \<and> r_scheme r = scheme) (allocation_revisions d) of
     None \<Rightarrow> None | Some r \<Rightarrow> (case r_config r of Json c \<Rightarrow> Some c | Malformed \<Rightarrow> None))"

definition leaseOf :: "store \<Rightarrow> int \<Rightarrow> allocationWindow \<Rightarrow> entry_row \<Rightarrow> int" where
  "leaseOf d scheme w e = (case capturedOf d scheme (e_revision e) of None \<Rightarrow> 0 | Some c \<Rightarrow> lease c w (e_user e))"

definition heldIn :: "store \<Rightarrow> int \<Rightarrow> int \<Rightarrow> allocationWindow \<Rightarrow> string \<Rightarrow> int" where
  "heldIn d scheme user w mode = (\<Sum>e\<leftarrow>activeIn d scheme user w mode. leaseOf d scheme w e)"

text \<open>The tables as the code leaves them: keys are unique, rules are normalised and anchored no later
  than they take effect, costs are not negative.\<close>

definition revisionOK :: "revision_row \<Rightarrow> bool" where
  "revisionOK r \<longleftrightarrow> 0 \<le> r_anchor_at r \<and> r_anchor_at r \<le> r_effective_at r \<and>
     (case r_config r of Json c \<Rightarrow> wfConfig c | Malformed \<Rightarrow> False)"

definition storeOK :: "store \<Rightarrow> int \<Rightarrow> bool" where
  "storeOK d scheme \<longleftrightarrow>
     distinct (map r_id (allocation_revisions d)) \<and>
     list_all (\<lambda>r. r_scheme r = scheme \<longrightarrow> revisionOK r) (allocation_revisions d) \<and>
     list_all (\<lambda>e. 0 \<le> e_cost e) (allocation_entries d)"

section \<open>Leases\<close>

lemma memberLimit_rates [simp]: "memberLimit (c\<lparr>Rates := rs\<rparr>) m w = memberLimit c m w"
  by (simp add: memberLimit_def)

lemma capturedWindow_rates [simp]: "capturedWindow (c\<lparr>Rates := rs\<rparr>) w = capturedWindow c w"
  by (simp add: capturedWindow_def)

lemma lease_rates [simp]: "lease (c\<lparr>Rates := rs\<rparr>) w u = lease c w u"
  by (simp add: lease_def split: option.split)

lemma foldl_limit:
  "limit (foldl (\<lambda>cw x. if P x then cw\<lparr>limit := f x\<rparr> else cw) w xs) \<in> insert (limit w) (f ` set xs)"
proof (induction xs arbitrary: w)
  case (Cons x xs)
  show ?case using Cons.IH [of "if P x then w\<lparr>limit := f x\<rparr> else w"] by (auto split: if_splits)
qed simp

lemma capturedWindow_limit:
  assumes "wfConfig c" "0 \<le> limit w" "limit w \<le> maxAmount"
  shows "0 \<le> limit (capturedWindow c w)" "limit (capturedWindow c w) \<le> maxAmount"
proof -
  have "limit (capturedWindow c w) \<in> insert (limit w) (W_Limit ` set (Windows c))"
    unfolding capturedWindow_def by (rule foldl_limit)
  then show "0 \<le> limit (capturedWindow c w)" "limit (capturedWindow c w) \<le> maxAmount"
    using assms wfConfig_windows [OF assms(1)] by (auto simp: wfWindow_def)
qed

lemma lease_range:
  assumes "wfConfig c" "0 \<le> limit w" "limit w \<le> maxAmount"
  shows "0 \<le> lease c w u" "lease c w u \<le> maxAmount"
proof -
  have "0 \<le> lease c w u \<and> lease c w u \<le> maxAmount"
  proof (cases "first_of (\<lambda>m. UserID m = u) (Members c)")
    case (Some m)
    then have "m \<in> set (Members c)" using first_of_SomeD by fast
    from memberLimit_range' [OF assms(1) capturedWindow_limit [OF assms] this]
    show ?thesis using Some reservation_range(1) reservation_ge1 order_trans [of 0 1 "reservation _"]
      by (auto simp: lease_def Let_def)
  qed (simp add: lease_def)
  then show "0 \<le> lease c w u" "lease c w u \<le> maxAmount" by auto
qed

lemma capturedWindow_same:
  assumes "wfConfig c" "windowOf c w"
  shows "limit (capturedWindow c w) = limit w"
proof -
  have "limit (foldl (\<lambda>cw x. if W_DurationSeconds x = seconds w then cw\<lparr>limit := W_Limit x\<rparr> else cw) v xs) = limit w"
    if "limit v = limit w" "\<And>x. x \<in> set xs \<Longrightarrow> W_DurationSeconds x = seconds w \<Longrightarrow> W_Limit x = limit w"
    for v :: allocationWindow and xs
    using that by (induction xs arbitrary: v) auto
  moreover have "W_Limit x = limit w" if x: "x \<in> set (Windows c)" "W_DurationSeconds x = seconds w" for x
  proof (cases "Period c = ''durations''")
    case True
    then obtain y where y: "y \<in> set (Windows c)" "W_DurationSeconds y = seconds w" "W_Limit y = limit w"
      using assms(2) by (auto simp: windowOf_def list_ex_iff)
    have "distinct (map W_DurationSeconds (Windows c))" using assms(1) unfolding wfConfig_def by blast
    then have "x = y" using x y unfolding distinct_map inj_on_def by metis
    with y show ?thesis by simp
  next
    case False
    then have "Windows c = []" using assms(1) unfolding wfConfig_def by metis
    with x show ?thesis by simp
  qed
  ultimately show ?thesis unfolding capturedWindow_def by blast
qed

lemma memberLimit_cong_limit: "limit w = limit v \<Longrightarrow> seconds w = seconds v \<Longrightarrow> memberLimit c m w = memberLimit c m v"
  by (simp add: memberLimit_def split: option.split)

lemma capturedWindow_seconds: "seconds (capturedWindow c w) = seconds w"
proof -
  have "seconds (foldl (\<lambda>cw x. if P x then cw\<lparr>limit := f x\<rparr> else cw) v xs) = seconds v"
    for P :: "WindowCondition \<Rightarrow> bool" and f xs and v :: allocationWindow
    by (induction xs arbitrary: v) auto
  then show ?thesis unfolding capturedWindow_def .
qed

text \<open>An entry admitted under a rule holds one reservation of its member's limit in a window of that rule.\<close>

lemma lease_current:
  assumes "wfConfig c" "windowOf c w" "m \<in> set (Members c)"
  shows "lease c w (UserID m) =
    (if Mode c \<noteq> ''windows'' \<or> memberLimit c m w \<noteq> 0 then reservation (memberLimit c m w) else 0)"
proof -
  have d: "distinct (map UserID (Members c))" using assms(1) unfolding wfConfig_def by blast
  obtain m' where f: "first_of (\<lambda>x. UserID x = UserID m) (Members c) = Some m'"
    using assms(3) first_of_None_iff [of "\<lambda>x. UserID x = UserID m" "Members c"]
    by (cases "first_of (\<lambda>x. UserID x = UserID m) (Members c)") auto
  then have "m' \<in> set (Members c)" "UserID m' = UserID m" using first_of_SomeD by fastforce+
  with d assms(3) have "m' = m" unfolding distinct_map inj_on_def by metis
  moreover have "memberLimit c m (capturedWindow c w) = memberLimit c m w"
    by (rule memberLimit_cong_limit) (simp_all add: capturedWindow_same [OF assms(1,2)] capturedWindow_seconds)
  ultimately show ?thesis using f by (simp add: lease_def Let_def)
qed

end
