(* ===== verification/Alloc_Pricing.thy ===== *)
theory Alloc_Pricing
  imports Alloc_Accounting
begin

text \<open>
  Prices of a rule: the price catalog lookup (\<open>internal/pricing/service.go\<close>), the models of a pool
  and the price coverage of a revision (\<open>internal/allocations/allocations.go\<close>).
\<close>

section \<open>The price catalog\<close>

record Price =
  P_Input :: int
  P_Cached :: int
  P_Output :: int

type_synonym prices = "(string \<times> Price) list"

text \<open>Model identifiers are ASCII, on which \<open>strings.ToLower\<close> maps the letters.\<close>

definition toLower :: "char \<Rightarrow> char" where
  "toLower c = (let n = of_char c :: nat in if 65 \<le> n \<and> n \<le> 90 then char_of (n + 32) else c)"

definition TrimSuffix :: "string \<Rightarrow> string \<Rightarrow> string" where
  "TrimSuffix s suf = (if suffix suf s then take (length s - length suf) s else s)"

definition normalizeModel :: "string \<Rightarrow> string" where
  "normalizeModel model =
     (let cut = Cut (TrimSpace model);
          model = (if snd (snd cut) \<and> fst cut \<noteq> [] then fst (snd cut) else model);
          i = length (takeWhile (\<lambda>c. c \<noteq> CHR ''('') model);
          model = (if 0 < i \<and> i < length model then take i model else model)
      in TrimSpace model)"

definition Lookup :: "prices \<Rightarrow> string \<Rightarrow> Price option" where
  "Lookup ps model =
     (let model = normalizeModel model in
      case first_of (\<lambda>candidate. map_of ps (map toLower candidate) \<noteq> None)
             [model, TrimSuffix model ''-high'', TrimSuffix model ''-xhigh''] of
        None \<Rightarrow> None | Some candidate \<Rightarrow> map_of ps (map toLower candidate))"

section \<open>The models of a pool\<close>

record poolModelCatalog =
  pm_policy :: ModelPolicy
  pm_models :: "string list"
  pm_visible :: "string list"
  pm_unavailable :: bool

definition emptyPool :: "bool \<Rightarrow> string list \<Rightarrow> poolModelCatalog" where
  "emptyPool restricted allowed =
     \<lparr>pm_policy = \<lparr>Routing' = noRouting, HasSubscriptions = False, Restricted = restricted, Models = allowed\<rparr>,
      pm_models = [], pm_visible = [], pm_unavailable = False\<rparr>"

text \<open>
  A model is native and listed once; it is visible when some permitted account does not hide it.
  The \<open>seen\<close> map of the callers holds exactly the models listed so far.
\<close>

definition addModel :: "string \<Rightarrow> Catalog \<Rightarrow> poolModelCatalog \<Rightarrow> string \<Rightarrow> poolModelCatalog" where
  "addModel provider account catalog model =
     (let native = snd (SplitModel model) in
      if \<not> Allows (pm_policy catalog) (provider @ ''/'' @ native) then catalog
      else let catalog = (if model \<notin> set (HiddenModels account)
                 then catalog\<lparr>pm_visible := List.insert native (pm_visible catalog)\<rparr> else catalog)
           in if native \<in> set (pm_models catalog) then catalog
              else catalog\<lparr>pm_models := pm_models catalog @ [native]\<rparr>)"

definition addAccount :: "poolModelCatalog \<Rightarrow> string \<Rightarrow> snapshot \<Rightarrow> int \<Rightarrow> poolModelCatalog" where
  "addAccount catalog provider raw revision = (case DecodeCatalog raw revision of
     Inl e \<Rightarrow> catalog\<lparr>pm_unavailable := True\<rparr>
   | Inr account \<Rightarrow>
       if UpdatedAt account = 0 then catalog\<lparr>pm_unavailable := True\<rparr>
       else foldl (addModel provider account) catalog (C_Models account))"

definition loadPoolModelCatalog :: "store \<Rightarrow> int \<Rightarrow> poolModelCatalog result" where
  "loadPoolModelCatalog d grp =
     bindR (GetGroup d grp) (\<lambda>g.
     bindR (ListGroupModels d grp) (\<lambda>allowed.
     bindR (ListGroupCatalogs d grp) (\<lambda>rows.
     let catalog = foldl (\<lambda>c row. addAccount c (a_provider row) (a_models_snapshot row) (a_models_revision row))
           (emptyPool (g_restricted_models g) allowed) rows
     in Inr (catalog\<lparr>pm_models := sort (pm_models catalog)\<rparr>))))"

section \<open>The models of every managed pool\<close>

definition managedPools :: "store \<Rightarrow> int \<Rightarrow> group_row list" where
  "managedPools d tenant = sort_key g_id
     (filter (\<lambda>g. g_tenant g = tenant \<and> list_ex (\<lambda>s. s_group s = g_id g) (allocation_schemes d)) (account_groups d))"

definition ListAllocationPoolPolicies :: "store \<Rightarrow> int \<Rightarrow> (int \<times> bool) list result" where
  "ListAllocationPoolPolicies d tenant = query d ''ListAllocationPoolPolicies''
     (map (\<lambda>g. (g_id g, g_restricted_models g)) (managedPools d tenant))"

definition ListAllocationPoolModels :: "store \<Rightarrow> int \<Rightarrow> (int \<times> string) list result" where
  "ListAllocationPoolModels d tenant = query d ''ListAllocationPoolModels''
     (concat (map (\<lambda>g. map (Pair (g_id g)) (sort (map snd (filter (\<lambda>gm. fst gm = g_id g) (group_models d)))))
        (managedPools d tenant)))"

definition ListAllocationPoolCatalogs :: "store \<Rightarrow> int \<Rightarrow> (int \<times> account_row) list result" where
  "ListAllocationPoolCatalogs d tenant = query d ''ListAllocationPoolCatalogs''
     (concat (map (\<lambda>g. map (Pair (g_id g))
          (sort_key a_id (filter (\<lambda>a. a_enabled a \<and> a_status a \<noteq> ''reauth_required'') (poolAccounts d (g_id g)))))
        (managedPools d tenant)))"

text \<open>A row of a pool without a policy is reported as an error of the load.\<close>

definition addPoolModel ::
    "(int \<rightharpoonup> poolModelCatalog) \<Rightarrow> int \<times> string \<Rightarrow> (int \<rightharpoonup> poolModelCatalog) result" where
  "addPoolModel catalogs row = (case catalogs (fst row) of
     None \<Rightarrow> Inl StoreError
   | Some c \<Rightarrow> Inr (catalogs(fst row \<mapsto>
       c\<lparr>pm_policy := (pm_policy c)\<lparr>Models := Models (pm_policy c) @ [snd row]\<rparr>\<rparr>)))"

definition addPoolAccount ::
    "(int \<rightharpoonup> poolModelCatalog) \<Rightarrow> int \<times> account_row \<Rightarrow> (int \<rightharpoonup> poolModelCatalog) result" where
  "addPoolAccount catalogs row = (case catalogs (fst row) of
     None \<Rightarrow> Inl StoreError
   | Some c \<Rightarrow> Inr (catalogs(fst row \<mapsto>
       addAccount c (a_provider (snd row)) (a_models_snapshot (snd row)) (a_models_revision (snd row)))))"

definition loadAllocationPoolCatalogs :: "store \<Rightarrow> int \<Rightarrow> (int \<rightharpoonup> poolModelCatalog) result" where
  "loadAllocationPoolCatalogs d tenant =
     bindR (ListAllocationPoolPolicies d tenant) (\<lambda>policies.
     bindR (ListAllocationPoolModels d tenant) (\<lambda>models.
     bindR (foldR addPoolModel (map_of (map (\<lambda>p. (fst p, emptyPool (snd p) [])) policies)) models) (\<lambda>catalogs.
     bindR (ListAllocationPoolCatalogs d tenant) (\<lambda>rows.
     bindR (foldR addPoolAccount catalogs rows) (\<lambda>catalogs.
     Inr (\<lambda>g. map_option (\<lambda>c. c\<lparr>pm_models := sort (pm_models c)\<rparr>) (catalogs g)))))))"

section \<open>Coverage and pricing\<close>

definition priceCoverage :: "prices \<Rightarrow> poolModelCatalog \<Rightarrow> Revision \<Rightarrow> PriceCoverage" where
  "priceCoverage ps catalog rv =
     (if \<not> pricedConfig (RevConfig rv) then noCoverage
      else let saved = map R_Model (Rates (RevConfig rv));
               visible = filter (\<lambda>m. m \<in> set (pm_visible catalog)) (pm_models catalog)
           in \<lparr>MissingCatalogPrices = filter (\<lambda>m. m \<in> set saved \<and> Lookup ps m = None) visible,
               UncoveredModels = filter (\<lambda>m. m \<notin> set saved) visible,
               CatalogUnavailable = pm_unavailable catalog\<rparr>)"

text \<open>
  The rates a priced rule is saved with: the current catalog's, then those it was saved with
  before. Without a pricing service the given rates, or the previous ones, are kept.
\<close>

definition lastRate :: "Rate list \<Rightarrow> string \<Rightarrow> Rate option" where
  "lastRate previous model = first_of (\<lambda>r. R_Model r = model) (rev previous)"

definition priceFor :: "prices \<Rightarrow> Rate list \<Rightarrow> string \<Rightarrow> Rate option" where
  "priceFor ps previous model = (case Lookup ps model of
     Some p \<Rightarrow> Some \<lparr>R_Model = model, R_Input = P_Input p, R_Cached = P_Cached p, R_Output = P_Output p\<rparr>
   | None \<Rightarrow> lastRate previous model)"

definition applyPrices :: "prices option \<Rightarrow> store \<Rightarrow> int \<Rightarrow> Config \<Rightarrow> Rate list \<Rightarrow> Config result" where
  "applyPrices pricing d grp config previous =
     (if \<not> pricedConfig config then Inr (config\<lparr>Rates := []\<rparr>)
      else case pricing of
        None \<Rightarrow>
          (let config = (if Rates config = [] then config\<lparr>Rates := previous\<rparr> else config)
           in if Rates config \<noteq> [] then Inr config else Inl (Alloc AErrUnpriced))
      | Some ps \<Rightarrow>
          bindR (loadPoolModelCatalog d grp) (\<lambda>catalog.
          let kept = (if pm_unavailable catalog
                then filter (Allows (pm_policy catalog)) (map R_Model previous) else []);
              ids = sort (remdups (pm_models catalog @ kept));
              rates = List.map_filter (priceFor ps previous) ids
          in if rates = [] then Inl (Alloc AErrUnpriced) else Inr (config\<lparr>Rates := rates\<rparr>)))"

section \<open>What pricing establishes\<close>

lemma priceFor_model: "priceFor ps previous model = Some r \<Longrightarrow> R_Model r = model"
  by (auto simp: priceFor_def lastRate_def split: option.splits dest: first_of_SomeD)

lemma map_filter_models:
  "map R_Model (List.map_filter (priceFor ps previous) ids) = filter (\<lambda>i. priceFor ps previous i \<noteq> None) ids"
  by (induction ids) (auto simp: List.map_filter_simps priceFor_model split: option.split)

text \<open>
  Client-supplied rates never set a price: with a price catalog, every rate a rule is saved with is
  the current catalog price of its model or, when the catalog has none, the rate previously saved
  for it; models are listed once, and the rates the client sent do not matter.
\<close>

theorem applyPrices_ignores_client:
  assumes "pricedConfig config" and "applyPrices (Some ps) d grp config previous = Inr c'"
  shows "(\<forall>r \<in> set (Rates c'). case Lookup ps (R_Model r) of
        Some p \<Rightarrow> (R_Input r, R_Cached r, R_Output r) = (P_Input p, P_Cached p, P_Output p)
      | None \<Rightarrow> r \<in> set previous) \<and>
    distinct (map R_Model (Rates c')) \<and> sorted (map R_Model (Rates c')) \<and> Rates c' \<noteq> [] \<and>
    (\<forall>rs. applyPrices (Some ps) d grp (config\<lparr>Rates := rs\<rparr>) previous = Inr c')"
proof -
  have p: "pricedConfig (config\<lparr>Rates := rs\<rparr>) = pricedConfig config" for rs by (simp add: pricedConfig_def)
  from assms obtain catalog ids where
    load: "loadPoolModelCatalog d grp = Inr catalog"
    and ids: "ids = sort (remdups (pm_models catalog @
        (if pm_unavailable catalog then filter (Allows (pm_policy catalog)) (map R_Model previous) else [])))"
    and c': "c' = config\<lparr>Rates := List.map_filter (priceFor ps previous) ids\<rparr>"
      "List.map_filter (priceFor ps previous) ids \<noteq> []"
    by (auto simp: applyPrices_def res_simps Let_def split: if_splits)
  have models: "map R_Model (Rates c') = filter (\<lambda>i. priceFor ps previous i \<noteq> None) ids"
    unfolding c' by (simp add: map_filter_models)
  have "case Lookup ps (R_Model r) of
        Some p \<Rightarrow> (R_Input r, R_Cached r, R_Output r) = (P_Input p, P_Cached p, P_Output p)
      | None \<Rightarrow> r \<in> set previous" if "r \<in> set (Rates c')" for r
  proof -
    from that obtain i where "priceFor ps previous i = Some r"
      unfolding c' by (auto simp: List.map_filter_def)
    moreover from this have "i = R_Model r" by (simp add: priceFor_model)
    ultimately show ?thesis
      by (cases r) (auto simp: priceFor_def lastRate_def split: option.splits dest: first_of_SomeD)
  qed
  moreover have "sorted (map R_Model (Rates c'))" "distinct (map R_Model (Rates c'))"
    unfolding models ids by (simp_all only: sorted_filter [of id, simplified] sorted_sort distinct_filter distinct_sort distinct_remdups id_apply)
  moreover have "applyPrices (Some ps) d grp (config\<lparr>Rates := rs\<rparr>) previous = Inr c'" for rs
    using assms(1) load ids c' by (simp add: applyPrices_def p Let_def)
  ultimately show ?thesis using c' by simp
qed

definition examplePrices :: prices where
  "examplePrices = [(''gpt-5'', \<lparr>P_Input = 5, P_Cached = 1, P_Output = 20\<rparr>)]"

definition examplePool :: store where
  "examplePool = \<lparr>faults = [], users = [], tenants = [], memberships = [],
      account_groups = [\<lparr>g_id = 1, g_name = ''pool'', g_enabled = True, g_restricted_models = False, g_tenant = 1,
        g_routing_preference = ''protocol'', g_allow_api_fallback = True, g_created_at = 0, g_updated_at = 0\<rparr>],
      group_members = [], group_models = [], group_accounts = [(1, ''a'')],
      accounts = [\<lparr>a_id = ''a'', a_provider = ''codex'', a_enabled = True, a_status = ''ready'',
        a_models_snapshot = Some (60, Json exampleCatalog), a_models_revision = 3, a_tenant = 1, a_created_at = 0,
        a_max_concurrency = 2, a_usage_revision = 0, a_name = []\<rparr>],
      allocation_schemes = [], allocation_revisions = [], allocation_entries = [], allocation_keys = [],
      api_keys = [], audit_events = [],
      account_affinity = [], member_rate = [], account_runtime = [], account_model_runtime = [], account_usage = [],
      request_records = [], usage_daily = [], usage_minutes = [], usage_hourly = [], settings = [],
      sessions = [], invitations = [], recovery_codes = [], auth_challenges = [], passkeys = [],
      request_seq = 0, scheme_seq = 0, revision_seq = 0\<rparr>"

theorem applyPrices_ignores_client_witness:
  "\<exists>c'. applyPrices (Some examplePrices) examplePool 1 (exampleRatio\<lparr>Rates := [exampleRate]\<rparr>) [] = Inr c' \<and>
     applyPrices (Some examplePrices) examplePool 1 (exampleRatio\<lparr>Rates := []\<rparr>) [] = Inr c' \<and>
     map R_Output (Rates c') = [20]"
proof -
  let ?c = "exampleRatio\<lparr>Rates := [exampleRate]\<rparr>"
  let ?c' = "exampleRatio\<lparr>Rates := [\<lparr>R_Model = ''gpt-5'', R_Input = 5, R_Cached = 1, R_Output = 20\<rparr>]\<rparr>"
  have p: "pricedConfig ?c" by (simp add: pricedConfig_def exampleRatio_def)
  have a: "applyPrices (Some examplePrices) examplePool 1 ?c [] = Inr ?c'" by code_simp
  from applyPrices_ignores_client [OF p a]
  have "applyPrices (Some examplePrices) examplePool 1 (?c\<lparr>Rates := []\<rparr>) [] = Inr ?c'" by blast
  with a show ?thesis by (intro exI [of _ ?c']) simp
qed

end
