(* ===== verification/Names.thy ===== *)
theory Names
  imports Groups_Policy
begin

text \<open>
  The names people give to schemes, pools and keys: UTF-8 text as Go's \<open>unicode/utf8\<close> and \<open>unicode\<close> read
  it, and the condition the packages \<open>groups\<close>, \<open>apikey\<close> and \<open>tenants\<close> put on a trimmed name.
\<close>

definition contByte :: "nat \<Rightarrow> bool" where
  "contByte b \<longleftrightarrow> 128 \<le> b \<and> b \<le> 191"

text \<open>The code points of well-formed UTF-8, \<open>None\<close> for other bytes.\<close>

fun runes :: "nat list \<Rightarrow> int list option" where
  "runes [] = Some []"
| "runes [a] = (if a < 128 then Some [int a] else None)"
| "runes [a, b] = (if a < 128 then map_option (Cons (int a)) (runes [b])
     else if 194 \<le> a \<and> a \<le> 223 \<and> contByte b then Some [(int a - 192) * 64 + (int b - 128)] else None)"
| "runes [a, b, c] = (if a < 128 then map_option (Cons (int a)) (runes [b, c])
     else if 194 \<le> a \<and> a \<le> 223 \<and> contByte b
       then map_option (Cons ((int a - 192) * 64 + (int b - 128))) (runes [c])
     else if 224 \<le> a \<and> a \<le> 239 \<and> contByte b \<and> contByte c \<and> (a = 224 \<longrightarrow> 160 \<le> b) \<and> (a = 237 \<longrightarrow> b \<le> 159)
       then Some [(int a - 224) * 4096 + (int b - 128) * 64 + (int c - 128)] else None)"
| "runes (a # b # c # e # rest) = (if a < 128 then map_option (Cons (int a)) (runes (b # c # e # rest))
     else if 194 \<le> a \<and> a \<le> 223 \<and> contByte b
       then map_option (Cons ((int a - 192) * 64 + (int b - 128))) (runes (c # e # rest))
     else if 224 \<le> a \<and> a \<le> 239 \<and> contByte b \<and> contByte c \<and> (a = 224 \<longrightarrow> 160 \<le> b) \<and> (a = 237 \<longrightarrow> b \<le> 159)
       then map_option (Cons ((int a - 224) * 4096 + (int b - 128) * 64 + (int c - 128))) (runes (e # rest))
     else if 240 \<le> a \<and> a \<le> 244 \<and> contByte b \<and> contByte c \<and> contByte e \<and> (a = 240 \<longrightarrow> 144 \<le> b) \<and> (a = 244 \<longrightarrow> b \<le> 143)
       then map_option (Cons ((int a - 240) * 262144 + (int b - 128) * 4096 + (int c - 128) * 64 + (int e - 128))) (runes rest)
     else None)"

definition IsControl :: "int \<Rightarrow> bool" where
  "IsControl r \<longleftrightarrow> 0 \<le> r \<and> r < 32 \<or> 127 \<le> r \<and> r < 160"

definition plainName :: "string \<Rightarrow> bool" where
  "plainName v \<longleftrightarrow> (case runes (map of_char v) of None \<Rightarrow> False
     | Some rs \<Rightarrow> length rs > 0 \<and> length rs \<le> 64 \<and> \<not> list_ex IsControl rs)"

end
