(* ===== verification/Alloc_Schemes.thy ===== *)
theory Alloc_Schemes
  imports Alloc_Pricing Names
begin

text \<open>
  Schemes and their scheduled changes (\<open>internal/allocations/allocations.go\<close>,
  \<open>internal/allocations/changes.go\<close>, \<open>internal/allocations/schedule.go\<close>). Every operation is one
  transaction: it returns the committed store and its result, or an error and no store. An
  operation reads the clock several times; \<open>clk k\<close> is its \<open>k\<close>-th reading, in Unix seconds.
\<close>

section \<open>Names\<close>

definition validName :: "string \<Rightarrow> bool" where
  "validName v \<longleftrightarrow> v = TrimSpace v \<and> (case runes (map of_char v) of None \<Rightarrow> False
     | Some rs \<Rightarrow> length rs > 0 \<and> length rs \<le> 64 \<and> \<not> list_ex IsControl rs)"

section \<open>Data\<close>

text \<open>
  A condition of a write is a raw JSON field: absent, \<open>null\<close>, an integer that fits \<open>int64\<close>, or
  anything else.
\<close>

datatype rawCondition = Absent | Null | Number int | Other

record Conditions =
  ExpectedCurrentRevisionID :: rawCondition
  ExpectedNextRevisionID :: rawCondition
  ExpectedEffectiveAt :: rawCondition

record WriteConditions =
  W_Current :: "int option"
  W_Next :: "int option"

record SchemeInput =
  InConditions :: Conditions
  ConfirmReplacement :: bool
  enabledProvided :: bool
  InName :: string
  InGroupID :: int
  InEnabled :: bool
  StartNext :: bool
  ApplyNow :: bool
  InConfig :: Config

record Scheme =
  SchID :: int
  SchName :: string
  SchGroupID :: int
  SchGroupName :: string
  SchEnabled :: bool
  SchCreatedAt :: int
  EditEffectiveAt :: int
  SchRevision :: Revision
  SchNext :: "Revision option"
  SchConditions :: WriteConditions

record Preview =
  PreviewConditions :: WriteConditions
  ProposedEffectiveAt :: int
  ProposedAnchorAt :: int

record Service =
  sv_tenant :: int
  sv_pricing :: "prices option"
  sv_location :: location
  sv_actor :: "Actor option"

definition zeroConfig :: Config where
  "zeroConfig = \<lparr>Mode = [], Period = [], ResetTime = [], ResetDay = 0, Members = [], Rates = [],
     RatioUnit = [], Windows = [], Total = 0\<rparr>"

definition zeroRevision :: Revision where
  "zeroRevision = \<lparr>RevID = 0, EffectiveAt = 0, AccountingAnchorAt = 0, RevConfig = zeroConfig, RevCoverage = noCoverage\<rparr>"

section \<open>Reading a scheme\<close>

definition withCurrent :: "Service \<Rightarrow> int \<Rightarrow> Scheme \<Rightarrow> Revision \<Rightarrow> Scheme" where
  "withCurrent s now out rv =
     out\<lparr>SchRevision := rv, SchConditions := (SchConditions out)\<lparr>W_Current := Some (RevID rv)\<rparr>,
       EditEffectiveAt := nextEffective (RevConfig rv) now (sv_location s) (AccountingAnchorAt rv)\<rparr>"

definition withNext :: "Scheme \<Rightarrow> Revision \<Rightarrow> Scheme" where
  "withNext out rv =
     (let out = out\<lparr>SchNext := Some rv, SchConditions := (SchConditions out)\<lparr>W_Next := Some (RevID rv)\<rparr>,
            EditEffectiveAt := EffectiveAt rv\<rparr>
      in if RevID (SchRevision out) = 0 then out\<lparr>SchRevision := rv, EditEffectiveAt := EffectiveAt rv\<rparr> else out)"

definition readSchemeCore :: "Service \<Rightarrow> store \<Rightarrow> int \<Rightarrow> int \<Rightarrow> Scheme result" where
  "readSchemeCore s d i now = (case GetTenantAllocationScheme d i (sv_tenant s) of
     Inl e \<Rightarrow> Inl (Alloc AErrNotFound)
   | Inr row \<Rightarrow>
       (let r = fst row;
            out = \<lparr>SchID = s_id r, SchName = s_name r, SchGroupID = s_group r, SchGroupName = snd row,
              SchEnabled = s_enabled r, SchCreatedAt = s_created_at r, EditEffectiveAt = 0,
              SchRevision = zeroRevision, SchNext = None, SchConditions = \<lparr>W_Current = None, W_Next = None\<rparr>\<rparr>
        in bindR (case Current d i now of
               Inl e \<Rightarrow> if \<not> errorsIs e (Alloc AErrUnavailable) then Inl e else Inr out
             | Inr rv \<Rightarrow> Inr (withCurrent s now out rv)) (\<lambda>out.
           (case NextAllocationRevision d i now of
              Inr row \<Rightarrow> bindR (storedRevision row) (\<lambda>rv. Inr (withNext out rv))
            | Inl e \<Rightarrow> if \<not> errorsIs e NoRows then Inl e else Inr out))))"

definition schemeNeedsPriceCoverage :: "Scheme \<Rightarrow> bool" where
  "schemeNeedsPriceCoverage v \<longleftrightarrow> pricedConfig (RevConfig (SchRevision v)) \<or>
     (case SchNext v of None \<Rightarrow> False | Some n \<Rightarrow> pricedConfig (RevConfig n))"

definition fillPriceCoverage :: "Service \<Rightarrow> store \<Rightarrow> Scheme \<Rightarrow> poolModelCatalog option \<Rightarrow> Scheme result" where
  "fillPriceCoverage s d v catalog = (case sv_pricing s of None \<Rightarrow> Inr v
   | Some ps \<Rightarrow>
       if \<not> schemeNeedsPriceCoverage v then Inr v
       else bindR (case catalog of Some c \<Rightarrow> Inr c | None \<Rightarrow> loadPoolModelCatalog d (SchGroupID v)) (\<lambda>c.
         Inr (v\<lparr>SchRevision := (SchRevision v)\<lparr>RevCoverage := priceCoverage ps c (SchRevision v)\<rparr>,
                SchNext := map_option (\<lambda>n. n\<lparr>RevCoverage := priceCoverage ps c n\<rparr>) (SchNext v)\<rparr>)))"

definition readScheme :: "Service \<Rightarrow> store \<Rightarrow> int \<Rightarrow> int \<Rightarrow> Scheme result" where
  "readScheme s d i now = bindR (readSchemeCore s d i now) (\<lambda>out. fillPriceCoverage s d out None)"

definition Schemes :: "Service \<Rightarrow> store \<Rightarrow> int \<Rightarrow> Scheme list result" where
  "Schemes s d now =
     bindR (query d ''BeginTx'' ()) (\<lambda>_.
     bindR (ListAllocationSchemes d (sv_tenant s)) (\<lambda>rows.
     bindR (mapR (\<lambda>r. readSchemeCore s d (s_id r) now) rows) (\<lambda>out.
     if \<not> list_ex schemeNeedsPriceCoverage out \<or> sv_pricing s = None then Inr out
     else bindR (loadAllocationPoolCatalogs d (sv_tenant s)) (\<lambda>catalogs.
       mapR (\<lambda>v. case catalogs (SchGroupID v) of None \<Rightarrow> Inl StoreError
                 | Some c \<Rightarrow> fillPriceCoverage s d v (Some c)) out))))"

section \<open>Conditions\<close>

definition condition :: "rawCondition \<Rightarrow> int option result" where
  "condition raw = (case raw of Absent \<Rightarrow> Inr None | Null \<Rightarrow> Inr None
     | Number v \<Rightarrow> if v < 0 then Inl (Alloc AErrInput) else Inr (Some v)
     | Other \<Rightarrow> Inl (Alloc AErrInput))"

definition effectiveCondition :: "rawCondition \<Rightarrow> int option result" where
  "effectiveCondition raw =
     bindR (condition raw) (\<lambda>v. case v of
       None \<Rightarrow> Inr None
     | Some t \<Rightarrow> if t > maxTime then Inl (Alloc AErrInput) else Inr (Some t))"

definition checkVersions :: "Conditions \<Rightarrow> Scheme \<Rightarrow> unit result" where
  "checkVersions inp state =
     (if ExpectedCurrentRevisionID inp = Absent \<or> ExpectedNextRevisionID inp = Absent
      then Inl (Alloc AErrVersionRequired)
      else bindR (condition (ExpectedCurrentRevisionID inp)) (\<lambda>a.
           bindR (condition (ExpectedNextRevisionID inp)) (\<lambda>b.
           if a \<noteq> W_Current (SchConditions state) \<or> b \<noteq> W_Next (SchConditions state)
           then Inl (Alloc AErrVersionConflict) else Inr ())))"

definition canonicalMembers :: "Share list \<Rightarrow> Share list" where
  "canonicalMembers members = sort_key UserID
     (map (\<lambda>m. m\<lparr>WindowOverrides := sort_key O_DurationSeconds (WindowOverrides m)\<rparr>) members)"

definition sameMembers :: "Share list \<Rightarrow> Share list \<Rightarrow> bool" where
  "sameMembers a b \<longleftrightarrow> canonicalMembers a = canonicalMembers b"

definition activeRevision :: "Scheme \<Rightarrow> Revision option" where
  "activeRevision state = (case W_Current (SchConditions state) of None \<Rightarrow> None | Some i \<Rightarrow> Some (SchRevision state))"

section \<open>Times\<close>

definition targetTime :: "Service \<Rightarrow> Scheme \<Rightarrow> string \<Rightarrow> int \<Rightarrow> int result" where
  "targetTime s state action now =
     (let current = activeRevision state in
      if action = ''reschedule'' then
        (case SchNext state of None \<Rightarrow> Inl (Alloc AErrEffectiveConflict)
         | Some n \<Rightarrow>
             if EffectiveAt n \<le> now then Inl (Alloc AErrEffectiveConflict)
             else let base = (case current of None \<Rightarrow> n | Some c \<Rightarrow> c);
                      at = nextEffective (RevConfig base) (EffectiveAt n) (sv_location s) (AccountingAnchorAt base)
                  in if at \<le> EffectiveAt n \<or> at > maxTime then Inl (Alloc AErrEffectiveConflict) else Inr at)
      else case SchNext state of Some n \<Rightarrow> Inr (EffectiveAt n)
      | None \<Rightarrow> (case current of None \<Rightarrow> Inl (Alloc AErrUnavailable)
          | Some c \<Rightarrow> Inr (nextEffective (RevConfig c) now (sv_location s) (AccountingAnchorAt c))))"

definition nextDue :: "Scheme \<Rightarrow> int \<Rightarrow> bool" where
  "nextDue state now \<longleftrightarrow> (case SchNext state of None \<Rightarrow> False | Some n \<Rightarrow> EffectiveAt n \<le> now)"

definition checkTime :: "Service \<Rightarrow> Conditions \<Rightarrow> Scheme \<Rightarrow> string \<Rightarrow> int \<Rightarrow> int result" where
  "checkTime s inp state action now =
     bindR (effectiveCondition (ExpectedEffectiveAt inp)) (\<lambda>expected.
     case expected of None \<Rightarrow> Inl (Alloc AErrEffectiveRequired)
     | Some e \<Rightarrow>
         bindR (targetTime s state action now) (\<lambda>target.
         if e \<noteq> target \<or> target \<le> now \<or> nextDue state now then Inl (Alloc AErrEffectiveConflict)
         else Inr target))"

definition creationTime :: "Service \<Rightarrow> SchemeInput \<Rightarrow> int \<Rightarrow> int result" where
  "creationTime s inp now =
     (let target = (if StartNext inp then nextEffective (InConfig inp) now (sv_location s) now else now);
          raw = ExpectedEffectiveAt (InConditions inp)
      in if raw = Absent then Inr target
         else bindR (effectiveCondition raw) (\<lambda>expected.
           case expected of None \<Rightarrow> Inl (Alloc AErrEffectiveRequired)
           | Some e \<Rightarrow>
               if \<not> StartNext inp \<or> e \<le> now then Inl (Alloc AErrEffectiveConflict)
               else if Period (InConfig inp) = ''durations'' then
                 (if wrap64 (e - now) > longestDuration (InConfig inp) then Inl (Alloc AErrEffectiveConflict) else Inr e)
               else if e \<noteq> target then Inl (Alloc AErrEffectiveConflict) else Inr e))"

section \<open>Members\<close>

definition validateRecipients :: "store \<Rightarrow> int \<Rightarrow> Share list \<Rightarrow> unit result" where
  "validateRecipients d grp members = foldR (\<lambda>_ m.
     bindR (CanUseGroup d (UserID m) grp) (\<lambda>allowed. guardR (Alloc AErrInput) (\<not> allowed) (Inr ()))) () members"

definition appendRevision :: "store \<Rightarrow> int \<Rightarrow> int \<Rightarrow> int \<Rightarrow> Config \<Rightarrow> (store \<times> int) result" where
  "appendRevision d scheme at anchor config = SaveAllocationRevision d scheme at anchor config"

text \<open>A proposed member may take a larger share than before only while the pool can fund it.\<close>

definition oldLimit :: "Config \<Rightarrow> Share \<Rightarrow> allocationWindow \<Rightarrow> int" where
  "oldLimit current m w =
     foldl (\<lambda>old c. if UserID c = UserID m then memberLimit current c w else old) 0 (Members current)"

definition fundWindow :: "Config \<Rightarrow> Config \<Rightarrow> accounting \<Rightarrow> allocationWindow \<Rightarrow> accounting result" where
  "fundWindow current proposed a w =
     bindR (groupUsage a w) (\<lambda>(a, grp).
     bindR (foldR (\<lambda>(a, required) m.
         bindR (memberUsage a m proposed w) (\<lambda>(a, state).
         Inr (a, wrap64 (required + max 0 (wrap64 (wrap64 (mu_limit state - mu_used state) - reserved (mu_risk state)))))))
       (a, wrap64 (g_used grp + g_held grp)) (Members proposed)) (\<lambda>(a, required).
     if required > windowTotal w current \<and>
        list_ex (\<lambda>m. memberLimit proposed m w > oldLimit current m w) (Members proposed)
     then Inl (Alloc AErrFunding) else Inr a))"

definition checkFunding :: "Service \<Rightarrow> store \<Rightarrow> int \<Rightarrow> Revision \<Rightarrow> Config \<Rightarrow> int \<Rightarrow> unit result" where
  "checkFunding s d i current proposed now =
     (if Mode (RevConfig current) \<noteq> ''ratio'' then Inr ()
      else let ws = effectiveWindows current now (sv_location s)
           in bindR (foldR (fundWindow (RevConfig current) proposed) (newAccounting d i current ws) ws) (\<lambda>_. Inr ()))"

definition recordSave :: "Service \<Rightarrow> int \<Rightarrow> store \<Rightarrow> int \<Rightarrow> store result" where
  "recordSave s now d i = Record (sv_actor s) now d ''allocation.save'' ''allocation'' (FormatInt i)"

definition nextMembers :: "Revision \<Rightarrow> Scheme \<Rightarrow> Share list \<Rightarrow> Config option result" where
  "nextMembers current state members = (case SchNext state of None \<Rightarrow> Inr None
     | Some n \<Rightarrow>
         if \<not> sameMembers (Members (RevConfig current)) (Members (RevConfig n)) then Inl (Alloc AErrMemberConflict)
         else if (Mode (RevConfig current) \<noteq> ''ratio'' \<or> Mode (RevConfig n) \<noteq> ''ratio'') \<and>
           \<not> sameSchedule (RevConfig current) (RevConfig n) then Inl (Alloc AErrMemberConflict)
         else (case normalize ((RevConfig n)\<lparr>Members := members\<rparr>) of
             Inl e \<Rightarrow> Inl (Alloc AErrMemberConflict) | Inr c \<Rightarrow> Inr (Some c)))"

definition applyMembers :: "Service \<Rightarrow> store \<Rightarrow> Scheme \<Rightarrow> Share list \<Rightarrow> int \<Rightarrow> store result" where
  "applyMembers s d state members now = (case activeRevision state of
     None \<Rightarrow> Inl (Alloc AErrInitialSchedule)
   | Some current \<Rightarrow>
       bindR (normalize ((RevConfig current)\<lparr>Members := canonicalMembers members\<rparr>)) (\<lambda>proposed.
       bindR (validateRecipients d (SchGroupID state) (Members proposed)) (\<lambda>_.
       if sameMembers (Members (RevConfig current)) (Members proposed) then Inr d
       else bindR (nextMembers current state (Members proposed)) (\<lambda>nextConfig.
         bindR (checkFunding s d (SchID state) current proposed now) (\<lambda>_.
         bindR (appendRevision d (SchID state) now (AccountingAnchorAt current) proposed) (\<lambda>(d, _).
         bindR (case (SchNext state, nextConfig) of
             (Some n, Some c) \<Rightarrow> bindR (appendRevision d (SchID state) (EffectiveAt n) (AccountingAnchorAt n) c) (\<lambda>(d, _). Inr d)
           | _ \<Rightarrow> Inr d) (\<lambda>d.
         recordSave s now d (SchID state)))))))) "

section \<open>Finishing a change\<close>

text \<open>The clock is read before and after the result is, and again for the time condition.\<close>

definition finishChange ::
    "Service \<Rightarrow> store \<Rightarrow> Scheme \<Rightarrow> Conditions \<Rightarrow> string \<Rightarrow> (nat \<Rightarrow> int) \<Rightarrow> (store \<times> Scheme) result" where
  "finishChange s d state inp action clk =
     guardR (Alloc AErrVersionConflict) (nextDue state (clk 0)) (
     bindR (readScheme s d (SchID state) (clk 1)) (\<lambda>out.
     guardR (Alloc AErrVersionConflict) (nextDue state (clk 2)) (
     bindR (if action \<noteq> [] then bindR (checkTime s inp state action (clk 3)) (\<lambda>_. Inr ()) else Inr ()) (\<lambda>_.
     bindR (query d ''Commit'' ()) (\<lambda>_.
     Inr (d, out))))))"

definition after :: "nat \<Rightarrow> (nat \<Rightarrow> int) \<Rightarrow> nat \<Rightarrow> int" where
  "after n clk k = clk (n + k)"

definition UpdateMembers ::
    "Service \<Rightarrow> store \<Rightarrow> int \<Rightarrow> Conditions \<Rightarrow> Share list \<Rightarrow> (nat \<Rightarrow> int) \<Rightarrow> (store \<times> Scheme) result" where
  "UpdateMembers s d i inp members clk =
     bindR (query d ''BeginTx'' ()) (\<lambda>_.
     bindR (readSchemeCore s d i (clk 0)) (\<lambda>state.
     bindR (checkVersions inp state) (\<lambda>_.
     bindR (applyMembers s d state members (clk 1)) (\<lambda>d.
     finishChange s d state inp [] (after 2 clk)))))"

section \<open>Saving a scheme\<close>

definition compatibleEdit :: "Config \<Rightarrow> Config \<Rightarrow> bool" where
  "compatibleEdit c current \<longleftrightarrow>
     sameSchedule c current \<and> Total c = Total current \<and> RatioUnit c = RatioUnit current \<and>
     \<not> list_ex (\<lambda>a. list_ex (\<lambda>b. W_DurationSeconds a = W_DurationSeconds b \<and> W_Limit a \<noteq> W_Limit b) (Windows current)) (Windows c) \<and>
     (Rates c \<noteq> [] \<longrightarrow> Rates c = Rates current)"

definition updateNow ::
    "Service \<Rightarrow> store \<Rightarrow> Scheme \<Rightarrow> SchemeInput \<Rightarrow> (nat \<Rightarrow> int) \<Rightarrow> (store \<times> Scheme) result" where
  "updateNow s d state inp clk =
     guardR (Alloc AErrReplacement) (ConfirmReplacement inp) (
     case activeRevision state of None \<Rightarrow> Inl (Alloc AErrInitialSchedule)
     | Some current \<Rightarrow>
         if \<not> compatibleEdit (InConfig inp) (RevConfig current) \<or> InName inp \<noteq> SchName state
         then Inl (Alloc AErrStateConflict)
         else bindR (applyMembers s d state (Members (InConfig inp)) (clk 0)) (\<lambda>d.
           finishChange s d state (InConditions inp) [] (after 1 clk)))"

definition baseRevision :: "Scheme \<Rightarrow> Revision" where
  "baseRevision state = (case SchNext state of None \<Rightarrow> SchRevision state | Some n \<Rightarrow> n)"

definition structuralEdit :: "Scheme \<Rightarrow> SchemeInput \<Rightarrow> bool" where
  "structuralEdit state inp \<longleftrightarrow>
     \<not> sameSchedule (RevConfig (case activeRevision state of
          Some c \<Rightarrow> if ConfirmReplacement inp then c else baseRevision state
        | None \<Rightarrow> baseRevision state)) (InConfig inp)"

definition previousRates :: "Scheme \<Rightarrow> Rate list" where
  "previousRates state = Rates (RevConfig (SchRevision state)) @
     (case SchNext state of None \<Rightarrow> [] | Some n \<Rightarrow> Rates (RevConfig n))"

definition updateScheme ::
    "Service \<Rightarrow> store \<Rightarrow> int \<Rightarrow> SchemeInput \<Rightarrow> (nat \<Rightarrow> int) \<Rightarrow> (store \<times> Scheme) result" where
  "updateScheme s d i inp clk =
     bindR (query d ''BeginTx'' ()) (\<lambda>_.
     bindR (readSchemeCore s d i (clk 0)) (\<lambda>state.
     guardR (Alloc AErrInput) (InGroupID inp \<noteq> SchGroupID state) (
     bindR (checkVersions (InConditions inp) state) (\<lambda>_.
     guardR (Alloc AErrStateConflict) ((enabledProvided inp \<or> InEnabled inp) \<and> InEnabled inp \<noteq> SchEnabled state) (
     if ApplyNow inp then updateNow s d state inp clk
     else let base = baseRevision state;
              initial = (activeRevision state = None \<and> SchNext state \<noteq> None);
              membersChanged = (\<not> sameMembers (Members (RevConfig base)) (Members (InConfig inp)));
              structural = structuralEdit state inp
       in guardR (Alloc AErrReplacement) (structural \<noteq> ConfirmReplacement inp) (
          guardR (Alloc AErrMemberConflict) (\<not> structural \<and> membersChanged \<and> \<not> initial) (
          bindR (if initial \<and> membersChanged then
              bindR (AllocationHasEntries d i) (\<lambda>published. guardR (Alloc AErrStateConflict) published (Inr ()))
            else Inr ()) (\<lambda>_.
          bindR (applyPrices (sv_pricing s) d (SchGroupID state) (InConfig inp) (previousRates state)) (\<lambda>config.
          bindR (normalize config) (\<lambda>config.
          bindR (if structural \<or> initial \<and> membersChanged
            then validateRecipients d (SchGroupID state) (Members config) else Inr ()) (\<lambda>_.
          bindR (checkTime s (InConditions inp) state ''schedule'' (clk 1)) (\<lambda>at.
          bindR (appendRevision d i at (if structural then at else AccountingAnchorAt base) config) (\<lambda>(d, _).
          bindR (UpdateAllocationScheme d i (InName inp) (SchEnabled state)) (\<lambda>d.
          bindR (recordSave s (clk 1) d i) (\<lambda>d.
          bindR (checkTime s (InConditions inp) state ''schedule'' (clk 2)) (\<lambda>_.
          finishChange s d state (InConditions inp) ''schedule'' (after 3 clk)))))))))))))))))"

definition createScheme :: "Service \<Rightarrow> store \<Rightarrow> SchemeInput \<Rightarrow> (nat \<Rightarrow> int) \<Rightarrow> (store \<times> Scheme) result" where
  "createScheme s d inp clk =
     bindR (query d ''BeginTx'' ()) (\<lambda>_.
     case GetTenantGroup d (InGroupID inp) (sv_tenant s) of Inl e \<Rightarrow> Inl (Alloc AErrInput)
     | Inr g \<Rightarrow>
     bindR (validateRecipients d (InGroupID inp) (Members (InConfig inp))) (\<lambda>_.
     bindR (AllocationPoolAccounts d (InGroupID inp)) (\<lambda>accs.
     guardR (Alloc AErrInput) (length accs = 0) (
     guardR (Alloc AErrPoolConflict) (list_ex (\<lambda>a. snd a > 0) accs) (
     bindR (applyPrices (sv_pricing s) d (InGroupID inp) (InConfig inp) []) (\<lambda>config.
     bindR (normalize config) (\<lambda>config.
     bindR (case GetPoolAllocation d (InGroupID inp) of
         Inr x \<Rightarrow> Inl (Alloc AErrPoolConflict)
       | Inl e \<Rightarrow> if \<not> errorsIs e NoRows then Inl e else Inr ()) (\<lambda>_.
     bindR (ListAllocationSchemes d (sv_tenant s)) (\<lambda>rows.
     guardR (Alloc AErrInput) (length rows \<ge> 32) (
     bindR (creationTime s (inp\<lparr>InConfig := config\<rparr>) (clk 0)) (\<lambda>effective.
     bindR (CreateAllocationScheme d (InName inp) (InGroupID inp) (InEnabled inp) (clk 0)) (\<lambda>(d, i).
     bindR (appendRevision d i effective effective config) (\<lambda>(d, _).
     bindR (foldR (\<lambda>d m. BindExistingAllocationKeys d i (InGroupID inp) (UserID m)) d (Members config)) (\<lambda>d.
     bindR (recordSave s (clk 0) d i) (\<lambda>d.
     bindR (readScheme s d i (clk 0)) (\<lambda>out.
     bindR (if ExpectedEffectiveAt (InConditions inp) \<noteq> Absent then
         bindR (creationTime s (inp\<lparr>InConfig := config\<rparr>) (clk 1)) (\<lambda>at.
           guardR (Alloc AErrEffectiveConflict) (at \<noteq> effective) (Inr ()))
       else Inr ()) (\<lambda>_.
     bindR (query d ''Commit'' ()) (\<lambda>_.
     Inr (d, out)))))))))))))))))))"

fun addLimits :: "int \<Rightarrow> Share list \<Rightarrow> int" where
  "addLimits tot [] = tot"
| "addLimits tot (m # ms) = addLimits (wrap64 (tot + Limit m)) ms"

definition SaveScheme :: "Service \<Rightarrow> store \<Rightarrow> int \<Rightarrow> SchemeInput \<Rightarrow> (nat \<Rightarrow> int) \<Rightarrow> (store \<times> Scheme) result" where
  "SaveScheme s d i inp clk =
     (if i < 0 \<or> \<not> validName (InName inp) \<or> InGroupID inp \<le> 0 \<or> \<not> validPeriod (InConfig inp) then Inl (Alloc AErrInput)
      else if Mode (InConfig inp) = ''ratio'' \<and> addLimits 0 (Members (InConfig inp)) > 10000 then Inl (Alloc AErrInput)
      else if i > 0 then updateScheme s d i inp clk
      else createScheme s d inp clk)"

definition SetEnabled :: "Service \<Rightarrow> store \<Rightarrow> int \<Rightarrow> bool \<Rightarrow> int \<Rightarrow> store result" where
  "SetEnabled s d i enabled now =
     bindR (query d ''BeginTx'' ()) (\<lambda>_.
     case GetTenantAllocationScheme d i (sv_tenant s) of Inl e \<Rightarrow> Inl (Alloc AErrNotFound)
     | Inr row \<Rightarrow>
         bindR (UpdateAllocationScheme d i (s_name (fst row)) enabled) (\<lambda>d.
         bindR (recordSave s now d i) (\<lambda>d.
         bindR (query d ''Commit'' ()) (\<lambda>_. Inr d))))"

section \<open>Previews\<close>

definition PreviewInitial :: "Service \<Rightarrow> store \<Rightarrow> SchemeInput \<Rightarrow> int \<Rightarrow> Preview result" where
  "PreviewInitial s d inp now =
     guardR (Alloc AErrInput) (\<not> validPeriod (InConfig inp)) (
     bindR (query d ''BeginTx'' ()) (\<lambda>_.
     case GetTenantGroup d (InGroupID inp) (sv_tenant s) of Inl e \<Rightarrow> Inl (Alloc AErrInput)
     | Inr g \<Rightarrow>
     bindR (validateRecipients d (InGroupID inp) (Members (InConfig inp))) (\<lambda>_.
     bindR (applyPrices (sv_pricing s) d (InGroupID inp) (InConfig inp) []) (\<lambda>config.
     bindR (normalize config) (\<lambda>config.
     bindR (creationTime s (inp\<lparr>InConfig := config,
              InConditions := (InConditions inp)\<lparr>ExpectedEffectiveAt := Absent\<rparr>\<rparr>) now) (\<lambda>at.
     Inr \<lparr>PreviewConditions = \<lparr>W_Current = None, W_Next = None\<rparr>, ProposedEffectiveAt = at, ProposedAnchorAt = at\<rparr>))))))"

definition PreviewChange :: "Service \<Rightarrow> store \<Rightarrow> int \<Rightarrow> string \<Rightarrow> (nat \<Rightarrow> int) \<Rightarrow> Preview result" where
  "PreviewChange s d i action clk =
     bindR (query d ''BeginTx'' ()) (\<lambda>_.
     bindR (readSchemeCore s d i (clk 0)) (\<lambda>state.
     guardR (Alloc AErrInput) (action \<noteq> ''schedule'' \<and> action \<noteq> ''reschedule'' \<and> action \<noteq> ''replace'') (
     bindR (targetTime s state action (clk 1)) (\<lambda>at.
     let anchor = AccountingAnchorAt (SchRevision state);
         anchor = (case SchNext state of None \<Rightarrow> anchor
           | Some n \<Rightarrow> if action = ''reschedule'' \<and>
               (activeRevision state = None \<or> AccountingAnchorAt n \<noteq> AccountingAnchorAt (SchRevision state))
               then at else AccountingAnchorAt n);
         anchor = (if action = ''replace'' then at else anchor)
     in Inr \<lparr>PreviewConditions = SchConditions state, ProposedEffectiveAt = at, ProposedAnchorAt = anchor\<rparr>))))"

section \<open>Cancelling and rescheduling\<close>

text \<open>The new row is inserted before the old ones are deleted, so the delete names the old time.\<close>

definition ChangeSchedule ::
    "Service \<Rightarrow> store \<Rightarrow> int \<Rightarrow> string \<Rightarrow> Conditions \<Rightarrow> (nat \<Rightarrow> int) \<Rightarrow> (store \<times> Scheme) result" where
  "ChangeSchedule s d i action inp clk =
     guardR (Alloc AErrInput) (action \<noteq> ''cancel'' \<and> action \<noteq> ''reschedule'') (
     bindR (query d ''BeginTx'' ()) (\<lambda>_.
     let now = clk 0 in
     bindR (readSchemeCore s d i now) (\<lambda>state.
     bindR (checkVersions inp state) (\<lambda>_.
     case SchNext state of None \<Rightarrow> Inl (Alloc AErrEffectiveConflict)
     | Some n \<Rightarrow>
     guardR (Alloc AErrEffectiveConflict) (EffectiveAt n \<le> now) (
     guardR (Alloc AErrInitialSchedule) (action = ''cancel'' \<and> activeRevision state = None) (
     bindR (if action = ''reschedule'' then
         bindR (checkTime s inp state action (clk 1)) (\<lambda>at.
         appendRevision d i at
           (if activeRevision state = None \<or> AccountingAnchorAt n \<noteq> AccountingAnchorAt (SchRevision state)
            then at else AccountingAnchorAt n) (RevConfig n))
       else Inr (d, 0)) (\<lambda>(d, replacementID).
     bindR (DeleteAllocationPendingAt d i (EffectiveAt n) now) (\<lambda>d.
     bindR (case NextAllocationRevision d i now of
         Inr row \<Rightarrow>
           if action = ''reschedule'' \<and> r_id row = replacementID then Inr () else Inl (Alloc AErrStateConflict)
       | Inl e \<Rightarrow>
           if \<not> errorsIs e NoRows then Inl e
           else if action = ''reschedule'' then Inl (Alloc AErrStateConflict) else Inr ()) (\<lambda>_.
     bindR (recordSave s now d i) (\<lambda>d.
     bindR (if action = ''reschedule'' then bindR (checkTime s inp state action (clk 2)) (\<lambda>_. Inr ()) else Inr ()) (\<lambda>_.
     finishChange s d state inp (if action = ''reschedule'' then action else []) (after 3 clk))))))))))))"

end
