(* ===== verification/Alloc_Admission.thy ===== *)
theory Alloc_Admission
  imports Alloc_Accounting
begin

text \<open>
  The snapshot caches of the accounting compute the reference usage, and what an admitted request
  may rely on: the bounds \<open>Check\<close> establishes and \<open>Begin\<close> keeps.
\<close>

section \<open>The caches are transparent\<close>

definition scopeOf :: "accounting \<Rightarrow> int \<Rightarrow> int" where
  "scopeOf a user = (if Mode (ac_config a) = ''ratio'' then 0 else user)"

definition counts :: "accounting \<Rightarrow> Share \<Rightarrow> allocationWindow \<Rightarrow> bool" where
  "counts a m w \<longleftrightarrow> (Mode (ac_config a) = ''windows'' \<longrightarrow> memberLimit (ac_config a) m w \<noteq> 0)"

definition within :: "allocationWindow \<Rightarrow> entry_row \<Rightarrow> bool" where
  "within w e \<longleftrightarrow> start w \<le> e_started_at e \<and> e_started_at e < stop w"

definition rowsOK :: "accounting \<Rightarrow> int \<Rightarrow> allocationWindow \<Rightarrow> entry_row list \<Rightarrow> bool" where
  "rowsOK a scope w rows \<longleftrightarrow> length rows \<le> 4096 \<and>
     mset (filter (within w) rows) = mset (activeIn (ac_store a) (ac_scheme a) scope w (entryMode (ac_config a)))"

definition sameSnapshot :: "accounting \<Rightarrow> accounting \<Rightarrow> bool" where
  "sameSnapshot a b \<longleftrightarrow> ac_store a = ac_store b \<and> ac_scheme a = ac_scheme b \<and> ac_config a = ac_config b \<and>
     ac_windows a = ac_windows b"

definition capturedOK :: "accounting \<Rightarrow> bool" where
  "capturedOK a \<longleftrightarrow> (\<forall>r c. ac_captured a r = Some c \<longrightarrow>
     (\<exists>c0. capturedOf (ac_store a) (ac_scheme a) r = Some c0 \<and> (\<forall>w u. lease c w u = lease c0 w u)))"

definition activeOK :: "accounting \<Rightarrow> int \<Rightarrow> Share \<Rightarrow> bool" where
  "activeOK a user m \<longleftrightarrow> (\<forall>rows. ac_active a (scopeOf a user) = Some rows \<longrightarrow>
     (\<forall>w \<in> set (ac_windows a). counts a m w \<longrightarrow> rowsOK a (scopeOf a user) w rows))"

definition poolUsage :: "accounting \<Rightarrow> allocationWindow \<Rightarrow> sharedUsage" where
  "poolUsage a w =
     (let mode = entryMode (ac_config a); lim = windowTotal w (ac_config a);
          used = usedIn (ac_store a) (ac_scheme a) 0 w mode; held = heldIn (ac_store a) (ac_scheme a) 0 w mode
      in \<lparr>g_used = used, g_held = held,
          g_room = max 0 (wrap64 (wrap64 (wrap64 (lim + reservation lim) - used) - held))\<rparr>)"

definition groupsOK :: "accounting \<Rightarrow> bool" where
  "groupsOK a \<longleftrightarrow> (\<forall>w u. ac_groups a w = Some u \<longrightarrow> u = poolUsage a w)"

definition cacheOK :: "accounting \<Rightarrow> int \<Rightarrow> Share \<Rightarrow> bool" where
  "cacheOK a user m \<longleftrightarrow> capturedOK a \<and> activeOK a user m \<and> groupsOK a"

lemma sameSnapshot_trans: "sameSnapshot a b \<Longrightarrow> sameSnapshot b c \<Longrightarrow> sameSnapshot a c"
  by (simp add: sameSnapshot_def)

lemma entrySpan_cover:
  assumes "foldl (\<lambda>span w. if P w then span
        else case span of None \<Rightarrow> Some (start w, stop w)
             | Some (from, to) \<Rightarrow> Some (min from (start w), max to (stop w))) s ws = r"
  shows "(case s of None \<Rightarrow> True | Some (f, t) \<Rightarrow> \<exists>from to. r = Some (from, to) \<and> from \<le> f \<and> t \<le> to) \<and>
    (\<forall>w \<in> set ws. \<not> P w \<longrightarrow> (\<exists>from to. r = Some (from, to) \<and> from \<le> start w \<and> stop w \<le> to))"
  using assms
proof (induction ws arbitrary: s)
  case Nil
  then show ?case by (auto split: option.splits)
next
  case (Cons w ws)
  define s' where "s' = (if P w then s else case s of None \<Rightarrow> Some (start w, stop w)
             | Some (from, to) \<Rightarrow> Some (min from (start w), max to (stop w)))"
  from Cons.prems have "foldl (\<lambda>span w. if P w then span
        else case span of None \<Rightarrow> Some (start w, stop w)
             | Some (from, to) \<Rightarrow> Some (min from (start w), max to (stop w))) s' ws = r"
    by (simp add: s'_def)
  from Cons.IH [OF this] show ?case
    by (cases "P w"; cases s) (auto simp: s'_def)
qed

lemma activeIn_subset:
  assumes "from \<le> start w" "stop w \<le> to"
  shows "filter (within w) (filter (\<lambda>e. inWindow scheme from to mode e \<and> (user = 0 \<or> e_user e = user) \<and> e_state e = ''active'') es) =
    filter (\<lambda>e. inWindow scheme (start w) (stop w) mode e \<and> (user = 0 \<or> e_user e = user) \<and> e_state e = ''active'') es"
  using assms by (auto simp: inWindow_def within_def intro!: filter_cong)

lemma mset_filter_sort_key: "mset (filter P (sort_key k xs)) = mset (filter P xs)"
  by (simp add: mset_filter)

lemma AllocationActiveEntries_rows:
  assumes "AllocationActiveEntries d scheme user from to mode = Inr rows" "length rows \<le> 4096"
    "from \<le> start w" "stop w \<le> to"
  shows "mset (filter (within w) rows) = mset (activeIn d scheme user w mode)"
proof -
  let ?all = "sort_key e_request (filter (\<lambda>e. inWindow scheme from to mode e \<and> (user = 0 \<or> e_user e = user) \<and>
      e_state e = ''active'') (allocation_entries d))"
  from assms(1) have rows: "rows = take 4097 ?all" by (simp add: AllocationActiveEntries_def res_simps)
  with assms(2) have "length ?all \<le> 4096" by simp
  then have "rows = ?all" using rows by simp
  then show ?thesis
    unfolding activeIn_def by (simp only: mset_filter_sort_key activeIn_subset [OF assms(3,4)])
qed

lemma entries_ok:
  assumes a: "cacheOK a user m" and u: "u = user \<and> m' = m \<or> u = 0 \<and> Mode (ac_config a) = ''ratio''"
    and e: "entries a u m' (ac_config a) = Inr (a', rows)"
  shows "sameSnapshot a a' \<and> cacheOK a' user m \<and> ac_captured a' = ac_captured a \<and>
    (\<forall>w \<in> set (ac_windows a). counts a m w \<longrightarrow> rowsOK a (scopeOf a user) w rows)"
proof -
  let ?sc = "scopeOf a user"
  have sc: "(if Mode (ac_config a) = ''ratio'' then 0 else u) = ?sc" using u by (auto simp: scopeOf_def)
  show ?thesis
  proof (cases "ac_active a ?sc")
    case (Some rs)
    then have "a' = a" "rows = rs" using e by (auto simp: entries_def sc)
    with a Some show ?thesis by (auto simp: sameSnapshot_def cacheOK_def activeOK_def)
  next
    case None
    let ?skip = "\<lambda>w. ?sc \<noteq> 0 \<and> Mode (ac_config a) = ''windows'' \<and> memberLimit (ac_config a) m' w = 0"
    have skip: "\<not> ?skip w" if "counts a m w" for w using that u by (auto simp: counts_def scopeOf_def)
    have rows: "ac_active a' = (ac_active a)(?sc \<mapsto> rows)" "a' = a\<lparr>ac_active := (ac_active a)(?sc \<mapsto> rows)\<rparr>"
      using e None by (auto simp: entries_def sc res_simps Let_def split: option.splits)
    have ok: "rowsOK a ?sc w rows" if w: "w \<in> set (ac_windows a)" "counts a m w" for w
    proof -
      obtain lo hi where span: "entrySpan ?sc (ac_config a) m' (ac_windows a) = Some (lo, hi)"
          "lo \<le> start w" "stop w \<le> hi"
        using entrySpan_cover [of ?skip None "ac_windows a" "entrySpan ?sc (ac_config a) m' (ac_windows a)"] w skip
        by (auto simp: entrySpan_def)
      with e None have "AllocationActiveEntries (ac_store a) (ac_scheme a) ?sc lo hi (entryMode (ac_config a)) = Inr rows"
          "length rows \<le> 4096"
        by (auto simp: entries_def sc res_simps Let_def)
      from AllocationActiveEntries_rows [OF this span(2,3)] this(2) show ?thesis by (simp add: rowsOK_def)
    qed
    have "capturedOK a'" "groupsOK a'" using a rows(2) by (auto simp: cacheOK_def capturedOK_def groupsOK_def poolUsage_def)
    moreover have "activeOK a' user m" using ok rows(2) by (simp add: activeOK_def scopeOf_def counts_def rowsOK_def)
    ultimately show ?thesis using ok rows(2) by (simp add: cacheOK_def sameSnapshot_def)
  qed
qed

lemma capturedOf_wf: "storeOK d scheme \<Longrightarrow> capturedOf d scheme r = Some c \<Longrightarrow> wfConfig c"
  by (auto simp: capturedOf_def storeOK_def list_all_iff revisionOK_def split: option.splits json.splits dest!: first_of_SomeD)

lemma leaseOf_range:
  assumes "storeOK d scheme" "0 \<le> limit w" "limit w \<le> maxAmount"
  shows "0 \<le> leaseOf d scheme w e" "leaseOf d scheme w e \<le> maxAmount"
  using lease_range [OF capturedOf_wf [OF assms(1)] assms(2,3)]
  by (auto simp: leaseOf_def split: option.splits)

lemma capture_ok:
  assumes "capturedOK a" "capture a (e_revision e) = Inr (a', c)"
  shows "a' = a\<lparr>ac_captured := ac_captured a'\<rparr> \<and> capturedOK a' \<and>
    lease c w (e_user e) = leaseOf (ac_store a) (ac_scheme a) w e"
proof (cases "ac_captured a (e_revision e)")
  case (Some c')
  with assms(2) have "a' = a" "c = c'" by (auto simp: capture_def)
  moreover obtain c0 where "capturedOf (ac_store a) (ac_scheme a) (e_revision e) = Some c0" "\<forall>w u. lease c' w u = lease c0 w u"
    using assms(1) Some unfolding capturedOK_def by blast
  ultimately show ?thesis using assms(1) by (simp add: leaseOf_def)
next
  case None
  with assms(2) obtain row c0 where
    row: "first_of (\<lambda>r. r_id r = e_revision e \<and> r_scheme r = ac_scheme a) (allocation_revisions (ac_store a)) = Some row"
    and c0: "r_config row = Json c0" "c = c0\<lparr>Rates := []\<rparr>"
    and a': "a' = a\<lparr>ac_captured := (ac_captured a)(e_revision e \<mapsto> c)\<rparr>"
    by (auto simp: capture_def res_simps AllocationReservationConfig_def)
  then have "capturedOf (ac_store a) (ac_scheme a) (e_revision e) = Some c0" by (simp add: capturedOf_def)
  with assms(1) a' c0 show ?thesis by (auto simp: capturedOK_def leaseOf_def)
qed

definition pick :: "int \<Rightarrow> allocationWindow \<Rightarrow> entry_row \<Rightarrow> bool" where
  "pick user w e \<longleftrightarrow> within w e \<and> (user = 0 \<or> e_user e = user)"

lemma reservations_fold:
  assumes "foldR (reserveRow u w) (a, n, h) rows = Inr (a', n', h')" "capturedOK a"
    and "storeOK (ac_store a) (ac_scheme a)" "0 \<le> limit w" "limit w \<le> maxAmount"
    and "0 \<le> n" "n + int (length rows) \<le> 5000" "0 \<le> h" "h + int (length rows) * maxAmount \<le> 5000 * maxAmount"
  shows "a' = a\<lparr>ac_captured := ac_captured a'\<rparr> \<and> capturedOK a' \<and> n' = n + int (length (filter (pick u w) rows)) \<and>
    h' = h + (\<Sum>e\<leftarrow>filter (pick u w) rows. leaseOf (ac_store a) (ac_scheme a) w e)"
  using assms
proof (induction rows arbitrary: a n h)
  case (Cons e rows)
  show ?case
  proof (cases "pick u w e")
    case False
    then have "reserveRow u w (a, n, h) e = Inr (a, n, h)" by (auto simp: reserveRow_def pick_def within_def)
    with Cons.prems have "foldR (reserveRow u w) (a, n, h) rows = Inr (a', n', h')" by simp
    from Cons.IH [OF this] Cons.prems False show ?thesis by (simp add: distrib_right)
  next
    case True
    then have "reserveRow u w (a, n, h) e = bindR (capture a (e_revision e)) (\<lambda>(a, captured).
          Inr (a, wrap64 (n + 1), wrap64 (h + lease captured w (e_user e))))"
      by (auto simp: reserveRow_def pick_def within_def)
    with Cons.prems(1) obtain b c where b: "capture a (e_revision e) = Inr (b, c)"
      and rest: "foldR (reserveRow u w) (b, wrap64 (n + 1), wrap64 (h + lease c w (e_user e))) rows = Inr (a', n', h')"
      by (auto simp: res_simps)
    note c = capture_ok [OF Cons.prems(2) b, of w]
    then have eq: "b = a\<lparr>ac_captured := ac_captured b\<rparr>" by blast
    have same: "ac_store b = ac_store a" "ac_scheme b = ac_scheme a"
      using arg_cong [OF eq, of ac_store] arg_cong [OF eq, of ac_scheme] by simp_all
    note l = leaseOf_range [OF Cons.prems(3-5), of e]
    have "wrap64 (n + 1) = n + 1" using Cons.prems by (intro wrap64_id) (simp add: in64_def)
    moreover have "wrap64 (h + lease c w (e_user e)) = h + leaseOf (ac_store a) (ac_scheme a) w e"
      using Cons.prems c l by (subst wrap64_id) (auto simp: in64_def)
    ultimately have rest': "foldR (reserveRow u w) (b, n + 1, h + leaseOf (ac_store a) (ac_scheme a) w e) rows = Inr (a', n', h')"
      using rest by simp
    have "a' = b\<lparr>ac_captured := ac_captured a'\<rparr> \<and> capturedOK a' \<and> n' = n + 1 + int (length (filter (pick u w) rows)) \<and>
      h' = h + leaseOf (ac_store a) (ac_scheme a) w e +
        (\<Sum>e\<leftarrow>filter (pick u w) rows. leaseOf (ac_store b) (ac_scheme b) w e)"
      by (rule Cons.IH [OF rest']) (use c l Cons.prems in \<open>auto simp: same distrib_right\<close>)
    moreover have "b\<lparr>ac_captured := ac_captured a'\<rparr> = a\<lparr>ac_captured := ac_captured a'\<rparr>"
      by (subst eq) simp
    ultimately show ?thesis using True same by simp
  qed
qed simp

lemma filter_pick:
  assumes "scope = 0 \<or> scope = u"
  shows "filter (\<lambda>e. u = 0 \<or> e_user e = u) (activeIn d scheme scope w mode) = activeIn d scheme u w mode"
  using assms by (auto simp: activeIn_def intro!: filter_cong)

text \<open>The cached computation of a window's reservations is the reference one.\<close>

lemma reservations_exact:
  assumes a: "cacheOK a user m" and st: "storeOK (ac_store a) (ac_scheme a)"
    and u: "u = user \<and> m' = m \<or> u = 0 \<and> Mode (ac_config a) = ''ratio''"
    and w: "w \<in> set (ac_windows a)" "counts a m w" "0 \<le> limit w" "limit w \<le> maxAmount"
    and r: "reservations a u m' (ac_config a) w = Inr (a', active, held)"
  shows "sameSnapshot a a' \<and> cacheOK a' user m \<and>
    active = int (length (activeIn (ac_store a) (ac_scheme a) u w (entryMode (ac_config a)))) \<and>
    held = heldIn (ac_store a) (ac_scheme a) u w (entryMode (ac_config a))"
proof -
  from r obtain b rows where e: "entries a u m' (ac_config a) = Inr (b, rows)"
    and f: "foldR (reserveRow u w) (b, 0, 0) rows = Inr (a', active, held)"
    by (auto simp: reservations_def res_simps)
  note eo = entries_ok [OF a u e]
  then have rows: "rowsOK a (scopeOf a user) w rows" and snap: "sameSnapshot a b" and b: "cacheOK b user m"
    using w by auto
  have same: "ac_store b = ac_store a" "ac_scheme b = ac_scheme a" using snap by (simp_all add: sameSnapshot_def)
  have len: "length rows \<le> 4096" using rows by (simp add: rowsOK_def)
  have fold: "a' = b\<lparr>ac_captured := ac_captured a'\<rparr> \<and> capturedOK a' \<and> active = 0 + int (length (filter (pick u w) rows)) \<and>
      held = 0 + (\<Sum>e\<leftarrow>filter (pick u w) rows. leaseOf (ac_store b) (ac_scheme b) w e)"
    by (rule reservations_fold [OF f]) (use b st w len in \<open>auto simp: cacheOK_def same\<close>)
  let ?act = "activeIn (ac_store a) (ac_scheme a)" and ?mode = "entryMode (ac_config a)"
  have "filter (pick u w) rows = filter (\<lambda>e. u = 0 \<or> e_user e = u) (filter (within w) rows)"
    by (auto simp: pick_def intro!: filter_cong)
  then have "mset (filter (pick u w) rows) = mset (filter (\<lambda>e. u = 0 \<or> e_user e = u) (?act (scopeOf a user) w ?mode))"
    using rows unfolding rowsOK_def by (metis mset_filter)
  also have "filter (\<lambda>e. u = 0 \<or> e_user e = u) (?act (scopeOf a user) w ?mode) = ?act u w ?mode"
    using u by (intro filter_pick) (auto simp: scopeOf_def)
  finally have ms: "mset (filter (pick u w) rows) = mset (?act u w ?mode)" .
  have "length (filter (pick u w) rows) = length (?act u w ?mode)" using ms by (metis size_mset)
  moreover have "(\<Sum>e\<leftarrow>filter (pick u w) rows. leaseOf (ac_store a) (ac_scheme a) w e) =
      (\<Sum>e\<leftarrow>?act u w ?mode. leaseOf (ac_store a) (ac_scheme a) w e)"
    using ms by (metis mset_map sum_mset_sum_list)
  moreover have "sameSnapshot a a'" "cacheOK a' user m"
  proof -
    have eq: "ac_store a' = ac_store b" "ac_scheme a' = ac_scheme b" "ac_config a' = ac_config b"
        "ac_windows a' = ac_windows b" "ac_active a' = ac_active b" "ac_groups a' = ac_groups b"
      using fold by (metis accounting.select_convs accounting.surjective accounting.update_convs(6))+
    then show "sameSnapshot a a'" using snap by (simp add: sameSnapshot_def)
    show "cacheOK a' user m" using b fold eq
      by (simp add: cacheOK_def activeOK_def groupsOK_def scopeOf_def counts_def rowsOK_def poolUsage_def)
  qed
  ultimately show ?thesis using fold by (simp add: heldIn_def same)
qed

section \<open>What a window check establishes\<close>

definition memberOK :: "store \<Rightarrow> int \<Rightarrow> Config \<Rightarrow> Share \<Rightarrow> allocationWindow \<Rightarrow> bool" where
  "memberOK d scheme c m w \<longleftrightarrow>
     (let lim = memberLimit c m w; mode = entryMode c in
      Mode c = ''windows'' \<and> lim = 0 \<or>
      usedIn d scheme (UserID m) w mode < lim \<and>
      usedIn d scheme (UserID m) w mode + heldIn d scheme (UserID m) w mode \<le> lim \<and>
      int (length (activeIn d scheme (UserID m) w mode)) < maxOutstandingRiskRequests)"

definition poolOK :: "store \<Rightarrow> int \<Rightarrow> Config \<Rightarrow> Share \<Rightarrow> allocationWindow \<Rightarrow> bool" where
  "poolOK d scheme c m w \<longleftrightarrow>
     (let tot = windowTotal w c; mode = entryMode c in
      usedIn d scheme 0 w mode < tot \<and>
      usedIn d scheme 0 w mode + heldIn d scheme 0 w mode + reservation (memberLimit c m w) \<le> tot + reservation tot)"

lemma AllocationMemberUsage_used:
  "user \<noteq> 0 \<Longrightarrow> AllocationMemberUsage d scheme user (start w) (stop w) mode = Inr u \<Longrightarrow> fst u = usedIn d scheme user w mode"
  by (auto simp: AllocationMemberUsage_def usedIn_def Let_def res_simps)

lemma usedIn_nonneg: "storeOK d scheme \<Longrightarrow> 0 \<le> usedIn d scheme user w mode"
  unfolding usedIn_def sumCost_def storeOK_def by (intro sum_list_map_nonneg) (auto simp: list_all_iff)

lemma heldIn_nonneg:
  "storeOK d scheme \<Longrightarrow> 0 \<le> limit w \<Longrightarrow> limit w \<le> maxAmount \<Longrightarrow> 0 \<le> heldIn d scheme user w mode"
  unfolding heldIn_def by (intro sum_list_map_nonneg leaseOf_range)

text \<open>While usage is below the limit the room is exact: nothing wraps.\<close>

lemma room_exact:
  assumes "0 \<le> lim" "lim \<le> maxAmount" "0 \<le> used" "used < lim" "0 \<le> held" "held \<le> 4096 * maxAmount"
  shows "max 0 (wrap64 (wrap64 (wrap64 (lim + reservation lim) - used) - held)) = max 0 (lim + reservation lim - used - held)"
proof -
  note r = reservation_range(1) [OF assms(1,2)] reservation_ge1 [of lim]
  then have "wrap64 (lim + reservation lim) = lim + reservation lim"
      "wrap64 (lim + reservation lim - used) = lim + reservation lim - used"
      "wrap64 (lim + reservation lim - used - held) = lim + reservation lim - used - held"
    using assms by (auto intro!: wrap64_id simp: in64_def)
  then show ?thesis by simp
qed

lemma heldIn_bound:
  assumes "storeOK d scheme" "0 \<le> limit w" "limit w \<le> maxAmount" "length (activeIn d scheme user w mode) \<le> 4096"
  shows "heldIn d scheme user w mode \<le> 4096 * maxAmount"
proof -
  have "heldIn d scheme user w mode \<le> (\<Sum>e\<leftarrow>activeIn d scheme user w mode. maxAmount)"
    unfolding heldIn_def by (rule sum_list_map_le) (rule leaseOf_range [OF assms(1-3)])
  also have "\<dots> = int (length (activeIn d scheme user w mode)) * maxAmount" by (simp add: sum_list_triv)
  also have "\<dots> \<le> 4096 * maxAmount" using assms(4) by (intro mult_right_mono) auto
  finally show ?thesis .
qed

text \<open>The rows of the scope bound the active entries of every user in it.\<close>

lemma active_le:
  assumes "cacheOK a user m" "u = user \<and> m' = m \<or> u = 0 \<and> Mode (ac_config a) = ''ratio''"
    and "w \<in> set (ac_windows a)" "counts a m w"
    and "reservations a u m' (ac_config a) w = Inr r"
  shows "length (activeIn (ac_store a) (ac_scheme a) u w (entryMode (ac_config a))) \<le> 4096"
proof -
  from assms(5) obtain b rows where e: "entries a u m' (ac_config a) = Inr (b, rows)"
    by (auto simp: reservations_def res_simps)
  then have rows: "rowsOK a (scopeOf a user) w rows" using entries_ok [OF assms(1,2) e] assms(3,4) by blast
  let ?act = "activeIn (ac_store a) (ac_scheme a)" and ?mode = "entryMode (ac_config a)"
  have "?act u w ?mode = filter (\<lambda>e. u = 0 \<or> e_user e = u) (?act (scopeOf a user) w ?mode)"
    using assms(2) by (intro filter_pick [symmetric]) (auto simp: scopeOf_def)
  then have "length (?act u w ?mode) \<le> length (?act (scopeOf a user) w ?mode)" by simp
  also have "\<dots> = length (filter (within w) rows)" using rows unfolding rowsOK_def by (metis size_mset)
  also have "\<dots> \<le> 4096" using rows length_filter_le [of "within w" rows] unfolding rowsOK_def by linarith
  finally show ?thesis .
qed

lemma memberUsage_ok:
  assumes a: "cacheOK a (UserID m) m" and st: "storeOK (ac_store a) (ac_scheme a)" and c: "wfConfig (ac_config a)"
    and m: "m \<in> set (Members (ac_config a))" and w: "w \<in> set (ac_windows a)" "windowOf (ac_config a) w"
    and r: "memberUsage a m (ac_config a) w = Inr (b, s)"
    and pass: "\<not> (\<not> mu_unlimited s \<and> mu_used s \<ge> mu_limit s)" "\<not> limited (mu_risk s)"
  shows "memberOK (ac_store a) (ac_scheme a) (ac_config a) m w"
proof -
  let ?lim = "memberLimit (ac_config a) m w" and ?mode = "entryMode (ac_config a)"
  let ?d = "ac_store a" and ?scheme = "ac_scheme a"
  have user: "UserID m \<noteq> 0" using validMemberLimit_range [OF wfConfig_member [OF c m]] by auto
  from r obtain usage where usage: "AllocationMemberUsage ?d ?scheme (UserID m) (start w) (stop w) ?mode = Inr usage"
    by (auto simp: memberUsage_def res_simps Let_def)
  note used = AllocationMemberUsage_used [OF user usage]
  show ?thesis
  proof (cases "Mode (ac_config a) = ''windows'' \<and> ?lim = 0")
    case True
    then show ?thesis by (simp add: memberOK_def)
  next
    case False
    then have counts: "counts a m w" by (simp add: counts_def)
    have lim: "0 \<le> limit w" "limit w \<le> maxAmount" using windowOf_limit [OF c w(2)] by auto
    from r usage False obtain active held where
      res: "reservations a (UserID m) m (ac_config a) w = Inr (b, active, held)"
      and s: "mu_limit s = ?lim" "mu_used s = fst usage" "\<not> mu_unlimited s"
        "limited (mu_risk s) \<longleftrightarrow> active \<ge> 4 \<or>
           max 0 (wrap64 (wrap64 (wrap64 (?lim + reservation ?lim) - fst usage) - held)) < reservation ?lim"
      by (auto simp: memberUsage_def res_simps Let_def)
    note ex = reservations_exact [OF a st _ w(1) counts lim res]
    note le = active_le [OF a _ w(1) counts res]
    have active: "active = int (length (activeIn ?d ?scheme (UserID m) w ?mode))"
      and held: "held = heldIn ?d ?scheme (UserID m) w ?mode"
      using ex by auto
    have "held \<le> 4096 * maxAmount" "0 \<le> held"
      unfolding held using heldIn_bound [OF st lim] le heldIn_nonneg [OF st lim] by auto
    moreover have "0 \<le> fst usage" "fst usage < ?lim" using used usedIn_nonneg [OF st] pass(1) s by auto
    ultimately have "max 0 (wrap64 (wrap64 (wrap64 (?lim + reservation ?lim) - fst usage) - held)) =
        max 0 (?lim + reservation ?lim - fst usage - held)"
      using memberLimit_range [OF c w(2) m] by (intro room_exact) auto
    with pass(2) s(4) have "active < 4" "fst usage + held \<le> ?lim" using reservation_ge1 [of ?lim] by auto
    with \<open>fst usage < ?lim\<close> show ?thesis by (simp add: memberOK_def used active held)
  qed
qed

lemma groupUsage_ok:
  assumes a: "cacheOK a user m" and st: "storeOK (ac_store a) (ac_scheme a)" and c: "wfConfig (ac_config a)"
    and ratio: "Mode (ac_config a) = ''ratio''" and w: "w \<in> set (ac_windows a)" "windowOf (ac_config a) w"
    and g: "groupUsage a w = Inr (b, u)"
  shows "sameSnapshot a b \<and> cacheOK b user m \<and> u = poolUsage a w"
proof (cases "ac_groups a w")
  case (Some u')
  with a g show ?thesis by (auto simp: groupUsage_def cacheOK_def groupsOK_def sameSnapshot_def)
next
  case None
  let ?m = "\<lparr>UserID = 0, Limit = 0, WindowOverrides = []\<rparr>"
  have lim: "0 \<le> limit w" "limit w \<le> maxAmount" using windowOf_limit [OF c w(2)] by auto
  have counts: "counts a m w" using ratio by (simp add: counts_def)
  from g None obtain b' used active held where
    used: "AllocationGroupUsage (ac_store a) (ac_scheme a) (start w) (stop w) (entryMode (ac_config a)) = Inr used"
    and res: "reservations a 0 ?m (ac_config a) w = Inr (b', active, held)"
    and bu: "b = b'\<lparr>ac_groups := (ac_groups b')(w \<mapsto> u)\<rparr>"
      "u = \<lparr>g_used = used, g_held = held, g_room = max 0 (wrap64 (wrap64 (wrap64
         (windowTotal w (ac_config b') + reservation (windowTotal w (ac_config b'))) - used) - held))\<rparr>"
    by (auto simp: groupUsage_def res_simps Let_def)
  have ex: "sameSnapshot a b'" "cacheOK b' user m" "held = heldIn (ac_store a) (ac_scheme a) 0 w (entryMode (ac_config a))"
    using reservations_exact [OF a st _ w(1) counts lim res] ratio by auto
  have "used = usedIn (ac_store a) (ac_scheme a) 0 w (entryMode (ac_config a))"
    using used by (auto simp: AllocationGroupUsage_def usedIn_def Let_def res_simps)
  then have u: "u = poolUsage a w" using bu(2) ex by (simp add: poolUsage_def sameSnapshot_def Let_def)
  have same: "poolUsage b = poolUsage a" "poolUsage b' = poolUsage a"
    using ex(1) bu(1) by (auto simp: poolUsage_def sameSnapshot_def fun_eq_iff)
  have "groupsOK b" using ex(2) same u bu(1) by (auto simp: groupsOK_def cacheOK_def)
  moreover have "capturedOK b" "activeOK b user m"
    using ex(2) bu(1) by (auto simp: cacheOK_def capturedOK_def activeOK_def scopeOf_def counts_def rowsOK_def)
  moreover have "sameSnapshot a b" using ex(1) bu(1) by (simp add: sameSnapshot_def)
  ultimately show ?thesis using u by (simp add: cacheOK_def)
qed

lemma memberUsage_snapshot:
  assumes a: "cacheOK a (UserID m) m" and st: "storeOK (ac_store a) (ac_scheme a)" and c: "wfConfig (ac_config a)"
    and w: "w \<in> set (ac_windows a)" "windowOf (ac_config a) w"
    and r: "memberUsage a m (ac_config a) w = Inr (b, s)"
  shows "sameSnapshot a b \<and> cacheOK b (UserID m) m \<and> mu_limit s = memberLimit (ac_config a) m w"
proof (cases "Mode (ac_config a) = ''windows'' \<and> memberLimit (ac_config a) m w = 0")
  case True
  with r a show ?thesis by (auto simp: memberUsage_def res_simps Let_def sameSnapshot_def)
next
  case False
  then have counts: "counts a m w" by (simp add: counts_def)
  have lim: "0 \<le> limit w" "limit w \<le> maxAmount" using windowOf_limit [OF c w(2)] by auto
  from r False obtain active held where "reservations a (UserID m) m (ac_config a) w = Inr (b, active, held)"
    and "mu_limit s = memberLimit (ac_config a) m w"
    by (auto simp: memberUsage_def res_simps Let_def)
  with reservations_exact [OF a st _ w(1) counts lim this(1)] show ?thesis by auto
qed

lemma poolOK_iff:
  assumes st: "storeOK (ac_store a) (ac_scheme a)" and c: "wfConfig (ac_config a)" and ratio: "Mode (ac_config a) = ''ratio''"
    and w: "windowOf (ac_config a) w" and le: "heldIn (ac_store a) (ac_scheme a) 0 w (entryMode (ac_config a)) \<le> 4096 * maxAmount"
    and pass: "\<not> g_used (poolUsage a w) \<ge> windowTotal w (ac_config a)"
      "\<not> g_room (poolUsage a w) < reservation (memberLimit (ac_config a) m w)"
  shows "poolOK (ac_store a) (ac_scheme a) (ac_config a) m w"
proof -
  let ?tot = "windowTotal w (ac_config a)" and ?mode = "entryMode (ac_config a)"
  let ?used = "usedIn (ac_store a) (ac_scheme a) 0 w ?mode" and ?held = "heldIn (ac_store a) (ac_scheme a) 0 w ?mode"
  have lim: "0 \<le> limit w" "limit w \<le> maxAmount" using windowOf_limit [OF c w] by auto
  have t: "0 < ?tot" "?tot \<le> maxAmount" using windowTotal_range [OF c w ratio] by auto
  have "?used < ?tot" using pass(1) by (simp add: poolUsage_def Let_def)
  moreover have "g_room (poolUsage a w) = max 0 (?tot + reservation ?tot - ?used - ?held)"
    unfolding poolUsage_def Let_def sharedUsage.simps
    using t calculation usedIn_nonneg [OF st] heldIn_nonneg [OF st lim] le by (intro room_exact) auto
  ultimately show ?thesis
    using pass(2) reservation_ge1 [of "memberLimit (ac_config a) m w"] by (auto simp: poolOK_def Let_def)
qed

lemma heldIn_pool_bound:
  assumes a: "cacheOK a user m" and st: "storeOK (ac_store a) (ac_scheme a)" and c: "wfConfig (ac_config a)"
    and ratio: "Mode (ac_config a) = ''ratio''" and w: "w \<in> set (ac_windows a)" "windowOf (ac_config a) w"
    and r: "reservations a user m (ac_config a) w = Inr r"
  shows "heldIn (ac_store a) (ac_scheme a) 0 w (entryMode (ac_config a)) \<le> 4096 * maxAmount"
proof -
  have lim: "0 \<le> limit w" "limit w \<le> maxAmount" using windowOf_limit [OF c w(2)] by auto
  have counts: "counts a m w" using ratio by (simp add: counts_def)
  from r obtain b rows where e: "entries a user m (ac_config a) = Inr (b, rows)" by (auto simp: reservations_def res_simps)
  then have rows: "rowsOK a 0 w rows" using entries_ok [OF a _ e] w(1) counts ratio by (auto simp: scopeOf_def)
  then have "length (activeIn (ac_store a) (ac_scheme a) 0 w (entryMode (ac_config a))) = length (filter (within w) rows)"
    unfolding rowsOK_def by (metis size_mset)
  also have "\<dots> \<le> 4096" using rows length_filter_le [of "within w" rows] unfolding rowsOK_def by linarith
  finally show ?thesis by (rule heldIn_bound [OF st lim])
qed

definition windowOK :: "store \<Rightarrow> int \<Rightarrow> Config \<Rightarrow> Share \<Rightarrow> allocationWindow \<Rightarrow> bool" where
  "windowOK d scheme c m w \<longleftrightarrow> memberOK d scheme c m w \<and> (Mode c = ''ratio'' \<longrightarrow> poolOK d scheme c m w)"

lemma checkWindow_ok:
  assumes a: "cacheOK a (UserID m) m" and st: "storeOK (ac_store a) (ac_scheme a)" and c: "wfConfig (ac_config a)"
    and m: "m \<in> set (Members (ac_config a))" and w: "w \<in> set (ac_windows a)" "windowOf (ac_config a) w"
    and r: "checkWindow (ac_config a) m (a, risk) w = Inr (b, risk')"
  shows "sameSnapshot a b \<and> cacheOK b (UserID m) m \<and> (risk \<longrightarrow> risk') \<and>
    (\<not> risk' \<longrightarrow> windowOK (ac_store a) (ac_scheme a) (ac_config a) m w)"
proof -
  from r obtain a1 s where mu: "memberUsage a m (ac_config a) w = Inr (a1, s)"
    and pass: "\<not> (\<not> mu_unlimited s \<and> mu_used s \<ge> mu_limit s)"
    by (auto simp: checkWindow_def res_simps)
  note s1 = memberUsage_snapshot [OF a st c w mu]
  note mo = memberUsage_ok [OF a st c m w mu pass]
  show ?thesis
  proof (cases "Mode (ac_config a) = ''ratio''")
    case False
    with r mu have "b = a1" "risk' \<longleftrightarrow> risk \<or> limited (mu_risk s)" by (auto simp: checkWindow_def res_simps)
    with s1 mo False show ?thesis by (auto simp: windowOK_def)
  next
    case True
    with r mu obtain u where gu: "groupUsage a1 w = Inr (b, u)" and quota: "\<not> g_used u \<ge> windowTotal w (ac_config a)"
      and risk': "risk' \<longleftrightarrow> risk \<or> g_room u < reservation (mu_limit s) \<or> limited (mu_risk s)"
      by (auto simp: checkWindow_def res_simps)
    have same: "ac_store a1 = ac_store a" "ac_scheme a1 = ac_scheme a" "ac_config a1 = ac_config a" "ac_windows a1 = ac_windows a"
      using s1 by (auto simp: sameSnapshot_def)
    have g: "sameSnapshot a1 b" "cacheOK b (UserID m) m" "u = poolUsage a w"
      using groupUsage_ok [of a1 "UserID m" m w b u] s1 st c True w gu by (auto simp: same poolUsage_def)
    have "\<exists>r. reservations a (UserID m) m (ac_config a) w = Inr r"
      using mu True by (auto simp: memberUsage_def res_simps Let_def)
    then have le: "heldIn (ac_store a) (ac_scheme a) 0 w (entryMode (ac_config a)) \<le> 4096 * maxAmount"
      using heldIn_pool_bound [OF a st c True w] by blast
    have "poolOK (ac_store a) (ac_scheme a) (ac_config a) m w" if "\<not> risk'"
      using poolOK_iff [OF st c True w(2) le] quota risk' that g(3) s1 by simp
    then show ?thesis
      using s1 g mo risk' sameSnapshot_trans [of a a1 b] by (auto simp: windowOK_def)
  qed
qed

lemma checkWindows_ok:
  assumes "foldR (checkWindow c m) (a, risk) ws = Inr (b, risk')"
    and "cacheOK a (UserID m) m" "storeOK (ac_store a) (ac_scheme a)" "wfConfig c" "ac_config a = c"
    and "m \<in> set (Members c)" "set ws \<subseteq> set (ac_windows a)" "\<And>w. w \<in> set ws \<Longrightarrow> windowOf c w"
  shows "(risk \<longrightarrow> risk') \<and> (\<not> risk' \<longrightarrow> (\<forall>w \<in> set ws. windowOK (ac_store a) (ac_scheme a) c m w))"
  using assms
proof (induction ws arbitrary: a risk)
  case (Cons w ws)
  from Cons.prems(1) obtain a1 risk1 where step: "checkWindow c m (a, risk) w = Inr (a1, risk1)"
    and rest: "foldR (checkWindow c m) (a1, risk1) ws = Inr (b, risk')" by (auto simp: res_simps)
  have ok: "sameSnapshot a a1" "cacheOK a1 (UserID m) m" "risk \<longrightarrow> risk1"
      "\<not> risk1 \<longrightarrow> windowOK (ac_store a) (ac_scheme a) c m w"
    using checkWindow_ok [of a m w risk a1 risk1] Cons.prems step by auto
  then have same: "ac_store a1 = ac_store a" "ac_scheme a1 = ac_scheme a" "ac_config a1 = c" "ac_windows a1 = ac_windows a"
    using Cons.prems by (auto simp: sameSnapshot_def)
  from Cons.IH [OF rest ok(2)] Cons.prems ok same show ?case by auto
qed simp

section \<open>The revision in force\<close>

lemma currentRow_Some:
  assumes "currentRow d scheme t = Some r"
  shows "r \<in> set (allocation_revisions d) \<and> r_scheme r = scheme \<and> r_effective_at r \<le> t \<and>
    (\<forall>x \<in> set (allocation_revisions d). r_scheme x = scheme \<and> r_effective_at x \<le> t \<longrightarrow>
       r_effective_at x < r_effective_at r \<or> r_effective_at x = r_effective_at r \<and> r_id x \<le> r_id r)"
proof -
  let ?rows = "filter (\<lambda>r. r_scheme r = scheme \<and> r_effective_at r \<le> t) (allocation_revisions d)"
  from assms obtain b where b: "greatest r_effective_at ?rows = Some b"
    and r: "greatest r_id (filter (\<lambda>r. r_effective_at r = r_effective_at b) ?rows) = Some r"
    by (auto simp: currentRow_def Let_def split: option.splits)
  note gb = greatest_Some [OF b] and gr = greatest_Some [OF r]
  have "r_effective_at r = r_effective_at b" "r \<in> set ?rows" using gr by auto
  moreover have "r_effective_at x < r_effective_at b \<or> r_effective_at x = r_effective_at b \<and> r_id x \<le> r_id r"
    if "x \<in> set ?rows" for x
    using gb gr that by (cases "r_effective_at x = r_effective_at b") (auto simp: order.strict_iff_order)
  ultimately show ?thesis by auto
qed

lemma storedRevision_Inr:
  "storedRevision row = Inr rv \<longleftrightarrow> (\<exists>c. r_config row = Json c \<and> validPeriod c \<and>
     rv = \<lparr>RevID = r_id row, EffectiveAt = r_effective_at row, AccountingAnchorAt = r_anchor_at row,
           RevConfig = c, RevCoverage = noCoverage\<rparr>)"
  by (auto simp: storedRevision_def decodeRevision_def res_simps)

lemma Current_Inr:
  "Current d scheme now = Inr rv \<longleftrightarrow>
     (\<exists>row. \<not> fails d ''CurrentAllocationRevision'' \<and> currentRow d scheme now = Some row \<and> storedRevision row = Inr rv)"
  by (auto simp: Current_def CurrentAllocationRevision_def queryRow_def split: sum.splits option.splits if_splits)

lemma Current_ok:
  assumes st: "storeOK d scheme" and c: "Current d scheme now = Inr rv"
  shows "wfConfig (RevConfig rv)" "0 \<le> AccountingAnchorAt rv" "AccountingAnchorAt rv \<le> now"
    "capturedOf d scheme (RevID rv) = Some (RevConfig rv)"
proof -
  from c obtain row where row: "currentRow d scheme now = Some row" "storedRevision row = Inr rv"
    by (auto simp: Current_Inr)
  note cr = currentRow_Some [OF row(1)]
  from row(2) have rv: "r_config row = Json (RevConfig rv)" "RevID rv = r_id row" "AccountingAnchorAt rv = r_anchor_at row"
    by (auto simp: storedRevision_Inr)
  have ok: "revisionOK row" using st cr by (auto simp: storeOK_def list_all_iff)
  then show "wfConfig (RevConfig rv)" "0 \<le> AccountingAnchorAt rv" "AccountingAnchorAt rv \<le> now"
    using rv cr by (auto simp: revisionOK_def)
  have "distinct (map r_id (allocation_revisions d))" using st by (simp add: storeOK_def)
  then have "first_of (\<lambda>r. r_id r = r_id row \<and> r_scheme r = scheme) (allocation_revisions d) = Some row"
  proof -
    assume dist: "distinct (map r_id (allocation_revisions d))"
    obtain x where x: "first_of (\<lambda>r. r_id r = r_id row \<and> r_scheme r = scheme) (allocation_revisions d) = Some x"
      using cr first_of_None_iff [of "\<lambda>r. r_id r = r_id row \<and> r_scheme r = scheme" "allocation_revisions d"]
      by (cases "first_of (\<lambda>r. r_id r = r_id row \<and> r_scheme r = scheme) (allocation_revisions d)") auto
    then have "x \<in> set (allocation_revisions d)" "r_id x = r_id row" using first_of_SomeD by fastforce+
    with dist cr have "x = row" unfolding distinct_map inj_on_def by metis
    with x show ?thesis by simp
  qed
  then show "capturedOf d scheme (RevID rv) = Some (RevConfig rv)" by (simp add: capturedOf_def rv)
qed

lemma Authorize_Inr:
  assumes "Authorize d scheme user grp now = Inr rv"
  shows "Current d scheme now = Inr rv" "\<exists>m \<in> set (Members (RevConfig rv)). UserID m = user"
    "\<exists>s \<in> set (allocation_schemes d). s_id s = scheme \<and> s_enabled s \<and> effective_group_access d user (s_group s)"
  using assms
  by (auto simp: Authorize_def CanUseAllocation_def res_simps list_ex_iff split: sum.splits if_splits)

lemma newAccounting_ok:
  assumes "storeOK d scheme" "Current d scheme now = Inr rv"
  shows "cacheOK (newAccounting d scheme rv ws) user m"
  using Current_ok(4) [OF assms]
  by (auto simp: newAccounting_def cacheOK_def capturedOK_def activeOK_def groupsOK_def)

section \<open>Admission\<close>

lemma distinct_singleton: "distinct xs \<Longrightarrow> set xs = {x} \<Longrightarrow> xs = [x]"
  by (cases xs; cases "tl xs") auto

lemma member_unique:
  assumes "wfConfig c" "m \<in> set (Members c)" "m' \<in> set (Members c)" "UserID m = UserID m'"
  shows "m = m'"
proof -
  have "distinct (map UserID (Members c))" using assms(1) unfolding wfConfig_def by blast
  with assms(2-) show ?thesis unfolding distinct_map inj_on_def by blast
qed

lemma Check_ok:
  assumes st: "storeOK d scheme" and z: "zone_ok loc" and t: "now \<le> maxTime"
    and ch: "Check d scheme user grp model now loc = Inr rv"
  shows "Authorize d scheme user grp now = Inr rv \<and>
    (\<exists>m \<in> set (Members (RevConfig rv)). UserID m = user \<and>
      (\<forall>w \<in> set (effectiveWindows rv now loc). windowOf (RevConfig rv) w \<and> start w \<le> now \<and> now < stop w \<and>
         windowOK d scheme (RevConfig rv) m w))"
proof -
  let ?c = "RevConfig rv" and ?ws = "effectiveWindows rv now loc"
  from ch have auth: "Authorize d scheme user grp now = Inr rv"
    and loop: "\<exists>a. foldR (checkMember ?c ?ws) (newAccounting d scheme rv ?ws) (filter (\<lambda>m. UserID m = user) (Members ?c)) = Inr a"
    by (auto simp: Check_def res_simps Let_def)
  note cur = Authorize_Inr(1) [OF auth]
  note co = Current_ok [OF st cur]
  from Authorize_Inr(2) [OF auth] obtain m where m: "m \<in> set (Members ?c)" "UserID m = user" by blast
  have "distinct (Members ?c)" using co(1) unfolding wfConfig_def distinct_map by blast
  then have "distinct (filter (\<lambda>m. UserID m = user) (Members ?c))" by (rule distinct_filter)
  moreover have "set (filter (\<lambda>m. UserID m = user) (Members ?c)) = {m}"
    using m member_unique [OF co(1)] by auto
  ultimately have single: "filter (\<lambda>m. UserID m = user) (Members ?c) = [m]"
    by (rule distinct_singleton)
  let ?a = "newAccounting d scheme rv ?ws"
  from loop obtain b where "foldR (checkWindow ?c m) (?a, False) ?ws = Inr (b, False)"
    unfolding single by (auto simp: checkMember_def res_simps)
  note cw = this
  have win: "windowOf ?c w" "start w \<le> now" "now < stop w" if "w \<in> set ?ws" for w
    using civil_zone.effectiveWindows_current [OF civil_zone.intro [OF z] co(1-3) t that] by auto
  have "\<forall>w \<in> set ?ws. windowOK d scheme ?c m w"
    using checkWindows_ok [OF cw newAccounting_ok [OF st cur]] st co(1) m win
    by (simp add: newAccounting_def)
  with auth m win show ?thesis by blast
qed

lemma Begin_Inr:
  "Begin d r now loc = Inr d' \<longleftrightarrow> (\<exists>rv.
     Check d (SchemeID r) (RequestUser r) (GroupID r) (RequestModel r) now loc = Inr rv \<and>
     \<not> fails d ''BeginAllocationEntry'' \<and>
     \<not> list_ex (\<lambda>x. e_request x = RequestID r) (allocation_entries d) \<and>
     list_ex (\<lambda>s. s_id s = SchemeID r) (allocation_schemes d) \<and>
     list_ex (\<lambda>x. r_id x = RevID rv) (allocation_revisions d) \<and>
     list_ex (\<lambda>u. u_id u = RequestUser r) (users d) \<and> entryMode (RevConfig rv) \<in> {''tokens'', ''amount''} \<and>
     d' = d\<lparr>allocation_entries := allocation_entries d @ [newEntry r rv (effectiveWindow rv now loc)]\<rparr>)"
  by (auto simp: Begin_def BeginAllocationEntry_def newEntry_def res_simps)

text \<open>Appending an active entry of the rule's mode started inside a window.\<close>

lemma append_active:
  assumes "e_state e = ''active''" "e_scheme e = scheme" "e_mode e = mode" "start w \<le> e_started_at e" "e_started_at e < stop w"
    and "d' = d\<lparr>allocation_entries := allocation_entries d @ [e]\<rparr>"
  shows "activeIn d' scheme user w mode = activeIn d scheme user w mode @ (if user = 0 \<or> e_user e = user then [e] else [])"
    and "usedIn d' scheme user w mode = usedIn d scheme user w mode"
    and "heldIn d' scheme user w mode = heldIn d scheme user w mode + (if user = 0 \<or> e_user e = user then leaseOf d scheme w e else 0)"
proof -
  show a: "activeIn d' scheme user w mode = activeIn d scheme user w mode @ (if user = 0 \<or> e_user e = user then [e] else [])"
    using assms by (simp add: activeIn_def inWindow_def)
  show "usedIn d' scheme user w mode = usedIn d scheme user w mode"
    using assms by (simp add: usedIn_def inWindow_def)
  have "leaseOf d' scheme w x = leaseOf d scheme w x" for x using assms(6) by (simp add: leaseOf_def capturedOf_def)
  then show "heldIn d' scheme user w mode = heldIn d scheme user w mode + (if user = 0 \<or> e_user e = user then leaseOf d scheme w e else 0)"
    by (simp add: heldIn_def a)
qed

definition admitted :: "store \<Rightarrow> int \<Rightarrow> Config \<Rightarrow> Share \<Rightarrow> allocationWindow \<Rightarrow> bool" where
  "admitted d scheme c m w \<longleftrightarrow>
     (let lim = memberLimit c m w; mode = entryMode c; tot = windowTotal w c in
      (Mode c = ''windows'' \<and> lim = 0 \<or>
       usedIn d scheme (UserID m) w mode < lim \<and>
       usedIn d scheme (UserID m) w mode + heldIn d scheme (UserID m) w mode \<le> lim + reservation lim \<and>
       int (length (activeIn d scheme (UserID m) w mode)) \<le> maxOutstandingRiskRequests) \<and>
      (Mode c = ''ratio'' \<longrightarrow>
         usedIn d scheme 0 w mode < tot \<and>
         usedIn d scheme 0 w mode + heldIn d scheme 0 w mode \<le> tot + reservation tot))"

lemma Begin_ok:
  assumes st: "storeOK d (SchemeID r)" and z: "zone_ok loc" and t: "now \<le> maxTime" and s: "StartedAt r = now"
    and b: "Begin d r now loc = Inr d'"
  shows "\<exists>rv m. Authorize d (SchemeID r) (RequestUser r) (GroupID r) now = Inr rv \<and>
    m \<in> set (Members (RevConfig rv)) \<and> UserID m = RequestUser r \<and>
    allocation_entries d' = allocation_entries d @ [newEntry r rv (effectiveWindow rv now loc)] \<and>
    (\<forall>w \<in> set (effectiveWindows rv now loc). admitted d' (SchemeID r) (RevConfig rv) m w)"
proof -
  from b obtain rv where ch: "Check d (SchemeID r) (RequestUser r) (GroupID r) (RequestModel r) now loc = Inr rv"
    and d': "d' = d\<lparr>allocation_entries := allocation_entries d @ [newEntry r rv (effectiveWindow rv now loc)]\<rparr>"
    by (auto simp: Begin_Inr)
  from Check_ok [OF st z t ch] obtain m where auth: "Authorize d (SchemeID r) (RequestUser r) (GroupID r) now = Inr rv"
    and m: "m \<in> set (Members (RevConfig rv))" "UserID m = RequestUser r"
    and ok: "\<And>w. w \<in> set (effectiveWindows rv now loc) \<Longrightarrow> windowOf (RevConfig rv) w \<and> start w \<le> now \<and> now < stop w \<and>
         windowOK d (SchemeID r) (RevConfig rv) m w"
    by blast
  let ?c = "RevConfig rv" and ?sc = "SchemeID r" and ?e = "newEntry r rv (effectiveWindow rv now loc)"
  note co = Current_ok [OF st Authorize_Inr(1) [OF auth]]
  have user: "UserID m \<noteq> 0" using validMemberLimit_range [OF wfConfig_member [OF co(1) m(1)]] by auto
  have "admitted d' ?sc ?c m w" if w: "w \<in> set (effectiveWindows rv now loc)" for w
  proof -
    note o = ok [OF w]
    let ?mode = "entryMode ?c" and ?lim = "memberLimit ?c m w"
    note ap = append_active [of ?e ?sc ?mode w d' d]
    have e: "e_state ?e = ''active''" "e_scheme ?e = ?sc" "e_mode ?e = ?mode" "e_started_at ?e = now" "e_user ?e = UserID m"
        "e_revision ?e = RevID rv"
      by (simp_all add: newEntry_def s m)
    have l: "leaseOf d ?sc w ?e = (if Mode ?c \<noteq> ''windows'' \<or> ?lim \<noteq> 0 then reservation ?lim else 0)"
      using lease_current [OF co(1) _ m(1), of w] o by (simp add: leaseOf_def e co(4))
    have u: "activeIn d' ?sc (UserID m) w ?mode = activeIn d ?sc (UserID m) w ?mode @ [?e]"
      "\<And>u. usedIn d' ?sc u w ?mode = usedIn d ?sc u w ?mode"
      "heldIn d' ?sc (UserID m) w ?mode = heldIn d ?sc (UserID m) w ?mode + leaseOf d ?sc w ?e"
      "heldIn d' ?sc 0 w ?mode = heldIn d ?sc 0 w ?mode + leaseOf d ?sc w ?e"
      using ap o e d' by simp_all
    have p: "Mode ?c = ''ratio'' \<longrightarrow> poolOK d ?sc ?c m w" and k: "memberOK d ?sc ?c m w" using o by (auto simp: windowOK_def)
    have "Mode ?c = ''windows'' \<and> ?lim = 0 \<or>
       usedIn d' ?sc (UserID m) w ?mode < ?lim \<and>
       usedIn d' ?sc (UserID m) w ?mode + heldIn d' ?sc (UserID m) w ?mode \<le> ?lim + reservation ?lim \<and>
       int (length (activeIn d' ?sc (UserID m) w ?mode)) \<le> maxOutstandingRiskRequests"
      using k unfolding memberOK_def Let_def u l by auto
    moreover have "Mode ?c = ''ratio'' \<longrightarrow> usedIn d' ?sc 0 w ?mode < windowTotal w ?c \<and>
         usedIn d' ?sc 0 w ?mode + heldIn d' ?sc 0 w ?mode \<le> windowTotal w ?c + reservation (windowTotal w ?c)"
      using p unfolding poolOK_def Let_def u l by auto
    ultimately show ?thesis unfolding admitted_def Let_def by blast
  qed
  with auth m d' show ?thesis by (intro exI [of _ rv] exI [of _ m]) simp
qed

section \<open>One accounting, many questions\<close>

text \<open>
  An admission, a change of members and a report each ask one accounting several times, about the members of the
  rule in force, in ratio mode about proposed members as well, and about the pool.
\<close>

inductive consults :: "accounting \<Rightarrow> accounting \<Rightarrow> bool" where
  consults_member: "memberUsage a m (ac_config a) w = Inr (b, s) \<Longrightarrow> m \<in> set (Members (ac_config a)) \<Longrightarrow>
    w \<in> set (ac_windows a) \<Longrightarrow> consults a b"
| consults_proposed: "memberUsage a m config w = Inr (b, s) \<Longrightarrow> Mode (ac_config a) = ''ratio'' \<Longrightarrow>
    w \<in> set (ac_windows a) \<Longrightarrow> consults a b"
| consults_pool: "groupUsage a w = Inr (b, u) \<Longrightarrow> Mode (ac_config a) = ''ratio'' \<Longrightarrow> w \<in> set (ac_windows a) \<Longrightarrow> consults a b"

text \<open>The caches are right for everyone who may be asked about.\<close>

definition asked :: "accounting \<Rightarrow> int \<Rightarrow> Share \<Rightarrow> bool" where
  "asked a user m \<longleftrightarrow> Mode (ac_config a) = ''ratio'' \<or> m \<in> set (Members (ac_config a)) \<and> user = UserID m"

definition sharedOK :: "accounting \<Rightarrow> bool" where
  "sharedOK a \<longleftrightarrow> (\<forall>user m. asked a user m \<longrightarrow> cacheOK a user m)"

lemma sharedOK_D: "sharedOK a \<Longrightarrow> asked a user m \<Longrightarrow> cacheOK a user m"
  by (simp add: sharedOK_def)

lemma capture_active: "capture a r = Inr (a', c) \<Longrightarrow> ac_active a' = ac_active a"
  by (auto simp: capture_def res_simps split: option.splits)

lemma reserveRow_active: "reserveRow u w s e = Inr s' \<Longrightarrow> ac_active (fst s') = ac_active (fst s)"
  by (cases s) (auto simp: reserveRow_def res_simps split: if_splits dest: capture_active)

lemma entries_active: "entries a u m c = Inr (a', rows) \<Longrightarrow> sc \<noteq> scopeOf a u \<Longrightarrow> ac_active a' sc = ac_active a sc"
  by (auto simp: entries_def scopeOf_def Let_def res_simps split: option.splits if_splits)

lemma reservations_active:
  assumes "reservations a u m c w = Inr (a', r)" "sc \<noteq> scopeOf a u"
  shows "ac_active a' sc = ac_active a sc"
proof -
  from assms(1) obtain b rows where e: "entries a u m c = Inr (b, rows)"
    and f: "foldR (reserveRow u w) (b, 0, 0) rows = Inr (a', r)" by (auto simp: reservations_def res_simps)
  have "ac_active (fst (a', r)) = ac_active b"
    by (rule foldR_invariant [OF f, where P = "\<lambda>s. ac_active (fst s) = ac_active b"]) (auto dest: reserveRow_active)
  then show ?thesis using entries_active [OF e assms(2)] by simp
qed

text \<open>In ratio mode all share one scope; otherwise a member's rows are the member's own.\<close>

lemma cacheOK_ratio: "Mode (ac_config a) = ''ratio'' \<Longrightarrow> cacheOK a user m = cacheOK a user' m'"
  by (simp add: cacheOK_def activeOK_def scopeOf_def counts_def)

lemma sharedOK_ratio: "Mode (ac_config a) = ''ratio'' \<Longrightarrow> sharedOK a = cacheOK a user m"
  using cacheOK_ratio [of a] unfolding sharedOK_def asked_def by metis

lemma sharedOK_member:
  assumes ok: "sharedOK a" and mode: "Mode (ac_config a) \<noteq> ''ratio''" and c: "wfConfig (ac_config a)"
    and m: "m \<in> set (Members (ac_config a))" and r: "reservations a (UserID m) m (ac_config a) w = Inr (b, x)"
    and b: "sameSnapshot a b" "cacheOK b (UserID m) m"
  shows "sharedOK b"
  unfolding sharedOK_def
proof (intro allI impI)
  fix user m'
  assume "asked b user m'"
  then have m': "m' \<in> set (Members (ac_config a))" "user = UserID m'" using b(1) mode by (auto simp: asked_def sameSnapshot_def)
  show "cacheOK b user m'"
  proof (cases "m' = m")
    case False
    then have "UserID m' \<noteq> UserID m" using member_unique [OF c m'(1) m] by blast
    then have "ac_active b (UserID m') = ac_active a (UserID m')"
      using reservations_active [OF r, of "UserID m'"] mode by (simp add: scopeOf_def)
    moreover have "cacheOK a (UserID m') m'" using ok m' by (simp add: sharedOK_def asked_def)
    ultimately have "activeOK b user m'"
      using b(1) mode m'(2) by (simp add: cacheOK_def activeOK_def scopeOf_def sameSnapshot_def counts_def rowsOK_def)
    then show ?thesis using b(2) by (simp add: cacheOK_def)
  qed (use b m' in simp)
qed

lemma entrySpan_pool: "entrySpan 0 c m ws = entrySpan 0 c' m' ws"
  by (simp add: entrySpan_def)

lemma entries_ratio: "Mode (ac_config a) = ''ratio'' \<Longrightarrow> entries a u m c = entries a u m' c'"
  using entrySpan_pool [of c m "ac_windows a" c' m'] by (cases "ac_active a 0") (simp_all add: entries_def)

lemma reservations_ratio:
  "Mode (ac_config a) = ''ratio'' \<Longrightarrow> reservations a u m c w = reservations a u m' c' w"
  unfolding reservations_def using entries_ratio [of a u m c m' c'] by simp

lemma consults_OK:
  assumes "consults a b" "sharedOK a" and st: "storeOK (ac_store a) (ac_scheme a)" and c: "wfConfig (ac_config a)"
    and w: "\<And>w. w \<in> set (ac_windows a) \<Longrightarrow> windowOf (ac_config a) w"
  shows "sameSnapshot a b \<and> sharedOK b"
  using assms(1)
proof (cases rule: consults.cases)
  case (consults_member m w s)
  have a: "cacheOK a (UserID m) m" using sharedOK_D [OF assms(2)] consults_member by (simp add: asked_def)
  note s = memberUsage_snapshot [OF a st c consults_member(3) assms(5) [OF consults_member(3)] consults_member(1)]
  show ?thesis
  proof (cases "Mode (ac_config a) = ''ratio''")
    case True
    then show ?thesis using s sharedOK_ratio [of b "UserID m" m] by (simp add: sameSnapshot_def)
  next
    case False
    have "b = a \<or> (\<exists>x. reservations a (UserID m) m (ac_config a) w = Inr (b, x))"
      using consults_member(1) by (auto simp: memberUsage_def res_simps Let_def split: if_splits)
    then show ?thesis using s assms(2) sharedOK_member [OF assms(2) False c consults_member(2)] by blast
  qed
next
  case (consults_proposed m config w s)
  have a: "cacheOK a (UserID m) m" using sharedOK_D [OF assms(2)] consults_proposed by (simp add: asked_def)
  have lim: "0 \<le> limit w" "limit w \<le> maxAmount" using windowOf_limit [OF c w [OF consults_proposed(3)]] by auto
  have "b = a \<or> (\<exists>x y. reservations a (UserID m) m config w = Inr (b, x, y))"
    using consults_proposed(1) by (auto simp: memberUsage_def res_simps Let_def split: if_splits)
  moreover have "sameSnapshot a b \<and> cacheOK b (UserID m) m" if r: "reservations a (UserID m) m config w = Inr (b, x, y)" for x y
  proof -
    have "reservations a (UserID m) m (ac_config a) w = Inr (b, x, y)"
      using r unfolding reservations_ratio [OF consults_proposed(2), of "UserID m" m config w m "ac_config a"] .
    moreover have "counts a m w" using consults_proposed(2) by (simp add: counts_def)
    ultimately show ?thesis using reservations_exact [OF a st _ consults_proposed(3) _ lim] by blast
  qed
  ultimately show ?thesis
    using assms(2) sharedOK_ratio [of b "UserID m" m] consults_proposed(2) by (auto simp: sameSnapshot_def)
next
  case (consults_pool w u)
  have a: "cacheOK a 0 m" for m using sharedOK_D [OF assms(2)] consults_pool by (simp add: asked_def)
  note g = groupUsage_ok [OF a st c consults_pool(2,3) w [OF consults_pool(3)] consults_pool(1)]
  then show ?thesis using sharedOK_ratio [of b 0] consults_pool(2) by (auto simp: sameSnapshot_def)
qed

lemma consulted_OK:
  assumes "consults\<^sup>*\<^sup>* (newAccounting d scheme rv ws) a" and st: "storeOK d scheme" and cur: "Current d scheme now = Inr rv"
    and w: "\<And>w. w \<in> set ws \<Longrightarrow> windowOf (RevConfig rv) w"
  shows "sameSnapshot (newAccounting d scheme rv ws) a \<and> sharedOK a"
  using assms(1)
proof (induction rule: rtranclp_induct)
  case base
  show ?case using newAccounting_ok [OF st cur] by (simp add: sharedOK_def sameSnapshot_def)
next
  case (step a b)
  let ?n = "newAccounting d scheme rv ws"
  have n: "ac_store ?n = d" "ac_scheme ?n = scheme" "ac_config ?n = RevConfig rv" "ac_windows ?n = ws"
    by (simp_all add: newAccounting_def)
  have same: "ac_store a = d" "ac_scheme a = scheme" "ac_config a = RevConfig rv" "ac_windows a = ws"
    using step.IH n by (auto simp: sameSnapshot_def)
  have "sameSnapshot a b \<and> sharedOK b"
    by (rule consults_OK [OF step.hyps(2)]) (use step.IH st w Current_ok(1) [OF st cur] in \<open>simp_all add: same\<close>)
  then show ?case using step.IH sameSnapshot_trans by blast
qed

section \<open>Properties\<close>

text \<open>The rule with its five-hour window only, which keeps the evaluations short.\<close>

definition exampleRule :: Config where
  "exampleRule = \<lparr>Mode = ''ratio'', Period = ''durations'', ResetTime = [], ResetDay = 0,
     Members = [\<lparr>UserID = 3, Limit = 6000, WindowOverrides = []\<rparr>, \<lparr>UserID = 7, Limit = 4000, WindowOverrides = []\<rparr>],
     Rates = [], RatioUnit = ''tokens'', Windows = [\<lparr>W_DurationSeconds = 18000, W_Limit = 10000\<rparr>], Total = 0\<rparr>"

lemma exampleRule_wf: "wfConfig exampleRule"
  by (rule normalize_wf [of exampleRule]) code_simp

text \<open>
  The witnesses run on a store with one workspace, a pool with a scheme and two members, one of
  whom has a settled and an active request in the current five-hour window.
\<close>

definition exampleEntry :: "string \<Rightarrow> int \<Rightarrow> string \<Rightarrow> int \<Rightarrow> entry_row" where
  "exampleEntry i user state cost =
     \<lparr>e_request = i, e_scheme = 1, e_revision = 1, e_user = user, e_account = ''a'', e_model = ''gpt-5'',
      e_mode = ''tokens'', e_window_start = 19000, e_reset_at = 37000, e_started_at = 19000, e_finished_at = 0,
      e_state = state, e_input_tokens = 0, e_output_tokens = 0, e_cached_tokens = 0, e_cost = cost, e_manual = False\<rparr>"

definition exampleUser :: "int \<Rightarrow> user_row" where
  "exampleUser i = \<lparr>u_id = i, u_enabled = True, u_username = [], u_role = ''member'', u_password_hash = [], u_created_at = 0,
     u_totp_secret = None, u_totp_step = -1, u_security_version = 0\<rparr>"

definition exampleStore :: "entry_row list \<Rightarrow> store" where
  "exampleStore es =
     \<lparr>faults = [], users = [exampleUser 3, exampleUser 7],
      tenants = [\<lparr>t_id = 1, t_status = ''active'', t_name = ''team'', t_owner = 3, t_created_at = 0\<rparr>],
      memberships = [
        \<lparr>m_tenant = 1, m_user = 3, m_role = ''owner'', m_enabled = True, m_requests_per_minute = 0, m_max_concurrency = 0, m_removed_at = None,
         m_first_request_at = 0, m_created_at = 0\<rparr>,
        \<lparr>m_tenant = 1, m_user = 7, m_role = ''member'', m_enabled = True, m_requests_per_minute = 0, m_max_concurrency = 0, m_removed_at = None,
         m_first_request_at = 0, m_created_at = 0\<rparr>],
      account_groups = [\<lparr>g_id = 1, g_name = ''pool'', g_enabled = True, g_restricted_models = False, g_tenant = 1,
        g_routing_preference = ''protocol'', g_allow_api_fallback = True, g_created_at = 0, g_updated_at = 0\<rparr>],
      group_members = [(1, 7)], group_models = [], group_accounts = [(1, ''a'')],
      accounts = [\<lparr>a_id = ''a'', a_provider = ''codex'', a_enabled = True, a_status = ''ready'',
        a_models_snapshot = Some (60, Json exampleCatalog), a_models_revision = 3, a_tenant = 1, a_created_at = 0,
        a_max_concurrency = 2, a_usage_revision = 0, a_name = []\<rparr>],
      allocation_schemes = [\<lparr>s_id = 1, s_name = ''team'', s_group = 1, s_enabled = True, s_created_at = 1000\<rparr>],
      allocation_revisions = [\<lparr>r_id = 1, r_scheme = 1, r_effective_at = 1000, r_anchor_at = 1000,
        r_config = Json (exampleRule)\<rparr>],
      allocation_entries = es, allocation_keys = [], api_keys = [], audit_events = [],
      account_affinity = [], member_rate = [], account_runtime = [], account_model_runtime = [], account_usage = [],
      request_records = [], usage_daily = [], usage_minutes = [], usage_hourly = [], settings = [],
      sessions = [], invitations = [], recovery_codes = [], auth_challenges = [], passkeys = [],
      request_seq = 0, scheme_seq = 1, revision_seq = 1\<rparr>"

definition exampleRequest :: "string \<Rightarrow> Request" where
  "exampleRequest i = \<lparr>RequestID = i, SchemeID = 1, RequestUser = 7, GroupID = 1, AccountID = ''a'',
     RequestModel = ''gpt-5'', StartedAt = 19001\<rparr>"

lemma exampleStore_ok: "list_all (\<lambda>e. 0 \<le> e_cost e) es \<Longrightarrow> storeOK (exampleStore es) 1"
  using exampleRule_wf by (simp add: storeOK_def exampleStore_def revisionOK_def)

definition exampleBefore :: store where
  "exampleBefore = exampleStore [exampleEntry ''r1'' 7 ''settled'' 3000, exampleEntry ''r2'' 7 ''active'' 0]"

definition exampleAfter :: store where
  "exampleAfter = exampleStore [exampleEntry ''r1'' 7 ''settled'' 3000, exampleEntry ''r2'' 7 ''active'' 0,
     (exampleEntry ''r3'' 7 ''active'' 0)\<lparr>e_started_at := 19001\<rparr>]"

lemma exampleBegin: "Begin exampleBefore (exampleRequest ''r3'') 19001 UTC = Inr exampleAfter"
  by code_simp

lemma exampleBefore_ok: "storeOK exampleBefore 1"
  unfolding exampleBefore_def by (rule exampleStore_ok) (simp add: exampleEntry_def)

definition exampleWindow :: allocationWindow where
  "exampleWindow = \<lparr>kind = ''duration'', start = 19000, stop = 37000, seconds = 18000, limit = 10000\<rparr>"

definition exampleRev :: Revision where
  "exampleRev = \<lparr>RevID = 1, EffectiveAt = 1000, AccountingAnchorAt = 1000, RevConfig = exampleRule, RevCoverage = noCoverage\<rparr>"

text \<open>
  C1: Admission. A request that begins was authorised: the scheme is enabled, the user has access
  to its pool and is a member of the rule in force. In every limited window of that rule the
  member's settled usage was below the limit, the reservations of the member's active requests,
  the new one included, exceed what is left of it by at most one reservation, and at most four
  are outstanding; in ratio mode the same bound holds for the whole pool.
\<close>

theorem Begin_admits_within_limits:
  assumes "storeOK d (SchemeID r)" and "zone_ok loc" and "now \<le> maxTime" and "StartedAt r = now"
    and "Begin d r now loc = Inr d'"
  shows "\<exists>rv m. Current d (SchemeID r) now = Inr rv \<and> m \<in> set (Members (RevConfig rv)) \<and> UserID m = RequestUser r \<and>
    (\<exists>s \<in> set (allocation_schemes d). s_id s = SchemeID r \<and> s_enabled s \<and> effective_group_access d (RequestUser r) (s_group s)) \<and>
    allocation_entries d' = allocation_entries d @ [newEntry r rv (effectiveWindow rv now loc)] \<and>
    (\<forall>w \<in> set (effectiveWindows rv now loc). admitted d' (SchemeID r) (RevConfig rv) m w)"
proof -
  from Begin_ok [OF assms] obtain rv m where b: "Authorize d (SchemeID r) (RequestUser r) (GroupID r) now = Inr rv"
    "m \<in> set (Members (RevConfig rv))" "UserID m = RequestUser r"
    "allocation_entries d' = allocation_entries d @ [newEntry r rv (effectiveWindow rv now loc)]"
    "\<forall>w \<in> set (effectiveWindows rv now loc). admitted d' (SchemeID r) (RevConfig rv) m w"
    by blast
  then show ?thesis using Authorize_Inr [OF b(1)] by blast
qed

theorem Begin_admits_within_limits_witness:
  "\<exists>rv m. Current exampleBefore 1 19001 = Inr rv \<and> m \<in> set (Members (RevConfig rv)) \<and> UserID m = 7 \<and>
    (\<forall>w \<in> set (effectiveWindows rv 19001 UTC). admitted exampleAfter 1 (RevConfig rv) m w)"
proof -
  have r: "SchemeID (exampleRequest ''r3'') = 1" "RequestUser (exampleRequest ''r3'') = 7" "StartedAt (exampleRequest ''r3'') = 19001"
    by (simp_all add: exampleRequest_def)
  have "storeOK exampleBefore (SchemeID (exampleRequest ''r3''))" using exampleBefore_ok r by simp
  from Begin_admits_within_limits [OF this zone_ok_UTC _ r(3) exampleBegin] show ?thesis unfolding r by auto
qed

text \<open>
  C2: The accounting reads each scope once and caches it, yet computes the reference: the number of
  active requests and the reservations it returns for a member or the pool in a window are those of exactly the
  active entries in the window, each at the limit its own revision had when it was admitted, and so are the numbers
  of the pool, whatever the same accounting was asked before, about whom and in which order.
\<close>

theorem reservations_are_exact:
  assumes "storeOK d scheme" and "Current d scheme now = Inr rv" and "zone_ok loc" and "now \<le> maxTime"
    and "consults\<^sup>*\<^sup>* (newAccounting d scheme rv (effectiveWindows rv now loc)) a" and "w \<in> set (effectiveWindows rv now loc)"
    and "user = UserID m \<and> m \<in> set (Members (RevConfig rv)) \<and> (Mode (RevConfig rv) \<noteq> ''windows'' \<or> memberLimit (RevConfig rv) m w \<noteq> 0) \<or>
      user = 0 \<and> Mode (RevConfig rv) = ''ratio''"
    and "reservations a user m (RevConfig rv) w = Inr (b, active, held)"
  shows "active = int (length (activeIn d scheme user w (entryMode (RevConfig rv)))) \<and>
    held = heldIn d scheme user w (entryMode (RevConfig rv)) \<and>
    (\<forall>c u. Mode (RevConfig rv) = ''ratio'' \<and> groupUsage b w = Inr (c, u) \<longrightarrow>
      g_used u = usedIn d scheme 0 w (entryMode (RevConfig rv)) \<and> g_held u = heldIn d scheme 0 w (entryMode (RevConfig rv)))"
proof -
  let ?n = "newAccounting d scheme rv (effectiveWindows rv now loc)"
  note co = Current_ok [OF assms(1,2)]
  have win: "windowOf (RevConfig rv) v" if "v \<in> set (effectiveWindows rv now loc)" for v
    using civil_zone.effectiveWindows_current [OF civil_zone.intro [OF assms(3)] co(1-3) assms(4) that] by blast
  have lim: "0 \<le> limit w" "limit w \<le> maxAmount" using windowOf_limit [OF co(1) win [OF assms(6)]] by auto
  have a: "sameSnapshot ?n a" "sharedOK a" using consulted_OK [OF assms(5,1,2) win] by blast+
  have same: "ac_store a = d" "ac_scheme a = scheme" "ac_config a = RevConfig rv" "ac_windows a = effectiveWindows rv now loc"
    using a(1) by (simp_all add: sameSnapshot_def newAccounting_def)
  have ok: "cacheOK a user m" using sharedOK_D [OF a(2)] assms(7) by (auto simp: asked_def same)
  have "sameSnapshot a b \<and> cacheOK b user m \<and> active = int (length (activeIn d scheme user w (entryMode (RevConfig rv)))) \<and>
      held = heldIn d scheme user w (entryMode (RevConfig rv))"
    using reservations_exact [OF ok, unfolded same, of user m w b active held] assms lim by (auto simp: counts_def same)
  moreover have "u = poolUsage b w" if "Mode (RevConfig rv) = ''ratio''" "groupUsage b w = Inr (c, u)" "sameSnapshot a b" "cacheOK b user m" for c u
    using groupUsage_ok [OF that(4) _ _ _ _ _ that(2)] that(1,3) assms(1,6) co(1) win same by (simp add: sameSnapshot_def)
  ultimately show ?thesis using same by (auto simp: poolUsage_def sameSnapshot_def Let_def)
qed

text \<open>The pool is asked first, then its member: the second answer comes from the cache.\<close>

theorem reservations_are_exact_witness:
  "\<exists>a u b. groupUsage (newAccounting exampleAfter 1 exampleRev [exampleWindow]) exampleWindow = Inr (a, u) \<and> ac_active a 0 \<noteq> None \<and>
     reservations a 7 \<lparr>UserID = 7, Limit = 4000, WindowOverrides = []\<rparr> exampleRule exampleWindow = Inr (b, 2, 800) \<and>
     heldIn exampleAfter 1 7 exampleWindow ''tokens'' = 800"
proof -
  let ?m = "\<lparr>UserID = 7, Limit = 4000, WindowOverrides = []\<rparr>" and ?n = "newAccounting exampleAfter 1 exampleRev [exampleWindow]"
  have st: "storeOK exampleAfter 1"
    unfolding exampleAfter_def by (rule exampleStore_ok) (simp add: exampleEntry_def)
  have c: "Current exampleAfter 1 19001 = Inr exampleRev" by code_simp
  have m: "?m \<in> set (Members (RevConfig exampleRev))" by (simp add: exampleRev_def exampleRule_def)
  have ws: "effectiveWindows exampleRev 19001 UTC = [exampleWindow]" by code_simp
  have "case groupUsage ?n exampleWindow of Inl e \<Rightarrow> False
    | Inr (a, u) \<Rightarrow> ac_active a 0 \<noteq> None \<and> map_sum id snd (reservations a 7 ?m exampleRule exampleWindow) = Inr (2, 800)"
    by code_simp
  then obtain a u where g: "groupUsage ?n exampleWindow = Inr (a, u)" "ac_active a 0 \<noteq> None"
    and "map_sum id snd (reservations a 7 ?m exampleRule exampleWindow) = Inr (2, 800)" by (auto split: sum.splits)
  then obtain b where r: "reservations a 7 ?m exampleRule exampleWindow = Inr (b, 2, 800)"
    by (cases "reservations a 7 ?m exampleRule exampleWindow") auto
  have e: "RevConfig exampleRev = exampleRule" "Mode exampleRule = ''ratio''" "entryMode exampleRule = ''tokens''"
    by (simp_all add: exampleRev_def exampleRule_def entryMode_def)
  have "consults ?n a" by (rule consults_pool [OF g(1)]) (simp_all add: newAccounting_def e)
  then have "consults\<^sup>*\<^sup>* (newAccounting exampleAfter 1 exampleRev (effectiveWindows exampleRev 19001 UTC)) a" unfolding ws by blast
  from reservations_are_exact [OF st c zone_ok_UTC _ this, of exampleWindow 7 ?m b 2 800] e r ws m g show ?thesis by auto
qed

end
