(* ===== verification/Alloc_Settlement.thy ===== *)
theory Alloc_Settlement
  imports Alloc_Admission
begin

text \<open>
  The life of an allocation entry: one active entry per admitted request, finished once, corrected
  at most once by hand, final when settled; and the invariants of the ledger under every
  operation that writes it.
\<close>

section \<open>The ledger\<close>

definition entryOK :: "entry_row \<Rightarrow> bool" where
  "entryOK e \<longleftrightarrow>
     e_state e \<in> {''active'', ''pending'', ''settled''} \<and> e_mode e \<in> {''tokens'', ''amount''} \<and> 0 \<le> e_cost e \<and>
     0 \<le> e_cached_tokens e \<and> e_cached_tokens e \<le> e_input_tokens e \<and>
     0 \<le> e_output_tokens e \<and> e_input_tokens e \<le> 1000000000 \<and> e_output_tokens e \<le> 1000000000 \<and>
     (e_state e \<noteq> ''settled'' \<longrightarrow> e_cost e = 0 \<and> \<not> e_manual e) \<and>
     (e_state e = ''active'' \<longrightarrow> e_input_tokens e = 0 \<and> e_output_tokens e = 0)"

definition ledgerOK :: "store \<Rightarrow> bool" where
  "ledgerOK d \<longleftrightarrow> distinct (map e_request (allocation_entries d)) \<and> list_all entryOK (allocation_entries d)"

text \<open>The writers of the ledger: admission, completion and correction, recovery at start-up, retention.\<close>

inductive ledger_step :: "store \<Rightarrow> store \<Rightarrow> bool" where
  begin_step: "Begin d r now loc = Inr d' \<Longrightarrow> ledger_step d d'"
| finish_step: "Finish d i c now False = Inr d' \<Longrightarrow> ledger_step d d'"
| settle_step: "Settle actor tenant d scheme i c now = Inr d' \<Longrightarrow> ledger_step d d'"
| recover_step: "RecoverAllocationEntries d tenant = Inr d' \<Longrightarrow> ledger_step d d'"
| prune_step: "Prune d before = Inr (d', n) \<Longrightarrow> ledger_step d d'"

inductive_cases ledger_stepE: "ledger_step d d'"

definition finishRow :: "string \<Rightarrow> (entry_row \<Rightarrow> entry_row) \<Rightarrow> store \<Rightarrow> store" where
  "finishRow i f d = d\<lparr>allocation_entries := map (\<lambda>e. if e_request e = i then f e else e) (allocation_entries d)\<rparr>"

definition finishedEntry :: "Completion \<Rightarrow> int \<Rightarrow> bool \<Rightarrow> string \<Rightarrow> int \<Rightarrow> entry_row \<Rightarrow> entry_row" where
  "finishedEntry c now manual state cost e =
     e\<lparr>e_finished_at := now, e_state := state, e_input_tokens := Input c, e_output_tokens := Output c,
       e_cached_tokens := Cached c, e_cost := cost, e_manual := manual\<rparr>"

definition completionOK :: "Completion \<Rightarrow> bool" where
  "completionOK c \<longleftrightarrow> 0 \<le> Cached c \<and> Cached c \<le> Input c \<and> 0 \<le> Output c \<and> Input c \<le> 1000000000 \<and> Output c \<le> 1000000000"

text \<open>Every successful \<open>Finish\<close> is a repetition, which changes nothing, or one of two transitions.\<close>

lemma Finish_cases:
  assumes "Finish d i c now manual = Inr d'"
  obtains (repeated) e where "first_of (\<lambda>e. e_request e = i) (allocation_entries d) = Some e" "d' = d"
      "\<not> manual \<and> e_state e \<noteq> ''active'' \<or> manual \<and> e_state e = ''settled'' \<and> e_manual e \<and>
         e_input_tokens e = Input c \<and> e_output_tokens e = Output c \<and> e_cached_tokens e = Cached c"
  | (written) e cost where "first_of (\<lambda>e. e_request e = i) (allocation_entries d) = Some e"
      "completionCost d e c = Inr cost" "completionOK c"
      "\<not> manual \<and> e_state e = ''active'' \<or>
         manual \<and> e_state e = ''pending'' \<and> e_input_tokens e \<le> Input c \<and> e_output_tokens e \<le> Output c"
      "d' = finishRow i (finishedEntry c now manual
         (if Dispatched c \<and> \<not> Rejected c \<and> \<not> Known c then ''pending'' else ''settled'')
         (if Dispatched c \<and> \<not> Rejected c \<and> \<not> Known c then 0 else cost)) d"
      "Dispatched c \<and> \<not> Rejected c \<and> \<not> Known c \<or> 0 \<le> cost"
proof -
  from assms obtain e where e: "first_of (\<lambda>e. e_request e = i) (allocation_entries d) = Some e"
    by (auto simp: Finish_def GetAllocationEntry_def res_simps)
  let ?rep = "\<not> manual \<and> e_state e \<noteq> ''active'' \<or> manual \<and> e_state e = ''settled'' \<and> e_manual e \<and>
         e_input_tokens e = Input c \<and> e_output_tokens e = Output c \<and> e_cached_tokens e = Cached c"
  show thesis
  proof (cases ?rep)
    case True
    with assms e have "d' = d" by (auto simp: Finish_def GetAllocationEntry_def queryRow_def split: if_splits)
    then show thesis by (rule repeated [OF e _ True])
  next
    case False
    let ?p = "Dispatched c \<and> \<not> Rejected c \<and> \<not> Known c"
    define st where "st = (if ?p then ''pending'' else ''settled'')"
    have st: "st = ''pending'' \<longleftrightarrow> ?p" by (simp add: st_def)
    from assms e False obtain cost where
      g: "\<not> (manual \<and> (e_state e \<noteq> ''pending'' \<or> Input c < e_input_tokens e \<or> Output c < e_output_tokens e))"
        "\<not> (Input c < 0 \<or> Output c < 0 \<or> Cached c < 0 \<or> Cached c > Input c \<or> Input c > 1000000000 \<or> Output c > 1000000000)"
        "completionCost d e c = Inr cost"
        "FinishAllocationEntry d i now st (Input c) (Output c) (Cached c) (if st = ''pending'' then 0 else cost) manual = Inr d'"
      unfolding Finish_def GetAllocationEntry_def Let_def st_def [symmetric] by (auto simp: res_simps)
    then have d': "d' = finishRow i (finishedEntry c now manual st (if st = ''pending'' then 0 else cost)) d"
        "0 \<le> (if st = ''pending'' then 0 else cost)"
      by (auto simp: FinishAllocationEntry_def finishRow_def finishedEntry_def res_simps)
    have "completionOK c" using g(2) by (simp add: completionOK_def not_less)
    moreover have "\<not> manual \<and> e_state e = ''active'' \<or>
         manual \<and> e_state e = ''pending'' \<and> e_input_tokens e \<le> Input c \<and> e_output_tokens e \<le> Output c"
      using g(1) False by auto
    moreover have "?p \<or> 0 \<le> cost" using d'(2) by (auto simp: st split: if_splits)
    ultimately show thesis using written [OF e g(3)] d'(1) unfolding st by (simp add: st_def)
  qed
qed

lemma first_of_unique:
  "distinct (map f xs) \<Longrightarrow> x \<in> set xs \<Longrightarrow> first_of (\<lambda>y. f y = f x) xs = Some x"
  by (induction xs) auto

lemma finishRow_entries:
  "allocation_entries (finishRow i f d) = map (\<lambda>e. if e_request e = i then f e else e) (allocation_entries d)"
  by (simp add: finishRow_def)

lemma set_finishRow:
  "e' \<in> set (allocation_entries (finishRow i f d)) \<longleftrightarrow>
     (\<exists>e \<in> set (allocation_entries d). e' = (if e_request e = i then f e else e))"
  unfolding finishRow_entries set_map image_iff ..

lemma finishRow_requests:
  "(\<And>e. e_request (f e) = e_request e) \<Longrightarrow>
   map e_request (allocation_entries (finishRow i f d)) = map e_request (allocation_entries d)"
  by (simp add: finishRow_def)

lemma finishedEntry_request [simp]: "e_request (finishedEntry c now manual st cost e) = e_request e"
  by (simp add: finishedEntry_def)

lemma dropFirst_subset: "set (dropFirst n P xs) \<subseteq> set xs"
  by (induction n P xs rule: dropFirst.induct) (auto split: nat.splits)

lemma dropFirst_keeps: "x \<in> set xs \<Longrightarrow> \<not> P x \<Longrightarrow> x \<in> set (dropFirst n P xs)"
  by (induction n P xs rule: dropFirst.induct) (auto split: nat.splits)

lemma dropFirst_distinct: "distinct (map f xs) \<Longrightarrow> distinct (map f (dropFirst n P xs))"
proof (induction n P xs rule: dropFirst.induct)
  case (2 n P x xs)
  then show ?case using dropFirst_subset [of n P xs] by (auto split: nat.splits)
qed simp

lemma dropFirst_length: "length xs \<le> length (dropFirst n P xs) + n"
  by (induction n P xs rule: dropFirst.induct) (auto split: nat.splits)

section \<open>The ledger invariant\<close>

lemma ledger_unique:
  "ledgerOK d \<Longrightarrow> x \<in> set (allocation_entries d) \<Longrightarrow> y \<in> set (allocation_entries d) \<Longrightarrow>
   e_request x = e_request y \<Longrightarrow> x = y"
  unfolding ledgerOK_def distinct_map inj_on_def by blast

lemma ledger_entry: "ledgerOK d \<Longrightarrow> e \<in> set (allocation_entries d) \<Longrightarrow> entryOK e"
  by (simp add: ledgerOK_def list_all_iff)

lemma Finish_OK:
  assumes ok: "ledgerOK d" and f: "Finish d i c now manual = Inr d'" and k: "manual \<longrightarrow> Known c"
  shows "ledgerOK d'"
  using f
proof (cases rule: Finish_cases)
  case (written e cost)
  let ?p = "Dispatched c \<and> \<not> Rejected c \<and> \<not> Known c"
  let ?f = "finishedEntry c now manual (if ?p then ''pending'' else ''settled'') (if ?p then 0 else cost)"
  have e: "e \<in> set (allocation_entries d)" "e_request e = i" using written(1) first_of_SomeD by fastforce+
  have "entryOK (?f e)"
    using ledger_entry [OF ok e(1)] written(3,6) k by (auto simp: entryOK_def finishedEntry_def completionOK_def)
  moreover have "x = e" if "x \<in> set (allocation_entries d)" "e_request x = i" for x
    using ledger_unique [OF ok that(1) e(1)] that(2) e(2) by simp
  ultimately have "entryOK x'" if "x' \<in> set (allocation_entries d')" for x'
    using that ledger_entry [OF ok] unfolding written(5) set_finishRow by (auto split: if_splits)
  then have "list_all entryOK (allocation_entries d')" by (simp add: list_all_iff)
  moreover have "map e_request (allocation_entries d') = map e_request (allocation_entries d)"
    unfolding written(5) by (rule finishRow_requests) simp
  ultimately show ?thesis using ok by (simp only: ledgerOK_def)
qed (use ok in simp)

text \<open>A correction is a manual \<open>Finish\<close> of an entry of the scheme, with its audit record.\<close>

lemma Settle_Inr:
  assumes "Settle actor tenant d scheme i c now = Inr d'"
  shows "\<exists>e d1 evs. first_of (\<lambda>e. e_request e = i) (allocation_entries d) = Some e \<and> e_scheme e = scheme \<and>
    Finish d i (c\<lparr>Known := True, Dispatched := True\<rparr>) now True = Inr d1 \<and> d' = d1\<lparr>audit_events := evs\<rparr>"
proof -
  from assms obtain row e d1 d2 where
    "GetAllocationEntry d i = Inr e" "e_scheme e = scheme"
    "Finish d i (c\<lparr>Known := True, Dispatched := True\<rparr>) now True = Inr d1"
    "Record actor (now sdiv 1000) d1 ''allocation.settle'' ''allocation'' (FormatInt scheme) = Inr d2" "d' = d2"
    by (auto simp: Settle_def res_simps split: sum.splits)
  moreover from this(4) obtain evs where "d2 = d1\<lparr>audit_events := evs\<rparr>" using Record_frame by blast
  ultimately show ?thesis by (auto simp: GetAllocationEntry_def res_simps)
qed

lemma ledgerOK_audit [simp]: "ledgerOK (d\<lparr>audit_events := evs\<rparr>) = ledgerOK d"
  by (simp add: ledgerOK_def)

definition recoveredEntry :: "store \<Rightarrow> int \<Rightarrow> entry_row \<Rightarrow> entry_row" where
  "recoveredEntry d tenant e = (if e_state e = ''active'' \<and>
     list_ex (\<lambda>s. s_id s = e_scheme e \<and> tenantScheme d tenant s) (allocation_schemes d)
     then e\<lparr>e_state := ''pending''\<rparr> else e)"

lemma Recover_Inr:
  "RecoverAllocationEntries d tenant = Inr d' \<Longrightarrow>
   d' = d\<lparr>allocation_entries := map (recoveredEntry d tenant) (allocation_entries d)\<rparr>"
  by (simp add: RecoverAllocationEntries_def res_simps recoveredEntry_def)

lemma recoveredEntry_request [simp]: "e_request (recoveredEntry d tenant e) = e_request e"
  by (simp add: recoveredEntry_def)

lemma Prune_entries:
  "Prune d before = Inr (d', n) \<Longrightarrow> allocation_entries d' =
     dropFirst 500 (\<lambda>e. e_state e = ''settled'' \<and> e_reset_at e < before) (allocation_entries d)"
  by (auto simp: Prune_def PruneAllocations_def Let_def res_simps)

lemma Prune_Inr:
  "Prune d before = Inr (d', n) \<Longrightarrow>
   d' = d\<lparr>allocation_entries := dropFirst 500 (\<lambda>e. e_state e = ''settled'' \<and> e_reset_at e < before) (allocation_entries d)\<rparr> \<and>
   n = int (length (allocation_entries d)) - int (length (allocation_entries d'))"
  by (auto simp: Prune_def PruneAllocations_def Let_def res_simps)

lemma ledger_step_OK:
  assumes ok: "ledgerOK d" and s: "ledger_step d d'"
  shows "ledgerOK d'"
  using s
proof (cases rule: ledger_step.cases)
  case (begin_step r now loc)
  then obtain rv where "\<not> list_ex (\<lambda>x. e_request x = RequestID r) (allocation_entries d)"
    and m: "entryMode (RevConfig rv) \<in> {''tokens'', ''amount''}"
    and "d' = d\<lparr>allocation_entries := allocation_entries d @ [newEntry r rv (effectiveWindow rv now loc)]\<rparr>"
    by (auto simp: Begin_Inr)
  moreover from m have "entryOK (newEntry r rv (effectiveWindow rv now loc))"
    by (simp add: entryOK_def newEntry_def)
  ultimately show ?thesis using ok by (auto simp: ledgerOK_def newEntry_def list_ex_iff)
next
  case (finish_step i c now)
  from Finish_OK [OF ok this] show ?thesis by simp
next
  case (settle_step actor tenant scheme i c now)
  from Settle_Inr [OF this] obtain d1 evs where
    "Finish d i (c\<lparr>Known := True, Dispatched := True\<rparr>) now True = Inr d1" "d' = d1\<lparr>audit_events := evs\<rparr>" by blast
  with Finish_OK [OF ok this(1)] show ?thesis by simp
next
  case (recover_step tenant)
  note d' = Recover_Inr [OF this]
  have "entryOK (recoveredEntry d tenant e)" if "entryOK e" for e
    using that by (auto simp: entryOK_def recoveredEntry_def)
  then show ?thesis using ok by (simp add: ledgerOK_def d' list_all_iff comp_def)
next
  case (prune_step before n)
  let ?P = "\<lambda>e. e_state e = ''settled'' \<and> e_reset_at e < before"
  from ok have "distinct (map e_request (dropFirst 500 ?P (allocation_entries d)))"
      "\<forall>e \<in> set (dropFirst 500 ?P (allocation_entries d)). entryOK e"
    using dropFirst_subset [of 500 ?P "allocation_entries d"] by (auto simp: ledgerOK_def list_all_iff dropFirst_distinct)
  then show ?thesis by (simp add: ledgerOK_def list_all_iff Prune_entries [OF prune_step])
qed

interpretation ledger: step_invariant "\<lambda>d. allocation_entries d = []" ledger_step ledgerOK
proof
  show "allocation_entries d = [] \<Longrightarrow> ledgerOK d" for d by (simp add: ledgerOK_def)
  show "ledgerOK d \<Longrightarrow> ledger_step d d' \<Longrightarrow> ledgerOK d'" for d d' by (rule ledger_step_OK)
qed

section \<open>Transitions of an entry\<close>

text \<open>What one step may do to the entry of a request.\<close>

definition evolves :: "entry_row \<Rightarrow> entry_row \<Rightarrow> bool" where
  "evolves e e' \<longleftrightarrow> e' = e \<or>
     e_request e' = e_request e \<and> e_scheme e' = e_scheme e \<and> e_revision e' = e_revision e \<and> e_user e' = e_user e \<and>
     e_mode e' = e_mode e \<and> e_started_at e' = e_started_at e \<and>
     (e_state e = ''active'' \<and> e_state e' \<in> {''pending'', ''settled''} \<and> \<not> e_manual e' \<or>
      e_state e = ''pending'' \<and> e_state e' = ''settled'' \<and> e_manual e' \<and>
        e_input_tokens e \<le> e_input_tokens e' \<and> e_output_tokens e \<le> e_output_tokens e')"

lemma Finish_evolves:
  assumes ok: "ledgerOK d" and f: "Finish d i c now manual = Inr d'" and k: "manual \<longrightarrow> Known c"
    and e: "e \<in> set (allocation_entries d)"
  shows "\<exists>e' \<in> set (allocation_entries d'). e_request e' = e_request e \<and> evolves e e'"
  using f
proof (cases rule: Finish_cases)
  case (repeated x)
  then show ?thesis using e by (auto simp: evolves_def)
next
  case (written x cost)
  let ?p = "Dispatched c \<and> \<not> Rejected c \<and> \<not> Known c"
  let ?f = "finishedEntry c now manual (if ?p then ''pending'' else ''settled'') (if ?p then 0 else cost)"
  have x: "x \<in> set (allocation_entries d)" "e_request x = i" using written(1) first_of_SomeD by fastforce+
  show ?thesis
  proof (cases "e_request e = i")
    case False
    with e have "e \<in> set (allocation_entries d')" unfolding written(5) set_finishRow by auto
    then show ?thesis by (auto simp: evolves_def)
  next
    case True
    then have "e = x" using ledger_unique [OF ok e x(1)] x(2) by simp
    then have "evolves e (?f e)"
      using written(4) k ledger_entry [OF ok e] by (auto simp: evolves_def finishedEntry_def entryOK_def)
    moreover have "?f e \<in> set (allocation_entries d')" unfolding written(5) set_finishRow using e True by auto
    ultimately show ?thesis by (auto intro!: bexI [of _ "?f e"])
  qed
qed

lemma ledger_step_evolves:
  assumes ok: "ledgerOK d" and s: "ledger_step d d'" and e: "e \<in> set (allocation_entries d)"
  shows "(\<exists>e' \<in> set (allocation_entries d'). e_request e' = e_request e \<and> evolves e e') \<or>
    e_state e = ''settled'' \<and> (\<exists>before n. Prune d before = Inr (d', n) \<and> e_reset_at e < before)"
  using s
proof (cases rule: ledger_step.cases)
  case (begin_step r now loc)
  then have "e \<in> set (allocation_entries d')" using e by (auto simp: Begin_Inr)
  then show ?thesis by (auto simp: evolves_def)
next
  case (finish_step i c now)
  from Finish_evolves [OF ok this _ e] show ?thesis by blast
next
  case (settle_step actor tenant scheme i c now)
  from Settle_Inr [OF this] obtain d1 evs where
    "Finish d i (c\<lparr>Known := True, Dispatched := True\<rparr>) now True = Inr d1" "d' = d1\<lparr>audit_events := evs\<rparr>" by blast
  with Finish_evolves [OF ok this(1) _ e] show ?thesis by simp
next
  case (recover_step tenant)
  have "evolves e (recoveredEntry d tenant e)" using ledger_entry [OF ok e] by (auto simp: evolves_def recoveredEntry_def entryOK_def)
  then show ?thesis using e unfolding Recover_Inr [OF recover_step] by auto
next
  case (prune_step before n)
  show ?thesis
  proof (cases "e \<in> set (allocation_entries d')")
    case True
    then show ?thesis by (auto simp: evolves_def)
  next
    case False
    have "allocation_entries d' = dropFirst 500 (\<lambda>e. e_state e = ''settled'' \<and> e_reset_at e < before) (allocation_entries d)"
      by (rule Prune_entries [OF prune_step])
    with False have "e_state e = ''settled'' \<and> e_reset_at e < before"
      using dropFirst_keeps [OF e, of "\<lambda>e. e_state e = ''settled'' \<and> e_reset_at e < before" 500] by auto
    with prune_step show ?thesis by blast
  qed
qed

lemma rounded_up: "1000000 * ((x + 999999) div 1000000 - 1) < x \<and> x \<le> 1000000 * ((x + 999999) div 1000000)" for x :: int
proof -
  have "1000000 * ((x + 999999) div 1000000) + (x + 999999) mod 1000000 = x + 999999"
    "0 \<le> (x + 999999) mod 1000000" "(x + 999999) mod 1000000 < 1000000" by simp_all
  then have "1000000 * ((x + 999999) div 1000000 - 1) < x" "x \<le> 1000000 * ((x + 999999) div 1000000)" by simp_all
  then show ?thesis by blast
qed

text \<open>The price of a completion at the rates one stored revision fixed, or the tokens themselves.\<close>

lemma completionCost_price:
  assumes c: "completionCost d e c = Inr cost" and k: "completionOK c"
    and ok: "list_all revisionOK (allocation_revisions d)"
  shows "if e_mode e = ''tokens'' then cost = Input c + Output c
    else \<exists>row config rate. row \<in> set (allocation_revisions d) \<and> r_id row = e_revision e \<and> r_config row = Json config \<and>
      rate \<in> set (Rates config) \<and> R_Model rate = e_model e \<and>
      1000000 * (cost - 1) < charge rate (Input c) (Output c) (Cached c) \<and>
      charge rate (Input c) (Output c) (Cached c) \<le> 1000000 * cost"
proof (cases "e_mode e = ''tokens''")
  case True
  have "in64 (Input c + Output c)" using k by (simp add: completionOK_def in64_def)
  then show ?thesis using c True by (simp add: completionCost_def wrap64_id)
next
  case False
  with c obtain row rv rate where row: "GetAllocationRevision d (e_revision e) = Inr row" and rv: "storedRevision row = Inr rv"
    and rate: "rateFor (RevConfig rv) (e_model e) = Inr rate" and cost: "Cost rate (Input c) (Output c) (Cached c) = Inr cost"
    by (auto simp: completionCost_def res_simps)
  have r: "row \<in> set (allocation_revisions d)" "r_id row = e_revision e"
    using row by (auto simp: GetAllocationRevision_def res_simps dest: first_of_SomeD)
  obtain config where config: "r_config row = Json config" "RevConfig rv = config" using rv by (auto simp: storedRevision_Inr)
  have "wfConfig config" using ok r(1) config(1) by (fastforce simp: list_all_iff revisionOK_def)
  moreover have m: "rate \<in> set (Rates config)" "R_Model rate = e_model e"
    using rate config(2) by (auto simp: rateFor_def split: option.splits dest: first_of_SomeD)
  ultimately have "wfRate rate" by (simp add: wfConfig_def list_all_iff)
  then have "cost = (charge rate (Input c) (Output c) (Cached c) + 999999) div 1000000"
    using cost k Cost_wf(1) [of rate "Output c" "Cached c" "Input c"] by (simp add: completionOK_def)
  then have "1000000 * (cost - 1) < charge rate (Input c) (Output c) (Cached c) \<and>
      charge rate (Input c) (Output c) (Cached c) \<le> 1000000 * cost" by (simp only: rounded_up simp_thms)
  with False r config(1) m show ?thesis by auto
qed

section \<open>Properties\<close>

lemma first_of_map_request:
  "(\<And>e. e_request (g e) = e_request e) \<Longrightarrow>
   first_of (\<lambda>e. e_request e = i) (map g es) = map_option g (first_of (\<lambda>e. e_request e = i) es)"
  by (induction es) auto

lemma first_of_finishRow:
  assumes "first_of (\<lambda>e. e_request e = i) (allocation_entries d) = Some e" "\<And>e. e_request (f e) = e_request e"
  shows "first_of (\<lambda>e. e_request e = i) (allocation_entries (finishRow i f d)) = Some (f e)"
proof -
  have "e_request e = i" using first_of_SomeD [OF assms(1)] by simp
  moreover have "first_of (\<lambda>e. e_request e = i) (map (\<lambda>e. if e_request e = i then f e else e) (allocation_entries d)) =
      map_option (\<lambda>e. if e_request e = i then f e else e) (first_of (\<lambda>e. e_request e = i) (allocation_entries d))"
    by (rule first_of_map_request) (simp add: assms(2))
  ultimately show ?thesis unfolding finishRow_entries by (simp add: assms(1))
qed

definition exampleDone :: Completion where
  "exampleDone = \<lparr>Input = 100, Output = 20, Cached = 0, Known = True, Dispatched = True, Rejected = False\<rparr>"

definition exampleFirst :: store where
  "exampleFirst = exampleStore [(exampleEntry ''r1'' 7 ''active'' 0)\<lparr>e_started_at := 19001\<rparr>]"

lemma exampleFirst_step: "ledger_step (exampleStore []) exampleFirst"
proof (rule begin_step)
  show "Begin (exampleStore []) (exampleRequest ''r1'') 19001 UTC = Inr exampleFirst" by code_simp
qed

lemma exampleFirst_ok: "ledgerOK exampleFirst"
  by (simp add: ledgerOK_def exampleFirst_def exampleStore_def exampleEntry_def entryOK_def)

text \<open>
  C6: In every state the ledger can reach, each request has one entry, token counts and costs are
  in range, and only settled entries carry a cost: an active or pending request is never charged.
\<close>

theorem ledger_invariant:
  assumes "reach (\<lambda>d. allocation_entries d = []) ledger_step d"
  shows "distinct (map e_request (allocation_entries d)) \<and>
    (\<forall>e \<in> set (allocation_entries d). entryOK e \<and> (e_state e \<noteq> ''settled'' \<longrightarrow> e_cost e = 0))"
  using ledger.reach_inv [OF assms] by (auto simp: ledgerOK_def list_all_iff entryOK_def)

theorem ledger_invariant_witness:
  "map e_state (allocation_entries exampleFirst) = [''active''] \<and> map e_cost (allocation_entries exampleFirst) = [0]"
proof -
  have "reach (\<lambda>d. allocation_entries d = []) ledger_step exampleFirst"
  proof (rule reach_step)
    show "reach (\<lambda>d. allocation_entries d = []) ledger_step (exampleStore [])"
      by (rule reach_init) (simp add: exampleStore_def)
  qed (rule exampleFirst_step)
  from ledger_invariant [OF this] show ?thesis
    by (simp add: exampleFirst_def exampleStore_def exampleEntry_def)
qed

text \<open>
  C7: The life of an entry. No operation loses or reopens one: an active entry becomes pending or
  settled, a pending one is settled by hand with at least the tokens already observed, a settled
  one stays as it is, until retention deletes it after its period has closed.
\<close>

theorem entry_life_cycle:
  assumes "ledgerOK d" and "ledger_step d d'" and "e \<in> set (allocation_entries d)"
  shows "(\<exists>e' \<in> set (allocation_entries d'). e_request e' = e_request e \<and> evolves e e') \<or>
    e_state e = ''settled'' \<and> (\<exists>before n. Prune d before = Inr (d', n) \<and> e_reset_at e < before)"
  by (rule ledger_step_evolves [OF assms])

theorem entry_life_cycle_witness:
  "\<exists>d'. ledger_step exampleFirst d' \<and> (\<exists>e' \<in> set (allocation_entries d'). e_request e' = ''r1'' \<and>
     evolves ((exampleEntry ''r1'' 7 ''active'' 0)\<lparr>e_started_at := 19001\<rparr>) e')"
proof -
  let ?e = "(exampleEntry ''r1'' 7 ''active'' 0)\<lparr>e_started_at := 19001\<rparr>"
  have "Finish exampleFirst ''r1'' exampleDone 5 False =
      Inr (exampleStore [?e\<lparr>e_finished_at := 5, e_state := ''settled'', e_input_tokens := 100, e_output_tokens := 20, e_cost := 120\<rparr>])"
    by code_simp
  then have step: "ledger_step exampleFirst
      (exampleStore [?e\<lparr>e_finished_at := 5, e_state := ''settled'', e_input_tokens := 100, e_output_tokens := 20, e_cost := 120\<rparr>])"
    by (rule finish_step)
  have e: "?e \<in> set (allocation_entries exampleFirst)" by (simp add: exampleFirst_def exampleStore_def)
  from entry_life_cycle [OF exampleFirst_ok step e] step show ?thesis by (auto simp: exampleEntry_def)
qed

text \<open>
  C8: Finishing a request charges it once. A dispatched request whose usage is unknown becomes
  pending at no cost; any other is settled. In tokens the cost is the input and output; in money it is the
  charge of the tokens at the rate of the entry's model in the very revision the entry was admitted under, whatever
  revision is in force by now, rounded up to a whole micro-dollar. No other entry changes, and finishing again,
  with whatever numbers and at whatever time, changes nothing.
\<close>

theorem Finish_charges_once:
  assumes "Finish d i c now False = Inr d'" and "first_of (\<lambda>e. e_request e = i) (allocation_entries d) = Some e"
    and "e_state e = ''active''" and "list_all revisionOK (allocation_revisions d)"
  shows "(\<exists>cost. first_of (\<lambda>e. e_request e = i) (allocation_entries d') = Some
        (if Dispatched c \<and> \<not> Rejected c \<and> \<not> Known c then finishedEntry c now False ''pending'' 0 e
         else finishedEntry c now False ''settled'' cost e) \<and>
      (if e_mode e = ''tokens'' then cost = Input c + Output c
       else \<exists>row config rate. row \<in> set (allocation_revisions d) \<and> r_id row = e_revision e \<and> r_config row = Json config \<and>
         rate \<in> set (Rates config) \<and> R_Model rate = e_model e \<and>
         1000000 * (cost - 1) < (Input c - Cached c) * R_Input rate + Cached c * R_Cached rate + Output c * R_Output rate \<and>
         (Input c - Cached c) * R_Input rate + Cached c * R_Cached rate + Output c * R_Output rate \<le> 1000000 * cost)) \<and>
    filter (\<lambda>e. e_request e \<noteq> i) (allocation_entries d') = filter (\<lambda>e. e_request e \<noteq> i) (allocation_entries d) \<and>
    (\<forall>c' now'. Finish d' i c' now' False = Inr d')"
  using assms(1)
proof (cases rule: Finish_cases)
  case (repeated x)
  with assms(2,3) show ?thesis by simp
next
  case (written x cost)
  let ?p = "Dispatched c \<and> \<not> Rejected c \<and> \<not> Known c"
  let ?f = "finishedEntry c now False (if ?p then ''pending'' else ''settled'') (if ?p then 0 else cost)"
  have x: "x = e" using written(1) assms(2) by simp
  have f: "first_of (\<lambda>e. e_request e = i) (allocation_entries d') = Some (?f e)"
    unfolding written(5) by (rule first_of_finishRow [OF assms(2)]) simp
  have "\<not> fails d ''GetAllocationEntry''" using assms(1) by (auto simp: Finish_def GetAllocationEntry_def res_simps)
  then have "\<not> fails d' ''GetAllocationEntry''" by (simp add: written(5) finishRow_def)
  moreover have "e_state (?f e) \<noteq> ''active''" by (simp add: finishedEntry_def)
  ultimately have again: "Finish d' i c' now' False = Inr d'" for c' now'
    using f by (simp add: Finish_def GetAllocationEntry_def queryRow_def)
  have "filter (\<lambda>e. e_request e \<noteq> i) (map (\<lambda>e. if e_request e = i then ?f e else e) es) = filter (\<lambda>e. e_request e \<noteq> i) es" for es
    by (induction es) auto
  then have other: "filter (\<lambda>e. e_request e \<noteq> i) (allocation_entries d') = filter (\<lambda>e. e_request e \<noteq> i) (allocation_entries d)"
    unfolding written(5) finishRow_entries .
  note price = completionCost_price [OF written(2,3) assms(4), unfolded x charge_def]
  have f': "first_of (\<lambda>e. e_request e = i) (allocation_entries d') = Some
      (if ?p then finishedEntry c now False ''pending'' 0 e else finishedEntry c now False ''settled'' cost e)"
    using f by (cases ?p) auto
  show ?thesis
  proof (intro conjI allI)
    show "\<exists>cost. first_of (\<lambda>e. e_request e = i) (allocation_entries d') = Some
        (if ?p then finishedEntry c now False ''pending'' 0 e else finishedEntry c now False ''settled'' cost e) \<and>
      (if e_mode e = ''tokens'' then cost = Input c + Output c
       else \<exists>row config rate. row \<in> set (allocation_revisions d) \<and> r_id row = e_revision e \<and> r_config row = Json config \<and>
         rate \<in> set (Rates config) \<and> R_Model rate = e_model e \<and>
         1000000 * (cost - 1) < (Input c - Cached c) * R_Input rate + Cached c * R_Cached rate + Output c * R_Output rate \<and>
         (Input c - Cached c) * R_Input rate + Cached c * R_Cached rate + Output c * R_Output rate \<le> 1000000 * cost)"
      by (rule exI [of _ cost], rule conjI [OF f' price])
  qed (rule other again)+
qed

text \<open>
  A request admitted under the first revision finishes after a second one, with other rates, has come into force.
\<close>

definition exampleMoneyRule :: "int \<Rightarrow> Config" where
  "exampleMoneyRule input = exampleRule\<lparr>RatioUnit := ''amount'', Rates := [exampleRate\<lparr>R_Input := input\<rparr>]\<rparr>"

definition exampleRepriced :: store where
  "exampleRepriced = (exampleStore [(exampleEntry ''r1'' 7 ''active'' 0)\<lparr>e_mode := ''amount''\<rparr>])\<lparr>allocation_revisions :=
     [\<lparr>r_id = 1, r_scheme = 1, r_effective_at = 1000, r_anchor_at = 1000, r_config = Json (exampleMoneyRule 1250000)\<rparr>,
      \<lparr>r_id = 2, r_scheme = 1, r_effective_at = 19002, r_anchor_at = 19002, r_config = Json (exampleMoneyRule 5000000)\<rparr>]\<rparr>"

lemma exampleRepriced_ok: "list_all revisionOK (allocation_revisions exampleRepriced)"
proof -
  have "wfConfig (exampleMoneyRule 1250000)" by (rule normalize_wf [of "exampleMoneyRule 1250000"]) code_simp
  moreover have "wfConfig (exampleMoneyRule 5000000)" by (rule normalize_wf [of "exampleMoneyRule 5000000"]) code_simp
  ultimately show ?thesis by (simp add: exampleRepriced_def revisionOK_def)
qed

theorem Finish_charges_once_witness:
  "\<exists>d'. Finish exampleRepriced ''r1'' exampleDone 19100 False = Inr d' \<and> map e_cost (allocation_entries d') = [325] \<and>
     map_sum id r_id (CurrentAllocationRevision exampleRepriced 1 19100) = Inr 2"
proof -
  let ?e = "(exampleEntry ''r1'' 7 ''active'' 0)\<lparr>e_mode := ''amount''\<rparr>"
  have "map_sum id (\<lambda>d. length (allocation_entries d)) (Finish exampleRepriced ''r1'' exampleDone 19100 False) = Inr 1" by code_simp
  then obtain d' where f: "Finish exampleRepriced ''r1'' exampleDone 19100 False = Inr d'" "length (allocation_entries d') = 1"
    by (cases "Finish exampleRepriced ''r1'' exampleDone 19100 False") auto
  have e: "first_of (\<lambda>e. e_request e = ''r1'') (allocation_entries exampleRepriced) = Some ?e" "e_state ?e = ''active''"
    by (simp_all add: exampleRepriced_def exampleStore_def exampleEntry_def)
  from Finish_charges_once [OF f(1) e exampleRepriced_ok] obtain cost where
    c: "first_of (\<lambda>e. e_request e = ''r1'') (allocation_entries d') = Some (finishedEntry exampleDone 19100 False ''settled'' cost ?e)"
    and price: "1000000 * (cost - 1) < 325000000 \<and> 325000000 \<le> 1000000 * cost"
    by (auto simp: exampleDone_def exampleRepriced_def exampleEntry_def exampleRate_def exampleMoneyRule_def)
  have "cost - 1 < 325 \<and> 325 \<le> cost" using price by simp
  then have "cost = 325" by linarith
  with c f(2) have "map e_cost (allocation_entries d') = [325]"
    by (auto simp: length_Suc_conv finishedEntry_def split: if_splits)
  moreover have "map_sum id r_id (CurrentAllocationRevision exampleRepriced 1 19100) = Inr 2"
    by (simp add: CurrentAllocationRevision_def currentRow_def exampleRepriced_def exampleStore_def greatest_def queryRow_def)
  ultimately show ?thesis using f(1) by (intro exI [of _ d'] conjI)
qed

text \<open>
  C9: A correction only raises. \<open>Settle\<close> accepts only an entry of the scheme that is pending (or a
  repetition of the same correction), and records at least the input and output already observed.
\<close>

theorem Settle_only_raises:
  assumes "Settle actor tenant d scheme i c now = Inr d'"
  shows "\<exists>e e'. first_of (\<lambda>e. e_request e = i) (allocation_entries d) = Some e \<and> e_scheme e = scheme \<and>
    first_of (\<lambda>e. e_request e = i) (allocation_entries d') = Some e' \<and>
    e_state e' = ''settled'' \<and> e_manual e' \<and> e_input_tokens e' = Input c \<and> e_output_tokens e' = Output c \<and>
    e_cached_tokens e' = Cached c \<and>
    (e_state e = ''pending'' \<and> e_input_tokens e \<le> e_input_tokens e' \<and> e_output_tokens e \<le> e_output_tokens e' \<or> e' = e)"
proof -
  let ?c = "c\<lparr>Known := True, Dispatched := True\<rparr>"
  from Settle_Inr [OF assms] obtain e d1 evs where e: "first_of (\<lambda>e. e_request e = i) (allocation_entries d) = Some e" "e_scheme e = scheme"
    and f: "Finish d i ?c now True = Inr d1" and d': "d' = d1\<lparr>audit_events := evs\<rparr>"
    by blast
  show ?thesis
    using f
  proof (cases rule: Finish_cases)
    case (repeated x)
    with e d' show ?thesis by auto
  next
    case (written x cost)
    then have x: "x = e" using e(1) by simp
    have "first_of (\<lambda>e. e_request e = i) (allocation_entries d1) = Some (finishedEntry ?c now True ''settled'' cost e)"
      using written(5) first_of_finishRow [OF e(1), of "finishedEntry ?c now True ''settled'' cost"] by simp
    with e d' written(4) x show ?thesis by (auto simp: finishedEntry_def)
  qed
qed

definition examplePending :: store where
  "examplePending = exampleStore [(exampleEntry ''r1'' 7 ''pending'' 0)\<lparr>e_input_tokens := 40\<rparr>]"

theorem Settle_only_raises_witness:
  "\<exists>d'. Settle None 1 examplePending 1 ''r1'' exampleDone 5 = Inr d' \<and>
     (\<exists>e' \<in> set (allocation_entries d'). e_input_tokens e' = 100 \<and> e_manual e')"
proof -
  have "map_sum id (\<lambda>d. map e_cost (allocation_entries d)) (Settle None 1 examplePending 1 ''r1'' exampleDone 5) = Inr [120]"
    by code_simp
  then obtain d' where s: "Settle None 1 examplePending 1 ''r1'' exampleDone 5 = Inr d'"
    by (cases "Settle None 1 examplePending 1 ''r1'' exampleDone 5") auto
  from Settle_only_raises [OF s] obtain e' where
    "first_of (\<lambda>e. e_request e = ''r1'') (allocation_entries d') = Some e'" "e_manual e'" "e_input_tokens e' = 100"
    by (auto simp: exampleDone_def)
  with s show ?thesis using first_of_SomeD by fastforce
qed

end
