(* ===== verification/Alloc_Changes.thy ===== *)
theory Alloc_Changes
  imports Alloc_Schemes Alloc_Settlement
begin

text \<open>
  What the operations on schemes keep and promise: every stored revision is well formed and every
  entry keeps the revision it was admitted under, through every operation of the package.
\<close>

section \<open>The invariant of the allocation tables\<close>

definition hasRevision :: "store \<Rightarrow> entry_row \<Rightarrow> bool" where
  "hasRevision d e \<longleftrightarrow> list_ex (\<lambda>r. r_id r = e_revision e \<and> r_scheme r = e_scheme e) (allocation_revisions d)"

definition storeInv :: "store \<Rightarrow> bool" where
  "storeInv d \<longleftrightarrow> ledgerOK d \<and> list_all (hasRevision d) (allocation_entries d) \<and>
     distinct (map r_id (allocation_revisions d)) \<and>
     list_all (\<lambda>r. 0 < r_id r \<and> r_id r \<le> revision_seq d \<and> revisionOK r) (allocation_revisions d) \<and> 0 \<le> revision_seq d"

lemma storeInv_storeOK: "storeInv d \<Longrightarrow> storeOK d scheme"
  by (auto simp: storeInv_def storeOK_def ledgerOK_def list_all_iff entryOK_def)

lemma storeInv_revision: "storeInv d \<Longrightarrow> r \<in> set (allocation_revisions d) \<Longrightarrow> revisionOK r \<and> 0 < r_id r \<and> r_id r \<le> revision_seq d"
  by (simp add: storeInv_def list_all_iff)

lemma storeInv_cong:
  assumes "storeInv d" "allocation_entries d' = allocation_entries d" "allocation_revisions d' = allocation_revisions d"
    "revision_seq d' = revision_seq d"
  shows "storeInv d'"
  using assms by (simp add: storeInv_def ledgerOK_def hasRevision_def cong: list.pred_cong)

lemma append_Inr:
  "appendRevision d i at anchor c = Inr (d', new) \<longleftrightarrow>
     \<not> fails d ''SaveAllocationRevision'' \<and> list_ex (\<lambda>s. s_id s = i) (allocation_schemes d) \<and> 0 \<le> anchor \<and>
     new = revision_seq d + 1 \<and>
     d' = d\<lparr>allocation_revisions := allocation_revisions d @
             [\<lparr>r_id = new, r_scheme = i, r_effective_at = at, r_anchor_at = anchor, r_config = Json c\<rparr>],
           revision_seq := new\<rparr>"
  by (auto simp: appendRevision_def SaveAllocationRevision_def Let_def res_simps)

lemma append_inv:
  assumes "storeInv d" "appendRevision d i at anchor c = Inr (d', new)" "wfConfig c" "anchor \<le> at"
  shows "storeInv d'"
proof -
  let ?r = "\<lparr>r_id = new, r_scheme = i, r_effective_at = at, r_anchor_at = anchor, r_config = Json c\<rparr>"
  from assms(2) have d': "d' = d\<lparr>allocation_revisions := allocation_revisions d @ [?r], revision_seq := new\<rparr>"
    and new: "new = revision_seq d + 1" "0 \<le> anchor" by (auto simp: append_Inr)
  have "revisionOK ?r" using assms(3,4) new by (simp add: revisionOK_def)
  moreover have "new \<notin> r_id ` set (allocation_revisions d)" using storeInv_revision [OF assms(1)] new by fastforce
  moreover have "hasRevision d' e" if "hasRevision d e" for e using that d' by (auto simp: hasRevision_def)
  ultimately show ?thesis
    using assms(1) d' new by (auto simp: storeInv_def ledgerOK_def list_all_iff)
qed

lemma delete_inv:
  assumes "storeInv d" "DeleteAllocationPendingAt d i at now = Inr d'"
  shows "storeInv d'"
proof -
  let ?keep = "\<lambda>r. \<not> (r_scheme r = i \<and> r_effective_at r = at \<and> r_effective_at r > now \<and>
      \<not> list_ex (\<lambda>e. e_revision e = r_id r) (allocation_entries d))"
  from assms(2) have d': "d' = d\<lparr>allocation_revisions := filter ?keep (allocation_revisions d)\<rparr>"
    by (simp add: DeleteAllocationPendingAt_def res_simps)
  have "hasRevision d' e" if e: "e \<in> set (allocation_entries d)" for e
  proof -
    obtain r where "r \<in> set (allocation_revisions d)" "r_id r = e_revision e" "r_scheme r = e_scheme e"
      using assms(1) e by (auto simp: storeInv_def list_all_iff hasRevision_def list_ex_iff)
    then have "r \<in> set (allocation_revisions d') \<and> r_id r = e_revision e \<and> r_scheme r = e_scheme e"
      using e d' by (auto simp: list_ex_iff intro!: bexI [of _ e])
    then show ?thesis by (auto simp: hasRevision_def list_ex_iff)
  qed
  then show ?thesis
    using assms(1) d' by (auto simp: storeInv_def ledgerOK_def list_all_iff distinct_map_filter)
qed

lemma Record_inv: "storeInv d \<Longrightarrow> Record actor now d a r i = Inr d' \<Longrightarrow> storeInv d'"
  using Record_frame storeInv_cong by fastforce

section \<open>What a read scheme says\<close>

lemma nextRow_Some:
  assumes "nextRow d scheme t = Some r"
  shows "r \<in> set (allocation_revisions d) \<and> r_scheme r = scheme \<and> t < r_effective_at r \<and>
    (\<forall>x \<in> set (allocation_revisions d). r_scheme x = scheme \<and> t < r_effective_at x \<longrightarrow>
       r_effective_at r < r_effective_at x \<or> r_effective_at x = r_effective_at r \<and> r_id x \<le> r_id r)"
proof -
  let ?rows = "filter (\<lambda>r. r_scheme r = scheme \<and> r_effective_at r > t) (allocation_revisions d)"
  from assms obtain b where b: "greatest (\<lambda>r. - r_effective_at r) ?rows = Some b"
    and r: "greatest r_id (filter (\<lambda>r. r_effective_at r = r_effective_at b) ?rows) = Some r"
    by (auto simp: nextRow_def Let_def split: option.splits)
  note gb = greatest_Some [OF b] and gr = greatest_Some [OF r]
  have "r_effective_at r = r_effective_at b" "r \<in> set ?rows" using gr by auto
  moreover have "r_effective_at b < r_effective_at x \<or> r_effective_at x = r_effective_at b \<and> r_id x \<le> r_id r"
    if "x \<in> set ?rows" for x
    using gb gr that by (cases "r_effective_at x = r_effective_at b") (auto simp: order.strict_iff_order)
  ultimately show ?thesis by auto
qed

lemma greatest_group_None:
  "(case greatest k rows of None \<Rightarrow> None | Some b \<Rightarrow> greatest j (filter (\<lambda>r. f r = f b) rows)) = None \<longleftrightarrow> rows = []"
proof (cases "greatest k rows")
  case None
  then have "rows = []" by simp
  then show ?thesis by (simp add: greatest_def)
next
  case (Some b)
  then have "b \<in> set rows" using greatest_Some by fastforce
  then show ?thesis using Some by (auto simp: filter_empty_conv)
qed

lemma nextRow_None: "nextRow d scheme t = None \<longleftrightarrow>
    (\<forall>r \<in> set (allocation_revisions d). r_scheme r = scheme \<longrightarrow> r_effective_at r \<le> t)"
  unfolding nextRow_def Let_def greatest_group_None by (auto simp: filter_empty_conv not_less)

lemma currentRow_None: "currentRow d scheme t = None \<longleftrightarrow>
    (\<forall>r \<in> set (allocation_revisions d). r_scheme r = scheme \<longrightarrow> t < r_effective_at r)"
  unfolding currentRow_def Let_def greatest_group_None by (auto simp: filter_empty_conv not_le)

lemma storedRevision_ok:
  assumes "storedRevision row = Inr rv" "revisionOK row"
  shows "wfConfig (RevConfig rv) \<and> RevID rv = r_id row \<and> EffectiveAt rv = r_effective_at row \<and>
    AccountingAnchorAt rv = r_anchor_at row \<and> 0 \<le> AccountingAnchorAt rv \<and> AccountingAnchorAt rv \<le> EffectiveAt rv"
  using assms by (auto simp: storedRevision_Inr revisionOK_def)

text \<open>The row of a revision that was read.\<close>

definition readsRow :: "Revision \<Rightarrow> revision_row \<Rightarrow> bool" where
  "readsRow rv row \<longleftrightarrow> RevID rv = r_id row \<and> EffectiveAt rv = r_effective_at row \<and>
     AccountingAnchorAt rv = r_anchor_at row \<and> r_config row = Json (RevConfig rv)"

definition readAt :: "store \<Rightarrow> int \<Rightarrow> int \<Rightarrow> Scheme \<Rightarrow> bool" where
  "readAt d i now state \<longleftrightarrow> SchID state = i \<and>
     W_Current (SchConditions state) = map_option r_id (currentRow d i now) \<and>
     W_Next (SchConditions state) = map_option r_id (nextRow d i now) \<and>
     rel_option readsRow (activeRevision state) (currentRow d i now) \<and>
     rel_option readsRow (SchNext state) (nextRow d i now)"

lemma Unmarshal_Inl: "Unmarshal raw = Inl e \<Longrightarrow> e = DecodeError"
  by (cases raw) auto

lemma Current_Unavailable:
  "Current d i now = Inl e \<Longrightarrow> errorsIs e (Alloc AErrUnavailable) \<Longrightarrow> currentRow d i now = None"
  by (cases "currentRow d i now"; cases "fails d ''CurrentAllocationRevision''")
    (auto simp: Current_def CurrentAllocationRevision_def queryRow_def storedRevision_def decodeRevision_def
      errorsIs_def Unwrap_def res_simps guardR_def dest!: Unmarshal_Inl split: if_splits)

lemma Next_NoRows: "NextAllocationRevision d i now = Inl e \<Longrightarrow> errorsIs e NoRows \<Longrightarrow> nextRow d i now = None"
  by (cases "nextRow d i now"; cases "fails d ''NextAllocationRevision''")
    (auto simp: NextAllocationRevision_def queryRow_def errorsIs_def Unwrap_def)

lemma readsRow_stored: "storedRevision row = Inr rv \<Longrightarrow> readsRow rv row"
  by (auto simp: storedRevision_Inr readsRow_def)

text \<open>The state after the current revision was read, before the next one is.\<close>

definition readCurrent :: "store \<Rightarrow> int \<Rightarrow> int \<Rightarrow> Scheme \<Rightarrow> bool" where
  "readCurrent d i now out \<longleftrightarrow> SchID out = i \<and> SchNext out = None \<and> W_Next (SchConditions out) = None \<and>
     W_Current (SchConditions out) = map_option r_id (currentRow d i now) \<and>
     rel_option readsRow (activeRevision out) (currentRow d i now)"

lemma readCurrent_next:
  assumes "readCurrent d i now out"
  shows "nextRow d i now = None \<Longrightarrow> readAt d i now out"
    and "nextRow d i now = Some row \<Longrightarrow> storedRevision row = Inr rv \<Longrightarrow>
      (W_Current (SchConditions out) \<noteq> None \<longrightarrow> RevID (SchRevision out) \<noteq> 0) \<Longrightarrow> readAt d i now (withNext out rv)"
  using assms readsRow_stored [of row rv]
  by (auto simp: readCurrent_def readAt_def withNext_def activeRevision_def Let_def readsRow_def split: option.splits)

definition schemeOf :: "scheme_row \<times> string \<Rightarrow> Scheme" where
  "schemeOf row = \<lparr>SchID = s_id (fst row), SchName = s_name (fst row), SchGroupID = s_group (fst row),
     SchGroupName = snd row, SchEnabled = s_enabled (fst row), SchCreatedAt = s_created_at (fst row),
     EditEffectiveAt = 0, SchRevision = zeroRevision, SchNext = None, SchConditions = \<lparr>W_Current = None, W_Next = None\<rparr>\<rparr>"

lemma readSchemeCore_steps:
  assumes "readSchemeCore s d i now = Inr state"
  obtains row o1 where "GetTenantAllocationScheme d i (sv_tenant s) = Inr row"
    "(case Current d i now of
        Inl e \<Rightarrow> if \<not> errorsIs e (Alloc AErrUnavailable) then Inl e else Inr (schemeOf row)
      | Inr rv \<Rightarrow> Inr (withCurrent s now (schemeOf row) rv)) = Inr o1"
    "(case NextAllocationRevision d i now of
        Inr row \<Rightarrow> bindR (storedRevision row) (\<lambda>rv. Inr (withNext o1 rv))
      | Inl e \<Rightarrow> if \<not> errorsIs e NoRows then Inl e else Inr o1) = Inr state"
proof -
  from assms obtain row where row: "GetTenantAllocationScheme d i (sv_tenant s) = Inr row"
    by (auto simp: readSchemeCore_def split: sum.splits)
  show thesis
    using assms that [OF row] unfolding readSchemeCore_def row sum.case Let_def schemeOf_def [symmetric] bindR_eq_Inr by blast
qed

lemma readSchemeCore_row:
  assumes "readSchemeCore s d i now = Inr state"
  obtains row where "GetTenantAllocationScheme d i (sv_tenant s) = Inr row" "s_id (fst row) = i"
    "SchName state = s_name (fst row)" "SchGroupID state = s_group (fst row)" "SchEnabled state = s_enabled (fst row)"
  using assms
proof (rule readSchemeCore_steps)
  fix row o1
  assume row: "GetTenantAllocationScheme d i (sv_tenant s) = Inr row"
    and o1: "(case Current d i now of
        Inl e \<Rightarrow> if \<not> errorsIs e (Alloc AErrUnavailable) then Inl e else Inr (schemeOf row)
      | Inr rv \<Rightarrow> Inr (withCurrent s now (schemeOf row) rv)) = Inr o1"
    and o2: "(case NextAllocationRevision d i now of
        Inr row \<Rightarrow> bindR (storedRevision row) (\<lambda>rv. Inr (withNext o1 rv))
      | Inl e \<Rightarrow> if \<not> errorsIs e NoRows then Inl e else Inr o1) = Inr state"
  have "s_id (fst row) = i" using row
    by (auto simp: GetTenantAllocationScheme_def res_simps split: option.splits if_splits dest!: first_of_SomeD)
  moreover have "SchName o1 = s_name (fst row) \<and> SchGroupID o1 = s_group (fst row) \<and> SchEnabled o1 = s_enabled (fst row)"
    using o1 by (auto simp: withCurrent_def schemeOf_def split: sum.splits if_splits)
  moreover have "SchName state = SchName o1 \<and> SchGroupID state = SchGroupID o1 \<and> SchEnabled state = SchEnabled o1"
    using o2 by (auto simp: withNext_def Let_def res_simps split: sum.splits if_splits)
  ultimately show thesis using that row by metis
qed

lemma readSchemeCore_ok:
  assumes r: "readSchemeCore s d i now = Inr state" and inv: "storeInv d"
  shows "readAt d i now state"
  using r
proof (rule readSchemeCore_steps)
  fix row o1
  assume row: "GetTenantAllocationScheme d i (sv_tenant s) = Inr row"
    and o1: "(case Current d i now of
        Inl e \<Rightarrow> if \<not> errorsIs e (Alloc AErrUnavailable) then Inl e else Inr (schemeOf row)
      | Inr rv \<Rightarrow> Inr (withCurrent s now (schemeOf row) rv)) = Inr o1"
    and o2: "(case NextAllocationRevision d i now of
        Inr row \<Rightarrow> bindR (storedRevision row) (\<lambda>rv. Inr (withNext o1 rv))
      | Inl e \<Rightarrow> if \<not> errorsIs e NoRows then Inl e else Inr o1) = Inr state"
  have i: "s_id (fst row) = i" using row
    by (auto simp: GetTenantAllocationScheme_def res_simps split: option.splits if_splits dest!: first_of_SomeD)
  have o1': "readCurrent d i now o1 \<and> (W_Current (SchConditions o1) \<noteq> None \<longrightarrow> RevID (SchRevision o1) \<noteq> 0)"
  proof (cases "Current d i now")
    case (Inl e)
    then have "o1 = schemeOf row" "currentRow d i now = None" using o1 Current_Unavailable by (auto split: if_splits)
    then show ?thesis using i by (simp add: readCurrent_def schemeOf_def activeRevision_def)
  next
    case (Inr rv)
    then obtain cr where cr: "currentRow d i now = Some cr" "storedRevision cr = Inr rv" by (auto simp: Current_Inr)
    have "0 < r_id cr" using storeInv_revision [OF inv] currentRow_Some [OF cr(1)] by blast
    moreover have "o1 = withCurrent s now (schemeOf row) rv" using o1 Inr by simp
    ultimately show ?thesis using i cr readsRow_stored [OF cr(2)]
      by (auto simp: readCurrent_def schemeOf_def activeRevision_def withCurrent_def readsRow_def)
  qed
  show ?thesis
  proof (cases "NextAllocationRevision d i now")
    case (Inl e)
    then have "state = o1" "nextRow d i now = None" using o2 Next_NoRows by (auto split: if_splits)
    then show ?thesis using readCurrent_next(1) o1' by blast
  next
    case (Inr nr)
    then obtain rv where "storedRevision nr = Inr rv" "state = withNext o1 rv"
      using o2 by (auto simp: res_simps)
    moreover have "nextRow d i now = Some nr" using Inr by (simp add: NextAllocationRevision_def res_simps)
    ultimately show ?thesis using readCurrent_next(2) o1' by blast
  qed
qed

lemma readAt_active:
  assumes "storeInv d" "readAt d i t state" "activeRevision state = Some c"
  shows "wfConfig (RevConfig c)" "0 \<le> AccountingAnchorAt c" "AccountingAnchorAt c \<le> EffectiveAt c" "EffectiveAt c \<le> t"
    "currentRow d i t \<noteq> None" "SchRevision state = c"
proof -
  from assms obtain row where row: "currentRow d i t = Some row" "readsRow c row"
    by (auto simp: readAt_def option_rel_Some1)
  then have "revisionOK row" "r_effective_at row \<le> t"
    using currentRow_Some [OF row(1)] storeInv_revision [OF assms(1)] by blast+
  then show "wfConfig (RevConfig c)" "0 \<le> AccountingAnchorAt c" "AccountingAnchorAt c \<le> EffectiveAt c" "EffectiveAt c \<le> t"
    using row(2) by (auto simp: readsRow_def revisionOK_def)
  show "currentRow d i t \<noteq> None" using row by simp
  show "SchRevision state = c" using assms(3) by (simp add: activeRevision_def split: option.splits)
qed

lemma readAt_next:
  assumes "storeInv d" "readAt d i t state" "SchNext state = Some n"
  shows "wfConfig (RevConfig n)" "0 \<le> AccountingAnchorAt n" "AccountingAnchorAt n \<le> EffectiveAt n" "t < EffectiveAt n"
proof -
  from assms obtain row where row: "nextRow d i t = Some row" "readsRow n row"
    by (auto simp: readAt_def option_rel_Some1)
  then have "revisionOK row" "t < r_effective_at row"
    using nextRow_Some [OF row(1)] storeInv_revision [OF assms(1)] by blast+
  then show "wfConfig (RevConfig n)" "0 \<le> AccountingAnchorAt n" "AccountingAnchorAt n \<le> EffectiveAt n" "t < EffectiveAt n"
    using row(2) by (auto simp: readsRow_def revisionOK_def)
qed

section \<open>Every operation keeps the invariant\<close>

lemma recordSave_inv: "storeInv d \<Longrightarrow> recordSave s now d i = Inr d' \<Longrightarrow> storeInv d'"
  by (auto simp: recordSave_def intro: Record_inv)

lemma finishChange_store: "finishChange s d state inp action clk = Inr (d', out) \<Longrightarrow> d' = d"
  by (auto simp: finishChange_def res_simps)

lemma targetTime_bounds:
  assumes "storeInv d" "readAt d i t state" "targetTime s state action now = Inr at" "now < at"
  shows "action \<noteq> ''reschedule'' \<Longrightarrow> AccountingAnchorAt (baseRevision state) \<le> max at t \<and> wfConfig (RevConfig (baseRevision state))"
    "action = ''reschedule'' \<Longrightarrow> \<exists>n. SchNext state = Some n \<and> EffectiveAt n < at"
proof -
  show "AccountingAnchorAt (baseRevision state) \<le> max at t \<and> wfConfig (RevConfig (baseRevision state))" if "action \<noteq> ''reschedule''"
  proof (cases "SchNext state")
    case None
    then obtain c where c: "activeRevision state = Some c" using assms(3) that
      by (auto simp: targetTime_def Let_def split: option.splits if_splits)
    then show ?thesis using readAt_active [OF assms(1,2) c] None by (simp add: baseRevision_def)
  next
    case (Some n)
    then show ?thesis using readAt_next [OF assms(1,2) Some] assms(3) that by (simp add: baseRevision_def targetTime_def)
  qed
  show "\<exists>n. SchNext state = Some n \<and> EffectiveAt n < at" if "action = ''reschedule''"
    using assms(3) that by (auto simp: targetTime_def Let_def split: option.splits if_splits)
qed

lemma checkTime_Inr: "checkTime s inp state action now = Inr at \<longleftrightarrow>
    effectiveCondition (ExpectedEffectiveAt inp) = Inr (Some at) \<and> targetTime s state action now = Inr at \<and>
    now < at \<and> \<not> nextDue state now"
proof (cases "effectiveCondition (ExpectedEffectiveAt inp)")
  case (Inr e)
  then show ?thesis
    by (cases e; cases "targetTime s state action now") (auto simp: checkTime_def)
qed (simp add: checkTime_def)

lemma applyMembers_inv:
  assumes inv: "storeInv d" and st: "readAt d i t state" "t \<le> now"
    and r: "applyMembers s d state members now = Inr d'"
  shows "storeInv d'"
proof -
  from r obtain current where c: "activeRevision state = Some current"
    by (auto simp: applyMembers_def split: option.splits)
  note cur = readAt_active [OF inv st(1) c]
  from r c obtain proposed where p: "normalize ((RevConfig current)\<lparr>Members := canonicalMembers members\<rparr>) = Inr proposed"
    by (auto simp: applyMembers_def res_simps)
  show ?thesis
  proof (cases "sameMembers (Members (RevConfig current)) (Members proposed)")
    case True
    then show ?thesis using r c p inv by (auto simp: applyMembers_def res_simps)
  next
    case False
    with r c p obtain nextConfig d1 n1 d2 where
      nc: "nextMembers current state (Members proposed) = Inr nextConfig"
      and d1: "appendRevision d (SchID state) now (AccountingAnchorAt current) proposed = Inr (d1, n1)"
      and d2: "(case (SchNext state, nextConfig) of
             (Some n, Some c) \<Rightarrow> bindR (appendRevision d1 (SchID state) (EffectiveAt n) (AccountingAnchorAt n) c) (\<lambda>(d, _). Inr d)
           | _ \<Rightarrow> Inr d1) = Inr d2"
      and d': "recordSave s now d2 (SchID state) = Inr d'"
      by (auto simp: applyMembers_def res_simps)
    have "storeInv d1" using append_inv [OF inv d1] normalize_wf [OF p] cur st(2) by auto
    moreover have "storeInv d2" if "storeInv d1"
    proof (cases "SchNext state")
      case (Some n)
      then obtain cn where cn: "nextConfig = Some cn" "wfConfig cn"
        using nc normalize_wf by (auto simp: nextMembers_def split: if_splits sum.splits)
      with Some d2 obtain n2 where "appendRevision d1 (SchID state) (EffectiveAt n) (AccountingAnchorAt n) cn = Inr (d2, n2)"
        by (auto simp: res_simps)
      then show ?thesis using append_inv [OF that] cn(2) readAt_next [OF inv st(1) Some] by blast
    qed (use d2 that in auto)
    ultimately show ?thesis using recordSave_inv [OF _ d'] by blast
  qed
qed

text \<open>The clock of an operation does not go back behind its first reading.\<close>

definition forward :: "(nat \<Rightarrow> int) \<Rightarrow> bool" where
  "forward clk \<longleftrightarrow> (\<forall>k. clk 0 \<le> clk k)"

lemma forwardD: "forward clk \<Longrightarrow> clk 0 \<le> clk k"
  by (simp add: forward_def)

lemma UpdateMembers_inv:
  assumes "storeInv d" "forward clk" "UpdateMembers s d i inp members clk = Inr (d', out)"
  shows "storeInv d'"
proof -
  from assms(3) obtain state d1 where r: "readSchemeCore s d i (clk 0) = Inr state"
      "applyMembers s d state members (clk 1) = Inr d1" "finishChange s d1 state inp [] (after 2 clk) = Inr (d', out)"
    unfolding UpdateMembers_def bindR_eq_Inr by blast
  show ?thesis
    using applyMembers_inv [OF assms(1) readSchemeCore_ok [OF r(1) assms(1)] forwardD [OF assms(2)] r(2)]
      finishChange_store [OF r(3)] by simp
qed

lemma UpdateScheme_row_inv: "storeInv d \<Longrightarrow> UpdateAllocationScheme d i name en = Inr d' \<Longrightarrow> storeInv d'"
  by (rule storeInv_cong) (auto simp: UpdateAllocationScheme_def res_simps)

lemma CreateScheme_row_inv: "storeInv d \<Longrightarrow> CreateAllocationScheme d name g en t = Inr (d', i) \<Longrightarrow> storeInv d'"
  by (rule storeInv_cong) (auto simp: CreateAllocationScheme_def Let_def res_simps)

lemma Bind_inv: "storeInv d \<Longrightarrow> BindExistingAllocationKeys d i g u = Inr d' \<Longrightarrow> storeInv d'"
  by (rule storeInv_cong) (auto simp: BindExistingAllocationKeys_def res_simps)

lemma SetEnabled_inv:
  assumes "storeInv d" "SetEnabled s d i en now = Inr d'"
  shows "storeInv d'"
proof (cases "GetTenantAllocationScheme d i (sv_tenant s)")
  case (Inr row)
  with assms(2) obtain d1 where "UpdateAllocationScheme d i (s_name (fst row)) en = Inr d1" "recordSave s now d1 i = Inr d'"
    unfolding SetEnabled_def by (auto simp: bindR_eq_Inr)
  then show ?thesis using UpdateScheme_row_inv [OF assms(1)] recordSave_inv by blast
qed (use assms(2) in \<open>auto simp: SetEnabled_def bindR_eq_Inr\<close>)

lemma updateNow_inv:
  assumes inv: "storeInv d" and st: "readAt d i t state" "t \<le> clk 0"
    and r: "updateNow s d state inp clk = Inr (d', out)"
  shows "storeInv d'"
proof -
  from r obtain current where c: "activeRevision state = Some current"
    by (auto simp: updateNow_def res_simps split: option.splits)
  with r obtain d1 where d1: "applyMembers s d state (Members (InConfig inp)) (clk 0) = Inr d1"
      "finishChange s d1 state (InConditions inp) [] (after 1 clk) = Inr (d', out)"
    unfolding updateNow_def guardR_eq_Inr bindR_eq_Inr by (auto simp: bindR_eq_Inr split: if_splits)
  show ?thesis using applyMembers_inv [OF inv st d1(1)] finishChange_store [OF d1(2)] by simp
qed

text \<open>What a committed scheduled edit wrote.\<close>

lemma updateScheme_scheduled:
  assumes "updateScheme s d i inp clk = Inr (d', out)" "\<not> ApplyNow inp"
  obtains state config c1 at d1 n1 d2 where
    "readSchemeCore s d i (clk 0) = Inr state" "checkVersions (InConditions inp) state = Inr ()"
    "normalize c1 = Inr config" "checkTime s (InConditions inp) state ''schedule'' (clk 1) = Inr at"
    "appendRevision d i at (if structuralEdit state inp then at else AccountingAnchorAt (baseRevision state)) config = Inr (d1, n1)"
    "UpdateAllocationScheme d1 i (InName inp) (SchEnabled state) = Inr d2"
    "recordSave s (clk 1) d2 i = Inr d'"
proof -
  from assms obtain state where state: "readSchemeCore s d i (clk 0) = Inr state"
    by (auto simp: updateScheme_def bindR_eq_Inr)
  note r = assms(1) [unfolded updateScheme_def state bindR_Inr Let_def if_not_P [OF assms(2)]]
  from r obtain u c1 config at d1 n1 d2 d3 where w: "checkVersions (InConditions inp) state = Inr u" "normalize c1 = Inr config"
     "checkTime s (InConditions inp) state ''schedule'' (clk 1) = Inr at"
     "appendRevision d i at (if structuralEdit state inp then at else AccountingAnchorAt (baseRevision state)) config = Inr (d1, n1)"
     "UpdateAllocationScheme d1 i (InName inp) (SchEnabled state) = Inr d2" "recordSave s (clk 1) d2 i = Inr d3"
     "finishChange s d3 state (InConditions inp) ''schedule'' (after 3 clk) = Inr (d', out)"
    unfolding bindR_eq_Inr guardR_eq_Inr split_paired_Ex prod.case by blast
  have "d3 = d'" using finishChange_store [OF w(7)] by simp
  with w that [OF state] show thesis by simp
qed

lemma scheduledAnchor_ok:
  assumes inv: "storeInv d" and st: "readAt d i t state" "t \<le> now"
    and c: "checkTime s inp state ''schedule'' now = Inr at"
  shows "(if structural then at else AccountingAnchorAt (baseRevision state)) \<le> at"
proof -
  from c have "targetTime s state ''schedule'' now = Inr at" "now < at" by (simp_all add: checkTime_Inr)
  from targetTime_bounds(1) [OF inv st(1) this] have "AccountingAnchorAt (baseRevision state) \<le> max at t" by simp
  then show ?thesis using \<open>now < at\<close> st(2) by auto
qed

lemma updateScheme_inv:
  assumes inv: "storeInv d" and clk: "forward clk" and r: "updateScheme s d i inp clk = Inr (d', out)"
  shows "storeInv d'"
proof (cases "ApplyNow inp")
  case True
  with r obtain state where state: "readSchemeCore s d i (clk 0) = Inr state" "updateNow s d state inp clk = Inr (d', out)"
    unfolding updateScheme_def bindR_eq_Inr guardR_eq_Inr if_P [OF True] by blast
  show ?thesis using updateNow_inv [OF inv readSchemeCore_ok [OF state(1) inv] order_refl state(2)] .
next
  case False
  from updateScheme_scheduled [OF r False] obtain state config c1 at d1 n1 d2 where
    w: "readSchemeCore s d i (clk 0) = Inr state" "normalize c1 = Inr config"
      "checkTime s (InConditions inp) state ''schedule'' (clk 1) = Inr at"
      "appendRevision d i at (if structuralEdit state inp then at else AccountingAnchorAt (baseRevision state)) config = Inr (d1, n1)"
      "UpdateAllocationScheme d1 i (InName inp) (SchEnabled state) = Inr d2" "recordSave s (clk 1) d2 i = Inr d'"
    by metis
  have "storeInv d1"
    using append_inv [OF inv w(4) normalize_wf [OF w(2)]
        scheduledAnchor_ok [OF inv readSchemeCore_ok [OF w(1) inv] forwardD [OF clk] w(3)]] .
  then show ?thesis using UpdateScheme_row_inv [OF _ w(5)] recordSave_inv [OF _ w(6)] by blast
qed

lemma createScheme_inv:
  assumes inv: "storeInv d" and r: "createScheme s d inp clk = Inr (d', out)"
  shows "storeInv d'"
proof (cases "GetTenantGroup d (InGroupID inp) (sv_tenant s)")
  case (Inl e)
  then show ?thesis using r by (auto simp: createScheme_def bindR_eq_Inr)
next
  case (Inr g)
  note r' = r [unfolded createScheme_def Inr sum.case]
  from r' obtain c1 config effective d1 i d2 n d3 d4 where w: "normalize c1 = Inr config"
      "CreateAllocationScheme d (InName inp) (InGroupID inp) (InEnabled inp) (clk 0) = Inr (d1, i)"
      "appendRevision d1 i effective effective config = Inr (d2, n)"
      "foldR (\<lambda>d m. BindExistingAllocationKeys d i (InGroupID inp) (UserID m)) d2 (Members config) = Inr d3"
      "recordSave s (clk 0) d3 i = Inr d4" and d': "d' = d4"
    unfolding bindR_eq_Inr guardR_eq_Inr split_paired_Ex prod.case by blast
  have "storeInv d2" using append_inv [OF CreateScheme_row_inv [OF inv w(2)] w(3) normalize_wf [OF w(1)] order_refl] .
  then have "storeInv d3" using foldR_invariant [OF w(4), of storeInv] Bind_inv by blast
  then show ?thesis using recordSave_inv [OF _ w(5)] d' by blast
qed

lemma SaveScheme_inv:
  assumes "storeInv d" "forward clk" "SaveScheme s d i inp clk = Inr (d', out)"
  shows "storeInv d'"
  using assms updateScheme_inv createScheme_inv unfolding SaveScheme_def by (metis Inl_Inr_False)

text \<open>What a committed change of the pending revision did; \<open>replacement\<close> is the row a reschedule inserts.\<close>

definition replacement ::
    "Service \<Rightarrow> store \<Rightarrow> int \<Rightarrow> string \<Rightarrow> Conditions \<Rightarrow> Scheme \<Rightarrow> Revision \<Rightarrow> int \<Rightarrow> (store \<times> int) result" where
  "replacement s d i action inp state n now = (if action = ''reschedule'' then
         bindR (checkTime s inp state action now) (\<lambda>at.
         appendRevision d i at
           (if activeRevision state = None \<or> AccountingAnchorAt n \<noteq> AccountingAnchorAt (SchRevision state)
            then at else AccountingAnchorAt n) (RevConfig n))
       else Inr (d, 0))"

lemma ChangeSchedule_Inr:
  assumes "ChangeSchedule s d i action inp clk = Inr (d', out)"
  obtains state n d1 new d2 where
    "readSchemeCore s d i (clk 0) = Inr state" "checkVersions inp state = Inr ()" "SchNext state = Some n"
    "replacement s d i action inp state n (clk 1) = Inr (d1, new)"
    "DeleteAllocationPendingAt d1 i (EffectiveAt n) (clk 0) = Inr d2" "recordSave s (clk 0) d2 i = Inr d'"
    "action = ''cancel'' \<or> action = ''reschedule''"
    "action = ''reschedule'' \<Longrightarrow> \<exists>row. nextRow d2 i (clk 0) = Some row \<and> r_id row = new"
    "action \<noteq> ''reschedule'' \<Longrightarrow> nextRow d2 i (clk 0) = None \<and> activeRevision state \<noteq> None"
proof -
  note r = assms [unfolded ChangeSchedule_def Let_def, folded replacement_def]
  from r obtain state u where state: "readSchemeCore s d i (clk 0) = Inr state" "checkVersions inp state = Inr u"
    and act: "\<not> (action \<noteq> ''cancel'' \<and> action \<noteq> ''reschedule'')"
    unfolding bindR_eq_Inr guardR_eq_Inr by blast
  show thesis
  proof (cases "SchNext state")
    case None
    then show thesis using r unfolding state bindR_Inr None option.case by (auto simp: bindR_eq_Inr guardR_eq_Inr)
  next
    case (Some n)
    from r obtain d1 new d2 d3 u1 where w: "replacement s d i action inp state n (clk 1) = Inr (d1, new)"
      "DeleteAllocationPendingAt d1 i (EffectiveAt n) (clk 0) = Inr d2" "recordSave s (clk 0) d2 i = Inr d3"
      "(case NextAllocationRevision d2 i (clk 0) of
         Inr row \<Rightarrow>
           if action = ''reschedule'' \<and> r_id row = new then Inr () else Inl (Alloc AErrStateConflict)
       | Inl e \<Rightarrow>
           if \<not> errorsIs e NoRows then Inl e
           else if action = ''reschedule'' then Inl (Alloc AErrStateConflict) else Inr ()) = Inr u1"
      and g: "\<not> (action = ''cancel'' \<and> activeRevision state = None)"
      and f: "finishChange s d3 state inp (if action = ''reschedule'' then action else []) (after 3 clk) = Inr (d', out)"
      unfolding state bindR_Inr Some option.case bindR_eq_Inr guardR_eq_Inr split_paired_Ex prod.case by blast
    have "d3 = d'" using finishChange_store [OF f] by simp
    then have w3: "recordSave s (clk 0) d2 i = Inr d'" using w(3) by simp
    have cv: "checkVersions inp state = Inr ()" using state(2) by simp
    have re: "\<exists>row. nextRow d2 i (clk 0) = Some row \<and> r_id row = new" if "action = ''reschedule''"
      using w(4) that by (auto simp: NextAllocationRevision_def queryRow_def split: sum.splits if_splits option.splits)
    have cn: "nextRow d2 i (clk 0) = None" if "action \<noteq> ''reschedule''"
      using w(4) that Next_NoRows by (auto split: sum.splits if_splits)
    have c: "action = ''cancel''" if "action \<noteq> ''reschedule''" using act that by argo
    show thesis
      by (rule that [OF state(1) cv Some w(1) w(2) w3]) (use act re cn g c in metis)+
  qed
qed

lemma ChangeSchedule_inv:
  assumes inv: "storeInv d" and r: "ChangeSchedule s d i action inp clk = Inr (d', out)"
  shows "storeInv d'"
proof (rule ChangeSchedule_Inr [OF r])
  fix state n d1 new d2
  assume w: "readSchemeCore s d i (clk 0) = Inr state" "SchNext state = Some n"
    "replacement s d i action inp state n (clk 1) = Inr (d1, new)"
    "DeleteAllocationPendingAt d1 i (EffectiveAt n) (clk 0) = Inr d2" "recordSave s (clk 0) d2 i = Inr d'"
  note st = readSchemeCore_ok [OF w(1) inv]
  note nx = readAt_next [OF inv st w(2)]
  have "storeInv d1"
  proof (cases "action = ''reschedule''")
    case True
    with w(3) [unfolded replacement_def] obtain at where at: "checkTime s inp state action (clk 1) = Inr at"
      and a: "appendRevision d i at
           (if activeRevision state = None \<or> AccountingAnchorAt n \<noteq> AccountingAnchorAt (SchRevision state)
            then at else AccountingAnchorAt n) (RevConfig n) = Inr (d1, new)"
      by (auto simp: bindR_eq_Inr)
    from at True have "targetTime s state action (clk 1) = Inr at" "clk 1 < at" by (simp_all add: checkTime_Inr)
    then have "EffectiveAt n < at" using targetTime_bounds(2) [OF inv st] True w(2) by fastforce
    then show ?thesis using append_inv [OF inv a nx(1)] nx(3) by simp
  qed (use w(3) inv in \<open>simp add: replacement_def\<close>)
  then show "storeInv d'" using delete_inv [OF _ w(4)] recordSave_inv [OF _ w(5)] by blast
qed

section \<open>The allocation system\<close>

text \<open>
  Every operation on schemes and every writer of the ledger, by any tenant's service at any
  time. Only the clock readings inside one operation are ordered.
\<close>

inductive alloc_step :: "store \<Rightarrow> store \<Rightarrow> bool" where
  entry_step: "ledger_step d d' \<Longrightarrow> alloc_step d d'"
| save_step: "SaveScheme s d i inp clk = Inr (d', out) \<Longrightarrow> forward clk \<Longrightarrow> alloc_step d d'"
| members_step: "UpdateMembers s d i conditions members clk = Inr (d', out) \<Longrightarrow> forward clk \<Longrightarrow> alloc_step d d'"
| schedule_step: "ChangeSchedule s d i action conditions clk = Inr (d', out) \<Longrightarrow> alloc_step d d'"
| enabled_step: "SetEnabled s d i en now = Inr d' \<Longrightarrow> alloc_step d d'"

inductive_cases alloc_stepE: "alloc_step d d'"

definition emptyStore :: "store \<Rightarrow> bool" where
  "emptyStore d \<longleftrightarrow> allocation_entries d = [] \<and> allocation_revisions d = [] \<and> revision_seq d = 0"

text \<open>The ledger writes no revision and admits only under a revision of the entry's scheme.\<close>

lemma finishRow_frame: "allocation_revisions (finishRow i f d) = allocation_revisions d" "revision_seq (finishRow i f d) = revision_seq d"
  by (simp_all add: finishRow_def)

lemma Finish_frame:
  assumes "Finish d i c now manual = Inr d'"
  shows "allocation_revisions d' = allocation_revisions d \<and> revision_seq d' = revision_seq d \<and>
    (\<forall>e' \<in> set (allocation_entries d'). \<exists>e \<in> set (allocation_entries d). e_scheme e' = e_scheme e \<and> e_revision e' = e_revision e)"
  using assms by (cases rule: Finish_cases) (auto simp: finishRow_frame finishRow_entries finishedEntry_def)

lemma Check_Current: "Check d scheme user grp model now loc = Inr rv \<Longrightarrow> \<exists>t. Current d scheme t = Inr rv"
  using Authorize_Inr(1) [of d scheme user grp now rv] by (auto simp: Check_def Let_def res_simps)

lemma ledger_step_frame:
  assumes "ledger_step d d'"
  shows "allocation_revisions d' = allocation_revisions d \<and> revision_seq d' = revision_seq d \<and>
    (\<forall>e' \<in> set (allocation_entries d'). hasRevision d e' \<or>
       (\<exists>e \<in> set (allocation_entries d). e_scheme e' = e_scheme e \<and> e_revision e' = e_revision e))"
  using assms
proof (cases rule: ledger_step.cases)
  case (begin_step r now loc)
  then obtain rv where rv: "Check d (SchemeID r) (RequestUser r) (GroupID r) (RequestModel r) now loc = Inr rv"
    and d': "d' = d\<lparr>allocation_entries := allocation_entries d @ [newEntry r rv (effectiveWindow rv now loc)]\<rparr>"
    by (auto simp: Begin_Inr)
  from Check_Current [OF rv] obtain row t where "currentRow d (SchemeID r) t = Some row" "storedRevision row = Inr rv"
    by (auto simp: Current_Inr)
  then have "hasRevision d (newEntry r rv (effectiveWindow rv now loc))"
    using currentRow_Some [of d "SchemeID r" t row]
    by (auto simp: hasRevision_def newEntry_def list_ex_iff storedRevision_Inr)
  then show ?thesis using d' by auto
next
  case (finish_step i c now)
  from Finish_frame [OF this] show ?thesis by blast
next
  case (settle_step actor tenant scheme i c now)
  from Settle_Inr [OF this] obtain d1 evs where
    "Finish d i (c\<lparr>Known := True, Dispatched := True\<rparr>) now True = Inr d1" "d' = d1\<lparr>audit_events := evs\<rparr>" by blast
  with Finish_frame [OF this(1)] show ?thesis by simp
next
  case (recover_step tenant)
  show ?thesis unfolding Recover_Inr [OF recover_step] by (auto simp: recoveredEntry_def)
next
  case (prune_step before n)
  then show ?thesis using Prune_Inr dropFirst_subset by fastforce
qed

lemma alloc_step_inv:
  assumes inv: "storeInv d" and st: "alloc_step d d'"
  shows "storeInv d'"
  using st
proof (cases rule: alloc_step.cases)
  case entry_step
  note f = ledger_step_frame [OF entry_step]
  have "ledgerOK d'" using ledger_step_OK [OF _ entry_step] inv by (simp add: storeInv_def)
  moreover have "hasRevision d' e" if "e \<in> set (allocation_entries d')" for e
  proof -
    have "hasRevision d e" using f that inv by (fastforce simp: storeInv_def list_all_iff hasRevision_def)
    then show ?thesis using f by (simp add: hasRevision_def)
  qed
  ultimately show ?thesis using inv f by (simp add: storeInv_def list_all_iff)
next
  case (save_step s i inp clk out)
  then show ?thesis using SaveScheme_inv inv by blast
next
  case (members_step s i conditions members clk out)
  then show ?thesis using UpdateMembers_inv inv by blast
next
  case (schedule_step s i action conditions clk out)
  then show ?thesis using ChangeSchedule_inv inv by blast
next
  case (enabled_step s i en now)
  then show ?thesis using SetEnabled_inv inv by blast
qed

interpretation alloc: step_invariant emptyStore alloc_step storeInv
proof
  show "emptyStore d \<Longrightarrow> storeInv d" for d by (simp add: emptyStore_def storeInv_def ledgerOK_def)
  show "storeInv d \<Longrightarrow> alloc_step d d' \<Longrightarrow> storeInv d'" for d d' by (rule alloc_step_inv)
qed

end
