(* ===== verification/Alloc_Versions.thy ===== *)
theory Alloc_Versions
  imports Alloc_Changes
begin

text \<open>
  Optimistic concurrency of the scheme operations: a committed change invalidates the versions it
  was conditioned on, and a conditional write that succeeds later, after whatever operations, finds
  the very rows its versions were read from; and a change of members leaves the accounting periods
  alone.
\<close>

section \<open>Conditional writes\<close>

text \<open>The operations that name the versions they were prepared against.\<close>

inductive writes :: "Service \<Rightarrow> int \<Rightarrow> Conditions \<Rightarrow> (nat \<Rightarrow> int) \<Rightarrow> store \<Rightarrow> store \<Rightarrow> bool" where
  write_members: "UpdateMembers s d i conditions members clk = Inr (d', out) \<Longrightarrow> writes s i conditions clk d d'"
| write_scheme: "updateScheme s d i inp clk = Inr (d', out) \<Longrightarrow> writes s i (InConditions inp) clk d d'"
| write_schedule: "ChangeSchedule s d i action conditions clk = Inr (d', out) \<Longrightarrow> writes s i conditions clk d d'"

inductive_cases writesE: "writes s i conditions clk d d'"

text \<open>Every conditional write checks the versions in the state it read first.\<close>

lemma writes_checked:
  assumes "writes s i conditions clk d d'"
  shows "\<exists>state. readSchemeCore s d i (clk 0) = Inr state \<and> checkVersions conditions state = Inr ()"
  using assms
proof (cases rule: writes.cases)
  case (write_members members out)
  then show ?thesis unfolding UpdateMembers_def bindR_eq_Inr by auto
next
  case (write_scheme inp out)
  then show ?thesis unfolding updateScheme_def bindR_eq_Inr guardR_eq_Inr by auto
next
  case (write_schedule action out)
  then show ?thesis by (metis ChangeSchedule_Inr)
qed

lemma checkVersions_Inr:
  "checkVersions inp state = Inr () \<longleftrightarrow>
     ExpectedCurrentRevisionID inp \<noteq> Absent \<and> ExpectedNextRevisionID inp \<noteq> Absent \<and>
     condition (ExpectedCurrentRevisionID inp) = Inr (W_Current (SchConditions state)) \<and>
     condition (ExpectedNextRevisionID inp) = Inr (W_Next (SchConditions state))"
  by (cases "condition (ExpectedCurrentRevisionID inp)"; cases "condition (ExpectedNextRevisionID inp)")
    (auto simp: checkVersions_def)

text \<open>The two versions a later reader at \<open>t\<close> would have to find again.\<close>

definition sameVersions :: "store \<Rightarrow> int \<Rightarrow> store \<Rightarrow> int \<Rightarrow> int \<Rightarrow> bool" where
  "sameVersions d t d' t' i \<longleftrightarrow>
     map_option r_id (currentRow d i t) = map_option r_id (currentRow d' i t') \<and>
     map_option r_id (nextRow d i t) = map_option r_id (nextRow d' i t')"

text \<open>Rows are only added with ids never given out before, or removed.\<close>

definition grows :: "store \<Rightarrow> store \<Rightarrow> bool" where
  "grows d d' \<longleftrightarrow> revision_seq d \<le> revision_seq d' \<and>
     (\<forall>r \<in> set (allocation_revisions d'). r \<in> set (allocation_revisions d) \<or> revision_seq d < r_id r)"

lemma grows_refl: "allocation_revisions d' = allocation_revisions d \<Longrightarrow> revision_seq d' = revision_seq d \<Longrightarrow> grows d d'"
  by (simp add: grows_def)

lemma grows_trans: "grows d d' \<Longrightarrow> grows d' d'' \<Longrightarrow> grows d d''"
  by (fastforce simp: grows_def)

lemma grows_append: "appendRevision d i at anchor c = Inr (d', new) \<Longrightarrow> grows d d'"
  by (auto simp: append_Inr grows_def)

lemma grows_delete: "DeleteAllocationPendingAt d i at now = Inr d' \<Longrightarrow> grows d d'"
  by (auto simp: DeleteAllocationPendingAt_def res_simps grows_def)

lemma recordSave_frame:
  assumes "recordSave s now d i = Inr d'"
  shows "allocation_revisions d' = allocation_revisions d" "revision_seq d' = revision_seq d"
  using Record_frame assms unfolding recordSave_def by fastforce+

text \<open>A new row that is in force at \<open>t'\<close> replaces the row that was in force at \<open>t\<close>.\<close>

lemma new_current:
  assumes inv: "storeInv d" and g: "grows d d'"
    and row: "row \<in> set (allocation_revisions d')" "r_scheme row = i" "r_effective_at row \<le> t'" "t \<le> r_effective_at row"
    and fresh: "revision_seq d < r_id row"
  shows "\<not> sameVersions d t d' t' i"
proof
  assume same: "sameVersions d t d' t' i"
  obtain x where x: "currentRow d' i t' = Some x"
    using row currentRow_None [of d' i t'] by (cases "currentRow d' i t'") fastforce+
  with same obtain y where y: "currentRow d i t = Some y" "r_id y = r_id x" by (auto simp: sameVersions_def)
  note cx = currentRow_Some [OF x] and cy = currentRow_Some [OF y(1)]
  have "r_id x \<le> revision_seq d" using y(2) cy storeInv_revision [OF inv] by fastforce
  then have "x \<in> set (allocation_revisions d)" using g cx by (fastforce simp: grows_def)
  then have "x = y" using inv y(2) cy unfolding storeInv_def distinct_map inj_on_def by metis
  then have "r_effective_at x \<le> r_effective_at row" using cy row(4) by simp
  moreover from cx row have "r_effective_at row < r_effective_at x \<or> r_effective_at x = r_effective_at row \<and> r_id row \<le> r_id x"
    by metis
  ultimately show False using fresh \<open>r_id x \<le> revision_seq d\<close> by linarith
qed

lemma new_pending:
  assumes inv: "storeInv d" and g: "grows d d'" and t: "t \<le> t'"
    and row: "nextRow d' i t = Some row" and fresh: "revision_seq d < r_id row"
  shows "\<not> sameVersions d t d' t' i"
proof (cases "r_effective_at row \<le> t'")
  case True
  then show ?thesis using new_current [OF inv g _ _ True _ fresh] nextRow_Some [OF row] by auto
next
  case False
  note nr = nextRow_Some [OF row]
  show ?thesis
  proof
    assume same: "sameVersions d t d' t' i"
    obtain y where y: "nextRow d' i t' = Some y"
      using nr False nextRow_None [of d' i t'] by (cases "nextRow d' i t'") fastforce+
    with same obtain n where n: "nextRow d i t = Some n" "r_id n = r_id y" by (auto simp: sameVersions_def)
    have "r_id n \<le> revision_seq d" using nextRow_Some [OF n(1)] storeInv_revision [OF inv] by blast
    moreover have "r_effective_at row < r_effective_at y \<or> r_effective_at y = r_effective_at row \<and> r_id y \<le> r_id row"
      using nr nextRow_Some [OF y] t by force
    moreover have "r_effective_at y < r_effective_at row \<or> r_effective_at row = r_effective_at y \<and> r_id row \<le> r_id y"
      using nr nextRow_Some [OF y] False by force
    ultimately show False using fresh n(2) by linarith
  qed
qed

lemma pending_gone:
  assumes "nextRow d i t \<noteq> None" "nextRow d' i t = None" "t \<le> t'"
  shows "\<not> sameVersions d t d' t' i"
proof -
  have "nextRow d' i t' = None" using assms(2,3) by (fastforce simp: nextRow_None)
  then show ?thesis using assms(1) by (auto simp: sameVersions_def)
qed

lemma applyMembers_effect:
  assumes r: "applyMembers s d state members now = Inr d'" and ch: "allocation_revisions d' \<noteq> allocation_revisions d"
  shows "grows d d' \<and> (\<exists>row \<in> set (allocation_revisions d'). r_scheme row = SchID state \<and> r_effective_at row = now \<and>
    revision_seq d < r_id row)"
proof -
  from r obtain current where c: "activeRevision state = Some current"
    by (auto simp: applyMembers_def split: option.splits)
  from r c obtain proposed where p: "normalize ((RevConfig current)\<lparr>Members := canonicalMembers members\<rparr>) = Inr proposed"
    by (auto simp: applyMembers_def res_simps)
  have "\<not> sameMembers (Members (RevConfig current)) (Members proposed)"
    using r c p ch by (auto simp: applyMembers_def res_simps)
  with r c p obtain nextConfig d1 n1 d2 where
      d1: "appendRevision d (SchID state) now (AccountingAnchorAt current) proposed = Inr (d1, n1)"
      and d2: "(case (SchNext state, nextConfig) of
             (Some n, Some c) \<Rightarrow> bindR (appendRevision d1 (SchID state) (EffectiveAt n) (AccountingAnchorAt n) c) (\<lambda>(d, _). Inr d)
           | _ \<Rightarrow> Inr d1) = Inr d2"
      and d': "recordSave s now d2 (SchID state) = Inr d'"
      by (auto simp: applyMembers_def res_simps)
  have "grows d1 d2 \<and> set (allocation_revisions d1) \<subseteq> set (allocation_revisions d2)"
    using d2 by (auto simp: res_simps append_Inr grows_def split: option.splits)
  moreover have "\<exists>row \<in> set (allocation_revisions d1). r_scheme row = SchID state \<and> r_effective_at row = now \<and> revision_seq d < r_id row"
    using d1 by (auto simp: append_Inr)
  ultimately show ?thesis
    using grows_append [OF d1] recordSave_frame [OF d'] grows_trans [of d d1 d2] by (auto simp: grows_def)
qed

text \<open>The row a scheduled edit appends is the pending one.\<close>

lemma scheduled_pending:
  assumes inv: "storeInv d" and st: "readAt d i t state" "t \<le> now"
    and c: "checkTime s inp state ''schedule'' now = Inr at"
    and a: "appendRevision d i at anchor config = Inr (d', new)"
  shows "\<exists>row. nextRow d' i t = Some row \<and> revision_seq d < r_id row"
proof -
  from c have c': "targetTime s state ''schedule'' now = Inr at" "now < at" by (simp_all add: checkTime_Inr)
  let ?row = "\<lparr>r_id = new, r_scheme = i, r_effective_at = at, r_anchor_at = anchor, r_config = Json config\<rparr>"
  from a have rows: "set (allocation_revisions d') = insert ?row (set (allocation_revisions d))" and new: "new = revision_seq d + 1"
    by (auto simp: append_Inr)
  obtain y where y: "nextRow d' i t = Some y"
    using nextRow_None [of d' i t] rows c'(2) st(2) by (cases "nextRow d' i t") auto
  note ny = nextRow_Some [OF y]
  have "r_effective_at y < at \<or> at = r_effective_at y \<and> new \<le> r_id y"
    using ny rows c'(2) st(2) by auto
  moreover have False if "r_effective_at y < at"
  proof -
    from that have "y \<noteq> ?row" by (metis less_irrefl revision_row.select_convs(3))
    with ny rows have old: "y \<in> set (allocation_revisions d)" by blast
    show False
    proof (cases "SchNext state")
      case None
      then have "nextRow d i t = None" using st(1) by (auto simp: readAt_def)
      then show False using old ny unfolding nextRow_None by auto
    next
      case (Some n)
      then have "EffectiveAt n = at" using c'(1) by (simp add: targetTime_def)
      with Some obtain nr where nr: "nextRow d i t = Some nr" "r_effective_at nr = at"
        using st(1) by (auto simp: readAt_def readsRow_def option_rel_Some1)
      have "at < r_effective_at y \<or> r_effective_at y = at \<and> r_id y \<le> r_id nr"
        using nextRow_Some [OF nr(1)] nr(2) old ny by auto
      then show False using that by auto
    qed
  qed
  ultimately show ?thesis using y new by force
qed

text \<open>What a write that changed the revisions left behind, seen from the time it read.\<close>

lemma writes_effect:
  assumes inv: "storeInv d" and clk: "forward clk" and w: "writes s i conditions clk d d'"
    and ch: "allocation_revisions d' \<noteq> allocation_revisions d"
  shows "grows d d' \<and>
    ((\<exists>k. \<exists>row \<in> set (allocation_revisions d'). r_scheme row = i \<and> r_effective_at row = clk k \<and> revision_seq d < r_id row) \<or>
     (\<exists>row. nextRow d' i (clk 0) = Some row \<and> revision_seq d < r_id row) \<or>
     nextRow d i (clk 0) \<noteq> None \<and> nextRow d' i (clk 0) = None)"
  using w
proof (cases rule: writes.cases)
  case (write_members members out)
  then obtain state d1 where r: "readSchemeCore s d i (clk 0) = Inr state"
      "applyMembers s d state members (clk 1) = Inr d1" "finishChange s d1 state conditions [] (after 2 clk) = Inr (d', out)"
    unfolding UpdateMembers_def bindR_eq_Inr by blast
  have "d' = d1" by (rule finishChange_store [OF r(3)])
  moreover have "SchID state = i" using readSchemeCore_ok [OF r(1) inv] by (simp add: readAt_def)
  ultimately show ?thesis using applyMembers_effect [OF r(2)] ch by blast
next
  case (write_scheme inp out)
  show ?thesis
  proof (cases "ApplyNow inp")
    case True
    with write_scheme obtain state where state: "readSchemeCore s d i (clk 0) = Inr state" "updateNow s d state inp clk = Inr (d', out)"
      unfolding updateScheme_def bindR_eq_Inr guardR_eq_Inr if_P [OF True] by blast
    then obtain d1 where d1: "applyMembers s d state (Members (InConfig inp)) (clk 0) = Inr d1"
        "finishChange s d1 state (InConditions inp) [] (after 1 clk) = Inr (d', out)"
      unfolding updateNow_def guardR_eq_Inr bindR_eq_Inr by (auto simp: bindR_eq_Inr split: option.splits if_splits)
    have "d' = d1" by (rule finishChange_store [OF d1(2)])
    moreover have "SchID state = i" using readSchemeCore_ok [OF state(1) inv] by (simp add: readAt_def)
    ultimately show ?thesis using applyMembers_effect [OF d1(1)] ch by blast
  next
    case False
    show ?thesis
    proof (rule updateScheme_scheduled [OF write_scheme(2) False])
      fix state config c1 at d1 n1 d2
      assume u: "readSchemeCore s d i (clk 0) = Inr state"
        "checkTime s (InConditions inp) state ''schedule'' (clk 1) = Inr at"
        "appendRevision d i at (if structuralEdit state inp then at else AccountingAnchorAt (baseRevision state)) config = Inr (d1, n1)"
        "UpdateAllocationScheme d1 i (InName inp) (SchEnabled state) = Inr d2" "recordSave s (clk 1) d2 i = Inr d'"
      have rows: "allocation_revisions d' = allocation_revisions d1" "revision_seq d' = revision_seq d1"
        using recordSave_frame [OF u(5)] u(4) by (auto simp: UpdateAllocationScheme_def res_simps)
      then have "nextRow d' i (clk 0) = nextRow d1 i (clk 0)" by (simp add: nextRow_def)
      then show ?thesis
        using scheduled_pending [OF inv readSchemeCore_ok [OF u(1) inv] forwardD [OF clk] u(2,3)] grows_append [OF u(3)] rows
        by (simp add: grows_def)
    qed
  qed
next
  case (write_schedule action out)
  show ?thesis
  proof (rule ChangeSchedule_Inr [OF write_schedule(1)])
    fix state n d1 new d2
    assume u: "readSchemeCore s d i (clk 0) = Inr state" "SchNext state = Some n"
      "replacement s d i action conditions state n (clk 1) = Inr (d1, new)"
      "DeleteAllocationPendingAt d1 i (EffectiveAt n) (clk 0) = Inr d2" "recordSave s (clk 0) d2 i = Inr d'"
      and re: "action = ''reschedule'' \<Longrightarrow> \<exists>row. nextRow d2 i (clk 0) = Some row \<and> r_id row = new"
      and ca: "action \<noteq> ''reschedule'' \<Longrightarrow> nextRow d2 i (clk 0) = None \<and> activeRevision state \<noteq> None"
    have rows: "allocation_revisions d' = allocation_revisions d2" "revision_seq d' = revision_seq d2"
      using recordSave_frame [OF u(5)] by auto
    then have nr: "nextRow d' i (clk 0) = nextRow d2 i (clk 0)" by (simp add: nextRow_def)
    have g1: "grows d d1 \<and> (action = ''reschedule'' \<longrightarrow> revision_seq d < new)"
    proof (cases "action = ''reschedule''")
      case True
      with u(3) obtain at anchor where a: "appendRevision d i at anchor (RevConfig n) = Inr (d1, new)"
        by (auto simp: replacement_def bindR_eq_Inr)
      then have "revision_seq d < new" by (simp add: append_Inr)
      then show ?thesis using grows_append [OF a] by blast
    qed (use u(3) in \<open>simp add: replacement_def grows_refl\<close>)
    have "grows d d'"
      using g1 grows_delete [OF u(4)] grows_trans rows grows_refl [of d' d2] by blast
    moreover have "nextRow d i (clk 0) \<noteq> None"
      using readSchemeCore_ok [OF u(1) inv] u(2) by (auto simp: readAt_def option_rel_Some1)
    ultimately show ?thesis using g1 re ca unfolding nr by (cases "action = ''reschedule''") auto
  qed
qed

lemma changed_versions:
  assumes inv: "storeInv d" and clk: "forward clk" and w: "writes s i conditions clk d d'"
    and ch: "allocation_revisions d' \<noteq> allocation_revisions d" and t: "\<forall>k. clk k \<le> t"
  shows "\<not> sameVersions d (clk 0) d' t i"
proof -
  note e = writes_effect [OF inv clk w ch]
  then have g: "grows d d'" by blast
  from e [THEN conjunct2] consider k row where "row \<in> set (allocation_revisions d')" "r_scheme row = i" "r_effective_at row = clk k" "revision_seq d < r_id row"
    | row where "nextRow d' i (clk 0) = Some row" "revision_seq d < r_id row"
    | "nextRow d i (clk 0) \<noteq> None" "nextRow d' i (clk 0) = None" by (elim disjE exE bexE conjE) blast+
  then show ?thesis
  proof cases
    case (1 k row)
    then show ?thesis using new_current [OF inv g 1(1,2)] t forwardD [OF clk, of k] by simp
  next
    case 2
    show ?thesis by (rule new_pending [OF inv g _ 2]) (use t in blast)
  next
    case 3
    then show ?thesis using pending_gone t by blast
  qed
qed

text \<open>
  Every operation of the component, conditional or not, keeps the rows it does not delete and numbers new rows
  past all earlier ones.
\<close>

lemma applyMembers_grows:
  assumes "applyMembers s d state members now = Inr d'"
  shows "grows d d'"
proof -
  from assms obtain current proposed where p: "activeRevision state = Some current"
      "normalize ((RevConfig current)\<lparr>Members := canonicalMembers members\<rparr>) = Inr proposed"
    by (auto simp: applyMembers_def bindR_eq_Inr split: option.splits)
  show ?thesis
  proof (cases "sameMembers (Members (RevConfig current)) (Members proposed)")
    case True
    then have "d' = d" using assms p by (auto simp: applyMembers_def bindR_eq_Inr)
    then show ?thesis by (simp add: grows_refl)
  next
    case False
    with assms p obtain nextConfig d1 n1 d2 where
      d1: "appendRevision d (SchID state) now (AccountingAnchorAt current) proposed = Inr (d1, n1)"
      and d2: "(case (SchNext state, nextConfig) of
             (Some n, Some c) \<Rightarrow> bindR (appendRevision d1 (SchID state) (EffectiveAt n) (AccountingAnchorAt n) c) (\<lambda>(d, _). Inr d)
           | _ \<Rightarrow> Inr d1) = Inr d2"
      and d': "recordSave s now d2 (SchID state) = Inr d'"
      by (auto simp: applyMembers_def res_simps)
    have "grows d1 d2" using d2 by (auto simp: bindR_eq_Inr grows_refl dest: grows_append split: option.splits)
    moreover have "grows d2 d'" using recordSave_frame [OF d'] by (simp add: grows_refl)
    ultimately show ?thesis using grows_append [OF d1] grows_trans by blast
  qed
qed

lemma grows_record: "recordSave s now d i = Inr d' \<Longrightarrow> grows d d'"
  using recordSave_frame grows_refl by blast

lemma writes_grows:
  assumes "writes s i conditions clk d d'"
  shows "grows d d'"
  using assms
proof (cases rule: writes.cases)
  case (write_members members out)
  then obtain state d1 where r: "applyMembers s d state members (clk 1) = Inr d1" "finishChange s d1 state conditions [] (after 2 clk) = Inr (d', out)"
    unfolding UpdateMembers_def bindR_eq_Inr by blast
  then show ?thesis using applyMembers_grows finishChange_store by blast
next
  case (write_scheme inp out)
  show ?thesis
  proof (cases "ApplyNow inp")
    case True
    with write_scheme obtain state where "updateNow s d state inp clk = Inr (d', out)"
      unfolding updateScheme_def bindR_eq_Inr guardR_eq_Inr if_P [OF True] by blast
    then obtain d1 where d1: "applyMembers s d state (Members (InConfig inp)) (clk 0) = Inr d1"
        "finishChange s d1 state (InConditions inp) [] (after 1 clk) = Inr (d', out)"
      unfolding updateNow_def guardR_eq_Inr bindR_eq_Inr by (auto simp: bindR_eq_Inr split: option.splits if_splits)
    then show ?thesis using applyMembers_grows finishChange_store by blast
  next
    case False
    show ?thesis
    proof (rule updateScheme_scheduled [OF write_scheme(2) False])
      fix state config at d1 n1 d2
      assume u: "appendRevision d i at (if structuralEdit state inp then at else AccountingAnchorAt (baseRevision state)) config = Inr (d1, n1)"
        "UpdateAllocationScheme d1 i (InName inp) (SchEnabled state) = Inr d2" "recordSave s (clk 1) d2 i = Inr d'"
      have "grows d1 d2" using u(2) by (auto simp: UpdateAllocationScheme_def res_simps intro: grows_refl)
      then show ?thesis using grows_append [OF u(1)] grows_record [OF u(3)] grows_trans by blast
    qed
  qed
next
  case (write_schedule action out)
  show ?thesis
  proof (rule ChangeSchedule_Inr [OF write_schedule(1)])
    fix state n d1 new d2
    assume u: "replacement s d i action conditions state n (clk 1) = Inr (d1, new)"
      "DeleteAllocationPendingAt d1 i (EffectiveAt n) (clk 0) = Inr d2" "recordSave s (clk 0) d2 i = Inr d'"
    have "grows d d1" using u(1) by (auto simp: replacement_def bindR_eq_Inr grows_refl dest: grows_append split: if_splits)
    then show ?thesis using grows_delete [OF u(2)] grows_record [OF u(3)] grows_trans by blast
  qed
qed

lemma createScheme_grows:
  assumes r: "createScheme s d inp clk = Inr (d', out)"
  shows "grows d d'"
proof (cases "GetTenantGroup d (InGroupID inp) (sv_tenant s)")
  case (Inl e)
  then show ?thesis using r by (auto simp: createScheme_def bindR_eq_Inr)
next
  case (Inr g)
  note r' = r [unfolded createScheme_def Inr sum.case]
  from r' obtain config effective d1 i d2 n d3 d4 where w: 
      "CreateAllocationScheme d (InName inp) (InGroupID inp) (InEnabled inp) (clk 0) = Inr (d1, i)"
      "appendRevision d1 i effective effective config = Inr (d2, n)"
      "foldR (\<lambda>d m. BindExistingAllocationKeys d i (InGroupID inp) (UserID m)) d2 (Members config) = Inr d3"
      "recordSave s (clk 0) d3 i = Inr d4" and d': "d' = d4"
    unfolding bindR_eq_Inr guardR_eq_Inr split_paired_Ex prod.case by blast
  have "grows d d1" using w(1) by (auto simp: CreateAllocationScheme_def Let_def res_simps intro: grows_refl)
  moreover have "grows d2 d3"
    by (rule foldR_invariant [OF w(3), where P = "grows d2"])
      (auto simp: BindExistingAllocationKeys_def res_simps grows_refl intro: grows_trans)
  ultimately show ?thesis using grows_append [OF w(2)] grows_record [OF w(4)] d' grows_trans by blast
qed

lemma alloc_step_grows:
  assumes "alloc_step d d'"
  shows "grows d d'"
  using assms
proof (cases rule: alloc_step.cases)
  case entry_step
  then show ?thesis using ledger_step_frame grows_refl by blast
next
  case (save_step s i inp clk out)
  show ?thesis
  proof (cases "i > 0")
    case True
    then have "updateScheme s d i inp clk = Inr (d', out)" using save_step(1) by (simp add: SaveScheme_def split: if_splits)
    then show ?thesis by (rule writes_grows [OF write_scheme])
  next
    case False
    then have "createScheme s d inp clk = Inr (d', out)" using save_step(1) by (simp add: SaveScheme_def split: if_splits)
    then show ?thesis by (rule createScheme_grows)
  qed
next
  case (members_step s i conditions members clk out)
  show ?thesis by (rule writes_grows [OF write_members [OF members_step(1)]])
next
  case (schedule_step s i action conditions clk out)
  show ?thesis by (rule writes_grows [OF write_schedule [OF schedule_step(1)]])
next
  case (enabled_step s i en now)
  show ?thesis
  proof (cases "GetTenantAllocationScheme d i (sv_tenant s)")
    case (Inr row)
    with enabled_step obtain d1 where d1: "UpdateAllocationScheme d i (s_name (fst row)) en = Inr d1" "recordSave s now d1 i = Inr d'"
      unfolding SetEnabled_def by (auto simp: bindR_eq_Inr)
    have "grows d d1" using d1(1) by (auto simp: UpdateAllocationScheme_def res_simps intro: grows_refl)
    then show ?thesis using grows_record [OF d1(2)] grows_trans by blast
  qed (use enabled_step in \<open>auto simp: SetEnabled_def bindR_eq_Inr\<close>)
qed

lemma alloc_steps:
  assumes "alloc_step\<^sup>*\<^sup>* d e" "storeInv d"
  shows "storeInv e \<and> grows d e"
  using assms(1)
proof (induction rule: rtranclp_induct)
  case base
  show ?case using assms(2) by (simp add: grows_refl)
next
  case (step e f)
  then show ?case using alloc_step_inv alloc_step_grows grows_trans by blast
qed

text \<open>A row found again under its id is the same row: ids are given out once and rows are never changed.\<close>

lemma same_row:
  assumes "storeInv d" "grows d e" "x \<in> set (allocation_revisions d)" "y \<in> set (allocation_revisions e)" "r_id x = r_id y"
  shows "y = x"
proof -
  have "r_id y \<le> revision_seq d" using storeInv_revision [OF assms(1,3)] assms(5) by simp
  then have "y \<in> set (allocation_revisions d)" using assms(2,4) by (force simp: grows_def)
  moreover have "inj_on r_id (set (allocation_revisions d))" using assms(1) by (simp add: storeInv_def distinct_map)
  ultimately show ?thesis using assms(3,5) by (metis inj_onD)
qed

lemma sameVersions_rows:
  assumes "storeInv d" "grows d e" "sameVersions d t e t' i"
  shows "currentRow e i t' = currentRow d i t \<and> nextRow e i t' = nextRow d i t"
proof -
  have "currentRow e i t' = currentRow d i t"
  proof (cases "currentRow d i t")
    case None
    then show ?thesis using assms(3) by (simp add: sameVersions_def)
  next
    case (Some x)
    then obtain y where y: "currentRow e i t' = Some y" "r_id x = r_id y"
      using assms(3) by (cases "currentRow e i t'") (auto simp: sameVersions_def)
    then show ?thesis using same_row [OF assms(1,2)] currentRow_Some [OF Some] currentRow_Some [OF y(1)] Some by simp
  qed
  moreover have "nextRow e i t' = nextRow d i t"
  proof (cases "nextRow d i t")
    case None
    then show ?thesis using assms(3) by (simp add: sameVersions_def)
  next
    case (Some x)
    then obtain y where y: "nextRow e i t' = Some y" "r_id x = r_id y"
      using assms(3) by (cases "nextRow e i t'") (auto simp: sameVersions_def)
    then show ?thesis using same_row [OF assms(1,2)] nextRow_Some [OF Some] nextRow_Some [OF y(1)] Some by simp
  qed
  ultimately show ?thesis by blast
qed

text \<open>What a check of the versions compares.\<close>

lemma checked_versions:
  assumes "readSchemeCore s d i t = Inr state" "checkVersions conditions state = Inr ()" "storeInv d"
    and "readSchemeCore s' e i t' = Inr state'" "checkVersions conditions state' = Inr ()" "storeInv e"
  shows "sameVersions d t e t' i"
  using readSchemeCore_ok [OF assms(1,3)] readSchemeCore_ok [OF assms(4,6)] assms(2,5)
  by (simp add: checkVersions_Inr readAt_def sameVersions_def)

section \<open>Changing members keeps the accounting period\<close>

lemma sort_key_map: "(\<And>x. k (f x) = k x) \<Longrightarrow> sort_key k (map f xs) = map f (sort_key k xs)"
proof (induction xs)
  case (Cons x xs)
  have "insort_key k (f x) (map f ys) = map f (insort_key k x ys)" for ys
    using Cons.prems by (induction ys) auto
  then show ?case using Cons by simp
qed simp

lemma canonicalMembers_idem: "canonicalMembers (sort_key UserID (canonicalMembers ms)) = canonicalMembers ms"
proof -
  let ?f = "\<lambda>m. m\<lparr>WindowOverrides := sort_key O_DurationSeconds (WindowOverrides m)\<rparr>"
  have c: "canonicalMembers xs = map ?f (sort_key UserID xs)" for xs
    by (simp add: canonicalMembers_def sort_key_map)
  have s: "sort_key UserID (canonicalMembers ms) = canonicalMembers ms"
    by (rule sort_key_id_if_sorted) (simp add: canonicalMembers_def)
  have "map ?f (canonicalMembers ms) = canonicalMembers ms"
    unfolding c map_map by (rule map_cong) (simp_all add: sort_key_id_if_sorted)
  then show ?thesis using c [of "canonicalMembers ms"] s by simp
qed

lemma normalize_sameMembers:
  "normalize (c\<lparr>Members := canonicalMembers ms\<rparr>) = Inr p \<Longrightarrow> sameMembers (Members p) ms"
  using canonicalMembers_idem by (auto simp: normalize_iff sameMembers_def)

text \<open>Windows depend on the rule only through its schedule.\<close>

lemma resetOn_members: "resetOn date (c\<lparr>Rates := rates, Members := ms\<rparr>) loc = resetOn date c loc"
  by (simp add: resetOn_def resetMinutes_def Let_def)

lemma effectiveWindows_members:
  assumes "AccountingAnchorAt rv' = AccountingAnchorAt rv" "RevConfig rv' = (RevConfig rv)\<lparr>Rates := rates, Members := ms\<rparr>"
  shows "effectiveWindows rv' t loc = effectiveWindows rv t loc"
  using assms by (simp add: effectiveWindows_def effectiveWindow_def Window_def Let_def resetOn_members)

text \<open>\<open>UpdateMembers\<close> on an active scheme: the row in force afterwards.\<close>

lemma currentRow_eq:
  assumes "distinct (map r_id (allocation_revisions d))" "r \<in> set (allocation_revisions d)" "r_scheme r = i" "r_effective_at r \<le> t"
    and "\<And>x. x \<in> set (allocation_revisions d) \<Longrightarrow> r_scheme x = i \<Longrightarrow> r_effective_at x \<le> t \<Longrightarrow>
      r_effective_at x < r_effective_at r \<or> r_effective_at x = r_effective_at r \<and> r_id x \<le> r_id r"
  shows "currentRow d i t = Some r"
proof -
  have "currentRow d i t \<noteq> None" using assms(2-4) unfolding currentRow_None by (metis not_le)
  then obtain y where y: "currentRow d i t = Some y" by blast
  note cy = currentRow_Some [OF y]
  have "r_effective_at y < r_effective_at r \<or> r_effective_at y = r_effective_at r \<and> r_id y \<le> r_id r" using assms(5) cy by blast
  moreover have "r_effective_at r < r_effective_at y \<or> r_effective_at r = r_effective_at y \<and> r_id r \<le> r_id y"
    using cy assms(2-4) by metis
  ultimately have "r_id y = r_id r" by linarith
  then show ?thesis using y cy assms(1,2) unfolding distinct_map inj_on_def by blast
qed


text \<open>
  After \<open>UpdateMembers\<close> the revision in force has the anchor and the rule of the one before, but
  for the members and the normal form of the rates.
\<close>

definition memberEdit :: "Config \<Rightarrow> Share list \<Rightarrow> Config \<Rightarrow> bool" where
  "memberEdit c members c' \<longleftrightarrow> sameMembers (Members c') members \<and> (\<exists>rates ms. c' = c\<lparr>Rates := rates, Members := ms\<rparr>)"

lemma config_unchanged: "c = c\<lparr>Rates := Rates c, Members := Members c\<rparr>"
  by simp

lemma applyMembers_current:
  assumes inv: "storeInv d" and inv': "storeInv d'" and st: "readAt d i t state" "t \<le> now" and due: "\<not> nextDue state now"
    and r: "applyMembers s d state members now = Inr d'" and c: "activeRevision state = Some current"
  shows "\<exists>row c'. currentRow d' i now = Some row \<and> r_anchor_at row = AccountingAnchorAt current \<and>
    r_config row = Json c' \<and> memberEdit (RevConfig current) members c'"
proof -
  have i: "SchID state = i" using st(1) by (simp add: readAt_def)
  from r c obtain proposed where p: "normalize ((RevConfig current)\<lparr>Members := canonicalMembers members\<rparr>) = Inr proposed"
    by (auto simp: applyMembers_def res_simps)
  have same: "sameMembers (Members proposed) members" by (rule normalize_sameMembers [OF p])
  from p have edit: "memberEdit (RevConfig current) members proposed"
    using same by (auto simp: memberEdit_def normalize_iff)
  obtain cur where cur: "currentRow d i t = Some cur" "readsRow current cur"
    using st(1) c by (auto simp: readAt_def option_rel_Some1)
  have old: "x = cur \<or> r_effective_at x < r_effective_at cur \<or> r_effective_at x = r_effective_at cur \<and> r_id x \<le> r_id cur"
    and past: "r_effective_at x \<le> t"
    if "x \<in> set (allocation_revisions d)" "r_scheme x = i" "r_effective_at x \<le> now" for x
  proof -
    show p: "r_effective_at x \<le> t"
    proof (rule ccontr)
      assume "\<not> r_effective_at x \<le> t"
      then have "nextRow d i t \<noteq> None" using that unfolding nextRow_None by blast
      then obtain nr where nr: "nextRow d i t = Some nr" by blast
      then obtain n where "SchNext state = Some n" "readsRow n nr" using st(1) by (auto simp: readAt_def option_rel_Some2)
      then have "now < r_effective_at nr" using due by (simp add: nextDue_def readsRow_def)
      with nextRow_Some [OF nr] that \<open>\<not> r_effective_at x \<le> t\<close> show False by force
    qed
    then show "x = cur \<or> r_effective_at x < r_effective_at cur \<or> r_effective_at x = r_effective_at cur \<and> r_id x \<le> r_id cur"
      using currentRow_Some [OF cur(1)] that by blast
  qed
  show ?thesis
  proof (cases "sameMembers (Members (RevConfig current)) (Members proposed)")
    case True
    with r c p have "d' = d" by (simp add: applyMembers_def i bindR_eq_Inr)
    moreover have "currentRow d i now = Some cur"
      using inv currentRow_Some [OF cur(1)] st(2) old by (intro currentRow_eq) (auto simp: storeInv_def)
    moreover have "memberEdit (RevConfig current) members (RevConfig current)"
      using True same config_unchanged [of "RevConfig current"] unfolding memberEdit_def sameMembers_def by metis
    ultimately show ?thesis using cur(2) by (auto simp: readsRow_def)
  next
    case False
    with r c p obtain nextConfig d1 n1 d2 where
      d1: "appendRevision d (SchID state) now (AccountingAnchorAt current) proposed = Inr (d1, n1)"
      and d2: "(case (SchNext state, nextConfig) of
             (Some n, Some c) \<Rightarrow> bindR (appendRevision d1 (SchID state) (EffectiveAt n) (AccountingAnchorAt n) c) (\<lambda>(d, _). Inr d)
           | _ \<Rightarrow> Inr d1) = Inr d2"
      and d': "recordSave s now d2 (SchID state) = Inr d'"
      by (auto simp: applyMembers_def res_simps)
    let ?row = "\<lparr>r_id = n1, r_scheme = i, r_effective_at = now, r_anchor_at = AccountingAnchorAt current, r_config = Json proposed\<rparr>"
    have rows1: "set (allocation_revisions d1) = insert ?row (set (allocation_revisions d))" and n1: "n1 = revision_seq d + 1"
      using d1 by (auto simp: append_Inr i)
    have rows2: "x \<in> set (allocation_revisions d1) \<or> now < r_effective_at x" if "x \<in> set (allocation_revisions d2)" for x
      using d2 that due by (auto simp: res_simps append_Inr nextDue_def split: option.splits)
    have sub: "set (allocation_revisions d1) \<subseteq> set (allocation_revisions d2)"
      using d2 by (auto simp: res_simps append_Inr split: option.splits)
    have rows: "allocation_revisions d' = allocation_revisions d2" using recordSave_frame [OF d'] by simp
    have "currentRow d' i now = Some ?row"
    proof (rule currentRow_eq)
      show "distinct (map r_id (allocation_revisions d'))" using inv' by (simp add: storeInv_def)
      show "?row \<in> set (allocation_revisions d')" using rows sub rows1 by auto
      fix x assume x: "x \<in> set (allocation_revisions d')" "r_scheme x = i" "r_effective_at x \<le> now"
      then have "x = ?row \<or> x \<in> set (allocation_revisions d)" using rows2 rows1 rows by fastforce
      moreover have "r_effective_at x \<le> now \<and> r_id x \<le> n1" if "x \<in> set (allocation_revisions d)"
        using storeInv_revision [OF inv that] x n1 by simp
      ultimately show "r_effective_at x < r_effective_at ?row \<or> r_effective_at x = r_effective_at ?row \<and> r_id x \<le> r_id ?row"
        by auto
    qed simp_all
    then show ?thesis using edit by auto
  qed
qed


section \<open>Properties\<close>

text \<open>A price-window rule with one member, on the workspace of the admission examples, without entries.\<close>

definition exampleWindowRule :: Config where
  "exampleWindowRule = \<lparr>Mode = ''windows'', Period = ''durations'', ResetTime = [], ResetDay = 0,
     Members = [\<lparr>UserID = 3, Limit = 0, WindowOverrides = []\<rparr>],
     Rates = [exampleRate], RatioUnit = [], Windows = [\<lparr>W_DurationSeconds = 18000, W_Limit = 10000\<rparr>], Total = 0\<rparr>"

definition exampleVersioned :: store where
  "exampleVersioned = (exampleStore [])\<lparr>allocation_revisions := [\<lparr>r_id = 1, r_scheme = 1, r_effective_at = 1000,
     r_anchor_at = 1000, r_config = Json exampleWindowRule\<rparr>]\<rparr>"

definition exampleService :: Service where
  "exampleService = \<lparr>sv_tenant = 1, sv_pricing = None, sv_location = UTC, sv_actor = None\<rparr>"

definition exampleMembers :: "Share list" where
  "exampleMembers = [\<lparr>UserID = 7, Limit = 0, WindowOverrides = []\<rparr>]"

definition exampleConditions :: Conditions where
  "exampleConditions = \<lparr>ExpectedCurrentRevisionID = Number 1, ExpectedNextRevisionID = Null, ExpectedEffectiveAt = Absent\<rparr>"

lemma exampleVersioned_inv: "storeInv exampleVersioned"
proof -
  have "wfConfig exampleWindowRule" by (rule normalize_wf [of exampleWindowRule]) code_simp
  then show ?thesis
    by (simp add: storeInv_def ledgerOK_def exampleVersioned_def exampleStore_def revisionOK_def)
qed

lemma exampleUpdate:
  obtains d' out rv' where "UpdateMembers exampleService exampleVersioned 1 exampleConditions exampleMembers (\<lambda>k. 19001) = Inr (d', out)"
    "map r_id (allocation_revisions d') = [1, 2]" "Current d' 1 19001 = Inr rv'" "Members (RevConfig rv') = exampleMembers"
proof -
  have "case UpdateMembers exampleService exampleVersioned 1 exampleConditions exampleMembers (\<lambda>k. 19001) of
      Inl e \<Rightarrow> False
    | Inr x \<Rightarrow> map r_id (allocation_revisions (fst x)) = [1, 2] \<and>
        (case Current (fst x) 1 19001 of Inl e \<Rightarrow> False | Inr rv \<Rightarrow> Members (RevConfig rv) = exampleMembers)"
    by code_simp
  then show thesis using that by (auto split: sum.splits)
qed

text \<open>A workspace whose pool has no scheme yet, and the first rule saved for it.\<close>

definition exampleFresh :: store where
  "exampleFresh = (exampleStore [])\<lparr>allocation_schemes := [], allocation_revisions := [], scheme_seq := 0, revision_seq := 0\<rparr>"

definition exampleSave :: SchemeInput where
  "exampleSave = \<lparr>InConditions = exampleConditions, ConfirmReplacement = False, enabledProvided = True, InName = ''team'',
     InGroupID = 1, InEnabled = True, StartNext = False, ApplyNow = False, InConfig = exampleWindowRule\<rparr>"

lemma exampleCreate:
  obtains d' out where "SaveScheme exampleService exampleFresh 0 exampleSave (\<lambda>k. 1000) = Inr (d', out)"
    "map r_id (allocation_revisions d') = [1]"
proof -
  have "case SaveScheme exampleService exampleFresh 0 exampleSave (\<lambda>k. 1000) of
      Inl e \<Rightarrow> False | Inr x \<Rightarrow> map r_id (allocation_revisions (fst x)) = [1]"
    by code_simp
  then show thesis using that by (auto split: sum.splits)
qed


text \<open>
  C3: Whatever operations run, in any order and by any workspace - saving, switching, editing and
  rescheduling schemes, admitting, finishing, correcting, recovering and pruning entries - the
  allocation tables stay consistent: every revision is a normal-form rule whose accounting anchor
  is not after its start, revision keys are unique and never above the counter, request keys are
  unique, every entry is well formed and refers to a revision of its own scheme.
\<close>

theorem alloc_invariant:
  assumes "reach emptyStore alloc_step d"
  shows "list_all revisionOK (allocation_revisions d) \<and> distinct (map r_id (allocation_revisions d)) \<and>
    list_all (\<lambda>r. r_id r \<le> revision_seq d) (allocation_revisions d) \<and>
    distinct (map e_request (allocation_entries d)) \<and>
    list_all (\<lambda>e. entryOK e \<and> hasRevision d e) (allocation_entries d) \<and> storeOK d scheme"
  using alloc.reach_inv [OF assms] storeInv_storeOK [of d scheme] by (simp add: storeInv_def ledgerOK_def list_all_iff)

theorem alloc_invariant_witness:
  "\<exists>d::store. map r_id (allocation_revisions d) = [1] \<and> list_all revisionOK (allocation_revisions d)"
proof (rule exampleCreate)
  fix d' out
  assume c: "SaveScheme exampleService exampleFresh 0 exampleSave (\<lambda>k. 1000) = Inr (d', out)"
    "map r_id (allocation_revisions d') = [1]"
  have "emptyStore exampleFresh" by (simp add: emptyStore_def exampleFresh_def exampleStore_def)
  then have "reach emptyStore alloc_step exampleFresh" by (rule reach_init)
  moreover have "alloc_step exampleFresh d'" by (rule save_step [OF c(1)]) (simp add: forward_def)
  ultimately have "reach emptyStore alloc_step d'" by (rule reach_step)
  note i = alloc_invariant [OF this, of 1, THEN conjunct1]
  show ?thesis using c(2) i by (intro exI [of _ d'] conjI)
qed



text \<open>
  C5: A change of members takes effect at once and never restarts an accounting period: the rule in
  force after it has the requested members, the accounting anchor of the rule before, and the same
  usage windows at every instant and in every time zone.
\<close>

theorem UpdateMembers_keeps_windows:
  assumes "storeInv d" and "mono clk" and "UpdateMembers s d i conditions members clk = Inr (d', out)"
    and "Current d i (clk 0) = Inr rv" and "Current d' i (clk 1) = Inr rv'"
  shows "sameMembers (Members (RevConfig rv')) members \<and> AccountingAnchorAt rv' = AccountingAnchorAt rv \<and>
    effectiveWindows rv' t loc = effectiveWindows rv t loc"
proof -
  have f: "forward clk" using assms(2) by (simp add: forward_def mono_def)
  from assms(3) obtain state d1 where r: "readSchemeCore s d i (clk 0) = Inr state"
      "applyMembers s d state members (clk 1) = Inr d1" "finishChange s d1 state conditions [] (after 2 clk) = Inr (d', out)"
    unfolding UpdateMembers_def bindR_eq_Inr by blast
  note st = readSchemeCore_ok [OF r(1) assms(1)]
  have d1: "d' = d1" by (rule finishChange_store [OF r(3)])
  have "\<not> nextDue state (clk 2)" using r(3) by (simp add: finishChange_def guardR_eq_Inr after_def)
  then have due: "\<not> nextDue state (clk 1)"
    using assms(2) monoD [OF assms(2), of 1 2] by (auto simp: nextDue_def split: option.splits)
  from r(2) obtain current where c: "activeRevision state = Some current"
    by (auto simp: applyMembers_def split: option.splits)
  obtain row c' where row: "currentRow d' i (clk 1) = Some row" "r_anchor_at row = AccountingAnchorAt current"
    "r_config row = Json c'" "memberEdit (RevConfig current) members c'"
    using applyMembers_current [OF assms(1) UpdateMembers_inv [OF assms(1) f assms(3)] st forwardD [OF f] due _ c] r(2) d1 by metis
  have "RevConfig current = RevConfig rv \<and> AccountingAnchorAt current = AccountingAnchorAt rv"
    using assms(4) st c by (auto simp: Current_Inr storedRevision_Inr readAt_def readsRow_def option_rel_Some1)
  moreover have "RevConfig rv' = c' \<and> AccountingAnchorAt rv' = r_anchor_at row"
    using assms(5) row by (auto simp: Current_Inr storedRevision_Inr)
  ultimately show ?thesis using row effectiveWindows_members by (auto simp: memberEdit_def)
qed

theorem UpdateMembers_keeps_windows_witness:
  "\<exists>d' rv rv'. Current exampleVersioned 1 19001 = Inr rv \<and> Current d' 1 19001 = Inr rv' \<and>
    Members (RevConfig rv') = exampleMembers \<and> effectiveWindows rv' 40000 newYork = effectiveWindows rv 40000 newYork"
proof (rule exampleUpdate)
  fix d' out rv'
  assume u: "UpdateMembers exampleService exampleVersioned 1 exampleConditions exampleMembers (\<lambda>k. 19001) = Inr (d', out)"
    "Current d' 1 19001 = Inr rv'" "Members (RevConfig rv') = exampleMembers"
  obtain rv where rv: "Current exampleVersioned 1 19001 = Inr rv"
  proof -
    have "case Current exampleVersioned 1 19001 of Inl e \<Rightarrow> False | Inr rv \<Rightarrow> True" by code_simp
    then show thesis using that by (auto split: sum.splits)
  qed
  have "mono (\<lambda>k::nat. 19001 :: int)" by (simp add: mono_def)
  from UpdateMembers_keeps_windows [OF exampleVersioned_inv this u(1) rv u(2)] u rv show ?thesis by blast
qed

end
