(* ===== verification/Gateway_Store.thy ===== *)
theory Gateway_Store
  imports Alloc_Store
begin

text \<open>
  The queries of the gateway on accounts, members, cooldowns, conversation bindings and usage
  snapshots (\<open>internal/storage/db\<close>: \<open>gateway\<close>, \<open>limits\<close>, \<open>runtime\<close>, \<open>model_runtime\<close>, \<open>usage\<close>,
  \<open>catalog\<close>, \<open>accounts\<close>, \<open>keys\<close>), one definition per statement.
\<close>

section \<open>Accounts\<close>

definition GetAccount :: "store \<Rightarrow> string \<Rightarrow> int \<Rightarrow> account_row result" where
  "GetAccount d i tenant = queryRow d ''GetAccount''
     (first_of (\<lambda>a. a_id a = i \<and> a_tenant a = tenant) (accounts d))"

definition GetAccountCatalog :: "store \<Rightarrow> string \<Rightarrow> (snapshot \<times> int) result" where
  "GetAccountCatalog d i = queryRow d ''GetAccountCatalog''
     (map_option (\<lambda>a. (a_models_snapshot a, a_models_revision a)) (first_of (\<lambda>a. a_id a = i) (accounts d)))"

definition ListGroupAccounts :: "store \<Rightarrow> int \<Rightarrow> string list result" where
  "ListGroupAccounts d grp = query d ''ListGroupAccounts'' (sort (map snd (filter (\<lambda>ga. fst ga = grp) (group_accounts d))))"

definition ListResourceGroups :: "store \<Rightarrow> string \<Rightarrow> int \<Rightarrow> int list result" where
  "ListResourceGroups d account tenant = query d ''ListResourceGroups''
     (map fst (filter (\<lambda>ga. snd ga = account \<and> list_ex (\<lambda>g. g_id g = fst ga \<and> g_tenant g = tenant) (account_groups d))
        (group_accounts d)))"

text \<open>The check constraint of the column is \<open>BETWEEN 1 AND 1000\<close>. The second component counts the rows.\<close>

definition SetAccountConcurrency :: "store \<Rightarrow> string \<Rightarrow> int \<Rightarrow> int \<Rightarrow> (store \<times> int) result" where
  "SetAccountConcurrency d i tenant lim =
     (let hit = (\<lambda>a. a_id a = i \<and> a_tenant a = tenant) in
      exec d ''SetAccountConcurrency'' (list_ex hit (accounts d) \<longrightarrow> 1 \<le> lim \<and> lim \<le> 1000)
        (d\<lparr>accounts := map (\<lambda>a. if hit a then a\<lparr>a_max_concurrency := lim\<rparr> else a) (accounts d)\<rparr>,
         int (length (filter hit (accounts d)))))"

section \<open>Usage snapshots\<close>

definition usageOf :: "store \<Rightarrow> account_row \<Rightarrow> usage_row option" where
  "usageOf d a = first_of (\<lambda>u. us_account u = a_id a \<and> us_revision u = a_models_revision a + a_usage_revision a) (account_usage d)"

text \<open>The left join leaves the snapshot and its time null when there is no current row.\<close>

type_synonym usage_blob = "(int \<times> Usage json) option"

definition GetAccountUsage :: "store \<Rightarrow> string \<Rightarrow> (usage_blob \<times> int option \<times> int) result" where
  "GetAccountUsage d i = queryRow d ''GetAccountUsage''
     (map_option (\<lambda>a. (map_option us_snapshot (usageOf d a), map_option us_updated_at (usageOf d a),
        a_models_revision a + a_usage_revision a)) (first_of (\<lambda>a. a_id a = i) (accounts d)))"

text \<open>The identifier, provider, snapshot, its time and the revision of every account of a workspace.\<close>

definition ListWorkspaceUsage :: "store \<Rightarrow> int \<Rightarrow> (string \<times> string \<times> usage_blob \<times> int option \<times> int) list result" where
  "ListWorkspaceUsage d tenant = query d ''ListWorkspaceUsage''
     (map (\<lambda>a. (a_id a, a_provider a, map_option us_snapshot (usageOf d a), map_option us_updated_at (usageOf d a),
        a_models_revision a + a_usage_revision a)) (filter (\<lambda>a. a_tenant a = tenant) (accounts d)))"

record routing_row =
  rr_id :: string
  rr_provider :: string
  rr_enabled :: bool
  rr_status :: string
  rr_models_snapshot :: snapshot
  rr_models_revision :: int
  rr_usage_snapshot :: usage_blob
  rr_usage_updated_at :: "int option"

text \<open>\<open>ORDER BY a.created_at DESC,a.id DESC\<close>\<close>

definition ListRoutingAccounts :: "store \<Rightarrow> int \<Rightarrow> int \<Rightarrow> routing_row list result" where
  "ListRoutingAccounts d tenant grp = query d ''ListRoutingAccounts''
     (map (\<lambda>a. \<lparr>rr_id = a_id a, rr_provider = a_provider a, rr_enabled = a_enabled a, rr_status = a_status a,
             rr_models_snapshot = a_models_snapshot a, rr_models_revision = a_models_revision a,
             rr_usage_snapshot = map_option us_snapshot (usageOf d a),
             rr_usage_updated_at = map_option us_updated_at (usageOf d a)\<rparr>)
        (rev (sort_key a_created_at (sort_key a_id (filter (\<lambda>a. a_tenant a = tenant) (poolAccounts d grp))))))"

section \<open>Members\<close>

text \<open>The columns of the join the callers read: is the user enabled, requests per minute, concurrency.\<close>

definition GetMemberLimits :: "store \<Rightarrow> int \<Rightarrow> int \<Rightarrow> (bool \<times> int \<times> int) result" where
  "GetMemberLimits d tenant user = queryRow d ''GetMemberLimits''
     (case first_of (\<lambda>m. m_tenant m = tenant \<and> m_user m = user \<and> m_enabled m \<and>
             list_ex (\<lambda>t. t_id t = tenant \<and> t_status t = ''active'') (tenants d)) (memberships d) of
        None \<Rightarrow> None
      | Some m \<Rightarrow> map_option (\<lambda>u. (u_enabled u, m_requests_per_minute m, m_max_concurrency m))
          (first_of (\<lambda>u. u_id u = user) (users d)))"

definition SetMemberLimits :: "store \<Rightarrow> int \<Rightarrow> int \<Rightarrow> int \<Rightarrow> int \<Rightarrow> (store \<times> int) result" where
  "SetMemberLimits d tenant user rpm concurrency =
     (let hit = (\<lambda>m. m_tenant m = tenant \<and> m_user m = user \<and> m_removed_at m = None) in
      exec d ''SetMemberLimits''
        (list_ex hit (memberships d) \<longrightarrow> 0 \<le> rpm \<and> rpm \<le> 6000 \<and> 0 \<le> concurrency \<and> concurrency \<le> 1000)
        (d\<lparr>memberships := map (\<lambda>m. if hit m then m\<lparr>m_requests_per_minute := rpm, m_max_concurrency := concurrency\<rparr> else m)
             (memberships d)\<rparr>,
         int (length (filter hit (memberships d)))))"

definition rateKey :: "int \<Rightarrow> int \<Rightarrow> rate_row \<Rightarrow> bool" where
  "rateKey tenant user r \<longleftrightarrow> mr_tenant r = tenant \<and> mr_user r = user"

definition GetMemberWindow :: "store \<Rightarrow> int \<Rightarrow> int \<Rightarrow> (int \<times> int) result" where
  "GetMemberWindow d tenant user = queryRow d ''GetMemberWindow''
     (map_option (\<lambda>r. (mr_window_start r, mr_requests r)) (first_of (rateKey tenant user) (member_rate d)))"

text \<open>
  An upsert: one row per member, counting the requests of one window. A window that is full keeps
  its row and reports no row written. \<open>requests\<close> is checked to be at most 6000 and the membership
  must exist.
\<close>

definition TakeMemberRate :: "store \<Rightarrow> int \<Rightarrow> int \<Rightarrow> int \<Rightarrow> int \<Rightarrow> (store \<times> int) result" where
  "TakeMemberRate d tenant user windowStart rateLimit =
     (let row = first_of (rateKey tenant user) (member_rate d);
          full = (case row of None \<Rightarrow> False | Some r \<Rightarrow> mr_window_start r = windowStart \<and> mr_requests r \<ge> rateLimit);
          requests = (case row of None \<Rightarrow> 1 | Some r \<Rightarrow> if mr_window_start r = windowStart then mr_requests r + 1 else 1);
          new = \<lparr>mr_tenant = tenant, mr_user = user, mr_window_start = windowStart, mr_requests = requests\<rparr>
      in if full then exec d ''TakeMemberRate'' True (d, 0)
         else exec d ''TakeMemberRate''
           (requests \<le> 6000 \<and> list_ex (\<lambda>m. m_tenant m = tenant \<and> m_user m = user) (memberships d))
           (d\<lparr>member_rate := (case row of None \<Rightarrow> member_rate d @ [new]
               | Some _ \<Rightarrow> map (\<lambda>r. if rateKey tenant user r then new else r) (member_rate d))\<rparr>, 1))"

text \<open>The columns of a key that admission rechecks: its pool, whether it is enabled, revocation and expiry.\<close>

definition GetKey :: "store \<Rightarrow> int \<Rightarrow> int \<Rightarrow> int \<Rightarrow> key_row result" where
  "GetKey d i user tenant = queryRow d ''GetKey''
     (first_of (\<lambda>k. k_id k = i \<and> k_user k = user \<and> list_ex (\<lambda>u. u_id u = user) (users d) \<and>
        list_ex (\<lambda>g. g_id g = k_group k \<and> g_tenant g = tenant) (account_groups d)) (api_keys d))"

section \<open>Account cooldowns\<close>

definition runtimeOf :: "store \<Rightarrow> string \<Rightarrow> runtime_row option" where
  "runtimeOf d i = first_of (\<lambda>r. ar_account r = i) (account_runtime d)"

definition runtimeRevision :: "store \<Rightarrow> string \<Rightarrow> int" where
  "runtimeRevision d i = (case runtimeOf d i of None \<Rightarrow> 0 | Some r \<Rightarrow> ar_revision r)"

record account_runtime_row =
  lr_ID :: string
  lr_Provider :: string
  lr_MaxConcurrency :: int
  lr_CooldownUntil :: int
  lr_Reason :: string
  lr_Failures :: int
  lr_LastFailureAt :: int
  lr_Revision :: int
  lr_Lifecycle :: int
  lr_UsageRevision :: int
  lr_LimitedModels :: int

definition ListAccountRuntime :: "store \<Rightarrow> int \<Rightarrow> account_runtime_row list result" where
  "ListAccountRuntime d tenant = query d ''ListAccountRuntime''
     (map (\<lambda>a. let r = runtimeOf d (a_id a) in
        \<lparr>lr_ID = a_id a, lr_Provider = a_provider a, lr_MaxConcurrency = a_max_concurrency a,
         lr_CooldownUntil = (case r of None \<Rightarrow> 0 | Some x \<Rightarrow> ar_cooldown_until x),
         lr_Reason = (case r of None \<Rightarrow> [] | Some x \<Rightarrow> ar_reason x),
         lr_Failures = (case r of None \<Rightarrow> 0 | Some x \<Rightarrow> ar_failures x),
         lr_LastFailureAt = (case r of None \<Rightarrow> 0 | Some x \<Rightarrow> ar_last_failure_at x),
         lr_Revision = runtimeRevision d (a_id a), lr_Lifecycle = a_models_revision a,
         lr_UsageRevision = a_models_revision a + a_usage_revision a,
         lr_LimitedModels = int (length (filter (\<lambda>m. mo_account m = a_id a \<and> mo_lifecycle m = a_models_revision a \<and>
            mo_runtime_revision m = runtimeRevision d (a_id a) \<and> mo_cooldown_until m > 0) (account_model_runtime d)))\<rparr>)
        (filter (\<lambda>a. a_tenant a = tenant) (accounts d)))"

definition upsert :: "('a \<Rightarrow> bool) \<Rightarrow> 'a \<Rightarrow> 'a list \<Rightarrow> 'a list" where
  "upsert key new rows = (if list_ex key rows then map (\<lambda>r. if key r then new else r) rows else rows @ [new])"

definition SaveAccountRuntime :: "store \<Rightarrow> int \<Rightarrow> runtime_row \<Rightarrow> store result" where
  "SaveAccountRuntime d tenant row = exec d ''SaveAccountRuntime'' True
     (if list_ex (\<lambda>a. a_id a = ar_account row \<and> a_tenant a = tenant) (accounts d)
      then d\<lparr>account_runtime := upsert (\<lambda>r. ar_account r = ar_account row) row (account_runtime d)\<rparr> else d)"

section \<open>Model cooldowns\<close>

definition modelKeyed :: "string \<Rightarrow> string \<Rightarrow> model_row \<Rightarrow> bool" where
  "modelKeyed account model m \<longleftrightarrow> mo_account m = account \<and> mo_model m = model"

definition GetAccountModelRuntime :: "store \<Rightarrow> string \<Rightarrow> int \<Rightarrow> string \<Rightarrow> model_row result" where
  "GetAccountModelRuntime d i tenant model = queryRow d ''GetAccountModelRuntime''
     (case first_of (\<lambda>a. a_id a = i \<and> a_tenant a = tenant) (accounts d) of None \<Rightarrow> None
      | Some a \<Rightarrow> Some (case first_of (\<lambda>m. modelKeyed i model m \<and> mo_lifecycle m = a_models_revision a \<and>
                mo_runtime_revision m = runtimeRevision d i) (account_model_runtime d) of
          Some m \<Rightarrow> m
        | None \<Rightarrow> \<lparr>mo_account = i, mo_model = model, mo_cooldown_until = 0, mo_failures = 0,
            mo_lifecycle = a_models_revision a, mo_runtime_revision = runtimeRevision d i, mo_version = 0,
            mo_reason = [], mo_last_failure_at = 0, mo_failure_window_at = 0\<rparr>))"

text \<open>
  The insert selects from \<open>accounts\<close>; without a row of that lifecycle and revision it writes and
  returns nothing, which \<open>QueryRow\<close> reports as \<open>sql.ErrNoRows\<close>. The result is the new version.
\<close>

definition SaveAccountModelRuntime :: "store \<Rightarrow> int \<Rightarrow> model_row \<Rightarrow> (store \<times> int) result" where
  "SaveAccountModelRuntime d tenant row =
     (if fails d ''SaveAccountModelRuntime'' then Inl StoreError
      else if \<not> list_ex (\<lambda>a. a_id a = mo_account row \<and> a_tenant a = tenant \<and> a_models_revision a = mo_lifecycle row \<and>
             runtimeRevision d (a_id a) = mo_runtime_revision row) (accounts d) then Inl NoRows
      else if length (mo_model row) < 1 \<or> length (mo_model row) > 128 \<or> mo_failures row < 1 \<or> mo_failures row > 16
      then Inl StoreError
      else (let key = modelKeyed (mo_account row) (mo_model row);
                version = (case first_of key (account_model_runtime d) of None \<Rightarrow> 1 | Some m \<Rightarrow> mo_version m + 1)
            in Inr (d\<lparr>account_model_runtime := upsert key (row\<lparr>mo_version := version\<rparr>) (account_model_runtime d)\<rparr>, version)))"

definition currentModelRow :: "store \<Rightarrow> int \<Rightarrow> model_row \<Rightarrow> bool" where
  "currentModelRow d tenant m \<longleftrightarrow> list_ex (\<lambda>a. a_id a = mo_account m \<and> a_tenant a = tenant \<and>
     a_models_revision a = mo_lifecycle m \<and> runtimeRevision d (a_id a) = mo_runtime_revision m) (accounts d)"

definition DeleteAccountModelLimit ::
    "store \<Rightarrow> int \<Rightarrow> string \<Rightarrow> string \<Rightarrow> int \<Rightarrow> int \<Rightarrow> int \<Rightarrow> store result" where
  "DeleteAccountModelLimit d tenant account model version lifecycle revision = exec d ''DeleteAccountModelLimit'' True
     (d\<lparr>account_model_runtime := filter (\<lambda>m. \<not> (modelKeyed account model m \<and> mo_version m = version \<and>
          mo_lifecycle m = lifecycle \<and> mo_runtime_revision m = revision \<and> currentModelRow d tenant m))
        (account_model_runtime d)\<rparr>)"

definition DeleteAccountModelRuntime :: "store \<Rightarrow> string \<Rightarrow> int \<Rightarrow> store result" where
  "DeleteAccountModelRuntime d account tenant = exec d ''DeleteAccountModelRuntime'' True
     (d\<lparr>account_model_runtime := filter (\<lambda>m. \<not> (mo_account m = account \<and>
          list_ex (\<lambda>a. a_id a = account \<and> a_tenant a = tenant) (accounts d))) (account_model_runtime d)\<rparr>)"

text \<open>\<open>json_each\<close> over the models of the snapshot, none when it is null or not JSON.\<close>

definition snapshotModels :: "snapshot \<Rightarrow> string list" where
  "snapshotModels s = (case s of Some (n, Json c) \<Rightarrow> C_Models c | _ \<Rightarrow> [])"

definition DeleteObsoleteModelRuntime :: "store \<Rightarrow> int \<Rightarrow> int \<Rightarrow> store result" where
  "DeleteObsoleteModelRuntime d tenant now = exec d ''DeleteObsoleteModelRuntime'' True
     (d\<lparr>account_model_runtime := filter (\<lambda>m. \<not> list_ex (\<lambda>a. a_id a = mo_account m \<and> a_tenant a = tenant \<and>
          (a_models_revision a \<noteq> mo_lifecycle m \<or> runtimeRevision d (a_id a) \<noteq> mo_runtime_revision m \<or>
           mo_cooldown_until m \<le> now \<and> mo_model m \<notin> set (snapshotModels (a_models_snapshot a)))) (accounts d))
        (account_model_runtime d)\<rparr>)"

section \<open>Conversation bindings\<close>

definition affinityKey :: "int \<Rightarrow> int \<Rightarrow> string \<Rightarrow> affinity_row \<Rightarrow> bool" where
  "affinityKey user grp hash r \<longleftrightarrow> af_user r = user \<and> af_group r = grp \<and> af_hash r = hash"

definition ListSessionAffinities :: "store \<Rightarrow> int \<Rightarrow> int \<Rightarrow> string \<Rightarrow> int \<Rightarrow> affinity_row list result" where
  "ListSessionAffinities d user grp hash now = query d ''ListSessionAffinities''
     (sort_key af_provider (filter (\<lambda>r. affinityKey user grp hash r \<and> af_expires_at r > now) (account_affinity d)))"

definition PruneAccountAffinity :: "store \<Rightarrow> int \<Rightarrow> store result" where
  "PruneAccountAffinity d now = exec d ''PruneAccountAffinity'' True
     (d\<lparr>account_affinity := filter (\<lambda>r. \<not> af_expires_at r \<le> now) (account_affinity d)\<rparr>)"

definition CountAccountAffinity :: "store \<Rightarrow> int result" where
  "CountAccountAffinity d = query d ''CountAccountAffinity'' (int (length (account_affinity d)))"

definition CreateAccountAffinity :: "store \<Rightarrow> affinity_row \<Rightarrow> store result" where
  "CreateAccountAffinity d row = exec d ''CreateAccountAffinity''
     (length (af_hash row) = 32 \<and> length (af_model row) \<le> 128 \<and>
      \<not> list_ex (\<lambda>r. affinityKey (af_user row) (af_group row) (af_hash row) r \<and> af_provider r = af_provider row) (account_affinity d))
     (d\<lparr>account_affinity := account_affinity d @ [row]\<rparr>)"

definition ReplaceAccountAffinity ::
    "store \<Rightarrow> int \<Rightarrow> int \<Rightarrow> string \<Rightarrow> string \<Rightarrow> string \<Rightarrow> string \<Rightarrow> int \<Rightarrow> store result" where
  "ReplaceAccountAffinity d user grp hash provider account model expires = exec d ''ReplaceAccountAffinity'' (length model \<le> 128)
     (d\<lparr>account_affinity := map (\<lambda>r. if affinityKey user grp hash r \<and> af_provider r = provider
          then r\<lparr>af_account := account, af_model := model, af_expires_at := expires,
                 af_rebound := (af_rebound r \<or> af_account r \<noteq> account)\<rparr> else r) (account_affinity d)\<rparr>)"

definition TouchAccountAffinity ::
    "store \<Rightarrow> int \<Rightarrow> int \<Rightarrow> string \<Rightarrow> string \<Rightarrow> string \<Rightarrow> int \<Rightarrow> int \<Rightarrow> store result" where
  "TouchAccountAffinity d user grp hash provider model expires threshold = exec d ''TouchAccountAffinity'' (length model \<le> 128)
     (d\<lparr>account_affinity := map (\<lambda>r. if affinityKey user grp hash r \<and> af_provider r = provider \<and>
            (af_expires_at r < threshold \<or> af_model r \<noteq> model)
          then r\<lparr>af_expires_at := expires, af_model := model\<rparr> else r) (account_affinity d)\<rparr>)"

definition RequestRecorded :: "store \<Rightarrow> string \<Rightarrow> bool result" where
  "RequestRecorded d i = query d ''RequestRecorded'' (list_ex (\<lambda>r. q_id r = i) (request_records d))"

end
