(* ===== verification/Gateway_Quota.thy ===== *)
theory Gateway_Quota
  imports Gateway_Store
begin

text \<open>
  What a stored usage snapshot says about routing to an account (\<open>internal/gateway/quota.go\<close> and
  \<open>snapshotState\<close> of \<open>internal/gateway/usage.go\<close>). Time is in nanoseconds; \<open>Unix\<close> and \<open>UnixMilli\<close>
  read it in seconds and milliseconds.
\<close>

definition Unix :: "int \<Rightarrow> int" where
  "Unix t = t div 1000000000"

definition UnixMilli :: "int \<Rightarrow> int" where
  "UnixMilli t = t div 1000000"

section \<open>Freshness\<close>

definition usageTTL :: int where
  "usageTTL = 120"

text \<open>A snapshot expires after its time to live or at the first reset of a window inside it.\<close>

definition expiresAt :: "Usage \<Rightarrow> int" where
  "expiresAt value = foldl (\<lambda>expires window. case ResetAt window of
       None \<Rightarrow> expires
     | Some reset \<Rightarrow> if reset > us_UpdatedAt value \<and> reset < expires then reset else expires)
     (wrap64 (us_UpdatedAt value + usageTTL)) (concat (map ul_Windows (case us_Limits value of None \<Rightarrow> [] | Some ls \<Rightarrow> ls)))"

text \<open>\<open>snapshotState\<close> of an entry without a refresh error or a running refresh: expiry and staleness.\<close>

definition snapshotState :: "Usage \<Rightarrow> int \<Rightarrow> int \<times> bool" where
  "snapshotState value now =
     (expiresAt value, Unix now \<ge> expiresAt value \<or> Unix now < us_UpdatedAt value)"

section \<open>Decisions\<close>

datatype quotaState = QUnknown | QUnsupported | QStale | QAvailable | QExhausted

record quotaDecision =
  q_State :: quotaState
  RetryAt :: int
  Weight :: int

definition unknownQuota :: quotaDecision where
  "unknownQuota = \<lparr>q_State = QUnknown, RetryAt = 0, Weight = 0\<rparr>"

text \<open>
  The window loop of one limit: an expired reset makes the whole snapshot stale, a used percentage
  makes the limit known and may exhaust it. \<open>None\<close> is the early return.
\<close>

fun scanWindows :: "int \<Rightarrow> bool \<Rightarrow> bool \<Rightarrow> UsageWindow list \<Rightarrow> (bool \<times> bool) option" where
  "scanWindows now blocked known [] = Some (blocked, known)"
| "scanWindows now blocked known (w # ws) =
     (if (case ResetAt w of None \<Rightarrow> False | Some t \<Rightarrow> t \<le> Unix now) then None
      else case UsedPercent w of
        None \<Rightarrow> scanWindows now blocked known ws
      | Some p \<Rightarrow> scanWindows now (blocked \<or> fle (ffrom 100) p) True ws)"

text \<open>The smallest remaining percentage of the windows, nothing when one of them is not measured.\<close>

fun remaining :: "float64 \<Rightarrow> UsageWindow list \<Rightarrow> float64" where
  "remaining r [] = r"
| "remaining r (w # ws) = (case UsedPercent w of
     None \<Rightarrow> ffrom 0
   | Some p \<Rightarrow> if \<not> fle (ffrom 0) p \<or> fle (ffrom 100) p then ffrom 0 else remaining (fmin r (fsub100 p)) ws)"

definition isBlocked :: "UsageLimit \<Rightarrow> bool" where
  "isBlocked l \<longleftrightarrow> ul_Allowed l = Some False \<or> ul_LimitReached l = Some True"

definition isKnown :: "UsageLimit \<Rightarrow> bool" where
  "isKnown l \<longleftrightarrow> ul_Allowed l = Some True \<or> ul_LimitReached l = Some False"

text \<open>The limit loop; only unnamed limits count.\<close>

fun scanLimits :: "int \<Rightarrow> int \<Rightarrow> quotaDecision \<Rightarrow> int \<Rightarrow> UsageLimit list \<Rightarrow> quotaDecision" where
  "scanLimits now expires result n [] = (if n \<noteq> 1 then result\<lparr>Weight := 0\<rparr> else result)"
| "scanLimits now expires result n (l # ls) =
     (if ul_Name l \<noteq> [] then scanLimits now expires result n ls
      else case scanWindows now (isBlocked l) (isKnown l) (ul_Windows l) of
        None \<Rightarrow> \<lparr>q_State = QStale, RetryAt = 0, Weight = 0\<rparr>
      | Some (blocked, known) \<Rightarrow>
          if blocked then \<lparr>q_State = QExhausted, RetryAt = expires, Weight = 0\<rparr>
          else if \<not> known then scanLimits now expires result (n + 1) ls
          else scanLimits now expires
            (result\<lparr>q_State := QAvailable,
               Weight := if ul_Windows l \<noteq> [] then fceil (remaining (ffrom 100) (ul_Windows l)) else Weight result\<rparr>)
            (n + 1) ls)"

definition quotaStatus :: "Usage \<Rightarrow> int \<Rightarrow> quotaDecision" where
  "quotaStatus value now =
     (if us_UpdatedAt value \<le> 0 then unknownQuota
      else if snd (snapshotState value now) then unknownQuota\<lparr>q_State := QStale\<rparr>
      else scanLimits now (fst (snapshotState value now)) unknownQuota 0
        (case us_Limits value of None \<Rightarrow> [] | Some ls \<Rightarrow> ls))"

definition decodeUsage :: "usage_blob \<Rightarrow> int option \<Rightarrow> Usage option" where
  "decodeUsage raw updatedAt = (case updatedAt of None \<Rightarrow> None
   | Some t \<Rightarrow> (case raw of
       Some (len, Json value) \<Rightarrow>
         if len > 262144 \<or> us_Limits value = None \<or> us_UpdatedAt value \<noteq> t \<or> us_UpdatedAt value \<le> 0
         then None else Some value
     | _ \<Rightarrow> None))"

definition quotaRoutingSupported :: "string \<Rightarrow> bool" where
  "quotaRoutingSupported provider \<longleftrightarrow> provider = ''codex'' \<or> provider = ''claude'' \<or> provider = ''antigravity''"

text \<open>Antigravity reports one limit per model, of which the requested model's is the account's.\<close>

definition quotaForModel :: "Usage \<Rightarrow> string \<Rightarrow> string \<Rightarrow> Usage" where
  "quotaForModel value provider model =
     (if provider \<noteq> ''antigravity'' then value
      else let i = CatalogModelID model in
        case first_of (\<lambda>l. i \<noteq> [] \<and> ul_Name l = i) (case us_Limits value of None \<Rightarrow> [] | Some ls \<Rightarrow> ls) of
          Some l \<Rightarrow> value\<lparr>us_Limits := Some [l\<lparr>ul_Name := []\<rparr>]\<rparr>
        | None \<Rightarrow> value\<lparr>us_Limits := None\<rparr>)"

definition snapshotQuota :: "string \<Rightarrow> string \<Rightarrow> usage_blob \<Rightarrow> int option \<Rightarrow> int \<Rightarrow> quotaDecision" where
  "snapshotQuota provider model raw updatedAt now =
     (if \<not> quotaRoutingSupported provider then unknownQuota\<lparr>q_State := QUnsupported\<rparr>
      else case decodeUsage raw updatedAt of
        Some value \<Rightarrow> quotaStatus (quotaForModel value provider model) now
      | None \<Rightarrow> unknownQuota)"

definition admitQuota :: "quotaDecision \<Rightarrow> int \<Rightarrow> unit result" where
  "admitQuota decision now =
     (if q_State decision = QExhausted then Inl (Gateway (QuotaError (max 1 (wrap64 (RetryAt decision - Unix now)))))
      else Inr ())"

definition accountQuota :: "store \<Rightarrow> string \<Rightarrow> string \<Rightarrow> string \<Rightarrow> int \<Rightarrow> quotaDecision result" where
  "accountQuota d i provider model now =
     (if \<not> quotaRoutingSupported provider then Inr (unknownQuota\<lparr>q_State := QUnsupported\<rparr>)
      else case GetAccountUsage d i of
        Inl e \<Rightarrow> if errorsIs e NoRows then Inr unknownQuota else Inl e
      | Inr (snapshot, updatedAt, revision) \<Rightarrow> Inr (snapshotQuota provider model snapshot updatedAt now))"

definition quotaAdmission :: "store \<Rightarrow> string \<Rightarrow> string \<Rightarrow> string \<Rightarrow> int \<Rightarrow> unit result" where
  "quotaAdmission d i provider model now =
     bindR (accountQuota d i provider model now) (\<lambda>decision. admitQuota decision now)"

section \<open>Lemmas\<close>

definition percent :: "float64 \<Rightarrow> bool" where
  "percent x \<longleftrightarrow> fle (ffrom 0) x \<and> fle x (ffrom 100)"

lemma percent_Float: "percent (Float m s) \<longleftrightarrow> 0 \<le> m \<and> m \<le> 100 * 2 ^ s"
  by (simp add: percent_def ffrom_def)

lemma nearest_le:
  assumes "0 < d" "0 \<le> n" "n \<le> b * d"
  shows "0 \<le> nearest n d" "nearest n d \<le> b"
proof -
  have "0 \<le> n div d" using assms by (simp add: pos_imp_zdiv_nonneg_iff)
  then show "0 \<le> nearest n d" by (simp add: nearest_def Let_def)
  show "nearest n d \<le> b"
  proof (cases "n = b * d")
    case True
    then show ?thesis using assms(1) by (simp add: nearest_def)
  next
    case False
    then have "n < b * d" using assms(3) by simp
    have "n div d < b"
    proof (rule ccontr)
      assume "\<not> n div d < b"
      then have "b * d \<le> n div d * d" using assms(1) by (intro mult_right_mono) auto
      moreover have "n div d * d \<le> n" using assms(1) by (simp add: minus_mod_eq_div_mult [symmetric])
      ultimately show False using \<open>n < b * d\<close> by linarith
    qed
    then show ?thesis by (simp add: nearest_def Let_def)
  qed
qed

lemma fsub100_percent:
  assumes "fle (ffrom 0) x" "\<not> fle (ffrom 100) x"
  shows "percent (fsub100 x)"
proof (cases x)
  case (Float m s)
  let ?r = "100 * 2 ^ s - m"
  have r: "0 < ?r" "?r \<le> 100 * 2 ^ s" using assms Float by (auto simp: ffrom_def)
  have "0 \<le> ?r * 2 ^ 46" "?r * 2 ^ 46 \<le> (100 * 2 ^ 46) * 2 ^ s" using r by auto
  then have "0 \<le> nearest (?r * 2 ^ 46) (2 ^ s)" "nearest (?r * 2 ^ 46) (2 ^ s) \<le> 100 * 2 ^ 46"
    using nearest_le [of "2 ^ s" "?r * 2 ^ 46" "100 * 2 ^ 46"] by simp_all
  then show ?thesis using r Float by (simp add: percent_Float Let_def)
qed

lemma remaining_percent: "percent r \<Longrightarrow> percent (remaining r ws)"
proof (induction r ws rule: remaining.induct)
  case (2 r w ws)
  have "percent (ffrom 0)" by (simp add: percent_def ffrom_def)
  moreover have "percent (fmin r (fsub100 p))" if "fle (ffrom 0) p" "\<not> fle (ffrom 100) p" for p
    using fsub100_percent [OF that] 2 by (simp add: fmin_def)
  ultimately show ?case using 2 by (auto split: option.split)
qed simp

lemma fceil_percent: "percent x \<Longrightarrow> 0 \<le> fceil x \<and> fceil x \<le> 100"
proof (cases x)
  case (Float m s)
  assume "percent x"
  then have m: "0 \<le> m" "m \<le> 100 * 2 ^ s" using Float by (simp_all add: percent_Float)
  have "- 100 * 2 ^ s \<le> - m" using m by simp
  then have "(- 100 * 2 ^ s) div 2 ^ s \<le> (- m) div 2 ^ s" by (intro zdiv_mono1) auto
  moreover have "(- 100 * 2 ^ s) div 2 ^ s = (- 100 :: int)" by (rule nonzero_mult_div_cancel_right) simp
  moreover have "(- m) div 2 ^ s \<le> 0" using m zdiv_mono1 [of "- m" 0 "2 ^ s"] by simp
  ultimately show ?thesis using Float by simp
qed

text \<open>A decision weighs between 0 and 100, and only an available account has a weight.\<close>

definition weighed :: "quotaDecision \<Rightarrow> bool" where
  "weighed q \<longleftrightarrow> 0 \<le> Weight q \<and> Weight q \<le> 100 \<and> (Weight q > 0 \<longrightarrow> q_State q = QAvailable)"

lemma scanLimits_weighed: "weighed r \<Longrightarrow> weighed (scanLimits now expires r n ls)"
proof (induction now expires r n ls rule: scanLimits.induct)
  case (1 now expires r n)
  then show ?case by (simp add: weighed_def)
next
  case (2 now expires r n l ls)
  have p: "0 \<le> fceil (remaining (ffrom 100) ws) \<and> fceil (remaining (ffrom 100) ws) \<le> 100" for ws
    by (intro fceil_percent remaining_percent) (simp add: percent_def ffrom_def)
  show ?case
  proof (cases "scanWindows now (isBlocked l) (isKnown l) (ul_Windows l)")
    case None
    then show ?thesis using 2 by (simp add: weighed_def)
  next
    case (Some bk)
    then obtain b k where bk: "scanWindows now (isBlocked l) (isKnown l) (ul_Windows l) = Some (b, k)" by (cases bk) auto
    have "weighed (r\<lparr>q_State := QAvailable, Weight := if ul_Windows l \<noteq> [] then fceil (remaining (ffrom 100) (ul_Windows l)) else Weight r\<rparr>)"
      using p "2.prems" by (simp add: weighed_def)
    then show ?thesis using 2 bk by (auto simp: weighed_def)
  qed
qed

lemma scanLimits_exhausted:
  "q_State r \<noteq> QExhausted \<Longrightarrow> q_State (scanLimits now expires r n ls) = QExhausted \<Longrightarrow>
   RetryAt (scanLimits now expires r n ls) = expires"
proof (induction now expires r n ls rule: scanLimits.induct)
  case (2 now expires r n l ls)
  show ?case
  proof (cases "scanWindows now (isBlocked l) (isKnown l) (ul_Windows l)")
    case None
    then show ?thesis using 2 by (simp split: if_splits)
  next
    case (Some bk)
    then obtain b k where bk: "scanWindows now (isBlocked l) (isKnown l) (ul_Windows l) = Some (b, k)" by (cases bk) auto
    show ?thesis using 2 bk by (simp split: if_splits)
  qed
qed (simp split: if_splits)

lemma expiresAt_le: "expiresAt value \<le> wrap64 (us_UpdatedAt value + usageTTL)"
proof -
  have "foldl (\<lambda>expires window. case ResetAt window of None \<Rightarrow> expires
      | Some reset \<Rightarrow> if reset > u \<and> reset < expires then reset else expires) e ws \<le> e" for u e and ws :: "UsageWindow list"
  proof (induction ws arbitrary: e)
    case (Cons w ws)
    show ?case by (auto split: option.split intro: Cons order.trans [OF Cons less_imp_le])
  qed simp
  then show ?thesis by (simp add: expiresAt_def)
qed


lemma snapshotQuota_weighed: "weighed (snapshotQuota provider model raw updatedAt now)"
proof -
  have w: "weighed unknownQuota" by (simp add: weighed_def unknownQuota_def)
  show ?thesis using scanLimits_weighed [OF w] w
    by (auto simp: snapshotQuota_def quotaStatus_def weighed_def unknownQuota_def split: option.splits if_splits)
qed

text \<open>A snapshot of an account whose only window is used up until second 100.\<close>

definition exampleUsage :: Usage where
  "exampleUsage = \<lparr>ReadStartedAt = 0, us_Limits = Some [\<lparr>ul_Name = [], ul_Hidden = False, ul_Allowed = None,
     ul_LimitReached = None, ul_Windows = [\<lparr>uw_Kind = ''five_hour'', UsedPercent = Some (Float 201 1),
       WindowSeconds = Some 18000, ResetAt = Some 100\<rparr>]\<rparr>], ResetCredits = None, us_UpdatedAt = 50\<rparr>"

section \<open>Properties\<close>

text \<open>
  The quota decision of an account. Its weight is a percentage, and only an available account has
  one. An account is excluded as exhausted only by a snapshot that is valid, was not taken in the
  future and is not yet stale, and never past the life of that snapshot.
\<close>

theorem quota_decision:
  assumes "snapshotQuota provider model raw updatedAt now = dec"
  shows "weighed dec \<and> (q_State dec = QExhausted \<longrightarrow>
    (\<exists>v. decodeUsage raw updatedAt = Some v \<and> us_UpdatedAt v \<le> Unix now \<and> Unix now < RetryAt dec \<and>
      RetryAt dec \<le> wrap64 (us_UpdatedAt v + usageTTL)))"
proof -
  have "weighed dec" using assms snapshotQuota_weighed by blast
  moreover have "\<exists>v. decodeUsage raw updatedAt = Some v \<and> us_UpdatedAt v \<le> Unix now \<and> Unix now < RetryAt dec \<and>
      RetryAt dec \<le> wrap64 (us_UpdatedAt v + usageTTL)" if ex: "q_State dec = QExhausted"
  proof -
    obtain u where v: "decodeUsage raw updatedAt = Some u" "quotaStatus (quotaForModel u provider model) now = dec"
      using assms ex by (auto simp: snapshotQuota_def unknownQuota_def split: option.splits if_splits)
    let ?v = "quotaForModel u provider model"
    have upd: "us_UpdatedAt ?v = us_UpdatedAt u" by (simp add: quotaForModel_def Let_def split: option.split)
    have fresh: "Unix now < expiresAt ?v" "us_UpdatedAt ?v \<le> Unix now"
      and dec: "dec = scanLimits now (expiresAt ?v) unknownQuota 0 (case us_Limits ?v of None \<Rightarrow> [] | Some ls \<Rightarrow> ls)"
      using v(2) ex by (auto simp: quotaStatus_def snapshotState_def unknownQuota_def split: if_splits)
    have "RetryAt dec = expiresAt ?v" using scanLimits_exhausted [of unknownQuota now "expiresAt ?v" 0] dec ex
      by (simp add: unknownQuota_def)
    then show ?thesis using v(1) fresh expiresAt_le [of ?v] upd by auto
  qed
  ultimately show ?thesis by blast
qed

theorem quota_decision_witness:
  "q_State (snapshotQuota ''codex'' ''gpt-5'' (Some (10, Json exampleUsage)) (Some 50) 60000000000) = QExhausted \<and>
   60 < RetryAt (snapshotQuota ''codex'' ''gpt-5'' (Some (10, Json exampleUsage)) (Some 50) 60000000000)"
proof -
  have "q_State (snapshotQuota ''codex'' ''gpt-5'' (Some (10, Json exampleUsage)) (Some 50) 60000000000) = QExhausted"
    by code_simp
  then show ?thesis
    using quota_decision [of "''codex''" "''gpt-5''" "Some (10, Json exampleUsage)" "Some 50" 60000000000] by (auto simp: Unix_def)
qed

end
