(* ===== verification/Gateway_Runtime.thy ===== *)
theory Gateway_Runtime
  imports Gateway_Quota Alloc_Admission "HOL-Library.AList"
begin

text \<open>
  The state of a workspace's gateway (\<open>internal/gateway/gateway.go\<close>, \<open>internal/gateway/tuning.go\<close>)
  and the cooldowns of accounts and models (\<open>internal/gateway/runtime.go\<close>,
  \<open>internal/gateway/model_runtime.go\<close>). Every operation runs under the admission lock, so it is one
  step on the state; it reads the clock once, \<open>now\<close> in nanoseconds.
\<close>

section \<open>Policy\<close>

text \<open>Durations are in nanoseconds, as in \<open>time.Duration\<close>.\<close>

record Policy =
  QuotaWeighted :: bool
  Capacity :: int
  QueueLimit :: int
  Retries :: int
  QueueTimeout :: int
  RequestTimeout :: int
  StreamIdleTimeout :: int
  KeepaliveInterval :: int
  RetryDelay :: int
  TransientWindow :: int
  TransientCooldown :: int
  RateLimitCooldown :: int
  TransientThreshold :: int

definition DefaultPolicy :: Policy where
  "DefaultPolicy = \<lparr>QuotaWeighted = False, Capacity = 128, QueueLimit = 100, Retries = 2,
     QueueTimeout = 30000000000, RequestTimeout = 1800000000000, StreamIdleTimeout = 0,
     KeepaliveInterval = 10000000000, RetryDelay = 500000000, TransientWindow = 120000000000,
     TransientCooldown = 10000000000, RateLimitCooldown = 5000000000, TransientThreshold = 3\<rparr>"

definition hourNs :: int where "hourNs = 3600000000000"

definition Validate :: "Policy \<Rightarrow> bool" where
  "Validate p \<longleftrightarrow>
     \<not> (Capacity p < 1 \<or> Capacity p > 1000 \<or> QueueLimit p < 0 \<or> QueueLimit p > 1000 \<or> Retries p < 0 \<or> Retries p > 3 \<or>
        TransientThreshold p < 0 \<or> TransientThreshold p > 16) \<and>
     list_all (\<lambda>value. \<not> (value \<le> 0 \<or> value > 24 * hourNs))
       [QueueTimeout p, RequestTimeout p, RetryDelay p, TransientWindow p, TransientCooldown p, RateLimitCooldown p] \<and>
     \<not> (QueueTimeout p > 600000000000 \<or> RetryDelay p > 5000000000 \<or> TransientCooldown p > 300000000000 \<or> RateLimitCooldown p > hourNs) \<and>
     \<not> (StreamIdleTimeout p < 0 \<or> StreamIdleTimeout p > 24 * hourNs \<or> KeepaliveInterval p < 0 \<or> KeepaliveInterval p > 60000000000)"

section \<open>State\<close>

record Runtime =
  rt_ID :: string
  MaxConcurrency :: int
  InFlight :: int
  CooldownUntil :: int
  Reason :: string
  Failures :: int
  rt_State :: string
  rt_QuotaState :: quotaState
  LimitedModels :: int
  lastFailureSequence :: int
  lastFailureAt :: int
  rt_revision :: int

record modelRuntime =
  mk_account :: string
  mk_model :: string
  lifecycle :: int
  runtimeRevision' :: int
  md_version :: int
  cooldownUntil :: int
  failures :: int
  inFlight :: int
  md_lastFailureSequence :: int
  persistFailed :: bool
  md_reason :: string
  md_lastFailureAt :: int
  failureWindowAt :: int

type_synonym modelKey = "string \<times> string"

definition keyOf :: "modelRuntime \<Rightarrow> modelKey" where
  "keyOf m = (mk_account m, mk_model m)"

datatype Kind = Responses | Chat | Compact | Messages | Gemini | GeminiStream

text \<open>
  A request in progress. \<open>modelState\<close> is a pointer to the model cooldown it leased, which may
  outlive its entry in the map; \<open>finished\<close> is the state of its \<open>sync.Once\<close>.
\<close>

record observation =
  route :: RouteExplanation
  ob_kind :: Kind
  RequestID' :: string
  ob_UserID :: int
  ob_GroupID :: int
  ob_KeyID :: int
  ob_AccountID :: string
  ob_Provider :: string
  ob_Model :: string
  Transport :: string
  Operation :: string
  StartedAt :: int
  DurationMs :: int
  started :: int
  Outcome :: string
  ErrorCode :: string
  UpstreamStatus :: "int option"
  InputTokens :: "int option"
  OutputTokens :: "int option"
  CachedTokens :: "int option"
  FirstTokenMs :: "int option"
  ReasoningEffort :: string
  ob_Content :: content_check
  suppressModel :: bool
  ob_revision :: int
  leased :: bool
  memberLeased :: bool
  schemeID :: int
  allocationTracked :: bool
  upstreamDispatched :: bool
  usageFinal :: bool
  ob_sequence :: int
  modelState :: "nat option"
  modelLimited :: bool
  modelTransient :: bool
  finished :: bool

text \<open>A request as \<open>begin\<close> returns it: nothing leased, routed or measured yet.\<close>

definition noRoute :: RouteExplanation where
  "noRoute = \<lparr>R_Version = 0, R_Strategy = [], R_Result = [], R_Candidates = 0, R_ParentFallback = False,
     R_Exclusions = \<lparr>X_Model = 0, X_Policy = 0, X_Quota = 0, X_Cooldown = 0, X_Concurrency = 0, X_Unavailable = 0\<rparr>\<rparr>"

definition noContent :: content_check where
  "noContent = \<lparr>ContentMode = [], ContentRevision = 0, ContentRuleIds = Json [], ContentCheckFailed = 0\<rparr>"

definition operationName :: "Kind \<Rightarrow> string" where
  "operationName k = (case k of Chat \<Rightarrow> ''chat'' | Compact \<Rightarrow> ''compact'' | Messages \<Rightarrow> ''messages''
     | Gemini \<Rightarrow> ''gemini'' | GeminiStream \<Rightarrow> ''gemini'' | Responses \<Rightarrow> ''responses'')"

definition newObservation :: "Kind \<Rightarrow> string \<Rightarrow> int \<Rightarrow> int \<Rightarrow> int \<Rightarrow> string \<Rightarrow> int \<Rightarrow> observation" where
  "newObservation k i user grp key transport now =
     \<lparr>route = noRoute, ob_kind = k, RequestID' = i, ob_UserID = user, ob_GroupID = grp, ob_KeyID = key,
      ob_AccountID = [], ob_Provider = [], ob_Model = [], Transport = (if transport = [] then ''http'' else transport),
      Operation = operationName k, StartedAt = Unix now, DurationMs = 0, started = now, Outcome = [], ErrorCode = [], UpstreamStatus = None,
      InputTokens = None, OutputTokens = None, CachedTokens = None,
      FirstTokenMs = None, ReasoningEffort = [], ob_Content = noContent, suppressModel = False, ob_revision = 0, leased = False,
      memberLeased = False, schemeID = 0, allocationTracked = False, upstreamDispatched = False, usageFinal = False,
      ob_sequence = 0, modelState = None, modelLimited = False, modelTransient = False, finished = False\<rparr>"

text \<open>
  The fields of the gateway service the admission lock guards, and the database. Model cooldowns
  live in \<open>objects\<close> and are shared by address: \<open>modelHealth\<close> maps a key to an address. A channel of
  \<open>capacityChanged\<close> has room for one token; \<open>Some b\<close> is a channel that tells whether it holds one.
  \<open>waiting\<close> is an association list from pools to waiters, and \<open>cursors\<close> is the map \<open>next\<close>.
\<close>

record gateway =
  db :: store
  tenantID :: int
  gw_policy :: Policy
  cursors :: "string \<Rightarrow> nat"
  health :: "string \<rightharpoonup> Runtime"
  modelHealth :: "(modelKey \<times> nat) list"
  objects :: "modelRuntime list"
  memberActive :: "int \<Rightarrow> int"
  waiting :: "(int \<times> int) list"
  capacityChanged :: "int \<rightharpoonup> bool"
  closed :: bool
  allocationsReady :: bool
  failedSettlements :: "nat list"
  sequence :: int
  requests :: "observation list"

type_synonym 'a step = "(gateway, error, 'a) stateful"

text \<open>A statement outside a transaction takes effect at once.\<close>

definition writeDB :: "(store \<Rightarrow> store result) \<Rightarrow> unit step" where
  "writeDB f g = (case f (db g) of Inl e \<Rightarrow> (Inl e, g) | Inr d \<Rightarrow> (Inr (), g\<lparr>db := d\<rparr>))"

text \<open>A transaction on the database: its statements take effect together, at the commit.\<close>

definition inTx :: "(store \<Rightarrow> store result) \<Rightarrow> unit step" where
  "inTx f = writeDB (\<lambda>d. bindR (query d ''BeginTx'' ()) (\<lambda>_. bindR (f d) (\<lambda>d. bindR (query d ''Commit'' ()) (\<lambda>_. Inr d))))"

section \<open>Loading cooldowns\<close>

definition loadedState :: "Runtime option \<Rightarrow> account_runtime_row \<Rightarrow> Runtime" where
  "loadedState old row =
     (case old of Some state \<Rightarrow> state
      | None \<Rightarrow> \<lparr>rt_ID = lr_ID row, MaxConcurrency = 0, InFlight = 0, CooldownUntil = lr_CooldownUntil row,
          Reason = lr_Reason row, Failures = lr_Failures row, rt_State = [], rt_QuotaState = QUnknown,
          LimitedModels = 0, lastFailureSequence = 0, lastFailureAt = lr_LastFailureAt row, rt_revision = lr_Revision row\<rparr>)
     \<lparr>MaxConcurrency := lr_MaxConcurrency row\<rparr>"

definition loadHealth :: "account_runtime_row list \<Rightarrow> (string \<rightharpoonup> Runtime) \<Rightarrow> string \<rightharpoonup> Runtime" where
  "loadHealth rows h i = (case first_of (\<lambda>row. lr_ID row = i) rows of
     Some row \<Rightarrow> Some (loadedState (h i) row)
   | None \<Rightarrow> (case h i of None \<Rightarrow> None | Some state \<Rightarrow> if InFlight state = 0 then None else Some state))"

text \<open>Superseded lifecycles and revisions release their cached model cooldowns.\<close>

definition keepModel :: "account_runtime_row list \<Rightarrow> modelRuntime list \<Rightarrow> modelKey \<times> nat \<Rightarrow> bool" where
  "keepModel rows objs entry = (case first_of (\<lambda>row. lr_ID row = fst (fst entry)) rows of
     None \<Rightarrow> False
   | Some row \<Rightarrow> lifecycle (objs ! snd entry) = lr_Lifecycle row \<and> runtimeRevision' (objs ! snd entry) = lr_Revision row)"

definition loadRuntimeRows :: "int \<Rightarrow> account_runtime_row list step" where
  "loadRuntimeRows now =
     doS (\<lambda>g. writeDB (\<lambda>d. DeleteObsoleteModelRuntime d (tenantID g) (Unix now)) g) (\<lambda>_.
     doS (liftS (\<lambda>g. ListAccountRuntime (db g) (tenantID g))) (\<lambda>rows g.
     (Inr rows, g\<lparr>health := loadHealth rows (health g), modelHealth := filter (keepModel rows (objects g)) (modelHealth g)\<rparr>)))"

definition loadRuntime :: "int \<Rightarrow> unit step" where
  "loadRuntime now = doS (loadRuntimeRows now) (\<lambda>_. returnS ())"

section \<open>Admission to an account\<close>

text \<open>The columns of \<open>accounts.Account\<close> that admission reads.\<close>

record Account =
  acc_ID :: string
  acc_Provider :: string
  Enabled :: bool
  Status :: string

definition accountAdmission :: "gateway \<Rightarrow> Account \<Rightarrow> int \<Rightarrow> unit result" where
  "accountAdmission g account now =
     (if \<not> Enabled account then Inl (Accounts RErrDisabled)
      else if Status account = ''reauth_required'' then Inl (Accounts RErrReauthorize)
      else case health g (acc_ID account) of
        None \<Rightarrow> Inl (Accounts RErrNotFound)
      | Some state \<Rightarrow>
          if CooldownUntil state > Unix now then Inl (Gateway (CoolingError (wrap64 (CooldownUntil state - Unix now)) []))
          else if InFlight state \<ge> MaxConcurrency state \<or> CooldownUntil state > 0 \<and> Failures state > 0 \<and> InFlight state > 0
          then Inl (Gateway ErrAccountBusy)
          else Inr ())"

definition ceilSeconds :: "int \<Rightarrow> int" where
  "ceilSeconds ns = - ((- ns) div 1000000000)"

definition retryDelay :: "retryValue \<Rightarrow> int \<Rightarrow> int option \<Rightarrow> int" where
  "retryDelay value now fallback = (case value of
     RetrySeconds n \<Rightarrow> max 1 (min 3600 n)
   | RetryDate until \<Rightarrow> max 1 (min 3600 (ceilSeconds (until - now)))
   | RetryNone \<Rightarrow> (case fallback of None \<Rightarrow> 60 | Some duration \<Rightarrow> max 1 (min 3600 (ceilSeconds duration))))"

section \<open>Model cooldowns\<close>

definition maxModelRuntime :: nat where
  "maxModelRuntime = 1000"

text \<open>A pointer to a shared object, or an object nobody else has seen yet.\<close>

datatype modelRef = Shared nat | Fresh modelRuntime

fun deref :: "gateway \<Rightarrow> modelRef \<Rightarrow> modelRuntime" where
  "deref g (Shared a) = objects g ! a"
| "deref g (Fresh m) = m"

definition fromRow :: "model_row \<Rightarrow> modelRuntime" where
  "fromRow row = \<lparr>mk_account = mo_account row, mk_model = mo_model row, lifecycle = mo_lifecycle row,
     runtimeRevision' = mo_runtime_revision row, md_version = mo_version row, cooldownUntil = mo_cooldown_until row,
     failures = mo_failures row, inFlight = 0, md_lastFailureSequence = 0, persistFailed = False,
     md_reason = mo_reason row, md_lastFailureAt = mo_last_failure_at row, failureWindowAt = mo_failure_window_at row\<rparr>"

definition readModelRuntime :: "gateway \<Rightarrow> store \<Rightarrow> string \<Rightarrow> string \<Rightarrow> modelRef option result" where
  "readModelRuntime g d i model =
     (let model = CatalogModelID model in
      if model = [] then Inr None
      else bindR (GetAccountModelRuntime d i (tenantID g) model) (\<lambda>row.
        case map_of (modelHealth g) (i, model) of
          Some a \<Rightarrow>
            if lifecycle (objects g ! a) = mo_lifecycle row \<and> runtimeRevision' (objects g ! a) = mo_runtime_revision row
            then Inr (Some (Shared a)) else Inr (Some (Fresh (fromRow row)))
        | None \<Rightarrow> Inr (Some (Fresh (fromRow row)))))"

definition modelRuntimeAdmission :: "modelRuntime option \<Rightarrow> int \<Rightarrow> string \<Rightarrow> unit result" where
  "modelRuntimeAdmission state now model = (case state of None \<Rightarrow> Inr ()
   | Some m \<Rightarrow>
       if cooldownUntil m > now then Inl (Gateway (CoolingError (wrap64 (cooldownUntil m - now)) model))
       else if cooldownUntil m > 0 \<and> failures m > 0 \<and> inFlight m > 0 then Inl (Gateway ErrAccountBusy)
       else Inr ())"

definition modelAdmission :: "gateway \<Rightarrow> store \<Rightarrow> string \<Rightarrow> string \<Rightarrow> int \<Rightarrow> unit result" where
  "modelAdmission g d i model now =
     bindR (readModelRuntime g d i model) (\<lambda>r. modelRuntimeAdmission (map_option (deref g) r) (Unix now) (CatalogModelID model))"

definition modelLease :: "gateway \<Rightarrow> string \<Rightarrow> string \<Rightarrow> modelRef option result" where
  "modelLease g i model =
     bindR (readModelRuntime g (db g) i model) (\<lambda>r. case r of None \<Rightarrow> Inr None
      | Some ref \<Rightarrow>
          if map_of (modelHealth g) (keyOf (deref g ref)) = None \<and> length (modelHealth g) \<ge> maxModelRuntime
          then Inl (Gateway ErrBusy) else Inr (Some ref))"

section \<open>The outcome of a request for its model\<close>

text \<open>The streak of failures restarts when their reason changes or their window is over.\<close>

definition countFailure :: "Policy \<Rightarrow> modelRuntime \<Rightarrow> bool \<Rightarrow> int \<Rightarrow> modelRuntime" where
  "countFailure p state transient now =
     (let reason = (if transient then ''upstream_error'' else ''rate_limited'');
          restart = (reason \<noteq> md_reason state \<or> reason = ''upstream_error'' \<and>
             (UnixMilli now < md_lastFailureAt state \<or>
              wrap64 (UnixMilli now - failureWindowAt state) \<ge> TransientWindow p sdiv 1000000));
          m = (if restart then state\<lparr>failures := 0, failureWindowAt := UnixMilli now\<rparr> else state)
      in m\<lparr>md_reason := reason, md_lastFailureAt := UnixMilli now, failures := min 16 (failures m + 1)\<rparr>)"

definition transientDelay :: "Policy \<Rightarrow> int \<Rightarrow> int" where
  "transientDelay p n = max 1 (min 300
     (wrap64 (TransientCooldown p sdiv 1000000000 * 2 ^ nat (min 4 (n - TransientThreshold p)))))"

definition modelFailure :: "Policy \<Rightarrow> modelRuntime \<Rightarrow> bool \<Rightarrow> bool \<Rightarrow> retryValue \<Rightarrow> int \<Rightarrow> modelRuntime" where
  "modelFailure p state isLimited transient retry now =
     (let m = countFailure p state transient now
      in if isLimited
         then m\<lparr>cooldownUntil := max (cooldownUntil m) (Unix now + retryDelay retry now (Some (RateLimitCooldown p)))\<rparr>
         else if failures m \<ge> TransientThreshold p
         then m\<lparr>cooldownUntil := max (cooldownUntil m) (Unix now + transientDelay p (failures m))\<rparr>
         else m)"

definition toRow :: "modelRuntime \<Rightarrow> model_row" where
  "toRow m = \<lparr>mo_account = mk_account m, mo_model = mk_model m, mo_cooldown_until = cooldownUntil m,
     mo_failures = failures m, mo_lifecycle = lifecycle m, mo_runtime_revision = runtimeRevision' m, mo_version = md_version m,
     mo_reason = md_reason m, mo_last_failure_at = md_lastFailureAt m, mo_failure_window_at = failureWindowAt m\<rparr>"

definition setObject :: "nat \<Rightarrow> modelRuntime \<Rightarrow> gateway \<Rightarrow> gateway" where
  "setObject a m g = g\<lparr>objects := (objects g)[a := m]\<rparr>"

definition recordFailure :: "nat \<Rightarrow> observation \<Rightarrow> retryValue \<Rightarrow> int \<Rightarrow> gateway \<Rightarrow> bool \<times> gateway" where
  "recordFailure a e retry now g =
     (let seq = sequence g + 1; state = objects g ! a;
          m = (modelFailure (gw_policy g) state (modelLimited e) (modelTransient e) retry now)\<lparr>md_lastFailureSequence := seq\<rparr>;
          g = g\<lparr>sequence := seq\<rparr>
      in case SaveAccountModelRuntime (db g) (tenantID g) (toRow m) of
        Inr (d, v) \<Rightarrow> (False, setObject a (m\<lparr>md_version := v, persistFailed := False\<rparr>) (g\<lparr>db := d\<rparr>))
      | Inl err \<Rightarrow> if \<not> errorsIs err NoRows then (True, setObject a (m\<lparr>persistFailed := True\<rparr>) g) else (False, g))"

definition recordSuccess :: "nat \<Rightarrow> gateway \<Rightarrow> bool \<times> gateway" where
  "recordSuccess a g =
     (let state = objects g ! a in
      case DeleteAccountModelLimit (db g) (tenantID g) (mk_account state) (mk_model state) (md_version state) (lifecycle state) (runtimeRevision' state) of
        Inr d \<Rightarrow> (False, setObject a (state\<lparr>failures := 0, cooldownUntil := 0, persistFailed := False\<rparr>) (g\<lparr>db := d\<rparr>))
      | Inl err \<Rightarrow> (True, setObject a (state\<lparr>persistFailed := True\<rparr>) g))"

definition isDone :: "string \<Rightarrow> bool" where
  "isDone outcome \<longleftrightarrow> outcome = ''success'' \<or> outcome = ''incomplete''"

definition finishModelRuntime :: "observation \<Rightarrow> string \<Rightarrow> retryValue \<Rightarrow> int \<Rightarrow> gateway \<Rightarrow> bool \<times> gateway" where
  "finishModelRuntime e outcome retry now g = (case modelState e of None \<Rightarrow> (False, g)
   | Some a \<Rightarrow>
       (let state = objects g ! a;
            g = setObject a (state\<lparr>inFlight := max 0 (inFlight state - 1)\<rparr>) g;
            state = objects g ! a
        in if map_of (modelHealth g) (keyOf state) \<noteq> Some a then (False, g)
           else let (failed, g) =
                  (if modelLimited e \<or> modelTransient e then recordFailure a e retry now g
                   else if isDone outcome \<and> cooldownUntil state \<le> Unix now \<and>
                     md_lastFailureSequence state < ob_sequence e \<and> failures state > 0 then recordSuccess a g
                   else (False, g));
                  state = objects g ! a
                in (failed,
                    if inFlight state = 0 \<and> \<not> persistFailed state
                    then g\<lparr>modelHealth := AList.delete (keyOf state) (modelHealth g)\<rparr> else g)))"

section \<open>Capacity notifications\<close>

text \<open>The pools that wait and whose channel may receive a token; a full channel drops it.\<close>

definition notify :: "int list \<Rightarrow> gateway \<Rightarrow> gateway" where
  "notify groups g = g\<lparr>capacityChanged := (\<lambda>grp. if grp \<in> set groups \<and> capacityChanged g grp \<noteq> None then Some True
     else capacityChanged g grp)\<rparr>"

definition notifyCapacity :: "string \<Rightarrow> gateway \<Rightarrow> gateway" where
  "notifyCapacity i g =
     (if waiting g = [] then g
      else case ListResourceGroups (db g) i (tenantID g) of
        Inr groups \<Rightarrow> notify groups g
      | Inl e \<Rightarrow> notify (map fst (waiting g)) g)"

section \<open>Views and manual changes\<close>

definition runtimeParams :: "Runtime \<Rightarrow> runtime_row" where
  "runtimeParams state = \<lparr>ar_account = rt_ID state, ar_cooldown_until = CooldownUntil state, ar_reason = Reason state,
     ar_failures = Failures state, ar_last_failure_at = lastFailureAt state, ar_revision = rt_revision state\<rparr>"

definition persistRuntime :: "Runtime \<Rightarrow> unit step" where
  "persistRuntime state g = writeDB (\<lambda>d. SaveAccountRuntime d (tenantID g) (runtimeParams state)) g"

text \<open>Model cooldowns of an account that exist only in memory.\<close>

definition failedLimits :: "gateway \<Rightarrow> string \<Rightarrow> int" where
  "failedLimits g i = int (length (filter (\<lambda>entry. let m = objects g ! snd entry in
     mk_account m = i \<and> persistFailed m \<and> md_version m = 0 \<and> cooldownUntil m > 0) (modelHealth g)))"

text \<open>Quota decisions are made before the lock is taken, at \<open>before\<close>; a later revision invalidates them.\<close>

definition savedDecision ::
    "(string \<times> string \<times> usage_blob \<times> int option \<times> int) list \<Rightarrow> int \<Rightarrow> account_runtime_row \<Rightarrow> quotaDecision" where
  "savedDecision usage before row =
     (if \<not> quotaRoutingSupported (lr_Provider row) then unknownQuota\<lparr>q_State := QUnsupported\<rparr>
      else case first_of (\<lambda>u. fst u = lr_ID row) usage of None \<Rightarrow> unknownQuota
      | Some (i, provider, snapshot, updatedAt, revision) \<Rightarrow>
          if revision = lr_UsageRevision row then snapshotQuota provider [] snapshot updatedAt before else unknownQuota)"

definition stateName :: "Runtime \<Rightarrow> quotaState \<Rightarrow> int \<Rightarrow> string" where
  "stateName state quota now =
     (if CooldownUntil state > now then ''cooling''
      else if CooldownUntil state > 0 \<and> Failures state > 0
      then (if InFlight state > 0 then ''probing'' else ''retry_ready'')
      else if quota = QExhausted then ''quota_exhausted'' else ''available'')"

definition runtimeView ::
    "gateway \<Rightarrow> (string \<times> string \<times> usage_blob \<times> int option \<times> int) list \<Rightarrow> int \<Rightarrow> int \<Rightarrow> account_runtime_row \<Rightarrow> Runtime" where
  "runtimeView g usage before now row =
     (let state = loadedState (health g (lr_ID row)) row; quota = q_State (savedDecision usage before row)
      in state\<lparr>LimitedModels := lr_LimitedModels row + failedLimits g (lr_ID row),
           rt_State := stateName state quota (Unix now), rt_QuotaState := quota\<rparr>)"

text \<open>\<open>loadRuntimeRows\<close> has just given every row its state, so \<open>loadedState\<close> finds it there.\<close>

definition Runtime' :: "int \<Rightarrow> int \<Rightarrow> Runtime list step" where
  "Runtime' before now =
     doS (liftS (\<lambda>g. ListWorkspaceUsage (db g) (tenantID g))) (\<lambda>usage.
     doS (loadRuntimeRows now) (\<lambda>rows g. (Inr (map (runtimeView g usage before now) rows), g)))"

definition SetConcurrency :: "Actor option \<Rightarrow> string \<Rightarrow> int \<Rightarrow> int \<Rightarrow> unit step" where
  "SetConcurrency actor i lim now g =
     (if lim < 1 \<or> lim > 1000 then (Inl (Accounts RErrInput), g)
      else doS (inTx (\<lambda>d. bindR (SetAccountConcurrency d i (tenantID g) lim) (\<lambda>(d, n).
             guardR (Accounts RErrNotFound) (n = 0) (
             Record actor (Unix now) d ''account.concurrency'' ''account'' i))))
        (\<lambda>_ g. (Inr (), notifyCapacity i
           (case health g i of None \<Rightarrow> g
            | Some state \<Rightarrow> g\<lparr>health := (health g)(i \<mapsto> state\<lparr>MaxConcurrency := lim\<rparr>)\<rparr>))) g)"

definition resumed :: "Runtime \<Rightarrow> Runtime" where
  "resumed state = state\<lparr>CooldownUntil := 0, Reason := [], Failures := 0, lastFailureAt := 0,
     lastFailureSequence := 0, rt_revision := rt_revision state + 1\<rparr>"

definition Resume :: "Actor option \<Rightarrow> string \<Rightarrow> int \<Rightarrow> unit step" where
  "Resume actor i now =
     doS (loadRuntime now) (\<lambda>_ g. case health g i of
       None \<Rightarrow> (Inl (Accounts RErrNotFound), g)
     | Some state \<Rightarrow>
         doS (inTx (\<lambda>d. bindR (SaveAccountRuntime d (tenantID g) (runtimeParams (resumed state))) (\<lambda>d.
                bindR (DeleteAccountModelRuntime d i (tenantID g)) (\<lambda>d.
                Record actor (Unix now) d ''account.resume'' ''account'' i))))
           (\<lambda>_ g. (Inr (), notifyCapacity i
              (g\<lparr>health := (health g)(i \<mapsto> resumed state),
                 modelHealth := filter (\<lambda>entry. fst (fst entry) \<noteq> i) (modelHealth g)\<rparr>))) g)"

section \<open>Lemmas\<close>

lemma retryDelay_bounds: "1 \<le> retryDelay r now f \<and> retryDelay r now f \<le> 3600"
  by (auto simp: retryDelay_def split: retryValue.split option.split)

lemma transientDelay_bounds: "1 \<le> transientDelay p n \<and> transientDelay p n \<le> 300"
  by (auto simp: transientDelay_def)

lemma countFailure_bounds:
  assumes "0 \<le> failures m" "failures m \<le> 16"
  shows "1 \<le> failures (countFailure p m transient now) \<and> failures (countFailure p m transient now) \<le> 16"
    and "cooldownUntil (countFailure p m transient now) = cooldownUntil m"
  using assms by (simp_all add: countFailure_def Let_def)

lemma first_of_upsert: "key new \<Longrightarrow> first_of key (upsert key new rows) = Some new"
proof -
  assume k: "key new"
  have "list_ex key rows \<Longrightarrow> first_of key (map (\<lambda>r. if key r then new else r) rows) = Some new"
    using k by (induction rows) auto
  moreover have "\<not> list_ex key rows \<Longrightarrow> first_of key rows = None"
    by (auto simp: first_of_None_iff list_ex_iff)
  ultimately show ?thesis using k by (auto simp: upsert_def first_of_append)
qed

lemma first_of_upsert_conj:
  assumes "key new" "P new"
  shows "first_of (\<lambda>r. key r \<and> P r) (upsert key new rows) = Some new"
proof -
  have "list_ex key rows \<Longrightarrow> first_of (\<lambda>r. key r \<and> P r) (map (\<lambda>r. if key r then new else r) rows) = Some new"
    using assms by (induction rows) auto
  moreover have "\<not> list_ex key rows \<Longrightarrow> first_of (\<lambda>r. key r \<and> P r) rows = None"
    by (auto simp: first_of_None_iff list_ex_iff)
  ultimately show ?thesis using assms by (auto simp: upsert_def first_of_append)
qed

lemma runtimeRevision_models [simp]: "runtimeRevision (d\<lparr>account_model_runtime := ms\<rparr>) i = runtimeRevision d i"
  by (simp add: runtimeRevision_def runtimeOf_def)

lemma SaveAccountModelRuntime_Inr:
  assumes "SaveAccountModelRuntime d t row = Inr (d', v)"
  shows "d' = d\<lparr>account_model_runtime :=
    upsert (modelKeyed (mo_account row) (mo_model row)) (row\<lparr>mo_version := v\<rparr>) (account_model_runtime d)\<rparr>"
  using assms by (auto simp: SaveAccountModelRuntime_def Let_def split: if_splits)

lemma GetAccountModelRuntime_current:
  assumes "GetAccountModelRuntime d i t m = Inr row"
  obtains a where "first_of (\<lambda>a. a_id a = i \<and> a_tenant a = t) (accounts d) = Some a" "a_id a = i" "a_tenant a = t"
    "mo_lifecycle row = a_models_revision a" "mo_runtime_revision row = runtimeRevision d i"
    "mo_account row = i" "mo_model row = m" "\<not> fails d ''GetAccountModelRuntime''"
proof -
  obtain a where a: "first_of (\<lambda>a. a_id a = i \<and> a_tenant a = t) (accounts d) = Some a" and f: "\<not> fails d ''GetAccountModelRuntime''"
    using assms by (auto simp: GetAccountModelRuntime_def res_simps split: option.splits)
  have "a_id a = i \<and> a_tenant a = t" using first_of_SomeD [OF a] by simp
  moreover have "mo_lifecycle row = a_models_revision a \<and> mo_runtime_revision row = runtimeRevision d i \<and> mo_account row = i \<and> mo_model row = m"
    using assms a f by (auto simp: GetAccountModelRuntime_def res_simps modelKeyed_def split: option.splits dest: first_of_SomeD)
  ultimately show thesis using that a f by blast
qed

lemma GetAccountModelRuntime_saved:
  assumes "GetAccountModelRuntime d i t m = Inr row"
    and "SaveAccountModelRuntime d t new = Inr (d', v)"
    and "mo_account new = i" "mo_model new = m" "mo_lifecycle new = mo_lifecycle row" "mo_runtime_revision new = mo_runtime_revision row"
  shows "GetAccountModelRuntime d' i t m = Inr (new\<lparr>mo_version := v\<rparr>)"
proof (rule GetAccountModelRuntime_current [OF assms(1)])
  fix a assume a: "first_of (\<lambda>a. a_id a = i \<and> a_tenant a = t) (accounts d) = Some a" "a_id a = i" "a_tenant a = t"
    "mo_lifecycle row = a_models_revision a" "mo_runtime_revision row = runtimeRevision d i"
    "mo_account row = i" "mo_model row = m" "\<not> fails d ''GetAccountModelRuntime''"
  have d': "d' = d\<lparr>account_model_runtime := upsert (modelKeyed i m) (new\<lparr>mo_version := v\<rparr>) (account_model_runtime d)\<rparr>"
    using SaveAccountModelRuntime_Inr [OF assms(2)] assms(3,4) by simp
  have "first_of (\<lambda>r. modelKeyed i m r \<and> mo_lifecycle r = a_models_revision a \<and> mo_runtime_revision r = runtimeRevision d i)
      (upsert (modelKeyed i m) (new\<lparr>mo_version := v\<rparr>) (account_model_runtime d)) = Some (new\<lparr>mo_version := v\<rparr>)"
    using assms(3-6) a by (intro first_of_upsert_conj) (auto simp: modelKeyed_def)
  then show ?thesis using a by (simp add: GetAccountModelRuntime_def d' queryRow_def)
qed

lemma SaveAccountModelRuntime_current:
  assumes "GetAccountModelRuntime d i t m = Inr row"
    and "mo_account new = i" "mo_lifecycle new = mo_lifecycle row" "mo_runtime_revision new = mo_runtime_revision row"
  shows "SaveAccountModelRuntime d t new \<noteq> Inl NoRows"
proof (rule GetAccountModelRuntime_current [OF assms(1)])
  fix a assume a: "first_of (\<lambda>a. a_id a = i \<and> a_tenant a = t) (accounts d) = Some a" "a_id a = i" "a_tenant a = t"
    "mo_lifecycle row = a_models_revision a" "mo_runtime_revision row = runtimeRevision d i"
  then have "list_ex (\<lambda>a. a_id a = mo_account new \<and> a_tenant a = t \<and> a_models_revision a = mo_lifecycle new \<and>
      runtimeRevision d (a_id a) = mo_runtime_revision new) (accounts d)"
    using first_of_SomeD [OF a(1)] assms(2-4) by (auto simp: list_ex_iff)
  then show ?thesis by (simp add: SaveAccountModelRuntime_def Let_def)
qed

text \<open>What a stored or remembered cooldown means for the next admission of the model.\<close>

lemma modelAdmission_closed:
  assumes "GetAccountModelRuntime d i (tenantID g) m = Inr row" "CatalogModelID model = m" "m \<noteq> []"
    and "case map_of (modelHealth g) (i, m) of
        Some a \<Rightarrow> lifecycle (objects g ! a) = mo_lifecycle row \<and> runtimeRevision' (objects g ! a) = mo_runtime_revision row \<and>
          Unix later < cooldownUntil (objects g ! a)
      | None \<Rightarrow> Unix later < mo_cooldown_until row"
  shows "\<exists>wait. modelAdmission g d i model later = Inl (Gateway (CoolingError wait m))"
  using assms by (auto simp: modelAdmission_def readModelRuntime_def Let_def modelRuntimeAdmission_def fromRow_def
      split: option.splits)

lemma modelFailure_key [simp]:
  "mk_account (modelFailure p m l t r now) = mk_account m" "mk_model (modelFailure p m l t r now) = mk_model m"
  "lifecycle (modelFailure p m l t r now) = lifecycle m" "runtimeRevision' (modelFailure p m l t r now) = runtimeRevision' m"
  "inFlight (modelFailure p m l t r now) = inFlight m"
  by (simp_all add: modelFailure_def countFailure_def Let_def)

lemma modelFailure_limited:
  "cooldownUntil (modelFailure p m True t r now) = max (cooldownUntil m) (Unix now + retryDelay r now (Some (RateLimitCooldown p)))"
  by (simp add: modelFailure_def countFailure_def Let_def)

lemma setObject_simps [simp]:
  "db (setObject a m g) = db g" "tenantID (setObject a m g) = tenantID g" "modelHealth (setObject a m g) = modelHealth g"
  "gw_policy (setObject a m g) = gw_policy g" "sequence (setObject a m g) = sequence g" "objects (setObject a m g) = (objects g)[a := m]"
  by (simp_all add: setObject_def)

lemma map_of_delete: "map_of (AList.delete k al) = (map_of al)(k := None)"
  by (rule AList.delete_conv')

lemma writeDB_Inr: "writeDB f g = (Inr u, g') \<longleftrightarrow> (\<exists>d. f (db g) = Inr d \<and> g' = g\<lparr>db := d\<rparr>)"
  by (auto simp: writeDB_def split: sum.splits)

lemma inTx_Inr: "inTx f g = (Inr u, g') \<longleftrightarrow>
    (\<exists>d. f (db g) = Inr d \<and> \<not> fails (db g) ''BeginTx'' \<and> \<not> fails d ''Commit'' \<and> g' = g\<lparr>db := d\<rparr>)"
  by (auto simp: inTx_def writeDB_Inr res_simps)

lemma notify_frame: "notify gs g = g\<lparr>capacityChanged := capacityChanged (notify gs g)\<rparr>"
  by (simp add: notify_def)

lemma notifyCapacity_frame: "notifyCapacity i g = g\<lparr>capacityChanged := capacityChanged (notifyCapacity i g)\<rparr>"
proof (cases "waiting g = []")
  case False
  then show ?thesis
    by (cases "ListResourceGroups (db g) i (tenantID g)") (simp_all add: notifyCapacity_def notify_def)
qed (simp add: notifyCapacity_def)

lemma notifyCapacity_simps [simp]:
  "db (notifyCapacity i g) = db g" "tenantID (notifyCapacity i g) = tenantID g" "health (notifyCapacity i g) = health g"
  "modelHealth (notifyCapacity i g) = modelHealth g" "objects (notifyCapacity i g) = objects g"
  by (subst notifyCapacity_frame; simp)+

lemma Resume_steps:
  assumes "Resume actor i now g = (Inr (), g')"
  obtains l state d1 d2 d3 evs where "loadRuntime now g = (Inr (), l)" "health l i = Some state"
    "SaveAccountRuntime (db l) (tenantID l) (runtimeParams (resumed state)) = Inr d1"
    "DeleteAccountModelRuntime d1 i (tenantID l) = Inr d2" "d3 = d2\<lparr>audit_events := evs\<rparr>"
    "g' = notifyCapacity i (l\<lparr>db := d3, health := (health l)(i \<mapsto> resumed state),
       modelHealth := filter (\<lambda>entry. fst (fst entry) \<noteq> i) (modelHealth l)\<rparr>)"
  using assms by (auto simp: Resume_def doS_eq_Inr inTx_Inr bindR_eq_Inr split: option.splits dest!: Record_frame)

lemma map_of_filtered: "map_of (filter (\<lambda>entry. fst (fst entry) \<noteq> i) h) (i, model) = None"
  by (auto simp: map_of_eq_None_iff)

lemma runtimeRevision_audit [simp]: "runtimeRevision (d\<lparr>audit_events := evs\<rparr>) i = runtimeRevision d i"
  by (simp add: runtimeRevision_def runtimeOf_def)

lemma no_model_rows:
  assumes "DeleteAccountModelRuntime d1 i t = Inr d2"
  shows "GetAccountModelRuntime (d2\<lparr>audit_events := evs\<rparr>) i t m = Inr row \<Longrightarrow> mo_cooldown_until row = 0"
proof -
  assume r: "GetAccountModelRuntime (d2\<lparr>audit_events := evs\<rparr>) i t m = Inr row"
  have d2: "d2 = d1\<lparr>account_model_runtime := filter (\<lambda>m. \<not> (mo_account m = i \<and>
      list_ex (\<lambda>a. a_id a = i \<and> a_tenant a = t) (accounts d1))) (account_model_runtime d1)\<rparr>"
    using assms by (simp add: DeleteAccountModelRuntime_def exec_Inr)
  obtain a where a: "first_of (\<lambda>a. a_id a = i \<and> a_tenant a = t) (accounts d1) = Some a"
    by (rule GetAccountModelRuntime_current [OF r]) (simp add: d2)
  have "list_ex (\<lambda>a. a_id a = i \<and> a_tenant a = t) (accounts d1)"
    using first_of_SomeD [OF a] by (auto simp: list_ex_iff)
  then have "first_of (\<lambda>m'. modelKeyed i m m' \<and> mo_lifecycle m' = a_models_revision a \<and> mo_runtime_revision m' = rev)
      (account_model_runtime d2) = None" for rev
    by (auto simp: d2 first_of_None_iff modelKeyed_def)
  then show ?thesis using r a by (auto simp: GetAccountModelRuntime_def d2 queryRow_Inr)
qed

lemma loadRuntime_Inr:
  assumes "loadRuntime now g = (Inr (), l)"
  obtains d rows where "DeleteObsoleteModelRuntime (db g) (tenantID g) (Unix now) = Inr d"
    "ListAccountRuntime d (tenantID g) = Inr rows"
    "l = g\<lparr>db := d, health := loadHealth rows (health g), modelHealth := filter (keepModel rows (objects g)) (modelHealth g)\<rparr>"
  using assms by (auto simp: loadRuntime_def loadRuntimeRows_def doS_eq_Inr liftS_Inr returnS_eq writeDB_Inr)

lemma loadHealth_ID:
  assumes "loadHealth rows h i = Some state" "\<And>s. h i = Some s \<Longrightarrow> rt_ID s = i"
  shows "rt_ID state = i"
  using assms by (auto simp: loadHealth_def loadedState_def split: option.splits if_splits dest: first_of_SomeD)

lemma SaveAccountRuntime_row:
  assumes "SaveAccountRuntime d t row = Inr d'" "list_ex (\<lambda>a. a_id a = ar_account row \<and> a_tenant a = t) (accounts d')"
  shows "runtimeOf d' (ar_account row) = Some row"
  using assms by (auto simp: SaveAccountRuntime_def exec_Inr runtimeOf_def first_of_upsert split: if_splits)

section \<open>Properties\<close>

text \<open>The witnesses run on the store of the allocation examples, with an account whose identifier is audited.\<close>

definition exampleAccount :: string where
  "exampleAccount = replicate 32 CHR ''a''"

definition exampleGateway :: gateway where
  "exampleGateway =
     \<lparr>db = (exampleStore [])\<lparr>group_accounts := [(1, exampleAccount)],
        accounts := map (\<lambda>a. a\<lparr>a_id := exampleAccount\<rparr>) (accounts (exampleStore []))\<rparr>,
      tenantID = 1, gw_policy = DefaultPolicy, cursors = (\<lambda>_. 0), health = Map.empty, modelHealth = [], objects = [],
      memberActive = (\<lambda>_. 0), waiting = [], capacityChanged = Map.empty, closed = False, allocationsReady = True,
      failedSettlements = [], sequence = 0, requests = []\<rparr>"

text \<open>A request for \<open>gpt-5\<close> holds the only lease of its model when the provider limits it.\<close>

definition exampleModel :: modelRuntime where
  "exampleModel = \<lparr>mk_account = exampleAccount, mk_model = ''gpt-5'', lifecycle = 3, runtimeRevision' = 0, md_version = 0,
     cooldownUntil = 0, failures = 0, inFlight = 1, md_lastFailureSequence = 0, persistFailed = False, md_reason = [],
     md_lastFailureAt = 0, failureWindowAt = 0\<rparr>"

definition exampleLimited :: gateway where
  "exampleLimited = exampleGateway\<lparr>objects := [exampleModel], modelHealth := [((exampleAccount, ''gpt-5''), 0)]\<rparr>"

definition limitedRequest :: observation where
  "limitedRequest = (newObservation Responses ''r1'' 7 1 0 ''http'' 0)\<lparr>modelState := Some 0, modelLimited := True\<rparr>"

text \<open>
  A failure leaves between one and sixteen failures in the streak, never shortens a cooldown and
  never extends it more than an hour past now (five minutes for upstream errors). A rate limit, or a
  streak that reaches the threshold, closes the model; a shorter streak leaves the cooldown alone.
\<close>

theorem modelFailure_bounds:
  assumes "0 \<le> failures m" "failures m \<le> 16" and "m' = modelFailure p m isLimited transient retry now"
  shows "1 \<le> failures m' \<and> failures m' \<le> 16 \<and> cooldownUntil m \<le> cooldownUntil m' \<and>
    cooldownUntil m' \<le> max (cooldownUntil m) (Unix now + (if isLimited then 3600 else 300)) \<and>
    (if isLimited \<or> TransientThreshold p \<le> failures m' then Unix now < cooldownUntil m'
     else cooldownUntil m' = cooldownUntil m)"
proof -
  let ?c = "countFailure p m transient now"
  have d: "1 \<le> retryDelay retry now (Some (RateLimitCooldown p))" "retryDelay retry now (Some (RateLimitCooldown p)) \<le> 3600"
    "1 \<le> transientDelay p (failures ?c)" "transientDelay p (failures ?c) \<le> 300"
    using retryDelay_bounds transientDelay_bounds by auto
  have m': "m' = ?c\<lparr>cooldownUntil :=
      (if isLimited then max (cooldownUntil ?c) (Unix now + retryDelay retry now (Some (RateLimitCooldown p)))
       else if failures ?c \<ge> TransientThreshold p then max (cooldownUntil ?c) (Unix now + transientDelay p (failures ?c))
       else cooldownUntil ?c)\<rparr>"
    using assms(3) by (auto simp: modelFailure_def Let_def)
  show ?thesis using countFailure_bounds [OF assms(1,2), of p transient now] d unfolding m' by auto
qed

theorem modelFailure_bounds_witness:
  "1 \<le> failures (modelFailure DefaultPolicy exampleModel True False (RetrySeconds 30) 0) \<and>
   Unix 0 < cooldownUntil (modelFailure DefaultPolicy exampleModel True False (RetrySeconds 30) 0)"
  using modelFailure_bounds [of exampleModel _ DefaultPolicy True False "RetrySeconds 30" 0]
  by (auto simp: exampleModel_def)



text \<open>
  C35: Resuming an account reopens it: its cooldown and failures are cleared in memory and in the
  database, none of its models is cooling any more, and the other accounts keep their state.
\<close>

theorem Resume_reopens:
  assumes "Resume actor i now g = (Inr (), g')" and "\<And>s. health g i = Some s \<Longrightarrow> rt_ID s = i"
  shows "(\<exists>state. health g' i = Some state \<and> CooldownUntil state = 0 \<and> Failures state = 0) \<and>
    (\<forall>model later wait m. 0 \<le> Unix later \<longrightarrow> modelAdmission g' (db g') i model later \<noteq> Inl (Gateway (CoolingError wait m))) \<and>
    (list_ex (\<lambda>a. a_id a = i \<and> a_tenant a = tenantID g') (accounts (db g')) \<longrightarrow>
      (\<exists>row. runtimeOf (db g') i = Some row \<and> ar_cooldown_until row = 0 \<and> ar_failures row = 0)) \<and>
    (\<forall>j. j \<noteq> i \<longrightarrow> health g' j = health (snd (loadRuntime now g)) j)"
proof (rule Resume_steps [OF assms(1)])
  fix l state d1 d2 d3 evs
  assume s: "loadRuntime now g = (Inr (), l)" "health l i = Some state"
    "SaveAccountRuntime (db l) (tenantID l) (runtimeParams (resumed state)) = Inr d1"
    "DeleteAccountModelRuntime d1 i (tenantID l) = Inr d2" "d3 = d2\<lparr>audit_events := evs\<rparr>"
    "g' = notifyCapacity i (l\<lparr>db := d3, health := (health l)(i \<mapsto> resumed state),
       modelHealth := filter (\<lambda>entry. fst (fst entry) \<noteq> i) (modelHealth l)\<rparr>)"
  have none: "map_of (modelHealth g') (i, m) = None" for m
    by (simp add: s(6) map_of_filtered)
  have adm: "0 \<le> Unix later \<longrightarrow> modelAdmission g' (db g') i model later \<noteq> Inl (Gateway (CoolingError wait m))" for model later wait m
  proof (cases "GetAccountModelRuntime d3 i (tenantID l) (CatalogModelID model)")
    case (Inl e)
    then have "e = StoreError \<or> e = NoRows" by (auto simp: GetAccountModelRuntime_def queryRow_Inl)
    then show ?thesis using Inl s(6) by (auto simp: modelAdmission_def readModelRuntime_def Let_def modelRuntimeAdmission_def)
  next
    case (Inr row)
    then have "mo_cooldown_until row = 0" using no_model_rows [OF s(4)] s(5) by blast
    then show ?thesis using Inr none s(6)
      by (auto simp: modelAdmission_def readModelRuntime_def Let_def modelRuntimeAdmission_def fromRow_def)
  qed
  have i: "rt_ID state = i"
    by (rule loadRuntime_Inr [OF s(1)]) (use s(2) assms(2) in \<open>auto intro: loadHealth_ID\<close>)
  have d2: "accounts d2 = accounts d1" "account_runtime d2 = account_runtime d1"
    using s(4) by (auto simp: DeleteAccountModelRuntime_def exec_Inr)
  have row: "runtimeOf (db g') i = Some (runtimeParams (resumed state))"
    if "list_ex (\<lambda>a. a_id a = i \<and> a_tenant a = tenantID g') (accounts (db g'))"
    using SaveAccountRuntime_row [OF s(3)] that d2 i s(5,6) by (simp add: runtimeParams_def resumed_def runtimeOf_def)
  show ?thesis using adm row s(1,6) by (auto simp: resumed_def runtimeParams_def)
qed

theorem Resume_reopens_witness:
  "fst (Resume None exampleAccount 0 exampleGateway) = Inr () \<and>
   (\<exists>state. health (snd (Resume None exampleAccount 0 exampleGateway)) exampleAccount = Some state \<and>
     CooldownUntil state = 0 \<and> Failures state = 0)"
proof -
  have "fst (Resume None exampleAccount 0 exampleGateway) = Inr ()" by code_simp
  then show ?thesis
    using Resume_reopens [of None exampleAccount 0 exampleGateway "snd (Resume None exampleAccount 0 exampleGateway)"]
    by (cases "Resume None exampleAccount 0 exampleGateway") (simp add: exampleGateway_def)
qed

end
