(* ===== verification/Gateway_Members.thy ===== *)
theory Gateway_Members
  imports Gateway_Runtime
begin

text \<open>
  The limits of a member on all keys, transports and pools (\<open>internal/gateway/members.go\<close> and
  \<open>recheckMember\<close> of \<open>internal/gateway/queue.go\<close>): a number of requests per minute, kept in the
  database, and a number of concurrent requests, kept in memory.
\<close>

section \<open>Reading and setting limits\<close>

record MemberLimit =
  ml_UserID :: int
  RequestsPerMinute :: int
  ml_MaxConcurrency :: int
  ml_InFlight :: int
  RequestsThisMinute :: int
  ml_ResetAt :: int

text \<open>The minute a request counts in, \<open>now - now % 60\<close>.\<close>

definition minuteOf :: "int \<Rightarrow> int" where
  "minuteOf now = Unix now - Unix now smod 60"

definition MemberLimits :: "int \<Rightarrow> int \<Rightarrow> MemberLimit step" where
  "MemberLimits user now = liftS (\<lambda>g. case GetMemberLimits (db g) (tenantID g) user of
     Inl e \<Rightarrow> if errorsIs e NoRows then Inl ErrMemberNotFound else Inl e
   | Inr (enabled, rpm, concurrency) \<Rightarrow>
       let value = \<lparr>ml_UserID = user, RequestsPerMinute = rpm, ml_MaxConcurrency = concurrency,
             ml_InFlight = memberActive g user, RequestsThisMinute = 0, ml_ResetAt = wrap64 (minuteOf now + 60)\<rparr>
       in case GetMemberWindow (db g) (tenantID g) user of
         Inl e \<Rightarrow> if \<not> errorsIs e NoRows then Inl e else Inr value
       | Inr (windowStart, n) \<Rightarrow>
           if windowStart = minuteOf now then Inr (value\<lparr>RequestsThisMinute := n\<rparr>) else Inr value)"

definition setMemberLimits :: "Actor option \<Rightarrow> int \<Rightarrow> int \<Rightarrow> int \<Rightarrow> int \<Rightarrow> unit step" where
  "setMemberLimits actor user rpm concurrency now g =
     (if user \<le> 0 \<or> rpm < 0 \<or> rpm > 6000 \<or> concurrency < 0 \<or> concurrency > 1000 then (Inl (Accounts RErrInput), g)
      else inTx (\<lambda>d. bindR (SetMemberLimits d (tenantID g) user rpm concurrency) (\<lambda>(d, n).
        guardR ErrMemberNotFound (n \<noteq> 1) (
        Record actor (Unix now) d ''member.limits'' ''member'' (FormatInt user)))) g)"

section \<open>Admission\<close>

text \<open>The limits of a member who may use the gateway.\<close>

definition memberPolicy :: "store \<Rightarrow> int \<Rightarrow> int \<Rightarrow> (int \<times> int) result" where
  "memberPolicy d tenant user = (case GetMemberLimits d tenant user of
     Inl e \<Rightarrow> if errorsIs e NoRows then Inl (Groups GErrUnavailable) else Inl e
   | Inr (enabled, rpm, concurrency) \<Rightarrow>
       if \<not> enabled then Inl (Groups GErrUnavailable) else Inr (rpm, concurrency))"

definition takeRate :: "int \<Rightarrow> int \<Rightarrow> int \<Rightarrow> store \<Rightarrow> int \<Rightarrow> store result" where
  "takeRate tenant user rpm d now =
     bindR (TakeMemberRate d tenant user (minuteOf now) rpm) (\<lambda>(d', n).
     if n = 0 then Inl (Gateway (MemberRateError (minuteOf now + 60 - Unix now))) else Inr d')"

definition admitMember :: "int \<Rightarrow> int \<Rightarrow> unit step" where
  "admitMember user now =
     doS (liftS (\<lambda>g. memberPolicy (db g) (tenantID g) user)) (\<lambda>(rpm, concurrency).
     doS (\<lambda>g. if concurrency > 0 \<and> memberActive g user \<ge> concurrency then (Inl (Gateway ErrMemberBusy), g)
            else if rpm > 0 then writeDB (\<lambda>d. takeRate (tenantID g) user rpm d now) g
            else (Inr (), g)) (\<lambda>_ g.
     (Inr (), g\<lparr>memberActive := (memberActive g)(user := memberActive g user + 1)\<rparr>)))"

text \<open>A waiting or retrying request already holds its lease and has used its share of the minute.\<close>

definition recheckMember :: "gateway \<Rightarrow> store \<Rightarrow> observation \<Rightarrow> int \<Rightarrow> unit result" where
  "recheckMember g d e now =
     bindR (memberPolicy d (tenantID g) (ob_UserID e)) (\<lambda>(rpm, concurrency).
     guardR (Gateway ErrMemberBusy) (concurrency > 0 \<and> memberActive g (ob_UserID e) > concurrency) (
     if ob_KeyID e \<noteq> 0 then
       (case GetKey d (ob_KeyID e) (ob_UserID e) (tenantID g) of
          Inl err \<Rightarrow> if errorsIs err NoRows then Inl (Groups GErrUnavailable) else Inl err
        | Inr key \<Rightarrow> guardR (Groups GErrUnavailable)
            (\<not> k_enabled key \<or> k_revoked_at key \<noteq> None \<or>
             (case k_expires_at key of None \<Rightarrow> False | Some t \<Rightarrow> t \<le> Unix now) \<or> k_group key \<noteq> ob_GroupID e) (Inr ()))
     else Inr ()))"

definition releaseMember :: "int \<Rightarrow> gateway \<Rightarrow> gateway" where
  "releaseMember user g = g\<lparr>memberActive := (memberActive g)(user :=
     if memberActive g user \<le> 1 then 0 else memberActive g user - 1)\<rparr>"

section \<open>Lemmas\<close>

text \<open>The requests of a member the database counts in a minute.\<close>

definition windowCount :: "store \<Rightarrow> int \<Rightarrow> int \<Rightarrow> int \<Rightarrow> int" where
  "windowCount d tenant user w = (case first_of (rateKey tenant user) (member_rate d) of
     None \<Rightarrow> 0 | Some r \<Rightarrow> if mr_window_start r = w then mr_requests r else 0)"

lemma first_of_upsert_other:
  assumes "\<And>r. key r \<Longrightarrow> \<not> P r" "key new"
  shows "first_of P (upsert key new rows) = first_of P rows"
proof -
  have "first_of P (map (\<lambda>r. if key r then new else r) rows) = first_of P rows"
    using assms by (induction rows) auto
  then show ?thesis using assms by (auto simp: upsert_def first_of_append split: option.split)
qed

lemma TakeMemberRate_row:
  assumes "TakeMemberRate d t u w rpm = Inr (d', n)" "n \<noteq> 0"
  obtains new where "rateKey t u new" "mr_window_start new = w" "mr_requests new = windowCount d t u w + 1"
    "d' = d\<lparr>member_rate := upsert (rateKey t u) new (member_rate d)\<rparr>" "0 < rpm \<Longrightarrow> windowCount d t u w < rpm"
proof (cases "first_of (rateKey t u) (member_rate d)")
  case None
  then have "\<not> list_ex (rateKey t u) (member_rate d)" by (auto simp: first_of_None_iff list_ex_iff)
  then show thesis using assms None
    by (intro that [of "\<lparr>mr_tenant = t, mr_user = u, mr_window_start = w, mr_requests = 1\<rparr>"])
      (auto simp: TakeMemberRate_def exec_Inr windowCount_def upsert_def rateKey_def)
next
  case (Some r)
  then have "list_ex (rateKey t u) (member_rate d)" using first_of_SomeD [OF Some] by (auto simp: list_ex_iff)
  then show thesis using assms Some
    by (intro that [of "\<lparr>mr_tenant = t, mr_user = u, mr_window_start = w, mr_requests = windowCount d t u w + 1\<rparr>"])
      (auto simp: TakeMemberRate_def exec_Inr windowCount_def upsert_def rateKey_def Let_def split: if_splits)
qed

lemma TakeMemberRate_Inr:
  assumes "TakeMemberRate d t u w rpm = Inr (d', n)" "n \<noteq> 0"
  shows "windowCount d' t u w = windowCount d t u w + 1" and "0 < rpm \<Longrightarrow> windowCount d t u w < rpm"
    and "v \<noteq> u \<Longrightarrow> windowCount d' t v w' = windowCount d t v w'"
    and "\<exists>rows. d' = d\<lparr>member_rate := rows\<rparr>"
proof -
  obtain new where new: "rateKey t u new" "mr_window_start new = w" "mr_requests new = windowCount d t u w + 1"
    "d' = d\<lparr>member_rate := upsert (rateKey t u) new (member_rate d)\<rparr>" and lt: "0 < rpm \<Longrightarrow> windowCount d t u w < rpm"
    by (rule TakeMemberRate_row [OF assms]) blast
  show "windowCount d' t u w = windowCount d t u w + 1"
    unfolding new(4) using new(1-3) by (subst (1) windowCount_def) (simp add: first_of_upsert)
  show "0 < rpm \<Longrightarrow> windowCount d t u w < rpm" by (rule lt)
  show "v \<noteq> u \<Longrightarrow> windowCount d' t v w' = windowCount d t v w'"
  proof -
    assume "v \<noteq> u"
    then have "first_of (rateKey t v) (upsert (rateKey t u) new (member_rate d)) = first_of (rateKey t v) (member_rate d)"
      by (intro first_of_upsert_other new(1)) (simp add: rateKey_def)
    then show ?thesis by (simp add: windowCount_def new(4))
  qed
  show "\<exists>rows. d' = d\<lparr>member_rate := rows\<rparr>" using new by blast
qed

lemma memberPolicy_rate [simp]: "memberPolicy (d\<lparr>member_rate := rows\<rparr>) t u = memberPolicy d t u"
  by (simp add: memberPolicy_def GetMemberLimits_def queryRow_def cong: option.case_cong)

lemma admitMember_Inl: "admitMember u now g = (Inl e, g') \<Longrightarrow> g' = g"
  by (auto simp: admitMember_def doS_eq_Inl liftS_eq writeDB_def split: if_splits sum.splits prod.splits)

lemma admitMember_Inr:
  assumes "admitMember u now g = (Inr (), g')"
  obtains rpm c d where "memberPolicy (db g) (tenantID g) u = Inr (rpm, c)" "c > 0 \<Longrightarrow> memberActive g u < c"
    "if rpm > 0 then takeRate (tenantID g) u rpm (db g) now = Inr d else d = db g"
    "g' = g\<lparr>db := d, memberActive := (memberActive g)(u := memberActive g u + 1)\<rparr>"
proof -
  obtain rpm c h where p: "memberPolicy (db g) (tenantID g) u = Inr (rpm, c)"
    and h: "(if c > 0 \<and> memberActive g u \<ge> c then (Inl (Gateway ErrMemberBusy), g)
            else if rpm > 0 then writeDB (\<lambda>d. takeRate (tenantID g) u rpm d now) g
            else (Inr (), g)) = (Inr (), h)" and g': "g' = h\<lparr>memberActive := (memberActive h)(u := memberActive h u + 1)\<rparr>"
    using assms by (auto simp: admitMember_def doS_eq_Inr liftS_Inr simp del: not_le split del: if_split)
  show thesis
  proof (rule that [OF p])
    show "c > 0 \<Longrightarrow> memberActive g u < c" using h by (auto split: if_splits)
    show "if rpm > 0 then takeRate (tenantID g) u rpm (db g) now = Inr (db h) else db h = db g"
      using h by (auto simp: writeDB_Inr split: if_splits)
    show "g' = g\<lparr>db := db h, memberActive := (memberActive g)(u := memberActive g u + 1)\<rparr>"
      using h g' by (auto simp: writeDB_Inr split: if_splits)
  qed
qed

lemma takeRate_Inr:
  assumes "takeRate t u rpm d now = Inr d'" "0 < rpm"
  shows "windowCount d' t u (minuteOf now) = windowCount d t u (minuteOf now) + 1"
    and "windowCount d t u (minuteOf now) < rpm" and "v \<noteq> u \<Longrightarrow> windowCount d' t v w = windowCount d t v w"
    and "memberPolicy d' t v = memberPolicy d t v"
proof -
  obtain n where "TakeMemberRate d t u (minuteOf now) rpm = Inr (d', n)" "n \<noteq> 0"
    using assms(1) by (auto simp: takeRate_def bindR_eq_Inr split: if_splits)
  note r = TakeMemberRate_Inr [OF this]
  show "windowCount d' t u (minuteOf now) = windowCount d t u (minuteOf now) + 1" by (rule r(1))
  show "windowCount d t u (minuteOf now) < rpm" by (rule r(2) [OF assms(2)])
  show "v \<noteq> u \<Longrightarrow> windowCount d' t v w = windowCount d t v w" by (rule r(3))
  show "memberPolicy d' t v = memberPolicy d t v" using r(4) by auto
qed


text \<open>A run of the admission of all members, with the requests that end in between.\<close>

datatype memberEvent = Admit int int | Release int

fun memberRun :: "int \<Rightarrow> memberEvent list \<Rightarrow> gateway \<Rightarrow> nat" where
  "memberRun u [] g = 0"
| "memberRun u (Admit v now # es) g =
     (if v = u \<and> fst (admitMember v now g) = Inr () then 1 else 0) + memberRun u es (snd (admitMember v now g))"
| "memberRun u (Release v # es) g = memberRun u es (releaseMember v g)"

lemma admit_other:
  assumes "v \<noteq> u" "memberPolicy (db g) (tenantID g) u = Inr (rpm, c)"
  shows "memberPolicy (db (snd (admitMember v now g))) (tenantID (snd (admitMember v now g))) u = Inr (rpm, c) \<and>
    windowCount (db (snd (admitMember v now g))) (tenantID (snd (admitMember v now g))) u w = windowCount (db g) (tenantID g) u w"
proof (cases "admitMember v now g")
  case (Pair r g')
  show ?thesis
  proof (cases r)
    case (Inl e)
    then show ?thesis using Pair admitMember_Inl [of _ now g e g'] assms by auto
  next
    case (Inr x)
    show ?thesis
      by (rule admitMember_Inr [of v now g g'])
        (use Pair Inr assms takeRate_Inr(3,4) in \<open>auto split: if_splits\<close>)
  qed
qed

lemma admit_self:
  assumes "memberPolicy (db g) (tenantID g) u = Inr (rpm, c)" "0 < rpm"
  shows "memberPolicy (db (snd (admitMember u now g))) (tenantID (snd (admitMember u now g))) u = Inr (rpm, c) \<and>
    (if fst (admitMember u now g) = Inr () then windowCount (db g) (tenantID g) u (minuteOf now) < rpm \<and>
       windowCount (db (snd (admitMember u now g))) (tenantID (snd (admitMember u now g))) u (minuteOf now) =
         windowCount (db g) (tenantID g) u (minuteOf now) + 1
     else snd (admitMember u now g) = g)"
proof (cases "admitMember u now g")
  case (Pair r g')
  show ?thesis
  proof (cases r)
    case (Inl e)
    then show ?thesis using Pair admitMember_Inl [of _ now g e g'] assms by auto
  next
    case (Inr x)
    show ?thesis
    proof (rule admitMember_Inr [of u now g g'])
      show "admitMember u now g = (Inr (), g')" using Pair Inr by simp
      fix rpm' c' d
      assume a: "memberPolicy (db g) (tenantID g) u = Inr (rpm', c')"
        "if rpm' > 0 then takeRate (tenantID g) u rpm' (db g) now = Inr d else d = db g"
        "g' = g\<lparr>db := d, memberActive := (memberActive g)(u := memberActive g u + 1)\<rparr>"
      then have t: "takeRate (tenantID g) u rpm (db g) now = Inr d" using assms by auto
      show ?thesis using takeRate_Inr [OF t assms(2)] Pair Inr a assms by auto
    qed
  qed
qed


lemma minute_bounds:
  assumes "0 \<le> Unix now"
  shows "1 \<le> minuteOf now + 60 - Unix now" "minuteOf now + 60 - Unix now \<le> 60"
    "minuteOf (now + (minuteOf now + 60 - Unix now) * 1000000000) = minuteOf now + 60"
proof -
  have m: "minuteOf now = Unix now - Unix now mod 60" using assms by (simp add: minuteOf_def smod_nonneg)
  have b: "0 \<le> Unix now mod 60" "Unix now mod 60 < 60" by simp_all
  show "1 \<le> minuteOf now + 60 - Unix now" "minuteOf now + 60 - Unix now \<le> 60" using m b by linarith+
  let ?s = "minuteOf now + 60 - Unix now"
  have u: "Unix (now + ?s * 1000000000) = Unix now + ?s" by (simp add: Unix_def)
  have "Unix now + ?s = 60 * (Unix now div 60 + 1)" using m by (simp add: minus_mod_eq_mult_div)
  moreover from this have "(Unix now + ?s) mod 60 = 0" by (metis mod_mult_self1_is_0)
  ultimately show "minuteOf (now + ?s * 1000000000) = minuteOf now + 60"
    using u m b assms by (simp add: minuteOf_def smod_nonneg)
qed

lemma TakeMemberRate_full:
  assumes "0 < rpm" "\<not> fails d ''TakeMemberRate''" "rpm \<le> windowCount d t u w"
  shows "TakeMemberRate d t u w rpm = Inr (d, 0)"
  using assms by (auto simp: TakeMemberRate_def Let_def windowCount_def exec_def split: option.splits if_splits)


text \<open>The witnesses give member 7 two requests a minute, three of them at a time.\<close>

definition exampleMembers :: gateway where
  "exampleMembers = exampleGateway\<lparr>db := (db exampleGateway)\<lparr>memberships :=
     map (\<lambda>m. m\<lparr>m_requests_per_minute := 2, m_max_concurrency := 3\<rparr>) (memberships (db exampleGateway))\<rparr>\<rparr>"

lemma exampleMembers_policy: "memberPolicy (db exampleMembers) (tenantID exampleMembers) 7 = Inr (2, 3)"
  by code_simp

section \<open>Properties\<close>

text \<open>
  C29: A member with a limit of requests per minute is never admitted more often in one minute, however
  the admissions of all members and the ends of their requests interleave.
\<close>

theorem requests_per_minute:
  assumes "memberPolicy (db g) (tenantID g) u = Inr (rpm, c)" "0 < rpm"
    and "\<forall>now. Admit u now \<in> set es \<longrightarrow> minuteOf now = w"
  shows "int (memberRun u es g) \<le> max 0 (rpm - windowCount (db g) (tenantID g) u w)"
  using assms
proof (induction es arbitrary: g)
  case (Cons e es)
  show ?case
  proof (cases e)
    case (Release v)
    then show ?thesis using Cons.IH [of "releaseMember v g"] Cons.prems by (simp add: releaseMember_def)
  next
    case (Admit v now)
    show ?thesis
    proof (cases "v = u")
      case False
      then show ?thesis using Cons.IH [of "snd (admitMember v now g)"] Cons.prems admit_other [OF False Cons.prems(1), of now w] Admit
        by auto
    next
      case True
      then have w: "minuteOf now = w" using Cons.prems(3) Admit by simp
      then show ?thesis using Cons.IH [of "snd (admitMember v now g)"] Cons.prems admit_self [OF Cons.prems(1,2), of now] Admit True
        by (auto split: if_splits)
    qed
  qed
qed simp

theorem requests_per_minute_witness:
  "int (memberRun 7 [Admit 7 0, Admit 3 0, Release 7, Admit 7 1000000000, Admit 7 59000000000] exampleMembers) \<le> 2"
proof -
  let ?es = "[Admit 7 0, Admit 3 0, Release 7, Admit 7 1000000000, Admit 7 59000000000]"
  have "\<forall>now. Admit 7 now \<in> set ?es \<longrightarrow> minuteOf now = 0" by (auto simp: minuteOf_def Unix_def smod_nonneg)
  then have "int (memberRun 7 ?es exampleMembers) \<le> max 0 (2 - windowCount (db exampleMembers) (tenantID exampleMembers) 7 0)"
    by (intro requests_per_minute [OF exampleMembers_policy]) simp_all
  moreover have "windowCount (db exampleMembers) (tenantID exampleMembers) 7 0 = 0" by code_simp
  ultimately show ?thesis by (simp del: memberRun.simps)
qed

text \<open>
  A refused member leaves no trace: no lease and no request counted. An admitted one holds exactly
  one more lease, within the concurrency limit, its request is counted within the limit of the minute,
  and the other members are untouched.
\<close>

theorem member_admission:
  assumes "admitMember u now g = (r, g')"
  shows "case r of
      Inl e \<Rightarrow> g' = g
    | Inr _ \<Rightarrow> \<exists>rpm c. memberPolicy (db g) (tenantID g) u = Inr (rpm, c) \<and> memberActive g' u = memberActive g u + 1 \<and>
        (c > 0 \<longrightarrow> memberActive g' u \<le> c) \<and>
        (rpm > 0 \<longrightarrow> windowCount (db g') (tenantID g') u (minuteOf now) \<le> rpm) \<and>
        (\<forall>v. v \<noteq> u \<longrightarrow> memberActive g' v = memberActive g v)"
proof (cases r)
  case (Inl e)
  then show ?thesis using assms admitMember_Inl [of u now g e g'] by simp
next
  case (Inr x)
  show ?thesis
  proof (rule admitMember_Inr [of u now g g'])
    show "admitMember u now g = (Inr (), g')" using assms Inr by simp
    fix rpm c d
    assume a: "memberPolicy (db g) (tenantID g) u = Inr (rpm, c)" "c > 0 \<Longrightarrow> memberActive g u < c"
      "if rpm > 0 then takeRate (tenantID g) u rpm (db g) now = Inr d else d = db g"
      "g' = g\<lparr>db := d, memberActive := (memberActive g)(u := memberActive g u + 1)\<rparr>"
    have "rpm > 0 \<Longrightarrow> windowCount d (tenantID g) u (minuteOf now) \<le> rpm"
      using takeRate_Inr(1,2) [of "tenantID g" u rpm "db g" now d] a(3) by auto
    then show ?thesis using a Inr by auto
  qed
qed

theorem member_admission_witness:
  "memberActive (snd (admitMember 7 0 exampleMembers)) 7 = 1 \<and>
   windowCount (db (snd (admitMember 7 0 exampleMembers))) 1 7 (minuteOf 0) \<le> 2"
proof -
  have a: "fst (admitMember 7 0 exampleMembers) = Inr ()" by code_simp
  have "admitMember 7 0 exampleMembers = (Inr (), snd (admitMember 7 0 exampleMembers))"
    using a by (cases "admitMember 7 0 exampleMembers") simp
  moreover have "tenantID (snd (admitMember 7 0 exampleMembers)) = 1" "memberActive exampleMembers 7 = 0" by code_simp+
  ultimately show ?thesis using member_admission [of 7 0 exampleMembers "Inr ()"] exampleMembers_policy by fastforce
qed

text \<open>
  When the minute of a member is full the request is refused, nothing changes, and the error names
  a delay of one to sixty seconds after which the next minute has begun.
\<close>

theorem full_minute_refused:
  assumes "memberPolicy (db g) (tenantID g) u = Inr (rpm, c)" "0 < rpm" "c \<le> 0 \<or> memberActive g u < c"
    and "\<not> fails (db g) ''TakeMemberRate''" "0 \<le> Unix now" "rpm \<le> windowCount (db g) (tenantID g) u (minuteOf now)"
  shows "\<exists>s. admitMember u now g = (Inl (Gateway (MemberRateError s)), g) \<and> 1 \<le> s \<and> s \<le> 60 \<and>
    minuteOf (now + s * 1000000000) = minuteOf now + 60"
proof -
  have "takeRate (tenantID g) u rpm (db g) now = Inl (Gateway (MemberRateError (minuteOf now + 60 - Unix now)))"
    using TakeMemberRate_full [OF assms(2,4,6)] by (simp add: takeRate_def)
  then have "admitMember u now g = (Inl (Gateway (MemberRateError (minuteOf now + 60 - Unix now))), g)"
    using assms(1-3) by (auto simp: admitMember_def doS_def liftS_def writeDB_def)
  then show ?thesis using minute_bounds [OF assms(5)] by blast
qed

theorem full_minute_refused_witness:
  "\<exists>s. admitMember 7 1000000000 (snd (admitMember 7 0 (snd (admitMember 7 0 exampleMembers)))) =
    (Inl (Gateway (MemberRateError s)), snd (admitMember 7 0 (snd (admitMember 7 0 exampleMembers)))) \<and> 1 \<le> s \<and> s \<le> 60"
proof -
  let ?g = "snd (admitMember 7 0 (snd (admitMember 7 0 exampleMembers)))"
  have "memberPolicy (db ?g) (tenantID ?g) 7 = Inr (2, 3)" "3 \<le> (0::int) \<or> memberActive ?g 7 < 3"
    "\<not> fails (db ?g) ''TakeMemberRate''" "0 \<le> Unix 1000000000"
    "2 \<le> windowCount (db ?g) (tenantID ?g) 7 (minuteOf 1000000000)"
    by code_simp+
  then show ?thesis using full_minute_refused [of ?g 7 2 3 1000000000] by auto
qed

end
