(* ===== verification/Gateway_Route.thy ===== *)
theory Gateway_Route
  imports Gateway_Members
begin

text \<open>
  How the gateway explains its decisions: the counts of a route (\<open>internal/gateway/route.go\<close>) and
  the outcome, error code and penalty of an error (\<open>statusOutcome\<close> of \<open>internal/gateway/exchange.go\<close>,
  \<open>classify\<close> and \<open>fail\<close> of \<open>internal/gateway/history.go\<close>, \<open>temporaryStatus\<close> of
  \<open>internal/gateway/retry.go\<close>).
\<close>

section \<open>Exclusions\<close>

definition maxRouteCount :: int where
  "maxRouteCount = 10000"

definition bump :: "int \<Rightarrow> int" where
  "bump n = min maxRouteCount (n + 1)"

definition isAny :: "error \<Rightarrow> error list \<Rightarrow> bool" where
  "isAny e targets \<longleftrightarrow> list_ex (errorsIs e) targets"

definition allocationRefusal :: "error \<Rightarrow> bool" where
  "allocationRefusal e \<longleftrightarrow>
     isAny e [Alloc AErrQuota, Alloc AErrPending, Alloc AErrRisk, Alloc AErrUnpriced, Alloc AErrUnavailable]"

definition reject :: "error \<Rightarrow> RouteExclusions \<Rightarrow> RouteExclusions" where
  "reject e r =
     (if isAny e [Gateway ErrModelUnavailable, Gateway ErrCatalogUnavailable, Gateway ErrModelConflict]
      then r\<lparr>X_Model := bump (X_Model r)\<rparr>
      else if isAny e [Gateway ErrModelNotAllowed, Gateway ErrAffinityUnavailable, Groups GErrUnavailable]
      then r\<lparr>X_Policy := bump (X_Policy r)\<rparr>
      else if errorsIs e (Gateway ErrQuotaExhausted) \<or> allocationRefusal e then r\<lparr>X_Quota := bump (X_Quota r)\<rparr>
      else if isAny e [Gateway ErrAccountCooling, Gateway ErrModelCooling] then r\<lparr>X_Cooldown := bump (X_Cooldown r)\<rparr>
      else if isAny e [Gateway ErrAccountBusy, Gateway ErrBusy] then r\<lparr>X_Concurrency := bump (X_Concurrency r)\<rparr>
      else if isAny e [Accounts RErrNotFound, Accounts RErrProviderDisabled, Accounts RErrDisabled, Accounts RErrReauthorize]
      then r\<lparr>X_Unavailable := bump (X_Unavailable r)\<rparr>
      else r)"

section \<open>Outcomes\<close>

definition temporaryStatus :: "int \<Rightarrow> bool" where
  "temporaryStatus status \<longleftrightarrow> status \<in> set [408, 500, 502, 503, 504]"

type_synonym classification = "string \<times> string \<times> string"

definition statusOutcome :: "int \<Rightarrow> classification" where
  "statusOutcome status =
     (if status = 429 then (''error'', ''rate_limited'', ''rate_limited'')
      else if status = 401 then (''error'', ''auth_required'', [])
      else if status = 403 then (''error'', ''upstream_forbidden'', [])
      else if status = 408 then (''error'', ''timeout'', ''timeout'')
      else if status \<ge> 500 then (''error'', ''upstream_unavailable'', ''upstream_error'')
      else (''rejected'', ''upstream_rejected'', []))"

text \<open>\<open>Error()\<close> of the sentinels whose text becomes a code.\<close>

fun allocText :: "alloc_error \<Rightarrow> string" where
  "allocText AErrInput = ''invalid_allocation_input''"
| "allocText AErrNotFound = ''allocation_not_found''"
| "allocText AErrPoolConflict = ''allocation_pool_conflict''"
| "allocText AErrUnavailable = ''allocation_unavailable''"
| "allocText AErrQuota = ''allocation_exhausted''"
| "allocText AErrPending = ''allocation_pending''"
| "allocText AErrRisk = ''allocation_risk_limit''"
| "allocText AErrUnpriced = ''allocation_model_unpriced''"
| "allocText AErrUnknownWindowOverride = ''allocation_unknown_window_override''"
| "allocText AErrSettlement = ''invalid_allocation_settlement''"
| "allocText AErrVersionRequired = ''allocation_version_required''"
| "allocText AErrVersionConflict = ''allocation_version_conflict''"
| "allocText AErrEffectiveRequired = ''allocation_effective_at_required''"
| "allocText AErrEffectiveConflict = ''allocation_effective_at_conflict''"
| "allocText AErrStateConflict = ''allocation_state_conflict''"
| "allocText AErrMemberConflict = ''allocation_member_conflict''"
| "allocText AErrFunding = ''allocation_funding_gap''"
| "allocText AErrReplacement = ''allocation_replacement_required''"
| "allocText AErrInitialSchedule = ''allocation_initial_schedule_required''"

fun contentText :: "content_error \<Rightarrow> string" where
  "contentText CErrBlocked = ''content_policy_blocked''"
| "contentText CErrUnavailable = ''content_check_unavailable''"

fun codeText :: "error \<Rightarrow> string" where
  "codeText (Content e) = contentText e"
| "codeText (Alloc e) = allocText e"
| "codeText (Gateway ErrAccountQueueFull) = ''account_queue_full''"
| "codeText (Gateway ErrAccountWaitTimeout) = ''account_wait_timeout''"
| "codeText _ = []"

text \<open>\<open>ctx\<close> is the error of the request's context, if it is over.\<close>

definition classify :: "error option \<Rightarrow> error \<Rightarrow> classification" where
  "classify ctx e =
     (if isAny e [Content CErrBlocked, Content CErrUnavailable] then (''rejected'', codeText e, [])
      else if ctx = Some Canceled \<or> errorsIs e Canceled then (''canceled'', ''client_disconnected'', [])
      else if ctx = Some DeadlineExceeded \<or> errorsIs e DeadlineExceeded then (''error'', ''timeout'', ''timeout'')
      else case e of Upstream (UpstreamError status retry limitedModel) \<Rightarrow> statusOutcome status
      | _ \<Rightarrow>
      if allocationRefusal e then (''rejected'', codeText e, [])
      else if errorsIs e (Gateway ErrMemberBusy) then (''rejected'', ''member_busy'', [])
      else if errorsIs e (Gateway ErrMemberRate) then (''rejected'', ''member_rate_limited'', [])
      else if errorsIs e (Gateway ErrAllocationAccounting) then (''error'', ''allocation_accounting_unavailable'', [])
      else if errorsIs e (Gateway ErrQuotaExhausted) then (''rejected'', ''quota_exhausted'', [])
      else if isAny e [Gateway ErrAccountQueueFull, Gateway ErrAccountWaitTimeout] then (''rejected'', codeText e, [])
      else if errorsIs e (Gateway ErrAccountBusy) then (''rejected'', ''account_busy'', [])
      else if errorsIs e (Gateway ErrAccountCooling) then (''rejected'', ''account_cooling'', [])
      else if errorsIs e (Gateway ErrModelCooling) then (''rejected'', ''model_cooling'', [])
      else if errorsIs e (Gateway ErrModelConflict) then (''rejected'', ''conversation_model_conflict'', [])
      else if isAny e [Gateway ErrNoAccount, Gateway ErrAffinityUnavailable, Accounts RErrDisabled, Accounts RErrNotFound]
      then (''rejected'', ''account_unavailable'', [])
      else if errorsIs e (Groups GErrUnavailable) then (''rejected'', ''group_unavailable'', [])
      else if errorsIs e (Accounts RErrReauthorize) then (''error'', ''auth_required'', [])
      else if errorsIs e (Gateway ErrModelUnavailable) then (''rejected'', ''model_not_available'', [])
      else if errorsIs e (Gateway ErrCatalogUnavailable) then (''rejected'', ''model_catalog_unavailable'', [])
      else if errorsIs e (Gateway ErrModelNotAllowed) then (''rejected'', ''model_not_allowed'', [])
      else if isAny e [Upstream UErrInput, Upstream UErrContinuation] then (''rejected'', ''invalid_request'', [])
      else if isAny e [Upstream UErrInterrupted, Upstream UErrResponse] then (''error'', ''stream_interrupted'', ''upstream_error'')
      else if errorsIs e (Accounts RErrRefresh) then (''error'', ''refresh_failed'', [])
      else if errorsIs e (Upstream UErrUpstream) then (''error'', ''upstream_unavailable'', ''upstream_error'')
      else (''error'', ''request_failed'', []))"

text \<open>\<open>fail\<close> up to its call of \<open>finish\<close>: the request it leaves and the arguments of the call.\<close>

definition failure :: "gateway \<Rightarrow> error option \<Rightarrow> error \<Rightarrow> observation \<Rightarrow> observation \<times> classification \<times> retryValue" where
  "failure g ctx err e = (case err of
     Upstream (UpstreamError status retry limitedModel) \<Rightarrow>
       let e = e\<lparr>UpstreamStatus := Some status\<rparr>; (outcome, code, penalty) = statusOutcome status in
       if status = 429 \<and> (case modelState e of None \<Rightarrow> False | Some a \<Rightarrow> limitedModel = mk_model (objects g ! a))
       then (e\<lparr>modelLimited := True\<rparr>, (outcome, ''model_rate_limited'', []), retry)
       else (e, (outcome, code, penalty), retry)
   | _ \<Rightarrow> (e, classify ctx err, RetryNone))"

section \<open>Valid explanations\<close>

text \<open>The checks of \<open>decodeRoute\<close> on the value it decoded.\<close>

definition countsOf :: "RouteExclusions \<Rightarrow> int list" where
  "countsOf r = [X_Model r, X_Policy r, X_Quota r, X_Cooldown r, X_Concurrency r, X_Unavailable r]"

definition validRoute :: "RouteExplanation \<Rightarrow> bool" where
  "validRoute value \<longleftrightarrow> R_Version value = 1 \<and>
     R_Strategy value \<in> set [''none'', ''affinity'', ''parent'', ''rotation'', ''quota_weighted''] \<and>
     \<not> (R_Result value \<noteq> ''selected'' \<and> R_Result value \<noteq> ''rejected'') \<and>
     \<not> (R_Result value = ''selected'' \<and> (R_Strategy value = ''none'' \<or> R_Candidates value = 0)) \<and>
     list_all (\<lambda>count. \<not> (count < 0 \<or> count > maxRouteCount)) (R_Candidates value # countsOf (R_Exclusions value))"

section \<open>Lemmas\<close>

text \<open>What a request record accepts as outcome and code, and the penalties \<open>finish\<close> knows.\<close>

definition recordable :: "classification \<Rightarrow> bool" where
  "recordable c = (case c of (outcome, code, penalty) \<Rightarrow>
     outcome \<in> set [''canceled'', ''error'', ''rejected''] \<and> code \<noteq> [] \<and> length code \<le> 64 \<and>
     penalty \<in> set [[], ''timeout'', ''rate_limited'', ''upstream_error''] \<and> (penalty \<noteq> [] \<longrightarrow> outcome = ''error''))"

lemma recordable_rejected: "code \<noteq> [] \<Longrightarrow> length code \<le> 64 \<Longrightarrow> recordable (''rejected'', code, [])"
  by (simp add: recordable_def)

lemma recordable_error: "code \<noteq> [] \<Longrightarrow> length code \<le> 64 \<Longrightarrow> recordable (''error'', code, [])"
  by (simp add: recordable_def)

lemma recordable_canceled: "recordable (''canceled'', ''client_disconnected'', [])"
  by (simp add: recordable_def)

lemma recordable_penalty: "code \<noteq> [] \<Longrightarrow> length code \<le> 64 \<Longrightarrow>
    penalty \<in> set [''timeout'', ''rate_limited'', ''upstream_error''] \<Longrightarrow> recordable (''error'', code, penalty)"
  by (auto simp: recordable_def)

lemmas recordables = recordable_rejected recordable_error recordable_canceled recordable_penalty

lemma statusOutcome_recordable: "recordable (statusOutcome status)"
  by (simp add: statusOutcome_def recordables)

lemma allocText_short: "allocText e \<noteq> [] \<and> length (allocText e) \<le> 64"
  by (cases e) simp_all

text \<open>Only five sentinels are the unwrapped form of another error.\<close>

lemma Unwrap_range:
  "Unwrap e = Some t \<Longrightarrow> t \<in> set (map Gateway [ErrAccountBusy, ErrModelCooling, ErrAccountCooling, ErrMemberRate, ErrQuotaExhausted])"
  by (auto simp: Unwrap_def split: error.splits gateway_error.splits if_splits)

lemma errorsIs_leaf:
  "t \<notin> set (map Gateway [ErrAccountBusy, ErrModelCooling, ErrAccountCooling, ErrMemberRate, ErrQuotaExhausted]) \<Longrightarrow>
   errorsIs e t \<longleftrightarrow> e = t"
  using Unwrap_range [of e t] by (auto simp: errorsIs_def simp del: set_map)

lemma isAny_leaf [simp]:
  "isAny e [Content CErrBlocked, Content CErrUnavailable] \<longleftrightarrow> e = Content CErrBlocked \<or> e = Content CErrUnavailable"
  "isAny e [Gateway ErrAccountQueueFull, Gateway ErrAccountWaitTimeout] \<longleftrightarrow>
     e = Gateway ErrAccountQueueFull \<or> e = Gateway ErrAccountWaitTimeout"
  "allocationRefusal e \<longleftrightarrow> e = Alloc AErrQuota \<or> e = Alloc AErrPending \<or> e = Alloc AErrRisk \<or>
     e = Alloc AErrUnpriced \<or> e = Alloc AErrUnavailable"
  by (simp_all add: isAny_def allocationRefusal_def errorsIs_leaf)

lemma codeText_short:
  assumes "(e = Content CErrBlocked \<or> e = Content CErrUnavailable) \<or>
    (e = Alloc AErrQuota \<or> e = Alloc AErrPending \<or> e = Alloc AErrRisk \<or> e = Alloc AErrUnpriced \<or> e = Alloc AErrUnavailable) \<or>
    e = Gateway ErrAccountQueueFull \<or> e = Gateway ErrAccountWaitTimeout"
  shows "codeText e \<noteq> [] \<and> length (codeText e) \<le> 64"
  using assms by (elim disjE) simp_all

lemma recordable_if: "(b \<Longrightarrow> recordable x) \<Longrightarrow> (\<not> b \<Longrightarrow> recordable y) \<Longrightarrow> recordable (if b then x else y)"
  by simp

lemma recordable_case:
  "recordable c \<Longrightarrow> recordable (case e of Upstream (UpstreamError status retry limitedModel) \<Rightarrow> statusOutcome status | _ \<Rightarrow> c)"
  using statusOutcome_recordable by (cases e) (auto split: upstream_error.split)

lemma bump_bounds: "0 \<le> n \<Longrightarrow> n \<le> maxRouteCount \<Longrightarrow> n \<le> bump n \<and> bump n \<le> n + 1 \<and> bump n \<le> maxRouteCount"
  by (simp add: bump_def)

lemma reject_bounds:
  assumes "list_all (\<lambda>n. 0 \<le> n \<and> n \<le> maxRouteCount) (countsOf r)"
  shows "list_all (\<lambda>n. 0 \<le> n \<and> n \<le> maxRouteCount) (countsOf (reject e r)) \<and>
    list_all2 (\<lambda>n n'. n \<le> n') (countsOf r) (countsOf (reject e r)) \<and>
    sum_list (countsOf (reject e r)) \<le> sum_list (countsOf r) + 1"
proof -
  have b: "n \<le> bump n \<and> bump n \<le> n + 1 \<and> bump n \<le> maxRouteCount \<and> 0 \<le> bump n" if "0 \<le> n \<and> n \<le> maxRouteCount" for n
    using that by (auto simp: bump_def)
  show ?thesis using assms b [of "X_Model r"] b [of "X_Policy r"] b [of "X_Quota r"] b [of "X_Cooldown r"]
      b [of "X_Concurrency r"] b [of "X_Unavailable r"]
    unfolding reject_def by (simp add: countsOf_def)
qed

section \<open>Properties\<close>

text \<open>
  Every error of a request is recorded with one of the outcomes the table accepts and a code that
  is not empty and fits its column; a penalty is one of the three \<open>finish\<close> acts on, and only requests
  that end in an error carry one.
\<close>

theorem classify_type: "recordable (classify ctx e)"
  unfolding classify_def
  by (intro recordable_if recordable_case recordable_rejected recordable_error recordable_canceled recordable_penalty)
    (simp_all add: codeText_short)

end
