(* ===== verification/Gateway_Retry.thy ===== *)
theory Gateway_Retry
  imports Gateway_Route
begin

text \<open>
  The retry loop around one request to a provider (\<open>executeWithRetry\<close> of \<open>internal/gateway/retry.go\<close>).
  What happens outside the loop in its \<open>n\<close>-th round is given by \<open>attempts n\<close>: the state of the
  request's context, the answer of the provider, the clock, and the results of the checks before the
  next attempt.
\<close>

record stream =
  StatusCode :: int
  RetryAfter :: "retryValue option"

record attempt =
  at_context :: "error option"
  at_response :: "stream option result"
  at_clock :: int
  at_wait :: "error option"
  at_recheck :: "unit result"
  at_credential :: "unit result"

text \<open>\<open>min(5*time.Second, s.policy.RetryDelay<<attempt)\<close>\<close>

definition backoff :: "Policy \<Rightarrow> nat \<Rightarrow> int" where
  "backoff p n = min 5000000000 (wrap64 (RetryDelay p * 2 ^ n))"

text \<open>The wait before the next attempt; none when the provider asks for more than five seconds.\<close>

definition nextDelay :: "Policy \<Rightarrow> nat \<Rightarrow> stream \<Rightarrow> int \<Rightarrow> int option" where
  "nextDelay p n s now = (case RetryAfter s of
     None \<Rightarrow> Some (backoff p n)
   | Some retry \<Rightarrow>
       let wait = retryDelay retry now (Some (backoff p n)) * 1000000000
       in if wait > 5000000000 then None else Some (max (backoff p n) wait))"

text \<open>
  The result, the answers that were dropped for another attempt and the delays in between. The loop
  runs once more than the list of dropped answers is long.
\<close>

function executeWithRetry ::
    "Policy \<Rightarrow> (nat \<Rightarrow> attempt) \<Rightarrow> nat \<Rightarrow> stream option result \<times> (stream \<times> int) list" where
  "executeWithRetry p attempts n =
     (case at_context (attempts n) of Some e \<Rightarrow> (Inl e, [])
      | None \<Rightarrow> (case at_response (attempts n) of
          Inl e \<Rightarrow> (Inl e, [])
        | Inr None \<Rightarrow> (Inr None, [])
        | Inr (Some s) \<Rightarrow>
            if \<not> temporaryStatus (StatusCode s) \<or> int n \<ge> Retries p then (Inr (Some s), [])
            else (case nextDelay p n s (at_clock (attempts n)) of
                None \<Rightarrow> (Inr (Some s), [])
              | Some delay \<Rightarrow> (case at_wait (attempts n) of Some e \<Rightarrow> (Inl e, [(s, delay)])
                | None \<Rightarrow> (case bindR (at_recheck (attempts n)) (\<lambda>_. at_credential (attempts n)) of
                    Inl e \<Rightarrow> (Inl e, [(s, delay)])
                  | Inr _ \<Rightarrow> (case executeWithRetry p attempts (n + 1) of
                      (r, dropped) \<Rightarrow> (r, (s, delay) # dropped)))))))"
  by pat_completeness auto

termination
  by (relation "measure (\<lambda>(p, attempts, n). nat (Retries p - int n))") auto

declare executeWithRetry.simps [simp del]

section \<open>Lemmas\<close>

lemma backoff_bounds:
  assumes "Validate p" "n \<le> 3"
  shows "0 < backoff p n" "backoff p n \<le> 5000000000"
proof -
  have d: "0 < RetryDelay p" "RetryDelay p \<le> 5000000000" using assms(1) by (auto simp: Validate_def)
  have "(2::int) ^ n \<le> 2 ^ 3" using assms(2) by (intro power_increasing) auto
  then have "RetryDelay p * 2 ^ n \<le> 5000000000 * 8" using d by (intro mult_mono) auto
  moreover have "0 < RetryDelay p * 2 ^ n" using d by simp
  ultimately have "wrap64 (RetryDelay p * 2 ^ n) = RetryDelay p * 2 ^ n" by (intro wrap64_id) (auto simp: in64_def)
  then show "0 < backoff p n" using \<open>0 < RetryDelay p * 2 ^ n\<close> by (simp add: backoff_def)
  show "backoff p n \<le> 5000000000" by (simp add: backoff_def)
qed

lemma nextDelay_bounds:
  assumes "nextDelay p n s now = Some d" "Validate p" "n \<le> 3"
  shows "0 < d \<and> d \<le> 5000000000"
  using assms backoff_bounds [OF assms(2,3)] by (auto simp: nextDelay_def Let_def split: option.splits if_splits)

lemma executeWithRetry_dropped:
  "executeWithRetry p attempts n = (r, dropped) \<Longrightarrow> Validate p \<Longrightarrow>
   (dropped = [] \<or> int n + int (length dropped) \<le> Retries p) \<and>
   (\<forall>(s, d) \<in> set dropped. temporaryStatus (StatusCode s) \<and> 0 < d \<and> d \<le> 5000000000)"
proof (induction p attempts n arbitrary: r dropped rule: executeWithRetry.induct)
  case (1 p attempts n)
  note eq = "1.prems"(1) [unfolded executeWithRetry.simps [of p attempts n]]
  have small: "int n < Retries p \<Longrightarrow> n \<le> 3" using "1.prems"(2) by (auto simp: Validate_def)
  show ?case
  proof (cases "dropped = []")
    case False
    then obtain s d rest where s: "at_context (attempts n) = None" "at_response (attempts n) = Inr (Some s)"
      "temporaryStatus (StatusCode s)" "int n < Retries p" "nextDelay p n s (at_clock (attempts n)) = Some d"
      "dropped = (s, d) # rest"
      "rest = [] \<or> at_wait (attempts n) = None \<and> (\<exists>u. bindR (at_recheck (attempts n)) (\<lambda>_. at_credential (attempts n)) = Inr u) \<and>
        executeWithRetry p attempts (n + 1) = (r, rest)"
      using eq by (auto split: option.splits sum.splits if_splits prod.splits)
    have "0 < d \<and> d \<le> 5000000000" using nextDelay_bounds [OF s(5) "1.prems"(2) small [OF s(4)]] .
    moreover have "(rest = [] \<or> int (n + 1) + int (length rest) \<le> Retries p) \<and>
        (\<forall>(s, d) \<in> set rest. temporaryStatus (StatusCode s) \<and> 0 < d \<and> d \<le> 5000000000)"
    proof (cases "rest = []")
      case False
      then obtain u where u: "at_wait (attempts n) = None" "bindR (at_recheck (attempts n)) (\<lambda>_. at_credential (attempts n)) = Inr u"
        "executeWithRetry p attempts (n + 1) = (r, rest)" using s(7) by blast
      show ?thesis using s u by (intro "1.IH" [OF s(1,2) refl _ s(5) u(1,2,3) "1.prems"(2)]) auto
    qed simp
    ultimately show ?thesis using s(3,4,6) by auto
  qed simp
qed

lemma executeWithRetry_answer:
  "executeWithRetry p attempts n = (Inr (Some s), dropped) \<Longrightarrow>
   at_response (attempts (n + length dropped)) = Inr (Some s) \<and>
   (temporaryStatus (StatusCode s) \<longrightarrow> int (n + length dropped) \<ge> Retries p \<or>
      nextDelay p (n + length dropped) s (at_clock (attempts (n + length dropped))) = None)"
proof (induction p attempts n arbitrary: dropped rule: executeWithRetry.induct)
  case (1 p attempts n)
  note eq = "1.prems"(1) [unfolded executeWithRetry.simps [of p attempts n]]
  obtain t where t: "at_context (attempts n) = None" "at_response (attempts n) = Inr (Some t)"
    using eq by (auto split: option.splits sum.splits)
  show ?case
  proof (cases "dropped = []")
    case True
    then show ?thesis using eq t by (auto split: option.splits sum.splits if_splits prod.splits)
  next
    case False
    then obtain d rest u where s: "temporaryStatus (StatusCode t)" "int n < Retries p"
      "nextDelay p n t (at_clock (attempts n)) = Some d" "at_wait (attempts n) = None"
      "bindR (at_recheck (attempts n)) (\<lambda>_. at_credential (attempts n)) = Inr u"
      "executeWithRetry p attempts (n + 1) = (Inr (Some s), rest)" "dropped = (t, d) # rest"
      using eq t by (auto split: option.splits sum.splits if_splits prod.splits)
    show ?thesis using "1.IH" [OF t refl _ s(3,4,5,6)] s(1,2,7) by simp
  qed
qed

lemma delays_bound: "\<forall>(s, d) \<in> set ds. temporaryStatus (StatusCode s) \<and> 0 < d \<and> d \<le> b \<Longrightarrow>
    sum_list (map snd ds) \<le> int (length ds) * b"
  by (induction ds) (auto simp: algebra_simps)

text \<open>The witnesses run a provider that is unavailable once and then answers.\<close>

definition exampleAttempts :: "nat \<Rightarrow> attempt" where
  "exampleAttempts n = \<lparr>at_context = None,
     at_response = Inr (Some \<lparr>StatusCode = (if n = 0 then 503 else 200), RetryAfter = None\<rparr>), at_clock = 0,
     at_wait = None, at_recheck = Inr (), at_credential = Inr ()\<rparr>"

lemma exampleAttempts_run:
  "executeWithRetry DefaultPolicy exampleAttempts 0 =
    (Inr (Some \<lparr>StatusCode = 200, RetryAfter = None\<rparr>), [(\<lparr>StatusCode = 503, RetryAfter = None\<rparr>, 500000000)])"
  by code_simp

section \<open>Properties\<close>

text \<open>
  C36: The retry loop ends. Under a valid policy it drops at most the configured number of answers, at
  most three, each a temporary rejection, and waits at most five seconds for each of them.
\<close>

theorem retry_terminates:
  assumes "Validate p" "executeWithRetry p attempts 0 = (r, dropped)"
  shows "int (length dropped) \<le> Retries p \<and> length dropped \<le> 3 \<and>
    (\<forall>(s, d) \<in> set dropped. temporaryStatus (StatusCode s) \<and> 0 < d \<and> d \<le> 5000000000) \<and>
    sum_list (map snd dropped) \<le> 15000000000"
proof -
  have r: "0 \<le> Retries p" "Retries p \<le> 3" using assms(1) by (auto simp: Validate_def)
  have d: "int (length dropped) \<le> Retries p"
    "\<forall>(s, d) \<in> set dropped. temporaryStatus (StatusCode s) \<and> 0 < d \<and> d \<le> 5000000000"
    using executeWithRetry_dropped [OF assms(2,1)] r by auto
  then have "sum_list (map snd dropped) \<le> int (length dropped) * 5000000000" by (intro delays_bound)
  then show ?thesis using r d by auto
qed

theorem retry_terminates_witness:
  "int (length (snd (executeWithRetry DefaultPolicy exampleAttempts 0))) \<le> 2 \<and>
   sum_list (map snd (snd (executeWithRetry DefaultPolicy exampleAttempts 0))) \<le> 15000000000"
proof -
  have "Validate DefaultPolicy" by code_simp
  from retry_terminates [OF this exampleAttempts_run] show ?thesis
    unfolding exampleAttempts_run by (simp add: DefaultPolicy_def)
qed

text \<open>
  The answer of the loop is the answer of its last attempt, as the provider gave it. It is a
  temporary rejection only when the retries are used up or the provider asks for a longer pause
  than the gateway is willing to hold the request.
\<close>

theorem retry_answer:
  assumes "executeWithRetry p attempts 0 = (Inr (Some s), dropped)"
  shows "at_response (attempts (length dropped)) = Inr (Some s) \<and>
    (temporaryStatus (StatusCode s) \<longrightarrow> int (length dropped) \<ge> Retries p \<or>
      nextDelay p (length dropped) s (at_clock (attempts (length dropped))) = None)"
  using executeWithRetry_answer [OF assms] by simp

theorem retry_answer_witness:
  "at_response (exampleAttempts 1) = Inr (Some \<lparr>StatusCode = 200, RetryAfter = None\<rparr>)"
  using retry_answer [OF exampleAttempts_run] by simp

end
