(* ===== verification/Gateway_Affinity.thy ===== *)
theory Gateway_Affinity
  imports Gateway_Route
begin

text \<open>
  What selection reads about accounts, conversations and catalogs: the accounts of a pool
  (\<open>internal/gateway/gateway.go\<close>), the binding of a conversation to an account
  (\<open>internal/gateway/affinity.go\<close> and \<open>rememberAffinity\<close> of \<open>internal/gateway/selection.go\<close>), and whether
  the catalog of an account has a model (\<open>internal/gateway/catalog.go\<close>,
  \<open>internal/upstream/models.go\<close>).
\<close>

text \<open>
  What the service is configured with: the provider restriction, the version of the Codex client,
  the hash of the library and the time zone.
\<close>

record Host =
  codexOnly :: bool
  codexVersion :: string
  Sum256 :: "string \<Rightarrow> string"
  hostLocation :: location

definition ProviderEnabled :: "Host \<Rightarrow> string \<Rightarrow> bool" where
  "ProviderEnabled h provider \<longleftrightarrow> \<not> codexOnly h \<or> provider = ''codex''"

section \<open>Pools\<close>

definition poolAccounts' :: "store \<Rightarrow> int \<Rightarrow> int \<Rightarrow> string list result" where
  "poolAccounts' d user grp =
     bindR (CanUseGroup d user grp) (\<lambda>allowed.
     guardR (Groups GErrUnavailable) (\<not> allowed) (
     ListGroupAccounts d grp))"

section \<open>Catalogs\<close>

definition catalogSource :: "string \<Rightarrow> string \<Rightarrow> string" where
  "catalogSource provider version =
     (if provider = ''openai'' then ''openai:v3''
      else if provider = ''xai'' then ''xai:v3''
      else if provider = ''antigravity'' then ''antigravity:v3''
      else if provider = ''codex'' then ''codex:v3:'' @ version
      else provider @ '':v2'')"

text \<open>A catalog is usable for a day after it was observed.\<close>

definition catalogUsable :: "Catalog \<Rightarrow> int \<Rightarrow> bool" where
  "catalogUsable value now \<longleftrightarrow> UpdatedAt value > 0 \<and> Unix now \<ge> UpdatedAt value \<and> wrap64 (Unix now - UpdatedAt value) < 86400"

definition catalogContains :: "string list \<Rightarrow> string \<Rightarrow> bool" where
  "catalogContains models model \<longleftrightarrow> model \<in> set models \<or> CatalogModelID model \<in> set models"

text \<open>Is the answer known, and is it yes?\<close>

definition catalogSupports :: "Host \<Rightarrow> Catalog \<Rightarrow> string \<Rightarrow> string \<Rightarrow> int \<Rightarrow> bool \<times> bool" where
  "catalogSupports h value model provider now =
     (let known = catalogUsable value now;
          supported = known \<and> catalogContains (C_Models value) model
      in if \<not> supported \<and> Source value \<noteq> catalogSource provider (codexVersion h) then (False, False)
         else (known, supported))"

definition catalogSupport :: "Host \<Rightarrow> store \<Rightarrow> string \<Rightarrow> string \<Rightarrow> string \<Rightarrow> int \<Rightarrow> (bool \<times> bool) result" where
  "catalogSupport h d i model provider now =
     bindR (GetAccountCatalog d i) (\<lambda>(snapshot, revision).
     bindR (DecodeCatalog snapshot revision) (\<lambda>value.
     Inr (catalogSupports h value model provider now)))"

section \<open>Conversations\<close>

definition LegacyID :: int where
  "LegacyID = 1"

definition sessionDigest :: "Host \<Rightarrow> int \<Rightarrow> int \<Rightarrow> string \<Rightarrow> string" where
  "sessionDigest h user grp session =
     (if grp = LegacyID then Sum256 h (FormatInt user @ '':'' @ session)
      else Sum256 h (FormatInt user @ '':'' @ FormatInt grp @ '':'' @ session))"

text \<open>The binding of the scope itself, or a single binding of an older scope for the automatic one.\<close>

definition sessionBinding :: "store \<Rightarrow> int \<Rightarrow> int \<Rightarrow> string \<Rightarrow> int \<Rightarrow> string \<Rightarrow> affinity_row option result" where
  "sessionBinding d user grp hash now scope =
     bindR (ListSessionAffinities d user grp hash now) (\<lambda>bindings.
     case first_of (\<lambda>b. af_provider b = scope) bindings of Some b \<Rightarrow> Inr (Some b)
     | None \<Rightarrow>
         if scope = ''auto'' \<and> bindings \<noteq> [] then
           (if length bindings \<noteq> 1 then Inl (Gateway ErrAffinityUnavailable) else Inr (Some (hd bindings)))
         else Inr None)"

datatype affinityMode = pinnedAffinity | portableAffinity | continuationAffinity

definition rememberAffinity ::
    "store \<Rightarrow> int \<Rightarrow> int \<Rightarrow> string \<Rightarrow> string \<Rightarrow> string \<Rightarrow> string \<Rightarrow> int \<Rightarrow> int \<Rightarrow> bool \<Rightarrow> store result" where
  "rememberAffinity d user grp digest scope i model now expires rebound =
     bindR (PruneAccountAffinity d now) (\<lambda>d.
     bindR (CountAccountAffinity d) (\<lambda>count.
     guardR (Gateway ErrAffinityLimit) (count \<ge> 4096) (
     CreateAccountAffinity d \<lparr>af_user = user, af_group = grp, af_hash = digest, af_provider = scope, af_account = i,
       af_expires_at = expires, af_model = model, af_rebound = rebound\<rparr>)))"

definition preferredProvider :: "Kind \<Rightarrow> string" where
  "preferredProvider k = (case k of Messages \<Rightarrow> ''claude'' | Gemini \<Rightarrow> ''antigravity'' | GeminiStream \<Rightarrow> ''antigravity''
     | _ \<Rightarrow> ''codex'')"

end
