(* ===== verification/Gateway_Selection.thy ===== *)
theory Gateway_Selection
  imports Gateway_Affinity
begin

text \<open>
  The choice of an account for a request (\<open>internal/gateway/selection.go\<close>): the account the
  conversation is bound to, or the next candidate of the best preference tier in rotation.
\<close>

section \<open>The question\<close>

record Query =
  qu_user :: int
  qu_group :: int
  qu_session :: string
  qu_provider :: string
  qu_model :: string
  qu_kind :: Kind
  qu_scheme :: int
  qu_affinity :: affinityMode
  qu_parent :: string

text \<open>A refusal names the account it is about, if any, and carries the explanation so far.\<close>

type_synonym refusal = "string \<times> error \<times> RouteExplanation"

definition refuse :: "string \<Rightarrow> RouteExplanation \<Rightarrow> 'a result \<Rightarrow> refusal + 'a" where
  "refuse i r v = (case v of Inl e \<Rightarrow> Inl (i, e, r) | Inr x \<Rightarrow> Inr x)"

definition accountOf :: "routing_row \<Rightarrow> Account" where
  "accountOf row = \<lparr>acc_ID = rr_id row, acc_Provider = rr_provider row, Enabled = rr_enabled row, Status = rr_status row\<rparr>"

definition supports :: "Host \<Rightarrow> routing_row \<Rightarrow> string \<Rightarrow> int \<Rightarrow> (bool \<times> bool) result" where
  "supports h row model now =
     bindR (DecodeCatalog (rr_models_snapshot row) (rr_models_revision row)) (\<lambda>value.
     Inr (catalogSupports h value model (rr_provider row) now))"

definition decisionOf :: "routing_row \<Rightarrow> string \<Rightarrow> int \<Rightarrow> quotaDecision" where
  "decisionOf row model now = snapshotQuota (rr_provider row) model (rr_usage_snapshot row) (rr_usage_updated_at row) now"

definition rowQuota :: "routing_row \<Rightarrow> string \<Rightarrow> int \<Rightarrow> unit result" where
  "rowQuota row model now = admitQuota (decisionOf row model now) now"

definition checkScheme :: "Host \<Rightarrow> store \<Rightarrow> Query \<Rightarrow> int \<Rightarrow> unit result" where
  "checkScheme h d q now =
     (if qu_scheme q \<noteq> 0 then
        bindR (Check d (qu_scheme q) (qu_user q) (qu_group q) (qu_model q) (Unix now) (hostLocation h)) (\<lambda>_. Inr ())
      else Inr ())"

definition bindingModel :: "Query \<Rightarrow> string" where
  "bindingModel q = CatalogModelID (qu_model q)"

section \<open>Bound conversations\<close>

text \<open>Whether an explicit change of model may move the conversation to another account.\<close>

definition bindingCapability ::
    "Host \<Rightarrow> Query \<Rightarrow> affinity_row \<Rightarrow> routing_row \<Rightarrow> int \<Rightarrow> bool result" where
  "bindingCapability h q existing bound now =
     (if qu_model q \<noteq> [] \<and> rr_enabled bound \<and> rr_status bound \<noteq> ''reauth_required'' then
        guardR (Gateway ErrModelConflict)
          (qu_affinity q = continuationAffinity \<and> af_rebound existing \<and> af_model existing \<noteq> [] \<and>
           bindingModel q \<noteq> af_model existing) (
        bindR (supports h bound (qu_model q) now) (\<lambda>(known, supported).
        if \<not> known then Inl (Gateway ErrCatalogUnavailable)
        else if \<not> supported then
          (if qu_affinity q \<noteq> portableAffinity \<or> af_model existing = [] \<or> af_model existing = bindingModel q
           then Inl (Gateway ErrModelConflict) else Inr True)
        else Inr False))
      else Inr False)"

text \<open>The admission of the bound account.\<close>

definition admitBound :: "Host \<Rightarrow> gateway \<Rightarrow> store \<Rightarrow> ModelPolicy \<Rightarrow> Query \<Rightarrow> routing_row \<Rightarrow> int \<Rightarrow> unit result" where
  "admitBound h g d policy q bound now =
     guardR (Gateway ErrModelNotAllowed) (qu_model q \<noteq> [] \<and> \<not> AllowsResource policy (rr_provider bound) (qu_model q)) (
     bindR (accountAdmission g (accountOf bound) now) (\<lambda>_.
     bindR (modelAdmission g d (rr_id bound) (qu_model q) now) (\<lambda>_.
     bindR (rowQuota bound (qu_model q) now) (\<lambda>_.
     checkScheme h d q now))))"

text \<open>The binding lives on: a copy for the automatic scope, and a new expiry and model.\<close>

definition keepBinding :: "store \<Rightarrow> Query \<Rightarrow> string \<Rightarrow> string \<Rightarrow> affinity_row \<Rightarrow> int \<Rightarrow> int \<Rightarrow> store result" where
  "keepBinding d q digest scope existing now expires =
     (let model = (if bindingModel q = [] then af_model existing else bindingModel q) in
      bindR (if af_provider existing \<noteq> scope
             then rememberAffinity d (qu_user q) (qu_group q) digest scope (af_account existing) model now expires (af_rebound existing)
             else Inr d) (\<lambda>d.
      TouchAccountAffinity d (qu_user q) (qu_group q) digest (af_provider existing) model expires (expires - 1800)))"

text \<open>\<open>Some d\<close> keeps the account, with the database to commit; \<open>None\<close> resumes scheduling.\<close>

definition useBinding ::
    "Host \<Rightarrow> gateway \<Rightarrow> store \<Rightarrow> routing_row list \<Rightarrow> string list \<Rightarrow> ModelPolicy \<Rightarrow> Query \<Rightarrow> string \<Rightarrow> string \<Rightarrow>
     affinity_row \<Rightarrow> int \<Rightarrow> RouteExplanation \<Rightarrow> refusal + store option" where
  "useBinding h g d rows allowed policy q digest scope existing now r =
     (let i = af_account existing in
      guardR (i, Gateway ErrAffinityUnavailable, r) (i \<notin> set allowed) (
      case first_of (\<lambda>row. rr_id row = i) rows of None \<Rightarrow> Inl (i, Accounts RErrNotFound, r)
      | Some bound \<Rightarrow>
          guardR (i, Accounts RErrProviderDisabled, r) (\<not> ProviderEnabled h (rr_provider bound)) (
          guardR (i, Gateway ErrAffinityUnavailable, r) (\<not> AllowsProvider policy (rr_provider bound)) (
          guardR (i, Upstream UErrInput, r) (qu_kind q = Compact \<and> rr_provider bound \<noteq> ''codex'') (
          bindR (refuse i r (bindingCapability h q existing bound now)) (\<lambda>reselect.
          if reselect then Inr None
          else bindR (refuse i r (admitBound h g d policy q bound now)) (\<lambda>_.
            bindR (refuse [] r (keepBinding d q digest scope existing now (Unix now + 86400))) (\<lambda>d. Inr (Some d)))))))))"

section \<open>Candidates\<close>

record Scan =
  candidates :: "routing_row list"
  bestRank :: int
  busy :: bool
  unknown :: bool
  eligible :: bool
  cooling :: int
  coolingModel :: string
  quotaWait :: int
  allocationErr :: "error option"
  sc_route :: RouteExplanation

definition newScan :: "RouteExplanation \<Rightarrow> Scan" where
  "newScan r = \<lparr>candidates = [], bestRank = 4, busy = False, unknown = False, eligible = False, cooling = 0,
     coolingModel = [], quotaWait = 0, allocationErr = None, sc_route = r\<rparr>"

definition exclude :: "(RouteExclusions \<Rightarrow> RouteExclusions) \<Rightarrow> Scan \<Rightarrow> Scan" where
  "exclude f s = s\<lparr>sc_route := (sc_route s)\<lparr>R_Exclusions := f (R_Exclusions (sc_route s))\<rparr>\<rparr>"

definition unavailableRow :: "Host \<Rightarrow> routing_row \<Rightarrow> bool" where
  "unavailableRow h row \<longleftrightarrow> \<not> ProviderEnabled h (rr_provider row) \<or> \<not> rr_enabled row \<or> rr_status row = ''reauth_required''"

definition excludedRow :: "Host \<Rightarrow> string list \<Rightarrow> ModelPolicy \<Rightarrow> Query \<Rightarrow> routing_row \<Rightarrow> bool" where
  "excludedRow h allowed policy q row \<longleftrightarrow>
     \<not> ProviderEnabled h (rr_provider row) \<or> \<not> AllowsProvider policy (rr_provider row) \<or> rr_id row \<notin> set allowed \<or>
     \<not> rr_enabled row \<or> rr_status row = ''reauth_required'' \<or> (qu_provider q \<noteq> [] \<and> rr_provider row \<noteq> qu_provider q) \<or>
     (qu_kind q = Compact \<and> rr_provider row \<noteq> ''codex'')"

text \<open>A shorter wait replaces the one remembered.\<close>

definition noteCooling :: "error \<Rightarrow> Scan \<Rightarrow> Scan" where
  "noteCooling e s = (case e of Gateway (CoolingError retryAfter model) \<Rightarrow>
       if cooling s = 0 \<or> retryAfter < cooling s then s\<lparr>cooling := retryAfter, coolingModel := model\<rparr> else s
     | _ \<Rightarrow> s)"

definition isCooling :: "error \<Rightarrow> bool" where
  "isCooling e \<longleftrightarrow> (case e of Gateway (CoolingError _ _) \<Rightarrow> True | _ \<Rightarrow> False)"

definition admitCandidate :: "ModelPolicy \<Rightarrow> Query \<Rightarrow> string \<Rightarrow> routing_row \<Rightarrow> Scan \<Rightarrow> Scan" where
  "admitCandidate policy q parent row s =
     (let rank = (if rr_id row = parent then -1
                  else Rank (Routing' policy) (rr_provider row) (preferredProvider (qu_kind q)));
          s = (if rank < bestRank s then s\<lparr>candidates := [], bestRank := rank\<rparr> else s)
      in if rank = bestRank s then s\<lparr>candidates := candidates s @ [row]\<rparr> else s)"

text \<open>The checks of one account after policy and catalog; a refused account is counted and skipped.\<close>

definition admitRow ::
    "Host \<Rightarrow> gateway \<Rightarrow> store \<Rightarrow> ModelPolicy \<Rightarrow> Query \<Rightarrow> string \<Rightarrow> int \<Rightarrow> Scan \<Rightarrow> routing_row \<Rightarrow> refusal + Scan" where
  "admitRow h g d policy q parent now s row =
     (case accountAdmission g (accountOf row) now of
        Inl e \<Rightarrow> Inr (noteCooling e ((exclude (reject e) s)\<lparr>busy := (busy s \<or> errorsIs e (Gateway ErrAccountBusy))\<rparr>))
      | Inr _ \<Rightarrow> (case rowQuota row (qu_model q) now of
        Inl e \<Rightarrow> (case e of Gateway (QuotaError wait) \<Rightarrow>
              Inr ((exclude (reject e) s)\<lparr>quotaWait := (if quotaWait s = 0 \<or> wait < quotaWait s then wait else quotaWait s)\<rparr>)
            | _ \<Rightarrow> Inl ([], e, sc_route (exclude (reject e) s)))
      | Inr _ \<Rightarrow> (case modelAdmission g d (rr_id row) (qu_model q) now of
        Inl e \<Rightarrow>
          (if errorsIs e (Gateway ErrAccountBusy) then Inr ((exclude (reject e) s)\<lparr>busy := True\<rparr>)
           else if isCooling e then Inr (noteCooling e (exclude (reject e) s))
           else Inl ([], e, sc_route (exclude (reject e) s)))
      | Inr _ \<Rightarrow> (case checkScheme h d q now of
        Inl e \<Rightarrow>
          (if \<not> allocationRefusal e then Inl ([], e, sc_route s)
           else Inr ((exclude (reject e) s)\<lparr>allocationErr := Some e\<rparr>))
      | Inr _ \<Rightarrow> Inr (admitCandidate policy q parent row s)))))"

definition considerRow ::
    "Host \<Rightarrow> gateway \<Rightarrow> store \<Rightarrow> string list \<Rightarrow> ModelPolicy \<Rightarrow> Query \<Rightarrow> string \<Rightarrow> int \<Rightarrow> Scan \<Rightarrow> routing_row \<Rightarrow> refusal + Scan" where
  "considerRow h g d allowed policy q parent now s row =
     (let model = qu_model q in
      if excludedRow h allowed policy q row then
        Inr (if unavailableRow h row then exclude (\<lambda>x. x\<lparr>X_Unavailable := bump (X_Unavailable x)\<rparr>) s
             else exclude (\<lambda>x. x\<lparr>X_Policy := bump (X_Policy x)\<rparr>) s)
      else if model \<noteq> [] \<and> \<not> AllowsResource policy (rr_provider row) model
      then Inr (exclude (\<lambda>x. x\<lparr>X_Policy := bump (X_Policy x)\<rparr>) s)
      else
        let s = s\<lparr>eligible := True\<rparr> in
        if model = [] then admitRow h g d policy q parent now s row
        else bindR (refuse [] (sc_route s) (supports h row model now)) (\<lambda>(known, supported).
          if \<not> known then Inr ((exclude (\<lambda>x. x\<lparr>X_Model := bump (X_Model x)\<rparr>) s)\<lparr>unknown := True\<rparr>)
          else if \<not> supported then Inr (exclude (\<lambda>x. x\<lparr>X_Model := bump (X_Model x)\<rparr>) s)
          else admitRow h g d policy q parent now s row))"

text \<open>Why there is no candidate, the reason with the best prospects first.\<close>

definition noCandidate :: "Query \<Rightarrow> Scan \<Rightarrow> error" where
  "noCandidate q s =
     (case allocationErr s of Some e \<Rightarrow> e
      | None \<Rightarrow>
          if busy s then Gateway ErrAccountBusy
          else if cooling s > 0 then Gateway (CoolingError (cooling s) (coolingModel s))
          else if quotaWait s > 0 then Gateway (QuotaError (quotaWait s))
          else if unknown s then Gateway ErrCatalogUnavailable
          else if eligible s \<and> qu_model q \<noteq> [] then Gateway ErrModelUnavailable
          else Gateway ErrNoAccount)"

section \<open>Rotation\<close>

text \<open>Weights apply when every candidate has one and all are of one provider.\<close>

definition weights :: "(routing_row \<Rightarrow> quotaDecision) \<Rightarrow> routing_row list \<Rightarrow> nat list" where
  "weights decision rows =
     (if list_ex (\<lambda>row. rr_provider row \<noteq> rr_provider (hd rows) \<or> Weight (decision row) = 0) rows then []
      else map (\<lambda>row. nat (Weight (decision row))) rows)"

fun ticketIndex :: "nat list \<Rightarrow> nat \<Rightarrow> nat" where
  "ticketIndex [] ticket = 0"
| "ticketIndex (w # ws) ticket = (if ticket < w then 0 else Suc (ticketIndex ws (ticket - w)))"

text \<open>The index of the choice, the period of the rotation and its name.\<close>

definition nextTurn :: "nat list \<Rightarrow> nat \<Rightarrow> nat \<Rightarrow> nat \<times> nat \<times> string" where
  "nextTurn ws n cursor =
     (if sum_list ws > 0 then (ticketIndex ws (cursor mod sum_list ws), sum_list ws, ''quota_weighted'')
      else (cursor mod n, n, ''rotation''))"

definition cursorKey :: "Query \<Rightarrow> string \<Rightarrow> ModelPolicy \<Rightarrow> int \<Rightarrow> string" where
  "cursorKey q scope policy rank =
     FormatInt (qu_group q) @ '':'' @ scope @ '':'' @ Preference (Routing' policy) @ '':'' @
     preferredProvider (qu_kind q) @ '':'' @ FormatInt rank"

text \<open>The shares of the candidates, none for plain rotation.\<close>

definition shares :: "gateway \<Rightarrow> Query \<Rightarrow> int \<Rightarrow> routing_row list \<Rightarrow> nat list" where
  "shares g q now rows =
     (if QuotaWeighted (gw_policy g) \<and> length rows > 1 then weights (\<lambda>row. decisionOf row (qu_model q) now) rows else [])"

definition chooseCandidate ::
    "gateway \<Rightarrow> ModelPolicy \<Rightarrow> Query \<Rightarrow> string \<Rightarrow> string \<Rightarrow> int \<Rightarrow> Scan \<Rightarrow> routing_row \<times> RouteExplanation \<times> gateway" where
  "chooseCandidate g policy q scope parent now s =
     (let rows = candidates s; key = cursorKey q scope policy (bestRank s);
          (k, period, strategy) = nextTurn (shares g q now rows) (length rows) (cursors g key);
          row = rows ! k;
          r = (sc_route s)\<lparr>R_Strategy := strategy, R_Candidates := min maxRouteCount (int (length rows))\<rparr>
      in (row, if rr_id row = parent then r\<lparr>R_Strategy := ''parent'', R_ParentFallback := False\<rparr> else r,
          g\<lparr>cursors := (cursors g)(key := (cursors g key + 1) mod period)\<rparr>))"

section \<open>Selection\<close>

text \<open>What selection read in its transaction: the accounts, the permitted identifiers and the policy.\<close>

record Routes =
  ro_rows :: "routing_row list"
  ro_allowed :: "string list"
  ro_policy :: ModelPolicy

definition readRoutes :: "store \<Rightarrow> int \<Rightarrow> Query \<Rightarrow> Routes result" where
  "readRoutes d tenant q =
     bindR (ListRoutingAccounts d tenant (qu_group q)) (\<lambda>rows.
     bindR (poolAccounts' d (qu_user q) (qu_group q)) (\<lambda>allowed.
     bindR (ReadPolicy d (qu_user q) (qu_group q)) (\<lambda>policy.
     Inr \<lparr>ro_rows = rows, ro_allowed = allowed, ro_policy = policy\<rparr>)))"

definition requestedModel :: "Query \<Rightarrow> string" where
  "requestedModel q = (if qu_provider q \<noteq> [] then qu_provider q @ ''/'' @ qu_model q else qu_model q)"

definition scopeName :: "Query \<Rightarrow> string" where
  "scopeName q = (if qu_provider q = [] then ''auto'' else qu_provider q)"

definition firstRoute :: RouteExplanation where
  "firstRoute = noRoute\<lparr>R_Version := 1, R_Strategy := ''none'', R_Result := ''rejected''\<rparr>"

text \<open>
  The binding of the conversation. The result keeps an account, or resumes scheduling with the binding
  that is to be replaced, if any.
\<close>

datatype bound = Keep string store | Schedule "affinity_row option"

definition bindingStep ::
    "Host \<Rightarrow> gateway \<Rightarrow> store \<Rightarrow> Routes \<Rightarrow> Query \<Rightarrow> string \<Rightarrow> int \<Rightarrow> RouteExplanation \<Rightarrow> refusal + bound" where
  "bindingStep h g d ro q digest now r =
     (if qu_session q = [] then Inr (Schedule None)
      else bindR (refuse [] r (sessionBinding d (qu_user q) (qu_group q) digest (Unix now) (scopeName q))) (\<lambda>existing.
        case existing of None \<Rightarrow> Inr (Schedule None)
        | Some b \<Rightarrow>
            bindR (useBinding h g d (ro_rows ro) (ro_allowed ro) (ro_policy ro) q digest (scopeName q) b now
                (r\<lparr>R_Strategy := ''affinity''\<rparr>)) (\<lambda>kept.
            case kept of Some d \<Rightarrow> Inr (Keep (af_account b) d) | None \<Rightarrow> Inr (Schedule (Some b)))))"

text \<open>The account of the parent conversation, a preference among admitted accounts.\<close>

definition followsParent :: "Query \<Rightarrow> bool" where
  "followsParent q \<longleftrightarrow> qu_parent q \<noteq> [] \<and> qu_affinity q \<noteq> continuationAffinity"

definition parentAccount :: "Host \<Rightarrow> store \<Rightarrow> Query \<Rightarrow> int \<Rightarrow> string result" where
  "parentAccount h d q now =
     (if \<not> followsParent q then Inr []
      else case sessionBinding d (qu_user q) (qu_group q) (sessionDigest h (qu_user q) (qu_group q) (qu_parent q)) (Unix now) ''auto'' of
        Inl e \<Rightarrow> if \<not> errorsIs e (Gateway ErrAffinityUnavailable) then Inl e else Inr []
      | Inr None \<Rightarrow> Inr []
      | Inr (Some b) \<Rightarrow> Inr (af_account b))"

definition scanRows :: "Host \<Rightarrow> gateway \<Rightarrow> store \<Rightarrow> Routes \<Rightarrow> Query \<Rightarrow> string \<Rightarrow> int \<Rightarrow> RouteExplanation \<Rightarrow> refusal + Scan" where
  "scanRows h g d ro q parent now r =
     foldR (considerRow h g d (ro_allowed ro) (ro_policy ro) q parent now) (newScan r) (ro_rows ro)"

definition remember :: "store \<Rightarrow> Query \<Rightarrow> string \<Rightarrow> affinity_row option \<Rightarrow> string \<Rightarrow> int \<Rightarrow> store result" where
  "remember d q digest replacement i now =
     (let expires = Unix now + 86400; scope = scopeName q in
      if qu_session q = [] then Inr d
      else case replacement of
        Some b \<Rightarrow>
          if af_provider b = scope
          then ReplaceAccountAffinity d (qu_user q) (qu_group q) digest scope i (bindingModel q) expires
          else rememberAffinity d (qu_user q) (qu_group q) digest scope i (bindingModel q) (Unix now) expires True
      | None \<Rightarrow> rememberAffinity d (qu_user q) (qu_group q) digest scope i (bindingModel q) (Unix now) expires False)"

definition commit :: "store \<Rightarrow> store result" where
  "commit d = bindR (query d ''Commit'' ()) (\<lambda>_. Inr d)"

text \<open>Scheduling; the cursor moves on even when the new binding cannot be written.\<close>

definition schedule ::
    "Host \<Rightarrow> gateway \<Rightarrow> store \<Rightarrow> Routes \<Rightarrow> Query \<Rightarrow> string \<Rightarrow> affinity_row option \<Rightarrow> int \<Rightarrow> RouteExplanation \<Rightarrow>
     (refusal + string \<times> RouteExplanation) \<times> gateway" where
  "schedule h g d ro q digest replacement now r =
     (let r = r\<lparr>R_Strategy := ''none'', R_ParentFallback := followsParent q\<rparr> in
      case bindR (refuse [] r (parentAccount h d q now)) (\<lambda>parent.
           bindR (scanRows h g d ro q parent now r) (\<lambda>s. Inr (parent, s))) of
        Inl e \<Rightarrow> (Inl e, g)
      | Inr (parent, s) \<Rightarrow>
          if candidates s = [] then (Inl ([], noCandidate q s, sc_route s), g)
          else (case chooseCandidate g (ro_policy ro) q (scopeName q) parent now s of (row, r, g) \<Rightarrow>
            (case bindR (remember d q digest replacement (rr_id row) now) commit of
               Inl e \<Rightarrow> (Inl ([], e, r), g)
             | Inr d \<Rightarrow> (Inr (rr_id row, r), g\<lparr>db := d\<rparr>))))"

text \<open>The selection after the cooldowns are loaded and the conversation is identified.\<close>

definition selectRoute :: "Host \<Rightarrow> Query \<Rightarrow> string \<Rightarrow> int \<Rightarrow> RouteExplanation \<Rightarrow> gateway \<Rightarrow>
    (refusal + string \<times> RouteExplanation) \<times> gateway" where
  "selectRoute h q digest now r g =
     (case bindR (query (db g) ''BeginTx'' ()) (\<lambda>_. readRoutes (db g) (tenantID g) q) of
        Inl e \<Rightarrow> (Inl ([], e, r), g)
      | Inr ro \<Rightarrow>
          if qu_model q \<noteq> [] \<and> \<not> Allows (ro_policy ro) (requestedModel q)
          then (Inl ([], Gateway ErrModelNotAllowed, r\<lparr>R_Exclusions := (R_Exclusions r)
                  \<lparr>X_Policy := min maxRouteCount (int (length (ro_rows ro)))\<rparr>\<rparr>), g)
          else (case bindingStep h g (db g) ro q digest now r of
              Inl e \<Rightarrow> (Inl e, g)
            | Inr (Keep i d) \<Rightarrow> (case commit d of
                Inl e \<Rightarrow> (Inl ([], e, r\<lparr>R_Strategy := ''affinity''\<rparr>), g)
              | Inr d \<Rightarrow> (Inr (i, r\<lparr>R_Strategy := ''affinity'', R_Candidates := 1\<rparr>), g\<lparr>db := d\<rparr>))
            | Inr (Schedule replacement) \<Rightarrow> schedule h g (db g) ro q digest replacement now r))"

text \<open>The deferred explanation: a success is selected, a refusal of a bound account is counted.\<close>

definition explain :: "refusal + string \<times> RouteExplanation \<Rightarrow> string \<times> error option \<times> RouteExplanation" where
  "explain v = (case v of
     Inr (i, r) \<Rightarrow> (i, None, r\<lparr>R_Result := ''selected''\<rparr>)
   | Inl (i, e, r) \<Rightarrow>
       (i, Some e, if R_Strategy r = ''affinity'' then r\<lparr>R_Exclusions := reject e (R_Exclusions r)\<rparr> else r))"

text \<open>The account or the account of the refusal, the refusal, the explanation, and the digest.\<close>

definition selectAllocationAccount ::
    "Host \<Rightarrow> Query \<Rightarrow> string result \<Rightarrow> int \<Rightarrow> gateway \<Rightarrow> (string \<times> error option \<times> RouteExplanation) \<times> string \<times> gateway" where
  "selectAllocationAccount h q rnd now g =
     (let digest = sessionDigest h (qu_user q) (qu_group q) (qu_session q); r = firstRoute in
      if qu_user q \<le> 0 \<or> qu_group q \<le> 0 then (explain (Inl ([], Upstream UErrInput, r)), digest, g)
      else if qu_provider q \<noteq> [] \<and> \<not> ProviderEnabled h (qu_provider q)
      then (explain (Inl ([], Accounts RErrProviderDisabled, r)), digest, g)
      else (case loadRuntime now g of
          (Inl e, g) \<Rightarrow> (explain (Inl ([], e, r)), digest, g)
        | (Inr _, g) \<Rightarrow> (case (if qu_session q = [] then rnd else Inr digest) of
            Inl e \<Rightarrow> (explain (Inl ([], e, r)), digest, g)
          | Inr digest \<Rightarrow> (case selectRoute h q digest now r g of (v, g) \<Rightarrow> (explain v, digest, g)))))"

end
