(* ===== verification/Gateway_Choice.thy ===== *)
theory Gateway_Choice
  imports Gateway_Selection
begin

text \<open>
  What the selection of an account guarantees: the scan computes the admissible accounts of the best
  preference tier, a selected account passed every check, a conversation stays with its account,
  rotation serves every candidate its share, and the recorded explanation is valid.
\<close>

section \<open>The candidates\<close>

text \<open>An account that passes every check of policy and availability.\<close>

definition admissible :: "Host \<Rightarrow> gateway \<Rightarrow> store \<Rightarrow> Routes \<Rightarrow> Query \<Rightarrow> int \<Rightarrow> routing_row \<Rightarrow> bool" where
  "admissible h g d ro q now row \<longleftrightarrow>
     rr_id row \<in> set (ro_allowed ro) \<and> ProviderEnabled h (rr_provider row) \<and>
     AllowsProvider (ro_policy ro) (rr_provider row) \<and> (qu_kind q = Compact \<longrightarrow> rr_provider row = ''codex'') \<and>
     (qu_model q \<noteq> [] \<longrightarrow> AllowsResource (ro_policy ro) (rr_provider row) (qu_model q) \<and>
        supports h row (qu_model q) now = Inr (True, True)) \<and>
     accountAdmission g (accountOf row) now = Inr () \<and> rowQuota row (qu_model q) now = Inr () \<and>
     modelAdmission g d (rr_id row) (qu_model q) now = Inr () \<and> checkScheme h d q now = Inr ()"

definition candidate :: "Host \<Rightarrow> gateway \<Rightarrow> store \<Rightarrow> Routes \<Rightarrow> Query \<Rightarrow> int \<Rightarrow> routing_row \<Rightarrow> bool" where
  "candidate h g d ro q now row \<longleftrightarrow>
     admissible h g d ro q now row \<and> (qu_provider q = [] \<or> rr_provider row = qu_provider q)"

definition rankOf :: "ModelPolicy \<Rightarrow> Query \<Rightarrow> string \<Rightarrow> routing_row \<Rightarrow> int" where
  "rankOf policy q parent row =
     (if rr_id row = parent then -1 else Rank (Routing' policy) (rr_provider row) (preferredProvider (qu_kind q)))"

text \<open>The candidates of the best rank, in order: what the scan is meant to compute.\<close>

definition bestTier :: "('a \<Rightarrow> bool) \<Rightarrow> ('a \<Rightarrow> int) \<Rightarrow> 'a list \<Rightarrow> 'a list" where
  "bestTier P rank rows = filter (\<lambda>row. P row \<and> (\<forall>r' \<in> set rows. P r' \<longrightarrow> rank row \<le> rank r')) rows"

lemma bestTier_snoc_bad: "\<not> P x \<Longrightarrow> bestTier P rank (rows @ [x]) = bestTier P rank rows"
  by (auto simp: bestTier_def intro: filter_cong)

lemma bestTier_snoc:
  assumes "P x"
  shows "bestTier P rank (rows @ [x]) =
    (if \<forall>r \<in> set rows. P r \<longrightarrow> rank x \<le> rank r
     then (if \<exists>r \<in> set rows. P r \<and> rank r = rank x then bestTier P rank rows @ [x] else [x])
     else bestTier P rank rows)"
proof (cases "\<forall>r \<in> set rows. P r \<longrightarrow> rank x \<le> rank r")
  case lower: True
  show ?thesis
  proof (cases "\<exists>r \<in> set rows. P r \<and> rank r = rank x")
    case True
    then have "filter (\<lambda>row. P row \<and> (\<forall>r'\<in>set (rows @ [x]). P r' \<longrightarrow> rank row \<le> rank r')) rows = bestTier P rank rows"
      using assms by (auto simp: bestTier_def intro!: filter_cong)
    then show ?thesis using lower True assms by (auto simp: bestTier_def)
  next
    case False
    then have "filter (\<lambda>row. P row \<and> (\<forall>r'\<in>set (rows @ [x]). P r' \<longrightarrow> rank row \<le> rank r')) rows = []"
      using lower assms by (force simp: filter_empty_conv)
    then show ?thesis using lower False assms by (auto simp: bestTier_def)
  qed
next
  case False
  then obtain r where r: "r \<in> set rows" "P r" "rank r < rank x" by force
  then have "filter (\<lambda>row. P row \<and> (\<forall>r'\<in>set (rows @ [x]). P r' \<longrightarrow> rank row \<le> rank r')) rows = bestTier P rank rows"
    by (fastforce simp: bestTier_def intro!: filter_cong)
  then show ?thesis using r False by (auto simp: bestTier_def)
qed

lemma foldR_prefix:
  assumes "foldR f s xs = Inr s'" "P pre s"
    and "\<And>pre s x t. x \<in> set xs \<Longrightarrow> P pre s \<Longrightarrow> f s x = Inr t \<Longrightarrow> P (pre @ [x]) t"
  shows "P (pre @ xs) s'"
  using assms
proof (induction xs arbitrary: s pre)
  case (Cons x xs)
  then obtain t where t: "f s x = Inr t" "foldR f t xs = Inr s'" by (auto simp: bindR_eq_Inr)
  then have "P (pre @ [x]) t" using Cons.prems by auto
  then have "P ((pre @ [x]) @ xs) s'" using t(2) Cons.prems(3) by (intro Cons.IH [of t]) auto
  then show ?case by simp
qed simp

lemma candidates_exclude [simp]:
  "candidates (exclude f s) = candidates s" "bestRank (exclude f s) = bestRank s"
  by (simp_all add: exclude_def)

lemma candidates_noteCooling [simp]:
  "candidates (noteCooling e s) = candidates s" "bestRank (noteCooling e s) = bestRank s"
  by (auto simp: noteCooling_def split: error.split gateway_error.split)

lemma admitRow_cases:
  assumes "admitRow h g d policy q parent now s row = Inr t"
  shows "(accountAdmission g (accountOf row) now = Inr () \<and> rowQuota row (qu_model q) now = Inr () \<and>
      modelAdmission g d (rr_id row) (qu_model q) now = Inr () \<and> checkScheme h d q now = Inr () \<and>
      t = admitCandidate policy q parent row s) \<or>
    \<not> (accountAdmission g (accountOf row) now = Inr () \<and> rowQuota row (qu_model q) now = Inr () \<and>
      modelAdmission g d (rr_id row) (qu_model q) now = Inr () \<and> checkScheme h d q now = Inr ()) \<and>
      candidates t = candidates s \<and> bestRank t = bestRank s"
  using assms by (auto simp: admitRow_def split: sum.splits if_splits error.splits gateway_error.splits)

lemma accountAdmission_enabled:
  "accountAdmission g (accountOf row) now = Inr () \<Longrightarrow> rr_enabled row \<and> rr_status row \<noteq> ''reauth_required''"
  by (auto simp: accountAdmission_def accountOf_def split: if_splits)

lemma candidate_iff:
  "candidate h g d ro q now row \<longleftrightarrow>
     \<not> excludedRow h (ro_allowed ro) (ro_policy ro) q row \<and>
     (qu_model q \<noteq> [] \<longrightarrow> AllowsResource (ro_policy ro) (rr_provider row) (qu_model q) \<and>
        supports h row (qu_model q) now = Inr (True, True)) \<and>
     accountAdmission g (accountOf row) now = Inr () \<and> rowQuota row (qu_model q) now = Inr () \<and>
     modelAdmission g d (rr_id row) (qu_model q) now = Inr () \<and> checkScheme h d q now = Inr ()"
  unfolding candidate_def admissible_def excludedRow_def using accountAdmission_enabled by blast

lemma considerRow_cases:
  assumes "considerRow h g d (ro_allowed ro) (ro_policy ro) q parent now s row = Inr t"
  shows "(candidate h g d ro q now row \<and>
      (\<exists>s0. candidates s0 = candidates s \<and> bestRank s0 = bestRank s \<and> t = admitCandidate (ro_policy ro) q parent row s0)) \<or>
    (\<not> candidate h g d ro q now row \<and> candidates t = candidates s \<and> bestRank t = bestRank s)"
proof -
  let ?s = "s\<lparr>eligible := True\<rparr>"
  let ?adm = "\<lambda>t. admitRow h g d (ro_policy ro) q parent now ?s row = Inr t"
  have adm: "(accountAdmission g (accountOf row) now = Inr () \<and> rowQuota row (qu_model q) now = Inr () \<and>
      modelAdmission g d (rr_id row) (qu_model q) now = Inr () \<and> checkScheme h d q now = Inr () \<and>
      t = admitCandidate (ro_policy ro) q parent row ?s) \<or>
    \<not> (accountAdmission g (accountOf row) now = Inr () \<and> rowQuota row (qu_model q) now = Inr () \<and>
      modelAdmission g d (rr_id row) (qu_model q) now = Inr () \<and> checkScheme h d q now = Inr ()) \<and>
      candidates t = candidates s \<and> bestRank t = bestRank s" if "?adm t"
    using admitRow_cases [OF that] by simp
  consider "excludedRow h (ro_allowed ro) (ro_policy ro) q row" |
    "\<not> excludedRow h (ro_allowed ro) (ro_policy ro) q row" "qu_model q \<noteq> []" "\<not> AllowsResource (ro_policy ro) (rr_provider row) (qu_model q)" |
    "\<not> excludedRow h (ro_allowed ro) (ro_policy ro) q row" "qu_model q = []" |
    (model) "\<not> excludedRow h (ro_allowed ro) (ro_policy ro) q row" "qu_model q \<noteq> []" "AllowsResource (ro_policy ro) (rr_provider row) (qu_model q)"
    by blast
  then show ?thesis
  proof cases
    case 1
    then show ?thesis using assms by (auto simp: considerRow_def Let_def candidate_iff)
  next
    case 2
    then show ?thesis using assms by (auto simp: considerRow_def Let_def candidate_iff)
  next
    case 3
    then have "?adm t" using assms by (simp add: considerRow_def Let_def)
    from adm [OF this] show ?thesis using 3 by (auto simp: candidate_iff intro!: exI [of _ ?s])
  next
    case model
    then obtain known supported where sup: "supports h row (qu_model q) now = Inr (known, supported)"
      and rest: "(if \<not> known then Inr ((exclude (\<lambda>x. x\<lparr>X_Model := bump (X_Model x)\<rparr>) ?s)\<lparr>unknown := True\<rparr>)
          else if \<not> supported then Inr (exclude (\<lambda>x. x\<lparr>X_Model := bump (X_Model x)\<rparr>) ?s)
          else admitRow h g d (ro_policy ro) q parent now ?s row) = Inr t"
      using assms by (auto simp: considerRow_def Let_def bindR_eq_Inr refuse_def split: sum.splits)
    show ?thesis
    proof (cases "known \<and> supported")
      case True
      then have "?adm t" using rest by simp
      from adm [OF this] show ?thesis using model sup True by (auto simp: candidate_iff intro!: exI [of _ ?s])
    next
      case False
      then show ?thesis using rest sup model(2) by (auto simp: candidate_iff split: if_splits)
    qed
  qed
qed

lemma admitCandidate_rank:
  "admitCandidate policy q parent row s =
    (if rankOf policy q parent row < bestRank s then s\<lparr>candidates := [row], bestRank := rankOf policy q parent row\<rparr>
     else if rankOf policy q parent row = bestRank s then s\<lparr>candidates := candidates s @ [row]\<rparr> else s)"
  by (simp add: admitCandidate_def rankOf_def Let_def)

lemma rankOf_less: "rankOf policy q parent row < 4"
  by (simp add: rankOf_def Rank_def Let_def)

definition tierInv :: "('a \<Rightarrow> bool) \<Rightarrow> ('a \<Rightarrow> int) \<Rightarrow> 'a list \<Rightarrow> 'a list \<Rightarrow> int \<Rightarrow> bool" where
  "tierInv P rank pre cs best \<longleftrightarrow> cs = bestTier P rank pre \<and> (\<forall>r \<in> set pre. P r \<longrightarrow> best \<le> rank r) \<and>
     (best = 4 \<and> (\<forall>r \<in> set pre. \<not> P r) \<or> (\<exists>r \<in> set pre. P r \<and> rank r = best))"

lemma tierInv_good:
  assumes "tierInv P rank pre cs best" "P x" "rank x < 4"
  shows "tierInv P rank (pre @ [x])
    (if rank x < best then [x] else if rank x = best then cs @ [x] else cs) (if rank x < best then rank x else best)"
proof -
  consider "rank x < best" | "rank x = best" | "best < rank x" by linarith
  then show ?thesis
  proof cases
    case 1
    then show ?thesis using assms by (auto simp: tierInv_def bestTier_snoc)
  next
    case 2
    then show ?thesis using assms by (auto simp: tierInv_def bestTier_snoc)
  next
    case 3
    then have "\<not> (\<forall>r \<in> set pre. P r \<longrightarrow> rank x \<le> rank r)" using assms by (fastforce simp: tierInv_def)
    then show ?thesis using 3 assms by (auto simp: tierInv_def bestTier_snoc)
  qed
qed

lemma tierInv_bad: "tierInv P rank pre cs best \<Longrightarrow> \<not> P x \<Longrightarrow> tierInv P rank (pre @ [x]) cs best"
  by (auto simp: tierInv_def bestTier_snoc_bad)

lemma scanRows_tier:
  assumes "scanRows h g d ro q parent now r = Inr s"
  shows "tierInv (candidate h g d ro q now) (rankOf (ro_policy ro) q parent) (ro_rows ro) (candidates s) (bestRank s)"
proof -
  let ?P = "candidate h g d ro q now" and ?rank = "rankOf (ro_policy ro) q parent"
  have "tierInv ?P ?rank ([] @ ro_rows ro) (candidates s) (bestRank s)"
  proof (rule foldR_prefix [where P = "\<lambda>pre s. tierInv ?P ?rank pre (candidates s) (bestRank s)"])
    show "foldR (considerRow h g d (ro_allowed ro) (ro_policy ro) q parent now) (newScan r) (ro_rows ro) = Inr s"
      using assms by (simp add: scanRows_def)
    show "tierInv ?P ?rank [] (candidates (newScan r)) (bestRank (newScan r))"
      by (simp add: tierInv_def newScan_def bestTier_def)
    fix pre s x t
    assume inv: "tierInv ?P ?rank pre (candidates s) (bestRank s)"
      and step: "considerRow h g d (ro_allowed ro) (ro_policy ro) q parent now s x = Inr t"
    from considerRow_cases [OF step] show "tierInv ?P ?rank (pre @ [x]) (candidates t) (bestRank t)"
    proof (elim disjE conjE exE)
      fix s0
      assume "?P x" "candidates s0 = candidates s" "bestRank s0 = bestRank s" "t = admitCandidate (ro_policy ro) q parent x s0"
      then show ?thesis using tierInv_good [OF inv \<open>?P x\<close> rankOf_less] by (auto simp: admitCandidate_rank split: if_splits)
    next
      assume "\<not> ?P x" "candidates t = candidates s" "bestRank t = bestRank s"
      then show ?thesis using tierInv_bad [OF inv] by simp
    qed
  qed
  then show ?thesis by simp
qed

lemma scanRows_candidates:
  assumes "scanRows h g d ro q parent now r = Inr s"
  shows "candidates s = bestTier (candidate h g d ro q now) (rankOf (ro_policy ro) q parent) (ro_rows ro) \<and>
    (candidates s = [] \<longleftrightarrow> (\<forall>row \<in> set (ro_rows ro). \<not> candidate h g d ro q now row))"
proof -
  let ?P = "candidate h g d ro q now" and ?rank = "rankOf (ro_policy ro) q parent"
  note t = scanRows_tier [OF assms]
  have "candidates s \<noteq> []" if "row \<in> set (ro_rows ro)" "?P row" for row
  proof -
    from t that obtain r where "r \<in> set (ro_rows ro)" "?P r" "?rank r = bestRank s"
      "\<forall>r \<in> set (ro_rows ro). ?P r \<longrightarrow> bestRank s \<le> ?rank r" by (auto simp: tierInv_def)
    then have "r \<in> set (candidates s)" using t by (auto simp: tierInv_def bestTier_def)
    then show ?thesis by auto
  qed
  then show ?thesis using t by (auto simp: tierInv_def bestTier_def filter_empty_conv)
qed

section \<open>Soundness\<close>

lemma refuse_Inr: "refuse i r v = Inr x \<longleftrightarrow> v = Inr x"
  by (auto simp: refuse_def split: sum.splits)

lemma admitBound_Inr:
  assumes "admitBound h g d policy q row now = Inr ()"
  shows "(qu_model q \<noteq> [] \<longrightarrow> AllowsResource policy (rr_provider row) (qu_model q)) \<and>
    accountAdmission g (accountOf row) now = Inr () \<and> rowQuota row (qu_model q) now = Inr () \<and>
    modelAdmission g d (rr_id row) (qu_model q) now = Inr () \<and> checkScheme h d q now = Inr ()"
  using assms by (auto simp: admitBound_def guardR_eq_Inr bindR_eq_Inr)

lemma useBinding_keeps:
  assumes "useBinding h g d (ro_rows ro) (ro_allowed ro) (ro_policy ro) q digest scope b now r = Inr (Some d')"
  shows "\<exists>row \<in> set (ro_rows ro). rr_id row = af_account b \<and> admissible h g d ro q now row"
proof -
  obtain row where row: "first_of (\<lambda>row. rr_id row = af_account b) (ro_rows ro) = Some row"
    using assms by (auto simp: useBinding_def Let_def guardR_eq_Inr split: option.splits)
  then have in_rows: "row \<in> set (ro_rows ro)" "rr_id row = af_account b" using first_of_SomeD [OF row] by auto
  have a: "af_account b \<in> set (ro_allowed ro)" "ProviderEnabled h (rr_provider row)"
    "AllowsProvider (ro_policy ro) (rr_provider row)" "qu_kind q = Compact \<longrightarrow> rr_provider row = ''codex''"
    "bindingCapability h q b row now = Inr False" "admitBound h g d (ro_policy ro) q row now = Inr ()"
    using assms row by (auto simp: useBinding_def Let_def guardR_eq_Inr bindR_eq_Inr refuse_Inr split: if_splits)
  have "rr_enabled row \<and> rr_status row \<noteq> ''reauth_required''"
    using admitBound_Inr [OF a(6)] accountAdmission_enabled by blast
  then have "qu_model q \<noteq> [] \<longrightarrow> supports h row (qu_model q) now = Inr (True, True)"
    using a(5) by (auto simp: bindingCapability_def guardR_eq_Inr bindR_eq_Inr split: if_splits)
  then have "admissible h g d ro q now row"
    using a(1-4) admitBound_Inr [OF a(6)] in_rows(2) unfolding admissible_def by simp
  then show ?thesis using in_rows by blast
qed

lemma useBinding_moves:
  assumes "useBinding h g d (ro_rows ro) (ro_allowed ro) (ro_policy ro) q digest scope b now r = Inr None"
  shows "qu_affinity q = portableAffinity \<and> af_model b \<noteq> [] \<and> af_model b \<noteq> bindingModel q"
proof -
  obtain row where row: "bindingCapability h q b row now = Inr True"
    using assms by (auto simp: useBinding_def Let_def guardR_eq_Inr bindR_eq_Inr refuse_Inr split: option.splits if_splits)
  then show ?thesis by (auto simp: bindingCapability_def guardR_eq_Inr bindR_eq_Inr split: if_splits)
qed

lemma ticketIndex_less: "ticket < sum_list ws \<Longrightarrow> ticketIndex ws ticket < length ws"
  by (induction ws ticket rule: ticketIndex.induct) auto

lemma nextTurn_index:
  assumes "0 < n" "ws = [] \<or> length ws = n" "nextTurn ws n c = (k, period, name)"
  shows "k < n \<and> 0 < period"
proof (cases "0 < sum_list ws")
  case True
  then have "ticketIndex ws (c mod sum_list ws) < length ws" by (intro ticketIndex_less) simp
  then show ?thesis using True assms by (auto simp: nextTurn_def)
next
  case False
  then have "nextTurn ws n c = (c mod n, n, ''rotation'')" unfolding nextTurn_def by (rule if_not_P)
  then show ?thesis using assms by auto
qed

lemma chooseCandidate_in:
  assumes "candidates s \<noteq> []" "chooseCandidate g policy q scope parent now s = (row, r, g')"
  shows "row \<in> set (candidates s) \<and> (\<exists>c. g' = g\<lparr>cursors := c\<rparr>)"
proof -
  let ?rows = "candidates s"
  let ?ws = "shares g q now ?rows"
  obtain k period strategy where rot: "nextTurn ?ws (length ?rows) (cursors g (cursorKey q scope policy (bestRank s))) = (k, period, strategy)"
    by (metis prod_cases3)
  have "?ws = [] \<or> length ?ws = length ?rows" by (simp add: shares_def weights_def)
  then have "k < length ?rows" using nextTurn_index [OF _ _ rot] assms(1) by auto
  moreover have "row = ?rows ! k" "\<exists>c. g' = g\<lparr>cursors := c\<rparr>" using assms(2) rot by (auto simp: chooseCandidate_def Let_def)
  ultimately show ?thesis by auto
qed

lemma schedule_sound:
  assumes "schedule h g d ro q digest replacement now r = (Inr (i, r'), g')"
  shows "\<exists>row \<in> set (ro_rows ro). rr_id row = i \<and> candidate h g d ro q now row"
proof -
  obtain parent s r0 row r1 g1 where s: "scanRows h g d ro q parent now r0 = Inr s" "candidates s \<noteq> []"
    "chooseCandidate g (ro_policy ro) q (scopeName q) parent now s = (row, r1, g1)" "i = rr_id row"
    using assms by (auto simp: schedule_def Let_def bindR_eq_Inr refuse_Inr split: sum.splits if_splits prod.splits)
  then have "row \<in> set (candidates s)" using chooseCandidate_in by blast
  then show ?thesis using scanRows_candidates [OF s(1)] s(4) by (auto simp: bestTier_def)
qed

lemma selectRoute_sound:
  assumes "selectRoute h q digest now r g = (Inr (i, r'), g')"
  obtains ro row where "readRoutes (db g) (tenantID g) q = Inr ro" "row \<in> set (ro_rows ro)" "rr_id row = i"
    "admissible h g (db g) ro q now row" "qu_model q \<noteq> [] \<Longrightarrow> Allows (ro_policy ro) (requestedModel q)"
proof -
  obtain ro where ro: "readRoutes (db g) (tenantID g) q = Inr ro"
    and allows: "qu_model q \<noteq> [] \<Longrightarrow> Allows (ro_policy ro) (requestedModel q)"
    using assms by (auto simp: selectRoute_def bindR_eq_Inr split: sum.splits if_splits)
  have "\<exists>row \<in> set (ro_rows ro). rr_id row = i \<and> admissible h g (db g) ro q now row"
  proof (cases "bindingStep h g (db g) ro q digest now r")
    case (Inl e)
    then show ?thesis using assms ro allows by (auto simp: selectRoute_def bindR_def split: sum.splits if_splits)
  next
    case (Inr v)
    show ?thesis
    proof (cases v)
      case (Keep j d)
      then obtain b d' where "useBinding h g (db g) (ro_rows ro) (ro_allowed ro) (ro_policy ro) q digest (scopeName q) b now
          (r\<lparr>R_Strategy := ''affinity''\<rparr>) = Inr (Some d')" "j = af_account b"
        using Inr by (auto simp: bindingStep_def bindR_eq_Inr split: if_splits option.splits)
      from useBinding_keeps [OF this(1)] this(2)
      show ?thesis using assms ro Inr Keep by (auto simp: selectRoute_def bindR_def split: sum.splits if_splits)
    next
      case (Schedule replacement)
      then have "schedule h g (db g) ro q digest replacement now r = (Inr (i, r'), g')"
        using assms ro Inr by (auto simp: selectRoute_def bindR_def split: sum.splits if_splits)
      from schedule_sound [OF this] show ?thesis by (auto simp: candidate_def)
    qed
  qed
  then show thesis using that ro allows by blast
qed

lemma selectAllocationAccount_Inr:
  assumes "selectAllocationAccount h q rnd now g = ((i, None, r), digest, g')"
  obtains l r0 where "loadRuntime now g = (Inr (), l)" "selectRoute h q digest now firstRoute l = (Inr (i, r0), g')"
    "r = r0\<lparr>R_Result := ''selected''\<rparr>" "0 < qu_user q" "0 < qu_group q" "qu_provider q \<noteq> [] \<Longrightarrow> ProviderEnabled h (qu_provider q)"
    "qu_session q \<noteq> [] \<Longrightarrow> digest = sessionDigest h (qu_user q) (qu_group q) (qu_session q)"
  using assms by (auto simp: selectAllocationAccount_def Let_def explain_def split: if_splits prod.splits sum.splits)

section \<open>Rotation\<close>

text \<open>The candidates that consecutive selections over the same candidates choose.\<close>

primrec turns :: "(gateway \<Rightarrow> routing_row \<times> RouteExplanation \<times> gateway) \<Rightarrow> nat \<Rightarrow> gateway \<Rightarrow> routing_row list" where
  "turns f 0 g = []"
| "turns f (Suc n) g = (case f g of (row, r, g') \<Rightarrow> row # turns f n g')"

definition period :: "nat list \<Rightarrow> nat \<Rightarrow> nat" where
  "period ws n = (if sum_list ws > 0 then sum_list ws else n)"

definition turnIndex :: "nat list \<Rightarrow> nat \<Rightarrow> nat \<Rightarrow> nat" where
  "turnIndex ws n cursor = (if sum_list ws > 0 then ticketIndex ws (cursor mod sum_list ws) else cursor mod n)"

lemma nextTurn_parts: "fst (nextTurn ws n c) = turnIndex ws n c" "fst (snd (nextTurn ws n c)) = period ws n"
  by (cases "sum_list ws > 0"; simp_all only: nextTurn_def turnIndex_def period_def if_True if_False fst_conv snd_conv)+

lemma turnIndex_mod: "turnIndex ws n (c mod period ws n) = turnIndex ws n c"
  by (cases "sum_list ws > 0"; simp only: turnIndex_def period_def if_True if_False mod_mod_trivial)

lemma turns_indices:
  assumes "\<And>g. f g = (rows ! turnIndex ws n (cursors g key), e g,
      g\<lparr>cursors := (cursors g)(key := (cursors g key + 1) mod period ws n)\<rparr>) \<or> \<not> same g"
    and "\<And>g c. same g \<Longrightarrow> same (g\<lparr>cursors := c\<rparr>)" and "same g"
  shows "turns f m g = map (\<lambda>k. rows ! turnIndex ws n (cursors g key + k)) [0..<m]"
  using assms(3)
proof (induction m arbitrary: g)
  case (Suc m)
  let ?g = "g\<lparr>cursors := (cursors g)(key := (cursors g key + 1) mod period ws n)\<rparr>"
  have "turnIndex ws n ((cursors g key + 1) mod period ws n + k) = turnIndex ws n (cursors g key + (k + 1))" for k
  proof -
    have "((cursors g key + 1) mod period ws n + k) mod period ws n = (cursors g key + (k + 1)) mod period ws n"
      by (metis add.assoc add.commute mod_add_left_eq)
    then show ?thesis by (metis turnIndex_mod)
  qed
  then have "turns f m ?g = map (\<lambda>k. rows ! turnIndex ws n (cursors g key + (k + 1))) [0..<m]"
    using Suc.IH [of ?g] Suc.prems assms(2) by simp
  moreover have "[0..<Suc m] = 0 # map Suc [0..<m]" by (simp add: map_Suc_upt upt_conv_Cons)
  ultimately show ?case using assms(1) [of g] Suc.prems by (auto simp: comp_def)
qed simp

lemma count_shift: "count_list (map (\<lambda>k. (c + k) mod p) [0..<p]) i = count_list [0..<p] (i::nat)"
proof -
  have "map (\<lambda>k. (c + k) mod p) [0..<p] = rotate c [0..<p]"
    by (rule nth_equalityI) (auto simp: nth_rotate add.commute)
  moreover have "mset (rotate c xs) = mset xs" for xs :: "nat list"
    by (metis rotate_drop_take mset_append append_take_drop_id add.commute)
  ultimately show ?thesis by (metis count_mset)
qed

lemma count_ticket: "i < length ws \<Longrightarrow> count_list (map (ticketIndex ws) [0..<sum_list ws]) i = ws ! i"
proof (induction ws arbitrary: i)
  case (Cons w ws)
  have split: "[0..<sum_list (w # ws)] = [0..<w] @ map (\<lambda>t. w + t) [0..<sum_list ws]"
  proof -
    have "[0..<w + sum_list ws] = [0..<w] @ [w..<w + sum_list ws]" by (rule upt_add_eq_append) simp
    moreover have "[w..<w + sum_list ws] = map (\<lambda>t. w + t) [0..<sum_list ws]" by (rule nth_equalityI) auto
    ultimately show ?thesis by simp
  qed
  have a: "map (ticketIndex (w # ws)) [0..<w] = replicate w 0" by (rule nth_equalityI) auto
  have b: "map (ticketIndex (w # ws)) (map (\<lambda>t. w + t) [0..<sum_list ws]) = map Suc (map (ticketIndex ws) [0..<sum_list ws])"
    by simp
  have rep: "count_list (replicate w (0::nat)) j = (if j = 0 then w else 0)" for j by (induction w) auto
  have suc: "count_list (map Suc xs) j = (case j of 0 \<Rightarrow> 0 | Suc j \<Rightarrow> count_list xs j)" for xs j
    by (induction xs) (auto split: nat.split)
  show ?case unfolding split map_append a b using Cons by (cases i) (auto simp: rep suc simp del: map_map)
qed simp

lemma count_map_nth:
  assumes "distinct rows" "i < length rows" "\<And>k. k \<in> set ks \<Longrightarrow> f k < length rows"
  shows "count_list (map (\<lambda>k. rows ! f k) ks) (rows ! i) = count_list (map f ks) i"
  using assms(3) by (induction ks) (auto simp: nth_eq_iff_index_eq assms(1,2))

lemma turn_shares:
  assumes "0 < n" "ws = [] \<or> length ws = n" "i < n"
  shows "count_list (map (\<lambda>k. turnIndex ws n (c + k)) [0..<period ws n]) i = (if sum_list ws > 0 then ws ! i else 1)"
proof -
  let ?p = "period ws n"
  have p: "0 < ?p" using assms(1) by (simp add: period_def)
  have eq: "map (\<lambda>k. turnIndex ws n (c + k)) [0..<?p] = map (turnIndex ws n) (map (\<lambda>k. (c + k) mod ?p) [0..<?p])"
    by (simp add: turnIndex_mod)
  have "mset (map (\<lambda>k. (c + k) mod ?p) [0..<?p]) = mset [0..<?p]"
    by (rule multiset_eqI) (simp only: count_mset count_shift)
  then have "mset (map (turnIndex ws n) (map (\<lambda>k. (c + k) mod ?p) [0..<?p])) = mset (map (turnIndex ws n) [0..<?p])"
    by (metis mset_map)
  then have "count_list (map (\<lambda>k. turnIndex ws n (c + k)) [0..<?p]) i = count_list (map (turnIndex ws n) [0..<?p]) i"
    unfolding eq by (metis count_mset)
  also have "\<dots> = (if sum_list ws > 0 then ws ! i else 1)"
  proof (cases "sum_list ws > 0")
    case True
    then have "length ws = n" using assms(2) by auto
    have "map (turnIndex ws n) [0..<?p] = map (ticketIndex ws) [0..<sum_list ws]"
      using True by (auto simp: turnIndex_def period_def)
    then show ?thesis using True count_ticket [of i ws] assms(3) \<open>length ws = n\<close> by simp
  next
    case False
    have "map (turnIndex ws n) [0..<?p] = [0..<n]"
      unfolding turnIndex_def period_def using False by (simp only: if_False) (rule map_idI, simp)
    moreover have "count_list [0..<n] i = 1" using assms(3) by (simp add: distinct_count_atmost_1 [THEN iffD1] flip: count_mset)
    ultimately show ?thesis using False by (simp only: if_False)
  qed
  finally show ?thesis .
qed

lemma chooseCandidate_turn:
  "chooseCandidate g policy q scope parent now s =
    (candidates s ! turnIndex (shares g q now (candidates s)) (length (candidates s)) (cursors g (cursorKey q scope policy (bestRank s))),
     fst (snd (chooseCandidate g policy q scope parent now s)),
     g\<lparr>cursors := (cursors g)(cursorKey q scope policy (bestRank s) :=
       (cursors g (cursorKey q scope policy (bestRank s)) + 1) mod period (shares g q now (candidates s)) (length (candidates s)))\<rparr>)"
proof -
  let ?rows = "candidates s" and ?ws = "shares g q now (candidates s)" and ?c = "cursors g (cursorKey q scope policy (bestRank s))"
  obtain k p name where t: "nextTurn ?ws (length ?rows) ?c = (k, p, name)" by (metis prod_cases3)
  then have "k = turnIndex ?ws (length ?rows) ?c" "p = period ?ws (length ?rows)"
    using nextTurn_parts [of ?ws "length ?rows" ?c] by simp_all
  then show ?thesis using t by (simp add: chooseCandidate_def Let_def)
qed

lemma shares_cursors [simp]: "shares (g\<lparr>cursors := c\<rparr>) q now rows = shares g q now rows"
  by (simp add: shares_def)

lemma shares_weight:
  assumes "shares g q now rows \<noteq> []" "i < length rows"
  shows "shares g q now rows ! i = nat (Weight (decisionOf (rows ! i) (qu_model q) now))"
    and "0 < Weight (decisionOf (rows ! i) (qu_model q) now)"
proof -
  have all: "\<not> list_ex (\<lambda>row. rr_provider row \<noteq> rr_provider (hd rows) \<or> Weight (decisionOf row (qu_model q) now) = 0) rows"
    using assms(1) by (auto simp: shares_def weights_def split: if_splits)
  then show "shares g q now rows ! i = nat (Weight (decisionOf (rows ! i) (qu_model q) now))"
    using assms by (auto simp: shares_def weights_def split: if_splits)
  have "Weight (decisionOf (rows ! i) (qu_model q) now) \<noteq> 0" using all assms(2) by (auto simp: list_ex_iff)
  then show "0 < Weight (decisionOf (rows ! i) (qu_model q) now)"
    using snapshotQuota_weighed [of "rr_provider (rows ! i)" "qu_model q" "rr_usage_snapshot (rows ! i)" "rr_usage_updated_at (rows ! i)" now]
    by (simp add: decisionOf_def weighed_def)
qed

section \<open>Explanations\<close>

text \<open>An explanation in progress: valid, and not yet marked as selected.\<close>

definition openRoute :: "RouteExplanation \<Rightarrow> bool" where
  "openRoute r \<longleftrightarrow> validRoute r \<and> R_Result r = ''rejected''"

definition boundedCounts :: "RouteExclusions \<Rightarrow> bool" where
  "boundedCounts x \<longleftrightarrow> list_all (\<lambda>n. 0 \<le> n \<and> n \<le> maxRouteCount) (countsOf x)"

lemma openRoute_iff:
  "openRoute r \<longleftrightarrow> R_Version r = 1 \<and> R_Strategy r \<in> set [''none'', ''affinity'', ''parent'', ''rotation'', ''quota_weighted''] \<and>
     R_Result r = ''rejected'' \<and> 0 \<le> R_Candidates r \<and> R_Candidates r \<le> maxRouteCount \<and> boundedCounts (R_Exclusions r)"
  by (auto simp: openRoute_def validRoute_def boundedCounts_def list_all_iff not_less)

lemma openRoute_first: "openRoute firstRoute"
  by (simp add: openRoute_iff firstRoute_def noRoute_def boundedCounts_def countsOf_def maxRouteCount_def)

lemma openRoute_strategy:
  "openRoute r \<Longrightarrow> st \<in> set [''none'', ''affinity'', ''parent'', ''rotation'', ''quota_weighted''] \<Longrightarrow> openRoute (r\<lparr>R_Strategy := st\<rparr>)"
  by (simp add: openRoute_iff)

lemma openRoute_exclusions: "openRoute r \<Longrightarrow> boundedCounts x \<Longrightarrow> openRoute (r\<lparr>R_Exclusions := x\<rparr>)"
  by (simp add: openRoute_iff)

lemma openRoute_fallback: "openRoute (r\<lparr>R_ParentFallback := b\<rparr>) = openRoute r"
  by (simp add: openRoute_iff)

lemma boundedCounts_reject: "boundedCounts x \<Longrightarrow> boundedCounts (reject e x)"
  using reject_bounds [of x e] by (simp add: boundedCounts_def)

lemma boundedCounts_bumps:
  assumes "boundedCounts x"
  shows "boundedCounts (x\<lparr>X_Model := bump (X_Model x)\<rparr>)" "boundedCounts (x\<lparr>X_Policy := bump (X_Policy x)\<rparr>)"
    "boundedCounts (x\<lparr>X_Unavailable := bump (X_Unavailable x)\<rparr>)"
  using assms by (auto simp: boundedCounts_def countsOf_def bump_def maxRouteCount_def)

lemma openRoute_exclude:
  assumes "openRoute (sc_route s)" "boundedCounts (R_Exclusions (sc_route s)) \<Longrightarrow> boundedCounts (f (R_Exclusions (sc_route s)))"
  shows "openRoute (sc_route (exclude f s))"
  using assms by (simp add: exclude_def openRoute_iff)

lemma sc_route_noteCooling [simp]: "sc_route (noteCooling e s) = sc_route s"
  by (auto simp: noteCooling_def split: error.split gateway_error.split)

lemma sc_route_admitCandidate [simp]: "sc_route (admitCandidate policy q parent row s) = sc_route s"
  by (simp add: admitCandidate_def Let_def)

text \<open>The explanation a step of the scan leaves, as a refusal or in the scan.\<close>

definition leftRoute :: "refusal + Scan \<Rightarrow> RouteExplanation" where
  "leftRoute v = (case v of Inl (i, e, r) \<Rightarrow> r | Inr t \<Rightarrow> sc_route t)"

lemma admitRow_route:
  assumes "openRoute (sc_route s)"
  shows "openRoute (leftRoute (admitRow h g d policy q parent now s row))"
  using assms openRoute_exclude [OF assms boundedCounts_reject]
  by (auto simp: admitRow_def leftRoute_def split: sum.split if_split error.split gateway_error.split)

lemma considerRow_route:
  assumes "openRoute (sc_route s)"
  shows "openRoute (leftRoute (considerRow h g d allowed policy q parent now s row))"
proof -
  let ?s = "s\<lparr>eligible := True\<rparr>"
  have x: "openRoute (sc_route (exclude (\<lambda>x. x\<lparr>X_Model := bump (X_Model x)\<rparr>) ?s))"
    "openRoute (sc_route (exclude (\<lambda>x. x\<lparr>X_Policy := bump (X_Policy x)\<rparr>) s))"
    "openRoute (sc_route (exclude (\<lambda>x. x\<lparr>X_Unavailable := bump (X_Unavailable x)\<rparr>) s))"
    using assms boundedCounts_bumps by (auto intro!: openRoute_exclude)
  have a: "openRoute (leftRoute (admitRow h g d policy q parent now ?s row))" using assms by (intro admitRow_route) simp
  show ?thesis using x a assms
    by (auto simp: considerRow_def Let_def bindR_def refuse_def leftRoute_def split: sum.splits prod.splits if_splits)
qed

lemma scanRows_route:
  assumes "openRoute r"
  shows "openRoute (leftRoute (scanRows h g d ro q parent now r))"
proof -
  have "openRoute (sc_route s) \<Longrightarrow>
      openRoute (leftRoute (foldR (considerRow h g d (ro_allowed ro) (ro_policy ro) q parent now) s rows))" for s rows
  proof (induction rows arbitrary: s)
    case (Cons row rows)
    note c = considerRow_route [OF Cons.prems, of h g d "ro_allowed ro" "ro_policy ro" q parent now row]
    then show ?case using Cons.IH
      by (cases "considerRow h g d (ro_allowed ro) (ro_policy ro) q parent now s row") (auto simp: leftRoute_def)
  qed (simp add: leftRoute_def)
  then show ?thesis using assms by (simp add: scanRows_def newScan_def)
qed

definition explained :: "refusal + string \<times> RouteExplanation \<Rightarrow> bool" where
  "explained v \<longleftrightarrow> (case v of Inl (i, e, r) \<Rightarrow> openRoute r
     | Inr (i, r) \<Rightarrow> openRoute r \<and> R_Strategy r \<noteq> ''none'' \<and> R_Candidates r \<noteq> 0)"

lemma openRoute_selected:
  "openRoute r \<Longrightarrow> R_Strategy r \<noteq> ''none'' \<Longrightarrow> R_Candidates r \<noteq> 0 \<Longrightarrow> validRoute (r\<lparr>R_Result := ''selected''\<rparr>)"
  by (simp add: openRoute_def validRoute_def countsOf_def)

lemma explain_valid:
  assumes "explained v" "explain v = (i, e, r)"
  shows "validRoute r \<and> (R_Result r = ''selected'' \<longleftrightarrow> e = None)"
proof (cases v)
  case (Inl a)
  obtain j e' r' where a: "a = (j, e', r')" by (metis prod_cases3)
  have r': "openRoute r'" using assms(1) by (simp add: Inl a explained_def)
  then have "openRoute (r'\<lparr>R_Exclusions := reject e' (R_Exclusions r')\<rparr>)"
    by (intro openRoute_exclusions boundedCounts_reject) (simp_all add: openRoute_iff)
  then have "openRoute r" "e = Some e'" using assms(2) r' unfolding Inl a explain_def by (simp_all split: if_splits)
  then show ?thesis by (simp add: openRoute_def)
next
  case (Inr a)
  obtain j r' where a: "a = (j, r')" by (cases a)
  have "openRoute r'" "R_Strategy r' \<noteq> ''none''" "R_Candidates r' \<noteq> 0" using assms(1) by (simp_all add: Inr a explained_def)
  then show ?thesis using openRoute_selected assms(2) by (auto simp: Inr a explain_def)
qed

lemma useBinding_route: "useBinding h g d rows allowed policy q digest scope b now r = Inl (i, e, r') \<Longrightarrow> r' = r"
  by (auto simp: useBinding_def Let_def guardR_def bindR_def refuse_def split: option.splits if_splits sum.splits)

lemma nextTurn_name: "nextTurn ws n c = (k, p, name) \<Longrightarrow> name = ''quota_weighted'' \<or> name = ''rotation''"
  by (cases "sum_list ws > 0") (simp_all only: nextTurn_def if_True if_False prod.inject, blast+)

lemma chooseCandidate_route:
  assumes "openRoute (sc_route s)" "candidates s \<noteq> []" "chooseCandidate g policy q scope parent now s = (row, r, g')"
  shows "openRoute r \<and> R_Strategy r \<noteq> ''none'' \<and> R_Candidates r \<noteq> 0"
proof -
  obtain k p name where t: "nextTurn (shares g q now (candidates s)) (length (candidates s))
      (cursors g (cursorKey q scope policy (bestRank s))) = (k, p, name)" by (metis prod_cases3)
  have name: "name = ''quota_weighted'' \<or> name = ''rotation''" by (rule nextTurn_name [OF t])
  let ?r = "(sc_route s)\<lparr>R_Strategy := name, R_Candidates := min maxRouteCount (int (length (candidates s)))\<rparr>"
  have c: "0 < min maxRouteCount (int (length (candidates s)))" "min maxRouteCount (int (length (candidates s))) \<noteq> 0"
    using assms(2) by (auto simp: maxRouteCount_def min_def)
  have "openRoute ?r" using assms(1) name c by (elim disjE) (simp_all add: openRoute_iff)
  moreover have "r = (if rr_id row = parent then ?r\<lparr>R_Strategy := ''parent'', R_ParentFallback := False\<rparr> else ?r)"
    using assms(3) t unfolding chooseCandidate_def Let_def by (simp split: if_splits)
  moreover have "openRoute (?r\<lparr>R_Strategy := ''parent'', R_ParentFallback := False\<rparr>)"
    using \<open>openRoute ?r\<close> by (simp add: openRoute_iff)
  ultimately show ?thesis using name c by (elim disjE) simp_all
qed

lemma schedule_explained:
  assumes "openRoute r"
  shows "explained (fst (schedule h g d ro q digest replacement now r))"
proof -
  let ?r = "r\<lparr>R_Strategy := ''none'', R_ParentFallback := followsParent q\<rparr>"
  have r: "openRoute ?r" using assms by (simp add: openRoute_iff)
  show ?thesis
  proof (cases "parentAccount h d q now")
    case (Inl e)
    then show ?thesis using r by (simp add: schedule_def refuse_def explained_def)
  next
    case (Inr parent)
    note sr = scanRows_route [OF r, of h g d ro q parent now]
    show ?thesis
    proof (cases "scanRows h g d ro q parent now ?r")
      case (Inl e)
      then show ?thesis using sr Inr by (cases e) (simp add: schedule_def refuse_def explained_def leftRoute_def)
    next
      case s: (Inr s)
      then have o: "openRoute (sc_route s)" using sr by (simp add: leftRoute_def)
      obtain row r' g' where ch: "chooseCandidate g (ro_policy ro) q (scopeName q) parent now s = (row, r', g')" by (metis prod_cases3)
      show ?thesis
      proof (cases "candidates s = []")
        case True
        then show ?thesis using o Inr s by (simp add: schedule_def refuse_def explained_def)
      next
        case False
        then show ?thesis using chooseCandidate_route [OF o False ch] Inr s ch
          by (simp add: schedule_def refuse_def explained_def split: sum.split)
      qed
    qed
  qed
qed

lemma bindingStep_route:
  assumes "openRoute r" "bindingStep h g d ro q digest now r = Inl (i, e, r')"
  shows "openRoute r'"
proof -
  have "openRoute (r\<lparr>R_Strategy := ''affinity''\<rparr>)" using assms(1) by (simp add: openRoute_iff)
  moreover have "r' = r \<or> r' = r\<lparr>R_Strategy := ''affinity''\<rparr>"
    using assms(2) by (auto simp: bindingStep_def refuse_def bindR_eq_Inl dest: useBinding_route split: if_splits sum.splits option.splits)
  ultimately show ?thesis using assms(1) by auto
qed

lemma selectRoute_explained:
  assumes "openRoute r"
  shows "explained (fst (selectRoute h q digest now r g))"
proof (cases "bindR (query (db g) ''BeginTx'' ()) (\<lambda>_. readRoutes (db g) (tenantID g) q)")
  case (Inl e)
  then show ?thesis using assms by (simp add: selectRoute_def explained_def)
next
  case (Inr ro)
  have x: "openRoute (r\<lparr>R_Exclusions := (R_Exclusions r)\<lparr>X_Policy := min maxRouteCount (int (length (ro_rows ro)))\<rparr>\<rparr>)"
    using assms by (auto simp: openRoute_iff boundedCounts_def countsOf_def maxRouteCount_def)
  have a: "openRoute (r\<lparr>R_Strategy := ''affinity''\<rparr>)" "openRoute (r\<lparr>R_Strategy := ''affinity'', R_Candidates := 1\<rparr>)"
    using assms by (simp_all add: openRoute_iff maxRouteCount_def)
  show ?thesis
  proof (cases "bindingStep h g (db g) ro q digest now r")
    case (Inl e)
    then show ?thesis using Inr x bindingStep_route [OF assms] by (cases e) (auto simp: selectRoute_def explained_def)
  next
    case b: (Inr v)
    show ?thesis
    proof (cases v)
      case (Keep i d)
      then show ?thesis using Inr b x a by (auto simp: selectRoute_def explained_def split: sum.split)
    next
      case (Schedule replacement)
      then show ?thesis using Inr b x schedule_explained [OF assms] by (auto simp: selectRoute_def explained_def)
    qed
  qed
qed

section \<open>Examples\<close>

text \<open>Member 7 of the example workspace asks for a model of its account, with and without a conversation.\<close>

definition exampleHost :: Host where
  "exampleHost = \<lparr>codexOnly = False, codexVersion = ''1.0'', Sum256 = (\<lambda>text. replicate 32 (CHR ''d'')), hostLocation = UTC\<rparr>"

definition exampleQuery :: "string \<Rightarrow> Query" where
  "exampleQuery session = \<lparr>qu_user = 7, qu_group = 1, qu_session = session, qu_provider = [], qu_model = ''gpt-5'',
     qu_kind = Responses, qu_scheme = 0, qu_affinity = pinnedAffinity, qu_parent = []\<rparr>"

definition exampleSelection :: "string \<Rightarrow> gateway \<Rightarrow> (string \<times> error option \<times> RouteExplanation) \<times> string \<times> gateway" where
  "exampleSelection session g =
     selectAllocationAccount exampleHost (exampleQuery session) (Inr (replicate 32 (CHR ''r''))) 60000000000 g"

definition exampleBound :: gateway where
  "exampleBound = exampleGateway\<lparr>db := (db exampleGateway)\<lparr>account_affinity :=
     [\<lparr>af_user = 7, af_group = 1, af_hash = replicate 32 (CHR ''d''), af_provider = ''auto'', af_account = exampleAccount,
       af_expires_at = 1000000, af_model = ''gpt-5'', af_rebound = False\<rparr>]\<rparr>\<rparr>"

text \<open>The runs of the examples.\<close>

lemma exampleRun: "fst (fst (exampleSelection [] exampleGateway)) = exampleAccount \<and>
   fst (snd (fst (exampleSelection [] exampleGateway))) = None"
  by code_simp

lemma exampleBoundRun: "fst (fst (exampleSelection ''chat'' exampleBound)) = exampleAccount \<and>
   fst (snd (fst (exampleSelection ''chat'' exampleBound))) = None"
  by code_simp

lemma exampleQuery_session:
  "qu_session (exampleQuery session) = session" "qu_user (exampleQuery session) = 7" "qu_group (exampleQuery session) = 1"
  "scopeName (exampleQuery session) = ''auto''"
  by (simp_all add: exampleQuery_def scopeName_def)

lemma exampleDigest: "sessionDigest exampleHost 7 1 ''chat'' = replicate 32 (CHR ''d'')"
  by (simp only: sessionDigest_def exampleHost_def Host.simps if_cancel)

lemma exampleBinding:
  "fst (loadRuntime 60000000000 exampleBound) = Inr () \<and>
   sessionBinding (db (snd (loadRuntime 60000000000 exampleBound))) 7 1 (replicate 32 (CHR ''d'')) (Unix 60000000000) ''auto'' =
     Inr (Some (hd (account_affinity (db exampleBound))))"
  by code_simp

definition exampleScan :: "refusal + Scan" where
  "exampleScan = (case readRoutes (db exampleGateway) 1 (exampleQuery []) of
     Inl e \<Rightarrow> Inl ([], e, firstRoute)
   | Inr ro \<Rightarrow> scanRows exampleHost (snd (loadRuntime 60000000000 exampleGateway)) (db exampleGateway) ro (exampleQuery []) [] 60000000000 firstRoute)"

lemma exampleScan_ok: "(case exampleScan of Inl e \<Rightarrow> False | Inr s \<Rightarrow> map rr_id (candidates s) = [exampleAccount])"
  by code_simp

lemma exampleScan_Inr: "\<exists>s. exampleScan = Inr s \<and> length (candidates s) = 1"
proof (cases exampleScan)
  case (Inl e)
  have False using exampleScan_ok unfolding Inl sum.case .
  then show ?thesis ..
next
  case (Inr s)
  have "map rr_id (candidates s) = [exampleAccount]" using exampleScan_ok unfolding Inr sum.case .
  then have "length (map rr_id (candidates s)) = length [exampleAccount]" by (rule arg_cong)
  then have "length (candidates s) = 1" unfolding length_map list.size by (simp only: One_nat_def add_0)
  with Inr show ?thesis by (intro exI conjI)
qed

lemma exampleScan_scan:
  assumes "exampleScan = Inr s"
  shows "\<exists>ro. readRoutes (db exampleGateway) 1 (exampleQuery []) = Inr ro \<and>
    scanRows exampleHost (snd (loadRuntime 60000000000 exampleGateway)) (db exampleGateway) ro (exampleQuery []) [] 60000000000
      firstRoute = Inr s"
proof (cases "readRoutes (db exampleGateway) 1 (exampleQuery [])")
  case (Inl e)
  have "Inl ([], e, firstRoute) = (Inr s :: refusal + Scan)" using assms unfolding exampleScan_def Inl sum.case .
  then show ?thesis by (rule sum.distinct [THEN notE])
next
  case (Inr ro)
  have "scanRows exampleHost (snd (loadRuntime 60000000000 exampleGateway)) (db exampleGateway) ro (exampleQuery []) [] 60000000000
      firstRoute = Inr s" using assms unfolding exampleScan_def Inr sum.case .
  with refl show ?thesis unfolding Inr by (intro exI conjI)
qed

section \<open>Properties\<close>

text \<open>
  C23: The scan of a pool is the reference computation: its candidates are, in order, the accounts that
  pass every check and have the best preference rank among those; there is none only when no account
  of the pool passes.
\<close>

theorem candidates_are_best_tier:
  assumes "scanRows h g d ro q parent now r = Inr s"
  shows "candidates s = bestTier (candidate h g d ro q now) (rankOf (ro_policy ro) q parent) (ro_rows ro) \<and>
    (candidates s = [] \<longleftrightarrow> (\<forall>row \<in> set (ro_rows ro). \<not> candidate h g d ro q now row))"
  by (rule scanRows_candidates [OF assms])

theorem candidates_are_best_tier_witness:
  "\<exists>s ro. exampleScan = Inr s \<and> length (candidates s) = 1 \<and>
    candidates s = bestTier (candidate exampleHost (snd (loadRuntime 60000000000 exampleGateway)) (db exampleGateway) ro
        (exampleQuery []) 60000000000) (rankOf (ro_policy ro) (exampleQuery []) []) (ro_rows ro)"
proof -
  obtain s where s: "exampleScan = Inr s" "length (candidates s) = 1" using exampleScan_Inr by (elim exE conjE)
  obtain ro where ro: "scanRows exampleHost (snd (loadRuntime 60000000000 exampleGateway)) (db exampleGateway) ro (exampleQuery [])
    [] 60000000000 firstRoute = Inr s" using exampleScan_scan [OF s(1)] by (elim exE conjE)
  show ?thesis by (intro exI conjI, rule s(1), rule s(2), rule conjunct1 [OF candidates_are_best_tier [OF ro]])
qed

text \<open>
  C11: A selected account belongs to the pool, the member may use the pool and the model, the provider
  and the account are enabled, the catalog has the model, neither the account nor the model is cooling
  or at its concurrency limit, the subscription is not exhausted, and the member's allowance admits
  the request.
\<close>

theorem selection_sound:
  assumes "selectAllocationAccount h q rnd now g = ((i, None, r), digest, g')"
  shows "\<exists>l ro row. loadRuntime now g = (Inr (), l) \<and> readRoutes (db l) (tenantID l) q = Inr ro \<and>
    row \<in> set (ro_rows ro) \<and> rr_id row = i \<and> admissible h l (db l) ro q now row \<and>
    (qu_model q \<noteq> [] \<longrightarrow> Allows (ro_policy ro) (requestedModel q))"
  by (rule selectAllocationAccount_Inr [OF assms], erule selectRoute_sound) blast

theorem selection_sound_witness:
  "\<exists>l ro row. loadRuntime 60000000000 exampleGateway = (Inr (), l) \<and> readRoutes (db l) (tenantID l) (exampleQuery []) = Inr ro \<and>
    row \<in> set (ro_rows ro) \<and> rr_id row = exampleAccount \<and> admissible exampleHost l (db l) ro (exampleQuery []) 60000000000 row"
proof -
  obtain i e r digest g' where sel: "exampleSelection [] exampleGateway = ((i, e, r), digest, g')" by (metis prod_cases3)
  then have "i = exampleAccount" "e = None" using exampleRun by auto
  then show ?thesis using selection_sound [OF sel [unfolded exampleSelection_def \<open>e = None\<close>]] by blast
qed

text \<open>
  C13: A conversation with a live binding stays with its account. Only an explicit change of model with
  a complete transcript may move it.
\<close>

theorem conversation_stays:
  assumes "selectAllocationAccount h q rnd now g = ((i, None, r), digest, g')" "qu_session q \<noteq> []"
    and "loadRuntime now g = (Inr (), l)"
    and "sessionBinding (db l) (qu_user q) (qu_group q) digest (Unix now) (scopeName q) = Inr (Some b)"
  shows "i = af_account b \<or>
    (qu_affinity q = portableAffinity \<and> af_model b \<noteq> [] \<and> af_model b \<noteq> bindingModel q)"
proof (rule selectAllocationAccount_Inr [OF assms(1)])
  fix l' r0
  assume l': "loadRuntime now g = (Inr (), l')" and sel: "selectRoute h q digest now firstRoute l' = (Inr (i, r0), g')"
  have l: "l' = l" using l' assms(3) by simp
  obtain ro where "readRoutes (db l) (tenantID l) q = Inr ro" using sel l by (auto elim: selectRoute_sound)
  then obtain v where v: "bindingStep h l (db l) ro q digest now firstRoute = Inr v"
    "case v of Keep j d \<Rightarrow> j = i | Schedule replacement \<Rightarrow> True"
    using sel l by (auto simp: selectRoute_def bindR_def split: sum.splits if_splits bound.splits)
  show ?thesis
  proof (cases "useBinding h l (db l) (ro_rows ro) (ro_allowed ro) (ro_policy ro) q digest (scopeName q) b now
      (firstRoute\<lparr>R_Strategy := ''affinity''\<rparr>)")
    case (Inl e)
    then show ?thesis using v assms(2,4) by (simp add: bindingStep_def refuse_def)
  next
    case (Inr kept)
    show ?thesis
    proof (cases kept)
      case None
      from useBinding_moves [OF Inr [unfolded None]] show ?thesis by blast
    next
      case (Some d)
      then show ?thesis using Inr v assms(2,4) by (auto simp: bindingStep_def refuse_def)
    qed
  qed
qed

theorem conversation_stays_witness:
  "fst (fst (exampleSelection ''chat'' exampleBound)) = af_account (hd (account_affinity (db exampleBound))) \<or>
   qu_affinity (exampleQuery ''chat'') = portableAffinity"
proof -
  obtain i e r digest g' where sel: "exampleSelection ''chat'' exampleBound = ((i, e, r), digest, g')" by (metis prod_cases3)
  have e: "e = None" using exampleBoundRun unfolding sel fst_conv snd_conv by (rule conjunct2)
  note sel' = sel [unfolded exampleSelection_def e]
  have d: "digest = replicate 32 (CHR ''d'')"
    by (rule selectAllocationAccount_Inr [OF sel']) (simp only: exampleQuery_session exampleDigest list.distinct not_False_eq_True simp_thms)
  obtain x l where l: "loadRuntime 60000000000 exampleBound = (x, l)" by (rule prod.exhaust)
  have x: "x = Inr ()" using exampleBinding unfolding l fst_conv by (rule conjunct1)
  have b: "sessionBinding (db l) (qu_user (exampleQuery ''chat'')) (qu_group (exampleQuery ''chat'')) digest (Unix 60000000000)
      (scopeName (exampleQuery ''chat'')) = Inr (Some (hd (account_affinity (db exampleBound))))"
    using exampleBinding unfolding l snd_conv exampleQuery_session d by (rule conjunct2)
  have "qu_session (exampleQuery ''chat'') \<noteq> []" unfolding exampleQuery_session by (rule list.distinct)
  from conversation_stays [OF sel' this l [unfolded x] b] show ?thesis
    unfolding sel fst_conv by (elim disjE conjE) (erule disjI1, erule disjI2)
qed

text \<open>
  C12: Rotation starves nobody. In one period of consecutive selections over the same candidates each
  of them is chosen: exactly once, or, when quota weights apply, as often as its remaining quota weighs.
\<close>

theorem rotation_is_fair:
  assumes "distinct (candidates s)" "row \<in> set (candidates s)" and "ws = shares g q now (candidates s)"
  shows "count_list (turns (\<lambda>g. chooseCandidate g policy q scope parent now s) (period ws (length (candidates s))) g) row =
      (if sum_list ws > 0 then nat (Weight (decisionOf row (qu_model q) now)) else 1) \<and>
    row \<in> set (turns (\<lambda>g. chooseCandidate g policy q scope parent now s) (period ws (length (candidates s))) g)"
proof -
  let ?rows = "candidates s" and ?key = "cursorKey q scope policy (bestRank s)"
  let ?n = "length ?rows" and ?f = "\<lambda>g. chooseCandidate g policy q scope parent now s"
  obtain i where i: "i < ?n" "row = ?rows ! i" using assms(2) by (auto simp: in_set_conv_nth)
  then have n: "0 < ?n" by linarith
  have len: "ws = [] \<or> length ws = ?n" by (auto simp: assms(3) shares_def weights_def)
  have "turns ?f (period ws ?n) g = map (\<lambda>k. ?rows ! turnIndex ws ?n (cursors g ?key + k)) [0..<period ws ?n]"
  proof (rule turns_indices)
    fix g'
    show "?f g' = (?rows ! turnIndex ws ?n (cursors g' ?key), fst (snd (?f g')),
        g'\<lparr>cursors := (cursors g')(?key := (cursors g' ?key + 1) mod period ws ?n)\<rparr>) \<or> \<not> shares g' q now ?rows = ws"
      using chooseCandidate_turn [of g' policy q scope parent now s] by auto
  qed (simp_all add: assms(3))
  moreover have "count_list (map (\<lambda>k. ?rows ! turnIndex ws ?n (cursors g ?key + k)) [0..<period ws ?n]) (?rows ! i) =
      count_list (map (\<lambda>k. turnIndex ws ?n (cursors g ?key + k)) [0..<period ws ?n]) i"
  proof (rule count_map_nth [OF assms(1) i(1)])
    fix k
    show "turnIndex ws ?n (cursors g ?key + k) < ?n"
      using nextTurn_index [OF n len, of "cursors g ?key + k"] nextTurn_parts(1) [of ws ?n "cursors g ?key + k"]
      by (metis prod.exhaust_sel)
  qed
  moreover note turn_shares [OF n len i(1), of "cursors g ?key"]
  ultimately have c: "count_list (turns ?f (period ws ?n) g) row = (if sum_list ws > 0 then ws ! i else 1)"
    using i(2) by simp
  have w: "ws ! i = nat (Weight (decisionOf row (qu_model q) now)) \<and> 0 < Weight (decisionOf row (qu_model q) now)" if "sum_list ws > 0"
  proof -
    have "shares g q now ?rows \<noteq> []" using that assms(3) by auto
    from shares_weight [OF this i(1)] show ?thesis using i(2) assms(3) by simp
  qed
  have "0 < count_list (turns ?f (period ws ?n) g) row" unfolding c using w by (auto simp del: sum_list_eq_0_iff)
  then have "row \<in> set (turns ?f (period ws ?n) g)" by (metis count_notin less_not_refl)
  then show ?thesis using c w by (auto simp del: sum_list_eq_0_iff)
qed

theorem rotation_is_fair_witness:
  "\<exists>s row. exampleScan = Inr s \<and> candidates s = [row] \<and>
     row \<in> set (turns (\<lambda>g. chooseCandidate g \<lparr>Routing' = noRouting, HasSubscriptions = True, Restricted = False, Models = []\<rparr>
       (exampleQuery []) ''auto'' [] 0 s) (period (shares exampleGateway (exampleQuery []) 0 (candidates s)) (length (candidates s)))
       exampleGateway)"
proof -
  obtain s where s: "exampleScan = Inr s" "length (candidates s) = 1" using exampleScan_Inr by (elim exE conjE)
  obtain row where row: "candidates s = [row]" using s(2) by (cases "candidates s") auto
  have "distinct (candidates s)" "row \<in> set (candidates s)" unfolding row by simp_all
  note fair = rotation_is_fair [OF this refl]
  show ?thesis by (intro exI conjI, rule s(1), rule row, rule conjunct2 [OF fair])
qed

text \<open>
  C28: The explanation recorded for a request is always one that reading accepts: a known strategy,
  counts within their bounds, and a selection exactly when an account was selected.
\<close>

theorem explanation_valid:
  assumes "selectAllocationAccount h q rnd now g = ((i, e, r), digest, g')"
  shows "validRoute r \<and> (R_Result r = ''selected'' \<longleftrightarrow> e = None)"
proof -
  have first: "explained (Inl (j, x, firstRoute))" for j x using openRoute_first by (simp add: explained_def)
  have route: "selectRoute h q d now firstRoute l = (v, g1) \<Longrightarrow> explained v" for d l v g1
    by (metis fst_conv selectRoute_explained openRoute_first)
  have "\<exists>v. explained v \<and> explain v = (i, e, r)"
    using assms first by (auto simp: selectAllocationAccount_def Let_def split: if_splits prod.splits sum.splits; blast intro: route)
  then show ?thesis using explain_valid by blast
qed

theorem explanation_valid_witness:
  "\<exists>i r digest g'. exampleSelection [] exampleGateway = ((i, None, r), digest, g') \<and> validRoute r \<and> R_Result r = ''selected''"
proof -
  obtain i e r digest g' where sel: "exampleSelection [] exampleGateway = ((i, e, r), digest, g')" by (metis prod_cases3)
  then have "e = None" using exampleRun by auto
  then show ?thesis using explanation_valid [OF sel [unfolded exampleSelection_def]] sel by auto
qed

end
