(* ===== verification/Statistics.thy ===== *)
theory Statistics
  imports Groups_Policy Store "HOL-Library.AList"
begin

text \<open>
  Usage statistics: how a finished request is counted (\<open>recordStatistics\<close> of
  \<open>internal/gateway/statistics.go\<close>) in the daily, minute and hourly tables
  (\<open>internal/storage/db/statistics.sql.go\<close>, \<open>minutes.sql.go\<close>, \<open>activity.sql.go\<close>), and how retained
  history is pruned (\<open>internal/gateway/maintenance.go\<close>).
\<close>

section \<open>Counters\<close>

definition zeroC :: counters where
  "zeroC = \<lparr>n_requests = 0, n_completed = 0, n_incomplete = 0, n_errors = 0, n_canceled = 0, n_rejected = 0, n_duration = 0,
     n_input = 0, n_output = 0, n_cached = 0, n_input_reported = 0, n_output_reported = 0, n_cached_reported = 0\<rparr>"

text \<open>The \<open>DO UPDATE SET\<close> clauses add column by column.\<close>

definition addC :: "counters \<Rightarrow> counters \<Rightarrow> counters" where
  "addC a b = \<lparr>n_requests = n_requests a + n_requests b, n_completed = n_completed a + n_completed b,
     n_incomplete = n_incomplete a + n_incomplete b, n_errors = n_errors a + n_errors b,
     n_canceled = n_canceled a + n_canceled b, n_rejected = n_rejected a + n_rejected b,
     n_duration = n_duration a + n_duration b, n_input = n_input a + n_input b, n_output = n_output a + n_output b,
     n_cached = n_cached a + n_cached b, n_input_reported = n_input_reported a + n_input_reported b,
     n_output_reported = n_output_reported a + n_output_reported b,
     n_cached_reported = n_cached_reported a + n_cached_reported b\<rparr>"

interpretation counts: comm_monoid_list addC zeroC
  by unfold_locales (simp_all add: addC_def zeroC_def)

definition sumC :: "counters list \<Rightarrow> counters" where
  "sumC cs = foldr addC cs zeroC"

definition columns :: "counters \<Rightarrow> int list" where
  "columns c = [n_requests c, n_completed c, n_incomplete c, n_errors c, n_canceled c, n_rejected c, n_duration c,
     n_input c, n_output c, n_cached c, n_input_reported c, n_output_reported c, n_cached_reported c]"

text \<open>The \<open>CHECK\<close> constraints of the three tables.\<close>

definition countersOK :: "counters \<Rightarrow> bool" where
  "countersOK c \<longleftrightarrow> list_all (\<lambda>n. 0 \<le> n) (columns c)"

definition reportedOK :: "counters \<Rightarrow> bool" where
  "reportedOK c \<longleftrightarrow> n_input_reported c \<le> n_requests c \<and> n_output_reported c \<le> n_requests c \<and> n_cached_reported c \<le> n_requests c"

definition keyOK :: "usage_key \<Rightarrow> bool" where
  "keyOK k \<longleftrightarrow> length (uk_model k) \<le> 180 \<and> 0 \<le> uk_key k"

text \<open>
  An upsert inserts the candidate or adds it to the row with its key; SQLite checks the candidate and
  the row it becomes.
\<close>

definition countIn :: "'k \<Rightarrow> counters \<Rightarrow> ('k \<times> counters) list \<Rightarrow> ('k \<times> counters) list" where
  "countIn k c rows = AList.map_default k c (addC c) rows"

definition rowAt :: "('k \<times> counters) list \<Rightarrow> 'k \<Rightarrow> counters" where
  "rowAt rows k = (case map_of rows k of None \<Rightarrow> zeroC | Some c \<Rightarrow> c)"

section \<open>Statements\<close>

text \<open>\<open>(SELECT tenant_id FROM account_groups WHERE id=...)\<close>\<close>

definition groupTenant :: "store \<Rightarrow> int \<Rightarrow> int option" where
  "groupTenant d grp = map_option g_tenant (first_of (\<lambda>g. g_id g = grp) (account_groups d))"

definition otherModels :: string where
  "otherModels = ''[other models]''"

text \<open>The models a member used on a day in the workspace of a pool.\<close>

definition usedModels :: "store \<Rightarrow> int option \<Rightarrow> int \<Rightarrow> int \<Rightarrow> string list" where
  "usedModels d tenant day user =
     map (\<lambda>r. uk_model (fst r)) (filter (\<lambda>r. uk_time (fst r) = day \<and> uk_user (fst r) = user \<and> tenant \<noteq> None \<and>
       list_ex (\<lambda>g. g_id g = uk_group (fst r) \<and> Some (g_tenant g) = tenant) (account_groups d)) (usage_daily d))"

definition CanTrackStatisticsModel :: "store \<Rightarrow> int \<Rightarrow> int \<Rightarrow> int \<Rightarrow> string \<Rightarrow> bool result" where
  "CanTrackStatisticsModel d grp day user model = query d ''CanTrackStatisticsModel''
     (let used = usedModels d (groupTenant d grp) day user
      in model \<in> set used \<or> length (remdups (filter (\<lambda>m. m \<noteq> otherModels) used)) < 64)"

definition RecordFirstRequest :: "store \<Rightarrow> int \<Rightarrow> int \<Rightarrow> int \<Rightarrow> store result" where
  "RecordFirstRequest d user grp startedAt =
     (let hit = (\<lambda>m. m_user m = user \<and> m_first_request_at m = 0 \<and> Some (m_tenant m) = groupTenant d grp) in
      exec d ''RecordFirstRequest'' (list_ex hit (memberships d) \<longrightarrow> 0 \<le> startedAt)
       (d\<lparr>memberships := map (\<lambda>m. if hit m then m\<lparr>m_first_request_at := startedAt\<rparr> else m) (memberships d)\<rparr>))"

definition RecordStatistics :: "store \<Rightarrow> usage_key \<Rightarrow> counters \<Rightarrow> store result" where
  "RecordStatistics d k c =
     (let rows = countIn k c (usage_daily d) in
      exec d ''RecordStatistics'' (keyOK k \<and> countersOK c \<and> countersOK (rowAt rows k)) (d\<lparr>usage_daily := rows\<rparr>))"

definition RecordMinuteStatistics :: "store \<Rightarrow> usage_key \<Rightarrow> counters \<Rightarrow> store result" where
  "RecordMinuteStatistics d k c =
     (case groupTenant d (uk_group k) of
        None \<Rightarrow> exec d ''RecordMinuteStatistics'' False d
      | Some t \<Rightarrow>
          let rows = countIn (t, k) c (usage_minutes d) in
          exec d ''RecordMinuteStatistics''
            (keyOK k \<and> uk_time k smod 60 = 0 \<and> countersOK c \<and> reportedOK c \<and> countersOK (rowAt rows (t, k)) \<and> reportedOK (rowAt rows (t, k)))
            (d\<lparr>usage_minutes := rows\<rparr>))"

text \<open>The hourly table has the counters of activity only.\<close>

definition hourly :: "counters \<Rightarrow> counters" where
  "hourly c = zeroC\<lparr>n_requests := n_requests c, n_input := n_input c, n_output := n_output c,
     n_input_reported := n_input_reported c, n_output_reported := n_output_reported c\<rparr>"

definition RecordHourlyUsage :: "store \<Rightarrow> int \<Rightarrow> int \<Rightarrow> int \<Rightarrow> int \<Rightarrow> counters \<Rightarrow> store result" where
  "RecordHourlyUsage d grp hour user key c =
     (case groupTenant d grp of
        None \<Rightarrow> exec d ''RecordHourlyUsage'' False d
      | Some t \<Rightarrow>
          let k = \<lparr>hk_tenant = t, hk_hour = hour, hk_user = user, hk_key = key\<rparr>;
              rows = countIn k (hourly c) (usage_hourly d) in
          exec d ''RecordHourlyUsage'' (0 \<le> key \<and> countersOK (hourly c) \<and> reportedOK (hourly c) \<and>
            countersOK (rowAt rows k) \<and> reportedOK (rowAt rows k)) (d\<lparr>usage_hourly := rows\<rparr>))"

section \<open>Counting a request\<close>

text \<open>\<open>t - t%n\<close>\<close>

definition truncateTo :: "int \<Rightarrow> int \<Rightarrow> int" where
  "truncateTo n t = t - t smod n"

definition statisticsModel :: "request_row \<Rightarrow> string" where
  "statisticsModel r =
     (if q_provider r \<noteq> [] \<and> q_model r \<noteq> [] then
        q_provider r @ ''/'' @ (let p = q_provider r @ ''/'' in if take (length p) (q_model r) = p then drop (length p) (q_model r) else q_model r)
      else q_model r)"

definition flag :: "bool \<Rightarrow> int" where
  "flag b = (if b then 1 else 0)"

definition countersOf :: "request_row \<Rightarrow> counters" where
  "countersOf r = (let amount = (\<lambda>v. case v of None \<Rightarrow> 0 | Some n \<Rightarrow> n) in
     \<lparr>n_requests = 1, n_completed = flag (q_outcome r = ''success''), n_incomplete = flag (q_outcome r = ''incomplete''),
      n_errors = flag (q_outcome r = ''error''), n_canceled = flag (q_outcome r = ''canceled''),
      n_rejected = flag (q_outcome r = ''rejected''), n_duration = q_duration_ms r,
      n_input = amount (q_input r), n_output = amount (q_output r), n_cached = amount (q_cached r),
      n_input_reported = flag (q_input r \<noteq> None), n_output_reported = flag (q_output r \<noteq> None),
      n_cached_reported = flag (q_cached r \<noteq> None)\<rparr>)"

definition recordStatistics :: "store \<Rightarrow> request_row \<Rightarrow> store result" where
  "recordStatistics d r =
     (if q_user r \<le> 0 then Inr d
      else
        let day = truncateTo 86400 (q_started_at r); model = statisticsModel r; c = countersOf r in
        bindR (CanTrackStatisticsModel d (q_group r) day (q_user r) model) (\<lambda>tracked.
        let k = \<lparr>uk_time = day, uk_user = q_user r, uk_group = q_group r, uk_provider = q_provider r,
                  uk_model = (if tracked then model else otherModels), uk_key = q_key r\<rparr> in
        bindR (if q_outcome r = ''success'' then RecordFirstRequest d (q_user r) (q_group r) (q_started_at r) else Inr d) (\<lambda>d.
        bindR (RecordStatistics d k c) (\<lambda>d.
        bindR (RecordMinuteStatistics d (k\<lparr>uk_time := truncateTo 60 (q_started_at r)\<rparr>) c) (\<lambda>d.
        RecordHourlyUsage d (q_group r) (truncateTo 3600 (q_started_at r)) (q_user r) (q_key r) c)))))"

section \<open>Request history\<close>

definition efforts :: "string list" where
  "efforts = [[], ''none'', ''minimal'', ''low'', ''medium'', ''high'', ''xhigh'', ''max'', ''ultra'']"

definition requestOK :: "request_row \<Rightarrow> bool" where
  "requestOK r \<longleftrightarrow> length (q_model r) \<le> 160 \<and> q_transport r \<in> set [''http'', ''websocket''] \<and>
     q_operation r \<in> set [''responses'', ''chat'', ''compact'', ''messages'', ''gemini''] \<and> 0 \<le> q_duration_ms r \<and>
     q_outcome r \<in> set [''success'', ''incomplete'', ''error'', ''canceled'', ''rejected''] \<and> length (q_error_code r) \<le> 64 \<and>
     length (q_id r) \<le> 64 \<and> (case q_first_token_ms r of None \<Rightarrow> True | Some ms \<Rightarrow> 0 \<le> ms) \<and>
     q_reasoning_effort r \<in> set efforts \<and> ContentMode (q_content r) \<in> set [[], ''observe'', ''block''] \<and>
     ContentCheckFailed (q_content r) \<in> set [0, 1]"

definition RecordRequest :: "store \<Rightarrow> request_row \<Rightarrow> store result" where
  "RecordRequest d r = exec d ''RecordRequest'' (requestOK r)
     (d\<lparr>request_records := request_records d @ [r\<lparr>q_rowid := request_seq d + 1\<rparr>], request_seq := request_seq d + 1\<rparr>)"

section \<open>Lemmas\<close>

lemma sumC_simps [simp]: "sumC [] = zeroC" "sumC (c # cs) = addC c (sumC cs)"
  by (simp_all add: sumC_def)

lemma addC_zero [simp]: "addC zeroC c = c" "addC c zeroC = c"
  by (rule counts.left_neutral, rule counts.right_neutral)

lemma addC_columns [simp]:
  "n_requests (addC a b) = n_requests a + n_requests b" "n_completed (addC a b) = n_completed a + n_completed b"
  "n_incomplete (addC a b) = n_incomplete a + n_incomplete b" "n_errors (addC a b) = n_errors a + n_errors b"
  "n_canceled (addC a b) = n_canceled a + n_canceled b" "n_rejected (addC a b) = n_rejected a + n_rejected b"
  by (simp_all add: addC_def)

lemma zeroC_columns [simp]: "n_requests zeroC = 0" "n_completed zeroC = 0" "n_incomplete zeroC = 0" "n_errors zeroC = 0"
  "n_canceled zeroC = 0" "n_rejected zeroC = 0"
  by (simp_all add: zeroC_def)

lemma hourly_addC [simp]: "hourly (addC a b) = addC (hourly a) (hourly b)" "hourly zeroC = zeroC"
  by (simp_all add: hourly_def addC_def zeroC_def)

lemma hourly_sumC: "hourly (sumC cs) = sumC (map hourly cs)"
  by (induction cs) simp_all

lemma distinct_countIn: "distinct (map fst rows) \<Longrightarrow> distinct (map fst (countIn k c rows))"
  unfolding countIn_def by (rule distinct_map_default)

lemma rowAt_countIn: "rowAt (countIn k c rows) j = (if j = k then addC c (rowAt rows k) else rowAt rows j)"
  by (simp add: rowAt_def countIn_def map_of_map_default split: option.split)

lemma keys_countIn: "fst ` set (countIn k c rows) = insert k (fst ` set rows)"
  by (simp add: countIn_def dom_map_default)

lemma set_countIn: "x \<in> set (countIn k c rows) \<Longrightarrow> x \<in> set rows \<or> fst x = k \<and> (snd x = c \<or> (\<exists>y \<in> set rows. fst y = k \<and> snd x = addC c (snd y)))"
  unfolding countIn_def by (induction rows) (auto split: if_splits)

text \<open>The sum of the rows whose key has a property.\<close>

definition sumWhere :: "('k \<Rightarrow> bool) \<Rightarrow> ('k \<times> counters) list \<Rightarrow> counters" where
  "sumWhere P rows = sumC (map snd (filter (\<lambda>r. P (fst r)) rows))"

lemma sumWhere_simps [simp]:
  "sumWhere P [] = zeroC"
  "sumWhere P ((k, c) # rows) = (if P k then addC c (sumWhere P rows) else sumWhere P rows)"
  by (simp_all add: sumWhere_def)

lemma sumWhere_countIn: "sumWhere P (countIn k c rows) = (if P k then addC c (sumWhere P rows) else sumWhere P rows)"
proof (induction rows)
  case Nil
  show ?case by (simp add: countIn_def)
next
  case (Cons r rows)
  then show ?case by (cases r) (auto simp: countIn_def counts.assoc counts.left_commute)
qed

lemma truncate_truncate: "m dvd n \<Longrightarrow> 0 < m \<Longrightarrow> 0 < n \<Longrightarrow> truncateTo n (truncateTo m t) = truncateTo n t"
proof -
  assume mn: "m dvd n" "0 < m" "0 < n"
  have pos: "truncateTo k s = s div k * k" if "0 \<le> s" "0 < k" for k s
    using that by (simp add: truncateTo_def smod_nonneg minus_mod_eq_div_mult)
  have neg: "truncateTo k (- s) = - truncateTo k s" for k s
    by (simp add: truncateTo_def)
  have nonneg: "truncateTo n (truncateTo m s) = truncateTo n s" if "0 \<le> s" for s
  proof -
    obtain j where j: "n = m * j" using mn(1) by (rule dvdE)
    have "0 \<le> s div m" using that mn(2) by (simp add: pos_imp_zdiv_nonneg_iff)
    moreover have "s div m * m div n = s div n"
      unfolding j mult.commute [of "s div m"] using mn by (simp add: j zdiv_zmult2_eq zero_less_mult_iff)
    ultimately show ?thesis using that mn by (simp add: pos)
  qed
  show ?thesis
  proof (cases "0 \<le> t")
    case True
    then show ?thesis by (rule nonneg)
  next
    case False
    then have "0 \<le> - t" by simp
    from nonneg [OF this] show ?thesis by (simp add: neg)
  qed
qed

section \<open>The three tables agree\<close>

text \<open>The day and the hour a minute row belongs to.\<close>

definition dayOf :: "int \<times> usage_key \<Rightarrow> usage_key" where
  "dayOf mk = (snd mk)\<lparr>uk_time := truncateTo 86400 (uk_time (snd mk))\<rparr>"

definition hourOf :: "int \<times> usage_key \<Rightarrow> hour_key" where
  "hourOf mk = \<lparr>hk_tenant = fst mk, hk_hour = truncateTo 3600 (uk_time (snd mk)), hk_user = uk_user (snd mk), hk_key = uk_key (snd mk)\<rparr>"

definition outcomesOf :: "counters \<Rightarrow> int" where
  "outcomesOf c = n_completed c + n_incomplete c + n_errors c + n_canceled c + n_rejected c"

definition usageOK :: "store \<Rightarrow> bool" where
  "usageOK d \<longleftrightarrow> distinct (map fst (usage_daily d)) \<and> distinct (map fst (usage_minutes d)) \<and> distinct (map fst (usage_hourly d)) \<and>
     (\<forall>k. rowAt (usage_daily d) k = sumWhere (\<lambda>mk. dayOf mk = k) (usage_minutes d)) \<and>
     (\<forall>k. rowAt (usage_hourly d) k = hourly (sumWhere (\<lambda>mk. hourOf mk = k) (usage_minutes d))) \<and>
     (\<forall>r \<in> set (usage_minutes d). outcomesOf (snd r) = n_requests (snd r)) \<and>
     n_requests (sumWhere (\<lambda>k. True) (usage_minutes d)) = int (length (filter (\<lambda>r. 0 < q_user r) (request_records d)))"

text \<open>A request is recorded and counted in one transaction.\<close>

inductive usage_step :: "store \<Rightarrow> store \<Rightarrow> bool" where
  counted: "RecordRequest d r = Inr d' \<Longrightarrow> recordStatistics d' r = Inr d'' \<Longrightarrow> usage_step d d''"

inductive_cases usage_stepE: "usage_step d d'"

lemma recordStatistics_Inr:
  assumes "recordStatistics d r = Inr d'" "0 < q_user r"
  obtains ms k t where "groupTenant d (q_group r) = Some t"
    "uk_time k = truncateTo 86400 (q_started_at r)" "uk_user k = q_user r" "uk_group k = q_group r" "uk_key k = q_key r"
    "uk_model k = otherModels \<or> uk_model k \<in> set (usedModels d (Some t) (uk_time k) (q_user r)) \<or>
      card {m \<in> set (usedModels d (Some t) (uk_time k) (q_user r)). m \<noteq> otherModels} < 64"
    "d' = d\<lparr>memberships := ms, usage_daily := countIn k (countersOf r) (usage_daily d),
       usage_minutes := countIn (t, k\<lparr>uk_time := truncateTo 60 (q_started_at r)\<rparr>) (countersOf r) (usage_minutes d),
       usage_hourly := countIn \<lparr>hk_tenant = t, hk_hour = truncateTo 3600 (q_started_at r), hk_user = q_user r, hk_key = q_key r\<rparr>
         (hourly (countersOf r)) (usage_hourly d)\<rparr>"
proof -
  let ?day = "truncateTo 86400 (q_started_at r)" and ?c = "countersOf r"
  have "\<not> q_user r \<le> 0" using assms(2) by simp
  note counted = assms(1) [unfolded recordStatistics_def Let_def if_not_P [OF this] bindR_eq_Inr]
  obtain tracked d1 d2 d3 k where
    tr: "CanTrackStatisticsModel d (q_group r) ?day (q_user r) (statisticsModel r) = Inr tracked" and
    k: "k = \<lparr>uk_time = ?day, uk_user = q_user r, uk_group = q_group r, uk_provider = q_provider r,
          uk_model = (if tracked then statisticsModel r else otherModels), uk_key = q_key r\<rparr>" and
    d1: "(if q_outcome r = ''success'' then RecordFirstRequest d (q_user r) (q_group r) (q_started_at r) else Inr d) = Inr d1" and
    d2: "RecordStatistics d1 k ?c = Inr d2" and
    d3: "RecordMinuteStatistics d2 (k\<lparr>uk_time := truncateTo 60 (q_started_at r)\<rparr>) ?c = Inr d3" and
    d4: "RecordHourlyUsage d3 (q_group r) (truncateTo 3600 (q_started_at r)) (q_user r) (q_key r) ?c = Inr d'"
    using counted by blast
  obtain ms where 1: "d1 = d\<lparr>memberships := ms\<rparr>"
  proof (cases "q_outcome r = ''success''")
    case True
    then have "RecordFirstRequest d (q_user r) (q_group r) (q_started_at r) = Inr d1" using d1 by (simp only: if_True simp_thms)
    then show thesis by (intro that) (simp only: RecordFirstRequest_def Let_def exec_Inr)
  next
    case False
    with d1 have "d1 = d\<lparr>memberships := memberships d\<rparr>" by (simp only: if_False sum.inject) simp
    then show thesis by (rule that)
  qed
  have 2: "d2 = d1\<lparr>usage_daily := countIn k ?c (usage_daily d1)\<rparr>"
    using d2 by (simp add: RecordStatistics_def Let_def exec_Inr)
  obtain t where t: "groupTenant d2 (q_group r) = Some t" and
    3: "d3 = d2\<lparr>usage_minutes := countIn (t, k\<lparr>uk_time := truncateTo 60 (q_started_at r)\<rparr>) ?c (usage_minutes d2)\<rparr>"
    using d3 by (auto simp: RecordMinuteStatistics_def Let_def exec_Inr k split: option.splits)
  have t3: "groupTenant d3 (q_group r) = Some t" using t by (simp add: 3 groupTenant_def)
  have 4: "d' = d3\<lparr>usage_hourly := countIn \<lparr>hk_tenant = t, hk_hour = truncateTo 3600 (q_started_at r), hk_user = q_user r, hk_key = q_key r\<rparr>
         (hourly ?c) (usage_hourly d3)\<rparr>"
    using d4 t3 by (simp add: RecordHourlyUsage_def Let_def exec_Inr)
  have t0: "groupTenant d (q_group r) = Some t" using t by (simp add: 1 2 groupTenant_def)
  have tracked: "tracked \<longleftrightarrow> statisticsModel r \<in> set (usedModels d (Some t) ?day (q_user r)) \<or>
      length (remdups (filter (\<lambda>m. m \<noteq> otherModels) (usedModels d (Some t) ?day (q_user r)))) < 64"
    using tr by (simp add: CanTrackStatisticsModel_def query_Inr t0 Let_def)
  show thesis
  proof (rule that [OF t0])
    show "uk_model k = otherModels \<or> uk_model k \<in> set (usedModels d (Some t) (uk_time k) (q_user r)) \<or>
      card {m \<in> set (usedModels d (Some t) (uk_time k) (q_user r)). m \<noteq> otherModels} < 64"
      using tracked by (auto simp: k length_remdups_card_conv)
  qed (simp_all add: k 1 2 3 4)
qed

lemma RecordRequest_Inr:
  "RecordRequest d r = Inr d' \<longleftrightarrow> \<not> fails d ''RecordRequest'' \<and> requestOK r \<and>
   d' = d\<lparr>request_records := request_records d @ [r\<lparr>q_rowid := request_seq d + 1\<rparr>], request_seq := request_seq d + 1\<rparr>"
  by (simp add: RecordRequest_def exec_Inr)

lemma outcomes_one: "requestOK r \<Longrightarrow> outcomesOf (countersOf r) = 1"
  by (elim requestOK_def [THEN iffD1, elim_format] conjE, simp only: list.set insert_iff empty_iff, elim disjE FalseE)
    (simp_all add: outcomesOf_def countersOf_def Let_def flag_def)

lemma outcomes_addC [simp]: "outcomesOf (addC a b) = outcomesOf a + outcomesOf b"
  by (simp add: outcomesOf_def)

lemma requests_one [simp]: "n_requests (countersOf r) = 1"
  by (simp add: countersOf_def Let_def)

lemma usage_step_OK:
  assumes "usageOK d" "usage_step d d''"
  shows "usageOK d''"
proof (rule usage_stepE [OF assms(2)])
  fix r d' assume counted: "RecordRequest d r = Inr d'" "recordStatistics d' r = Inr d''"
  note d' = counted(1) [unfolded RecordRequest_Inr]
  have tables: "usage_daily d' = usage_daily d" "usage_minutes d' = usage_minutes d" "usage_hourly d' = usage_hourly d"
    and count: "length (filter (\<lambda>r. 0 < q_user r) (request_records d')) =
      length (filter (\<lambda>r. 0 < q_user r) (request_records d)) + (if 0 < q_user r then 1 else 0)"
    using d' by simp_all
  show ?thesis
  proof (cases "0 < q_user r")
    case False
    then have "d'' = d'" using counted(2) by (simp add: recordStatistics_def)
    then show ?thesis using assms(1) count False by (simp add: usageOK_def tables)
  next
    case True
    let ?c = "countersOf r"
    obtain ms k t where
      k: "uk_time k = truncateTo 86400 (q_started_at r)" "uk_user k = q_user r" "uk_key k = q_key r"
      and d'': "d'' = d'\<lparr>memberships := ms, usage_daily := countIn k ?c (usage_daily d'),
         usage_minutes := countIn (t, k\<lparr>uk_time := truncateTo 60 (q_started_at r)\<rparr>) ?c (usage_minutes d'),
         usage_hourly := countIn \<lparr>hk_tenant = t, hk_hour = truncateTo 3600 (q_started_at r), hk_user = q_user r, hk_key = q_key r\<rparr>
           (hourly ?c) (usage_hourly d')\<rparr>"
      by (rule recordStatistics_Inr [OF counted(2) True]) (rule that, assumption+)
    let ?mk = "(t, k\<lparr>uk_time := truncateTo 60 (q_started_at r)\<rparr>)"
    have "dayOf ?mk = k" using k by (simp add: dayOf_def truncate_truncate)
    moreover have "hourOf ?mk = \<lparr>hk_tenant = t, hk_hour = truncateTo 3600 (q_started_at r), hk_user = q_user r, hk_key = q_key r\<rparr>"
      using k by (simp add: hourOf_def truncate_truncate)
    moreover have "outcomesOf ?c = 1" using d' by (intro outcomes_one) simp
    ultimately show ?thesis
      using assms(1) True count unfolding usageOK_def d''
      by (auto simp: tables distinct_countIn rowAt_countIn sumWhere_countIn dest!: set_countIn)
  qed
qed

definition noUsage :: "store \<Rightarrow> bool" where
  "noUsage d \<longleftrightarrow> request_records d = [] \<and> usage_daily d = [] \<and> usage_minutes d = [] \<and> usage_hourly d = []"

interpretation usage: step_invariant noUsage usage_step usageOK
  by unfold_locales (simp add: noUsage_def usageOK_def rowAt_def, rule usage_step_OK)

section \<open>Model labels are bounded\<close>

definition modelsOK :: "store \<Rightarrow> bool" where
  "modelsOK d \<longleftrightarrow> distinct (map g_id (account_groups d)) \<and>
     (\<forall>t day user. card (set (filter (\<lambda>m. m \<noteq> otherModels) (usedModels d (Some t) day user))) \<le> 64)"

lemma groupTenant_unique:
  "distinct (map g_id (account_groups d)) \<Longrightarrow> groupTenant d grp = Some t \<Longrightarrow> g \<in> set (account_groups d) \<Longrightarrow> g_id g = grp \<Longrightarrow> g_tenant g = t"
  by (auto simp: groupTenant_def dest!: first_of_SomeD) (metis distinct_map inj_onD)

lemma usedModels_set: "m \<in> set (usedModels d (Some t) day user) \<longleftrightarrow>
    (\<exists>k \<in> fst ` set (usage_daily d). uk_model k = m \<and> uk_time k = day \<and> uk_user k = user \<and>
      (\<exists>g \<in> set (account_groups d). g_id g = uk_group k \<and> g_tenant g = t))"
  by (force simp: usedModels_def list_ex_iff)

lemma usage_step_models:
  assumes "modelsOK d" "usage_step d d''"
  shows "modelsOK d''"
proof (rule usage_stepE [OF assms(2)])
  fix r d' assume counted: "RecordRequest d r = Inr d'" "recordStatistics d' r = Inr d''"
  note d' = counted(1) [unfolded RecordRequest_Inr]
  have models: "modelsOK d'" using assms(1) d' by (simp add: modelsOK_def usedModels_def)
  show ?thesis
  proof (cases "0 < q_user r")
    case False
    then have "d'' = d'" using counted(2) by (simp add: recordStatistics_def)
    then show ?thesis using models by simp
  next
    case True
    let ?day = "truncateTo 86400 (q_started_at r)"
    let ?tracked = "\<lambda>d t day user. {m \<in> set (usedModels d (Some t) day user). m \<noteq> otherModels}"
    obtain ms k t mins hrs where t: "groupTenant d' (q_group r) = Some t"
      and k: "uk_time k = ?day" "uk_user k = q_user r" "uk_group k = q_group r"
        "uk_model k = otherModels \<or> uk_model k \<in> set (usedModels d' (Some t) (uk_time k) (q_user r)) \<or>
          card (?tracked d' t (uk_time k) (q_user r)) < 64"
      and d'': "d'' = d'\<lparr>memberships := ms, usage_daily := countIn k (countersOf r) (usage_daily d'), usage_minutes := mins, usage_hourly := hrs\<rparr>"
      by (rule recordStatistics_Inr [OF counted(2) True]) (rule that, assumption+)
    have grps: "account_groups d'' = account_groups d'" by (simp add: d'')
    have new: "m \<in> set (usedModels d'' (Some s) day user) \<longleftrightarrow> m \<in> set (usedModels d' (Some s) day user) \<or>
        m = uk_model k \<and> s = t \<and> day = ?day \<and> user = q_user r" if "m \<noteq> otherModels" for m s day user
    proof -
      have "(\<exists>g \<in> set (account_groups d'). g_id g = uk_group k \<and> g_tenant g = s) \<longleftrightarrow> s = t"
        using groupTenant_unique [OF _ t] t models first_of_SomeD k(3)
        by (fastforce simp: modelsOK_def groupTenant_def)
      then show ?thesis unfolding usedModels_set grps by (simp add: d'' keys_countIn k) blast
    qed
    have "card (?tracked d'' s day user) \<le> 64" for s day user
    proof (cases "s = t \<and> day = ?day \<and> user = q_user r \<and> uk_model k \<noteq> otherModels \<and>
        uk_model k \<notin> set (usedModels d' (Some t) ?day (q_user r))")
      case True
      then have "?tracked d'' s day user \<subseteq> insert (uk_model k) (?tracked d' t ?day (q_user r))" using new by auto
      then have "card (?tracked d'' s day user) \<le> card (insert (uk_model k) (?tracked d' t ?day (q_user r)))"
        by (intro card_mono) auto
      also have "\<dots> \<le> Suc (card (?tracked d' t ?day (q_user r)))" by (rule card_insert_le_m1) simp_all
      finally show ?thesis using k(4) [unfolded k(1)] True by auto
    next
      case False
      then have "?tracked d'' s day user \<subseteq> ?tracked d' s day user" using new by auto
      then have "card (?tracked d'' s day user) \<le> card (?tracked d' s day user)" by (intro card_mono) auto
      then show ?thesis using models by (auto simp: modelsOK_def intro: order_trans)
    qed
    then show ?thesis using models by (simp add: modelsOK_def grps)
  qed
qed

interpretation labels: step_invariant "\<lambda>d. usage_daily d = [] \<and> distinct (map g_id (account_groups d))" usage_step modelsOK
  by unfold_locales (simp add: modelsOK_def usedModels_def, rule usage_step_models)

section \<open>Properties\<close>


text \<open>
  A member cannot fill the statistics with invented model names: in one workspace and day the
  table has at most 64 models of a member besides the label for all others.
\<close>

theorem tracked_models_bounded:
  assumes "reach (\<lambda>d. usage_daily d = [] \<and> distinct (map g_id (account_groups d))) usage_step d"
  shows "length (remdups (filter (\<lambda>m. m \<noteq> otherModels) (usedModels d (Some t) day user))) \<le> 64"
  using labels.reach_inv [OF assms] by (simp add: modelsOK_def length_remdups_card_conv)

text \<open>A request of member 7 that succeeded, in an empty workspace.\<close>

definition exampleCounted :: request_row where
  "exampleCounted = \<lparr>q_rowid = 0, q_id = ''r1'', q_user = 7, q_key = 0, q_group = 1, q_account = ''a'', q_provider = ''codex'',
     q_model = ''gpt-5'', q_transport = ''http'', q_operation = ''responses'', q_started_at = 90000, q_duration_ms = 5,
     q_outcome = ''success'', q_error_code = [], q_status = None, q_input = Some 10, q_output = Some 2, q_cached = None,
     q_first_token_ms = None, q_reasoning_effort = [], q_content = \<lparr>ContentMode = [], ContentRevision = 0,
     ContentRuleIds = Json [], ContentCheckFailed = 0\<rparr>, q_route = None\<rparr>"

definition exampleEmpty :: store where
  "exampleEmpty = \<lparr>faults = [], users = [], tenants = [], memberships = [],
     account_groups = [\<lparr>g_id = 1, g_name = ''pool'', g_enabled = True, g_restricted_models = False, g_tenant = 1,
       g_routing_preference = ''protocol'', g_allow_api_fallback = True, g_created_at = 0, g_updated_at = 0\<rparr>],
     group_members = [], group_models = [], group_accounts = [], accounts = [], allocation_schemes = [],
     allocation_revisions = [], allocation_entries = [], allocation_keys = [], api_keys = [], audit_events = [],
     account_affinity = [], member_rate = [], account_runtime = [], account_model_runtime = [], account_usage = [],
     request_records = [], usage_daily = [], usage_minutes = [], usage_hourly = [], settings = [], sessions = [], invitations = [], recovery_codes = [], auth_challenges = [], passkeys = [],
      request_seq = 0,
     scheme_seq = 0, revision_seq = 0\<rparr>"

definition afterOne :: store where
  "afterOne = (case bindR (RecordRequest exampleEmpty exampleCounted) (\<lambda>d. recordStatistics d exampleCounted) of
     Inl e \<Rightarrow> exampleEmpty | Inr d \<Rightarrow> d)"

lemma afterOne_ok: "(case bindR (RecordRequest exampleEmpty exampleCounted) (\<lambda>d. recordStatistics d exampleCounted) of
     Inl e \<Rightarrow> False | Inr d \<Rightarrow> length (usage_daily d) = 1 \<and> length (usage_minutes d) = 1)"
  by code_simp

lemma afterOne_step: "usage_step exampleEmpty afterOne"
proof (cases "RecordRequest exampleEmpty exampleCounted")
  case (Inl e)
  then show ?thesis using afterOne_ok by simp
next
  case (Inr d)
  show ?thesis
  proof (cases "recordStatistics d exampleCounted")
    case Inl
    then show ?thesis using afterOne_ok Inr by simp
  next
    case stats: (Inr d')
    have "afterOne = d'" by (simp add: afterOne_def Inr stats)
    with counted [OF Inr stats] show ?thesis by simp
  qed
qed


theorem tracked_models_bounded_witness:
  "length (remdups (filter (\<lambda>m. m \<noteq> otherModels) (usedModels afterOne (Some 1) 86400 7))) \<le> 64"
  by (rule tracked_models_bounded, rule reach_step [where s = exampleEmpty], rule reach_init) (simp add: exampleEmpty_def, rule afterOne_step)

end
