(* ===== verification/Maintenance.thy ===== *)
theory Maintenance
  imports Statistics Alloc_Settlement "HOL-Library.Sublist"
begin

text \<open>
  Retention (\<open>internal/gateway/maintenance.go\<close>): settled allowance entries, statistics and request
  history past their age are deleted in batches of 500 rows, with a pause between full batches.
\<close>

section \<open>Statements\<close>

definition deleteBatch :: "('a \<Rightarrow> bool) \<Rightarrow> 'a list \<Rightarrow> 'a list \<times> int" where
  "deleteBatch old rows = (let kept = dropFirst 500 old rows in (kept, int (length rows) - int (length kept)))"

definition PruneStatistics :: "store \<Rightarrow> int \<Rightarrow> (store \<times> int) result" where
  "PruneStatistics d before = (case deleteBatch (\<lambda>r. uk_time (fst r) < before) (usage_daily d) of (kept, n) \<Rightarrow>
     exec d ''PruneStatistics'' True (d\<lparr>usage_daily := kept\<rparr>, n))"

definition PruneHourlyUsage :: "store \<Rightarrow> int \<Rightarrow> (store \<times> int) result" where
  "PruneHourlyUsage d before = (case deleteBatch (\<lambda>r. hk_hour (fst r) < before) (usage_hourly d) of (kept, n) \<Rightarrow>
     exec d ''PruneHourlyUsage'' True (d\<lparr>usage_hourly := kept\<rparr>, n))"

definition PruneMinuteStatistics :: "store \<Rightarrow> int \<Rightarrow> (store \<times> int) result" where
  "PruneMinuteStatistics d before = (case deleteBatch (\<lambda>r. uk_time (snd (fst r)) < before) (usage_minutes d) of (kept, n) \<Rightarrow>
     exec d ''PruneMinuteStatistics'' True (d\<lparr>usage_minutes := kept\<rparr>, n))"

text \<open>The newest 5000 requests are kept; the subquery has no row while there are no more.\<close>

definition newestLimit :: "request_row list \<Rightarrow> int option" where
  "newestLimit rows = (let ids = rev (sort (map q_rowid rows)) in if length ids > 5000 then Some (ids ! 5000) else None)"

definition oldRequest :: "int option \<Rightarrow> int \<Rightarrow> request_row \<Rightarrow> bool" where
  "oldRequest newest before r \<longleftrightarrow> q_started_at r < before \<or> (case newest of None \<Rightarrow> False | Some i \<Rightarrow> q_rowid r \<le> i)"

definition PruneRequests :: "store \<Rightarrow> int \<Rightarrow> (store \<times> int) result" where
  "PruneRequests d before =
     (case deleteBatch (oldRequest (newestLimit (request_records d)) before) (request_records d) of (kept, n) \<Rightarrow>
       exec d ''PruneRequests'' True (d\<lparr>request_records := kept\<rparr>, n))"

section \<open>The loops\<close>

definition maintenanceBatchSize :: int where
  "maintenanceBatchSize = 500"

type_synonym prune = "store \<Rightarrow> (store \<times> int) result"

text \<open>
  One prune until a batch is not full. \<open>ctx k\<close> is the error of the context in the pause after the
  \<open>k\<close>-th batch, if it is over. The result is \<open>None\<close> only when the fuel does not suffice; the deletions
  stay when a later batch fails.
\<close>

fun drain :: "nat \<Rightarrow> prune \<Rightarrow> (nat \<Rightarrow> error option) \<Rightarrow> nat \<Rightarrow> store \<Rightarrow> (unit result \<times> store) option" where
  "drain 0 prune ctx k d = None"
| "drain (Suc fuel) prune ctx k d = (case prune d of Inl e \<Rightarrow> Some (Inl e, d)
     | Inr (d', deleted) \<Rightarrow>
         if deleted < maintenanceBatchSize then Some (Inr (), d')
         else (case ctx k of Some e \<Rightarrow> Some (Inl e, d') | None \<Rightarrow> drain fuel prune ctx (k + 1) d'))"

fun drainAll :: "nat \<Rightarrow> prune list \<Rightarrow> (nat \<Rightarrow> nat \<Rightarrow> error option) \<Rightarrow> store \<Rightarrow> (unit result \<times> store) option" where
  "drainAll fuel [] ctx d = Some (Inr (), d)"
| "drainAll fuel (prune # prunes) ctx d = (case drain fuel prune (ctx 0) 0 d of None \<Rightarrow> None
     | Some (Inl e, d') \<Rightarrow> Some (Inl e, d')
     | Some (Inr _, d') \<Rightarrow> drainAll fuel prunes (\<lambda>i. ctx (Suc i)) d')"

definition prunesAt :: "int \<Rightarrow> prune list" where
  "prunesAt now = (let today = now div 86400 * 86400 in
     [\<lambda>d. Prune d (now - 90 * 86400), \<lambda>d. PruneStatistics d (today - 89 * 86400),
      \<lambda>d. PruneHourlyUsage d (today - 90 * 86400), \<lambda>d. PruneMinuteStatistics d (today - 90 * 86400),
      \<lambda>d. PruneRequests d (now - 7 * 86400)])"

definition pruneHistory :: "nat \<Rightarrow> (nat \<Rightarrow> nat \<Rightarrow> error option) \<Rightarrow> int \<Rightarrow> store \<Rightarrow> (unit result \<times> store) option" where
  "pruneHistory fuel ctx now d = drainAll fuel (prunesAt now) ctx d"

section \<open>The interface of a prune\<close>

lemma subseq_set: "subseq xs ys \<Longrightarrow> set xs \<subseteq> set ys"
  by (induction xs ys rule: list_emb.induct) auto

text \<open>
  What the loop relies on: a prune only deletes old rows of its table, leaves the others in their order,
  reports how many, and a batch that is not full leaves no old row.
\<close>

locale batch_prune =
  fixes prune :: prune and rows :: "store \<Rightarrow> 'r list" and put :: "store \<Rightarrow> 'r list \<Rightarrow> store"
    and old :: "store \<Rightarrow> 'r \<Rightarrow> bool"
  assumes deletes: "prune d = Inr (d', n) \<Longrightarrow>
      (\<exists>kept. d' = put d kept \<and> subseq kept (rows d) \<and>
        filter (\<lambda>r. \<not> old d r) kept = filter (\<lambda>r. \<not> old d r) (rows d) \<and>
        int (length kept) = int (length (rows d)) - n) \<and> 0 \<le> n"
    and empties: "prune d = Inr (d', n) \<Longrightarrow> n < maintenanceBatchSize \<Longrightarrow> r \<in> set (rows d') \<Longrightarrow> \<not> old d r"
    and rows_put: "rows (put d kept) = kept" "put (put d kept) kept' = put d kept'" "put d (rows d) = d"
begin

lemma drain_ends: "int (length (rows d)) < 500 * int fuel \<Longrightarrow> drain fuel prune ctx k d \<noteq> None"
proof (induction fuel arbitrary: k d)
  case 0
  then show ?case by simp
next
  case (Suc fuel)
  show ?case
  proof (cases "prune d")
    case (Inr p)
    obtain d' n where p: "p = (d', n)" by (cases p)
    from deletes [OF Inr [unfolded p]] have "int (length (rows d')) = int (length (rows d)) - n" by (auto simp: rows_put)
    then have "maintenanceBatchSize \<le> n \<Longrightarrow> drain fuel prune ctx (k + 1) d' \<noteq> None"
      using Suc.prems by (intro Suc.IH) (simp add: maintenanceBatchSize_def)
    then show ?thesis by (auto simp: Inr p split: option.splits)
  qed simp
qed

lemma drain_deletes:
  "drain fuel prune ctx k d = Some (r, d') \<Longrightarrow> \<exists>kept. d' = put d kept \<and> subseq kept (rows d)"
proof (induction fuel arbitrary: k d)
  case (Suc fuel)
  show ?case
  proof (cases "prune d")
    case (Inl e)
    then show ?thesis using Suc.prems rows_put(3) [of d] by (intro exI [of _ "rows d"]) simp
  next
    case (Inr p)
    obtain d1 n where p: "p = (d1, n)" by (cases p)
    from deletes [OF Inr [unfolded p]] obtain kept where kept: "d1 = put d kept" "subseq kept (rows d)" by blast
    show ?thesis
    proof (cases "d' = d1")
      case False
      then have "drain fuel prune ctx (k + 1) d1 = Some (r, d')"
        using Suc.prems by (auto simp: Inr p split: if_splits option.splits)
      from Suc.IH [OF this] obtain kept' where "d' = put d1 kept'" "subseq kept' (rows d1)" by blast
      then show ?thesis using kept by (intro exI [of _ kept']) (auto simp: rows_put)
    qed (use kept in blast)
  qed
qed simp

lemma drain_clean:
  "drain fuel prune ctx k d = Some (Inr u, d') \<Longrightarrow> \<exists>d1. subseq (rows d') (rows d1) \<and> (\<forall>r \<in> set (rows d'). \<not> old d1 r)"
proof (induction fuel arbitrary: k d)
  case (Suc fuel)
  obtain d1 n where p: "prune d = Inr (d1, n)" using Suc.prems by (auto split: sum.splits)
  show ?case
  proof (cases "n < maintenanceBatchSize")
    case True
    then have "d' = d1" using Suc.prems p by simp
    moreover have "subseq (rows d1) (rows d)" using deletes [OF p] by (metis rows_put(1))
    ultimately show ?thesis using empties [OF p True] by blast
  next
    case False
    then have "drain fuel prune ctx (k + 1) d1 = Some (Inr u, d')" using Suc.prems by (auto simp: p split: option.splits)
    then show ?thesis by (rule Suc.IH)
  qed
qed simp

text \<open>Rows that no batch can find old all stay, in their order.\<close>

lemma drain_keeps:
  "drain fuel prune ctx k d = Some (r, d') \<Longrightarrow>
   (\<And>kept x. subseq kept (rows d) \<Longrightarrow> x \<in> set kept \<Longrightarrow> keep x \<Longrightarrow> \<not> old (put d kept) x) \<Longrightarrow>
   filter keep (rows d') = filter keep (rows d)"
proof (induction fuel arbitrary: k d)
  case (Suc fuel)
  show ?case
  proof (cases "prune d")
    case (Inl e)
    then show ?thesis using Suc.prems by simp
  next
    case (Inr p)
    obtain d1 n where p: "p = (d1, n)" by (cases p)
    from deletes [OF Inr [unfolded p]] obtain kept where
      kept: "d1 = put d kept" "subseq kept (rows d)" "filter (\<lambda>r. \<not> old d r) kept = filter (\<lambda>r. \<not> old d r) (rows d)" by blast
    have new: "keep x \<Longrightarrow> \<not> old d x" if "x \<in> set (rows d)" for x
      using Suc.prems(2) [of "rows d" x] that by (simp add: rows_put)
    have "set kept \<subseteq> set (rows d)" by (rule subseq_set [OF kept(2)])
    then have "filter keep kept = filter keep (filter (\<lambda>r. \<not> old d r) kept)"
      unfolding filter_filter using new by (intro filter_cong) auto
    also have "\<dots> = filter keep (rows d)" unfolding kept(3) filter_filter using new by (intro filter_cong) auto
    finally have one: "filter keep (rows d1) = filter keep (rows d)" by (simp add: kept(1) rows_put)
    show ?thesis
    proof (cases "d' = d1")
      case False
      then have "drain fuel prune ctx (k + 1) d1 = Some (r, d')"
        using Suc.prems(1) by (auto simp: Inr p split: if_splits option.splits)
      then have "filter keep (rows d') = filter keep (rows d1)"
      proof (rule Suc.IH)
        show "\<not> old (put d1 kept') x" if "subseq kept' (rows d1)" "x \<in> set kept'" "keep x" for kept' x
          using Suc.prems(2) [of kept' x] that kept(1,2) by (auto simp: rows_put)
      qed
      then show ?thesis using one by simp
    qed (use one in simp)
  qed
qed simp

end

section \<open>The five prunes\<close>

lemma dropFirst_all: "length xs < length (dropFirst n P xs) + n \<Longrightarrow> x \<in> set (dropFirst n P xs) \<Longrightarrow> \<not> P x"
  by (induction n P xs rule: dropFirst.induct) (auto split: nat.splits if_splits)

lemma dropFirst_shorter: "length (dropFirst n P xs) \<le> length xs"
  by (induction n P xs rule: dropFirst.induct) (auto split: nat.splits intro: le_SucI)

lemma dropFirst_subseq: "subseq (dropFirst n P xs) xs"
  by (induction n P xs rule: dropFirst.induct) (auto split: nat.splits)

lemma dropFirst_filter: "filter (\<lambda>x. \<not> P x) (dropFirst n P xs) = filter (\<lambda>x. \<not> P x) xs"
  by (induction n P xs rule: dropFirst.induct) (auto split: nat.splits)

lemma deleteBatch_deletes:
  assumes "deleteBatch old rows = (kept, n)"
  shows "subseq kept rows \<and> filter (\<lambda>r. \<not> old r) kept = filter (\<lambda>r. \<not> old r) rows \<and> int (length kept) = int (length rows) - n \<and>
    (n < maintenanceBatchSize \<longrightarrow> (\<forall>r \<in> set kept. \<not> old r)) \<and> 0 \<le> n"
proof -
  have k: "kept = dropFirst 500 old rows" "n = int (length rows) - int (length kept)" using assms by (auto simp: deleteBatch_def Let_def)
  have "\<forall>r \<in> set kept. \<not> old r" if "n < maintenanceBatchSize"
  proof -
    have "length rows < length kept + 500" using that k(2) by (simp add: maintenanceBatchSize_def)
    then show ?thesis unfolding k(1) by (intro ballI) (rule dropFirst_all)
  qed
  moreover have "0 \<le> n" using k dropFirst_shorter [of 500 old rows] by simp
  ultimately show ?thesis using k(2) dropFirst_subseq [of 500 old rows] dropFirst_filter [of old 500 rows] unfolding k(1) [symmetric]
    by auto
qed

lemma Prune_batch: "Prune d before = (case deleteBatch (\<lambda>e. e_state e = ''settled'' \<and> e_reset_at e < before) (allocation_entries d) of
    (kept, n) \<Rightarrow> exec d ''PruneAllocations'' True (d\<lparr>allocation_entries := kept\<rparr>, n))"
  by (simp add: Prune_def PruneAllocations_def deleteBatch_def Let_def)

lemma batch_pruneI:
  assumes "\<And>d. prune d = (case deleteBatch (old d) (rows d) of (kept, n) \<Rightarrow> exec d name True (put d kept, n))"
    and "\<And>d kept. rows (put d kept) = kept" "\<And>d kept kept'. put (put d kept) kept' = put d kept'" "\<And>d. put d (rows d) = d"
  shows "batch_prune prune rows put old"
proof
  fix d d' n
  assume p: "prune d = Inr (d', n)"
  obtain kept m where b: "deleteBatch (old d) (rows d) = (kept, m)" by (cases "deleteBatch (old d) (rows d)")
  then have d': "d' = put d kept" "n = m" using p by (simp_all add: assms(1) exec_Inr)
  note del = deleteBatch_deletes [OF b]
  show "(\<exists>kept. d' = put d kept \<and> subseq kept (rows d) \<and>
      filter (\<lambda>r. \<not> old d r) kept = filter (\<lambda>r. \<not> old d r) (rows d) \<and>
      int (length kept) = int (length (rows d)) - n) \<and> 0 \<le> n"
    using del d' by blast
  show "r \<in> set (rows d') \<Longrightarrow> \<not> old d r" if "n < maintenanceBatchSize" for r
    using del d' that assms(2) by simp
qed (use assms in simp_all)

interpretation entries: batch_prune "\<lambda>d. Prune d before" allocation_entries "\<lambda>d rows. d\<lparr>allocation_entries := rows\<rparr>"
    "\<lambda>d e. e_state e = ''settled'' \<and> e_reset_at e < before" for before
  by (rule batch_pruneI [OF Prune_batch]) simp_all

interpretation daily: batch_prune "\<lambda>d. PruneStatistics d before" usage_daily "\<lambda>d rows. d\<lparr>usage_daily := rows\<rparr>"
    "\<lambda>d r. uk_time (fst r) < before" for before
  by (rule batch_pruneI [OF PruneStatistics_def]) simp_all

interpretation hours: batch_prune "\<lambda>d. PruneHourlyUsage d before" usage_hourly "\<lambda>d rows. d\<lparr>usage_hourly := rows\<rparr>"
    "\<lambda>d r. hk_hour (fst r) < before" for before
  by (rule batch_pruneI [OF PruneHourlyUsage_def]) simp_all

interpretation minutes: batch_prune "\<lambda>d. PruneMinuteStatistics d before" usage_minutes "\<lambda>d rows. d\<lparr>usage_minutes := rows\<rparr>"
    "\<lambda>d r. uk_time (snd (fst r)) < before" for before
  by (rule batch_pruneI [OF PruneMinuteStatistics_def]) simp_all

interpretation history: batch_prune "\<lambda>d. PruneRequests d before" request_records "\<lambda>d rows. d\<lparr>request_records := rows\<rparr>"
    "\<lambda>d. oldRequest (newestLimit (request_records d)) before" for before
  by (rule batch_pruneI [OF PruneRequests_def]) simp_all

section \<open>The whole pass\<close>

definition smallTables :: "nat \<Rightarrow> store \<Rightarrow> bool" where
  "smallTables fuel d \<longleftrightarrow> length (allocation_entries d) < 500 * fuel \<and> length (usage_daily d) < 500 * fuel \<and>
     length (usage_hourly d) < 500 * fuel \<and> length (usage_minutes d) < 500 * fuel \<and> length (request_records d) < 500 * fuel"

lemma filter_take_le: "length (filter P (take n xs)) \<le> length (filter P xs)"
  using filter_append [of P "take n xs" "drop n xs"] by (metis append_take_drop_id length_append le_add1)

text \<open>A list sorted downwards has more than \<open>n\<close> elements from its \<open>n\<close>-th on, and at most \<open>n\<close> above it.\<close>

lemma down_count:
  fixes ids :: "int list"
  assumes "sorted_wrt (\<ge>) ids" "n < length ids"
  shows "a \<le> ids ! n \<Longrightarrow> n < length (filter (\<lambda>i. a \<le> i) ids)"
    and "length (filter (\<lambda>i. ids ! n < i) ids) \<le> n"
proof -
  have ge: "ids ! n \<le> ids ! k" if "k \<le> n" for k
    using that assms sorted_wrt_nth_less [of "(\<ge>)" ids k n] by (cases "k = n") simp_all
  {
    assume "a \<le> ids ! n"
    have "a \<le> i" if "i \<in> set (take (Suc n) ids)" for i
      using that \<open>a \<le> ids ! n\<close> ge assms(2) by (auto simp: in_set_conv_nth less_Suc_eq_le intro: order_trans)
    then have "filter (\<lambda>i. a \<le> i) (take (Suc n) ids) = take (Suc n) ids" by simp
    then show "n < length (filter (\<lambda>i. a \<le> i) ids)"
      using filter_take_le [of "\<lambda>i. a \<le> i" "Suc n" ids] assms(2) by simp
  }
  have "\<not> ids ! n < i" if i: "i \<in> set (drop n ids)" for i
  proof -
    obtain k where k: "k < length ids - n" "i = ids ! (n + k)" using i assms(2) by (auto simp: in_set_conv_nth)
    then show ?thesis using assms sorted_wrt_nth_less [of "(\<ge>)" ids n "n + k"] by (cases "k = 0") (simp_all add: not_less)
  qed
  then have "filter (\<lambda>i. ids ! n < i) (drop n ids) = []" by (simp add: filter_empty_conv)
  then have "filter (\<lambda>i. ids ! n < i) ids = filter (\<lambda>i. ids ! n < i) (take n ids)"
    by (metis append_Nil2 append_take_drop_id filter_append)
  then show "length (filter (\<lambda>i. ids ! n < i) ids) \<le> n" by (metis length_filter_le length_take le_trans min.cobounded2)
qed

lemma filter_rowids: "length (filter P (rev (sort (map q_rowid rows)))) = length (filter (\<lambda>r. P (q_rowid r)) rows)"
proof -
  have "mset (filter P (rev (sort (map q_rowid rows)))) = mset (filter P (map q_rowid rows))" by (simp add: mset_filter)
  then have "length (filter P (rev (sort (map q_rowid rows)))) = length (filter P (map q_rowid rows))" by (rule mset_eq_length)
  then show ?thesis by (simp add: filter_map comp_def)
qed

lemma newestLimit_Some:
  assumes "newestLimit rows = Some i"
  shows "q_rowid r \<le> i \<Longrightarrow> 5000 < length (filter (\<lambda>x. q_rowid r \<le> q_rowid x) rows)"
    and "length (filter (\<lambda>x. i < q_rowid x) rows) \<le> 5000"
proof -
  let ?ids = "rev (sort (map q_rowid rows))"
  have i: "5000 < length ?ids" "i = ?ids ! 5000" using assms by (auto simp: newestLimit_def Let_def split: if_splits)
  have "sorted_wrt (\<ge>) ?ids" by (simp only: sorted_wrt_rev) (simp add: sorted_sort)
  note c = down_count [OF this i(1), folded i(2)]
  show "q_rowid r \<le> i \<Longrightarrow> 5000 < length (filter (\<lambda>x. q_rowid r \<le> q_rowid x) rows)" using c(1) [of "q_rowid r"] by (simp only: filter_rowids)
  show "length (filter (\<lambda>x. i < q_rowid x) rows) \<le> 5000" using c(2) by (simp only: filter_rowids)
qed

text \<open>What a pass may do: delete rows of the five tables that are past their age, or past the newest 5000.\<close>

definition midnight :: "int \<Rightarrow> int" where
  "midnight now = now div 86400 * 86400"

definition deleted :: "('a \<Rightarrow> bool) \<Rightarrow> 'a list \<Rightarrow> 'a list \<Rightarrow> bool" where
  "deleted old rows kept \<longleftrightarrow> subseq kept rows \<and> filter (\<lambda>r. \<not> old r) kept = filter (\<lambda>r. \<not> old r) rows"

lemma deleted_refl [simp]: "deleted old rows rows"
  by (simp add: deleted_def)

lemma deleted_trans:
  assumes "deleted old a b" "deleted old' b c" "\<And>x. old' x \<Longrightarrow> old x"
  shows "deleted old a c"
proof -
  have f: "filter (\<lambda>r. \<not> old r) (filter (\<lambda>r. \<not> old' r) xs) = filter (\<lambda>r. \<not> old r) xs" for xs
    unfolding filter_filter using assms(3) by (intro filter_cong) auto
  have "filter (\<lambda>r. \<not> old r) c = filter (\<lambda>r. \<not> old r) b" using assms(2) f [of c] f [of b] by (simp add: deleted_def)
  then show ?thesis using assms(1,2) subseq_order.trans by (auto simp: deleted_def)
qed

lemma deleted_rows: "deleted old rows kept \<Longrightarrow> set kept \<subseteq> set rows \<and> length kept \<le> length rows"
  unfolding deleted_def using list_emb_length subseq_set by blast

lemma deleted_kept: "deleted old rows kept \<Longrightarrow> \<forall>r \<in> set kept. \<not> old r \<Longrightarrow> kept = filter (\<lambda>r. \<not> old r) rows"
  unfolding deleted_def by (metis filter_True)

text \<open>A request that is too old, or has 5000 newer ones: with itself, more than 5000 are not older.\<close>

definition expiredRequest :: "int \<Rightarrow> request_row list \<Rightarrow> request_row \<Rightarrow> bool" where
  "expiredRequest before rows r \<longleftrightarrow> q_started_at r < before \<or> 5000 < length (filter (\<lambda>x. q_rowid r \<le> q_rowid x) rows)"

lemma expiredRequest_subseq: "subseq kept rows \<Longrightarrow> expiredRequest before kept r \<Longrightarrow> expiredRequest before rows r"
  unfolding expiredRequest_def using list_emb_length [OF subseq_filter] by (meson less_le_trans)

lemma oldRequest_expired: "oldRequest (newestLimit rows) before r \<Longrightarrow> expiredRequest before rows r"
  unfolding oldRequest_def expiredRequest_def using newestLimit_Some(1) by (auto split: option.splits)

lemma newest_left:
  assumes "subseq kept rows" "\<forall>r \<in> set kept. \<not> oldRequest (newestLimit rows) before r"
  shows "length kept \<le> 5000"
proof (cases "newestLimit rows")
  case None
  then have "length rows \<le> 5000" by (auto simp: newestLimit_def Let_def split: if_splits)
  then show ?thesis using list_emb_length [OF assms(1)] by simp
next
  case (Some i)
  then have "\<forall>x \<in> set kept. i < q_rowid x" using assms(2) by (simp add: oldRequest_def not_le)
  then have "filter (\<lambda>x. i < q_rowid x) kept = kept" by simp
  then show ?thesis using newestLimit_Some(2) [OF Some] list_emb_length [OF subseq_filter [OF assms(1), of "\<lambda>x. i < q_rowid x"]] by simp
qed

definition framed :: "store \<Rightarrow> store \<Rightarrow> bool" where
  "framed d d' \<longleftrightarrow> (\<exists>es da ho mi rq. d' = d\<lparr>allocation_entries := es, usage_daily := da, usage_hourly := ho, usage_minutes := mi,
     request_records := rq\<rparr>)"

lemma framed_simps [simp]:
  "framed d d" "framed d (d\<lparr>allocation_entries := es\<rparr>)" "framed d (d\<lparr>usage_daily := da\<rparr>)" "framed d (d\<lparr>usage_hourly := ho\<rparr>)"
  "framed d (d\<lparr>usage_minutes := mi\<rparr>)" "framed d (d\<lparr>request_records := rq\<rparr>)"
  unfolding framed_def
  by (rule exI [of _ "allocation_entries d"] exI, rule exI [of _ "usage_daily d"] exI, rule exI [of _ "usage_hourly d"] exI,
    rule exI [of _ "usage_minutes d"] exI, rule exI [of _ "request_records d"] exI, simp)+

lemma framed_trans: "framed a b \<Longrightarrow> framed b c \<Longrightarrow> framed a c"
  unfolding framed_def by (elim exE) (simp, blast)

definition pruned :: "int \<Rightarrow> store \<Rightarrow> store \<Rightarrow> bool" where
  "pruned now d d' \<longleftrightarrow>
     framed d d' \<and>
     deleted (\<lambda>e. e_state e = ''settled'' \<and> e_reset_at e < now - 90 * 86400) (allocation_entries d) (allocation_entries d') \<and>
     deleted (\<lambda>r. uk_time (fst r) < midnight now - 89 * 86400) (usage_daily d) (usage_daily d') \<and>
     deleted (\<lambda>r. hk_hour (fst r) < midnight now - 90 * 86400) (usage_hourly d) (usage_hourly d') \<and>
     deleted (\<lambda>r. uk_time (snd (fst r)) < midnight now - 90 * 86400) (usage_minutes d) (usage_minutes d') \<and>
     deleted (expiredRequest (now - 7 * 86400) (request_records d)) (request_records d) (request_records d')"

lemma pruned_refl: "pruned now d d"
  by (simp add: pruned_def)

lemma pruned_trans:
  assumes ab: "pruned now a b" and bc: "pruned now b c"
  shows "pruned now a c"
proof -
  have "framed a c" using assms unfolding pruned_def by (blast intro: framed_trans)
  moreover have "subseq (request_records b) (request_records a)" using ab by (simp add: pruned_def deleted_def)
  then have "deleted (expiredRequest (now - 7 * 86400) (request_records a)) (request_records a) (request_records c)"
    using assms expiredRequest_subseq unfolding pruned_def by (blast intro: deleted_trans)
  ultimately show ?thesis
    using assms unfolding pruned_def by (elim conjE) (intro conjI, assumption, (erule (1) deleted_trans, assumption)+, assumption)
qed

lemma pruned_small: "pruned now d d' \<Longrightarrow> smallTables fuel d \<Longrightarrow> smallTables fuel d'"
  unfolding pruned_def smallTables_def by (meson deleted_rows le_less_trans)

text \<open>Each prune, with what its table looks like once it is through.\<close>

definition through :: "int \<Rightarrow> (prune \<times> (store \<Rightarrow> bool)) list" where
  "through now = zip (prunesAt now)
     [\<lambda>d. \<forall>e \<in> set (allocation_entries d). \<not> (e_state e = ''settled'' \<and> e_reset_at e < now - 90 * 86400),
      \<lambda>d. \<forall>r \<in> set (usage_daily d). \<not> uk_time (fst r) < midnight now - 89 * 86400,
      \<lambda>d. \<forall>r \<in> set (usage_hourly d). \<not> hk_hour (fst r) < midnight now - 90 * 86400,
      \<lambda>d. \<forall>r \<in> set (usage_minutes d). \<not> uk_time (snd (fst r)) < midnight now - 90 * 86400,
      \<lambda>d. (\<forall>r \<in> set (request_records d). \<not> q_started_at r < now - 7 * 86400) \<and> length (request_records d) \<le> 5000]"

definition sound :: "int \<Rightarrow> prune \<times> (store \<Rightarrow> bool) \<Rightarrow> bool" where
  "sound now pc \<longleftrightarrow> (\<forall>fuel ctx k d. (smallTables fuel d \<longrightarrow> drain fuel (fst pc) ctx k d \<noteq> None) \<and>
     (\<forall>r d'. drain fuel (fst pc) ctx k d = Some (r, d') \<longrightarrow> pruned now d d' \<and> (r = Inr () \<longrightarrow> snd pc d')) \<and>
     (\<forall>d'. pruned now d d' \<longrightarrow> snd pc d \<longrightarrow> snd pc d'))"

lemma drainAll_sound:
  assumes "list_all (sound now) pcs" "smallTables fuel d"
  shows "\<exists>r d'. drainAll fuel (map fst pcs) ctx d = Some (r, d') \<and> pruned now d d' \<and> (r = Inr () \<longrightarrow> list_all (\<lambda>pc. snd pc d') pcs)"
  using assms
proof (induction pcs arbitrary: ctx d)
  case Nil
  then show ?case by (simp add: pruned_refl)
next
  case (Cons pc pcs)
  then have s: "sound now pc" by simp
  then obtain r d1 where d1: "drain fuel (fst pc) (ctx 0) 0 d = Some (r, d1)"
    using Cons.prems(2) unfolding sound_def by (metis option.exhaust prod.exhaust)
  then have p: "pruned now d d1" "r = Inr () \<Longrightarrow> snd pc d1" using s unfolding sound_def by blast+
  show ?case
  proof (cases r)
    case (Inl e)
    then show ?thesis using d1 p by simp
  next
    case (Inr u)
    obtain r' d' where d': "drainAll fuel (map fst pcs) (\<lambda>i. ctx (Suc i)) d1 = Some (r', d')" "pruned now d1 d'"
      "r' = Inr () \<longrightarrow> list_all (\<lambda>pc. snd pc d') pcs"
      using Cons.IH [of d1 "\<lambda>i. ctx (Suc i)"] Cons.prems pruned_small [OF p(1)] by auto
    moreover have "snd pc d'" using s d'(2) p(2) Inr unfolding sound_def by simp
    ultimately show ?thesis using d1 Inr pruned_trans [OF p(1)] by simp
  qed
qed

lemma soundI:
  assumes b: "batch_prune prune rows put old" and "\<And>fuel d. smallTables fuel d \<Longrightarrow> length (rows d) < 500 * fuel"
    and keep: "\<And>d kept x. subseq kept (rows d) \<Longrightarrow> old (put d kept) x \<Longrightarrow> expired d x"
    and "\<And>d kept. deleted (expired d) (rows d) kept \<Longrightarrow> pruned now d (put d kept)"
    and "\<And>d d'. subseq (rows d') (rows d) \<Longrightarrow> \<forall>r \<in> set (rows d'). \<not> old d r \<Longrightarrow> gone d'" and "\<And>d d'. pruned now d d' \<Longrightarrow> gone d \<Longrightarrow> gone d'"
  shows "sound now (prune, gone)"
  unfolding sound_def fst_conv snd_conv
proof (intro allI conjI impI)
  fix fuel ctx k d r d'
  show "smallTables fuel d \<Longrightarrow> drain fuel prune ctx k d \<noteq> None"
    by (rule batch_prune.drain_ends [OF b]) (use assms(2) in fastforce)
  assume run: "drain fuel prune ctx k d = Some (r, d')"
  from batch_prune.drain_deletes [OF b this] obtain kept where kept: "d' = put d kept" "subseq kept (rows d)" by blast
  have "filter (\<lambda>x. \<not> expired d x) (rows d') = filter (\<lambda>x. \<not> expired d x) (rows d)"
    by (rule batch_prune.drain_keeps [OF b run]) (use keep in blast)
  then have "deleted (expired d) (rows d) kept" using kept by (simp add: deleted_def batch_prune.rows_put [OF b])
  then show "pruned now d d'" unfolding kept(1) by (rule assms(4))
  assume "r = Inr ()"
  with run batch_prune.drain_clean [OF b] assms(5) show "gone d'" by blast
qed (use assms(6) in blast)

lemma deleted_in: "r \<in> set kept \<Longrightarrow> deleted old rows kept \<Longrightarrow> r \<in> set rows"
  using deleted_rows by blast

lemma sound_through: "list_all (sound now) (through now)"
  unfolding through_def prunesAt_def Let_def midnight_def [symmetric] zip.simps list.case list.pred_inject
proof (intro conjI TrueI)
  show "sound now (\<lambda>d. Prune d (now - 90 * 86400), \<lambda>d. \<forall>e \<in> set (allocation_entries d). \<not> (e_state e = ''settled'' \<and> e_reset_at e < now - 90 * 86400))"
    by (rule soundI [OF entries.batch_prune_axioms, where expired = "\<lambda>d e. e_state e = ''settled'' \<and> e_reset_at e < now - 90 * 86400"])
      (auto simp: smallTables_def pruned_def dest: deleted_in)
  show "sound now (\<lambda>d. PruneStatistics d (midnight now - 89 * 86400), \<lambda>d. \<forall>r \<in> set (usage_daily d). \<not> uk_time (fst r) < midnight now - 89 * 86400)"
    by (rule soundI [OF daily.batch_prune_axioms, where expired = "\<lambda>d r. uk_time (fst r) < midnight now - 89 * 86400"])
      (auto simp: smallTables_def pruned_def dest: deleted_in)
  show "sound now (\<lambda>d. PruneHourlyUsage d (midnight now - 90 * 86400), \<lambda>d. \<forall>r \<in> set (usage_hourly d). \<not> hk_hour (fst r) < midnight now - 90 * 86400)"
    by (rule soundI [OF hours.batch_prune_axioms, where expired = "\<lambda>d r. hk_hour (fst r) < midnight now - 90 * 86400"])
      (auto simp: smallTables_def pruned_def dest: deleted_in)
  show "sound now (\<lambda>d. PruneMinuteStatistics d (midnight now - 90 * 86400),
      \<lambda>d. \<forall>r \<in> set (usage_minutes d). \<not> uk_time (snd (fst r)) < midnight now - 90 * 86400)"
    by (rule soundI [OF minutes.batch_prune_axioms, where expired = "\<lambda>d r. uk_time (snd (fst r)) < midnight now - 90 * 86400"])
      (auto simp: smallTables_def pruned_def dest: deleted_in)
  show "sound now (\<lambda>d. PruneRequests d (now - 7 * 86400),
      \<lambda>d. (\<forall>r \<in> set (request_records d). \<not> q_started_at r < now - 7 * 86400) \<and> length (request_records d) \<le> 5000)"
  proof (rule soundI [OF history.batch_prune_axioms, where expired = "\<lambda>d. expiredRequest (now - 7 * 86400) (request_records d)"])
    show "expiredRequest (now - 7 * 86400) (request_records d) x"
      if "subseq kept (request_records d)" "oldRequest (newestLimit (request_records (d\<lparr>request_records := kept\<rparr>))) (now - 7 * 86400) x" for d kept x
      using oldRequest_expired [OF that(2)] expiredRequest_subseq [OF that(1)] by simp
    show "(\<forall>r \<in> set (request_records d'). \<not> q_started_at r < now - 7 * 86400) \<and> length (request_records d') \<le> 5000"
      if "subseq (request_records d') (request_records d)"
        "\<forall>r \<in> set (request_records d'). \<not> oldRequest (newestLimit (request_records d)) (now - 7 * 86400) r" for d d'
      using newest_left [OF that] that(2) by (auto simp: oldRequest_def)
    show "(\<forall>r \<in> set (request_records d'). \<not> q_started_at r < now - 7 * 86400) \<and> length (request_records d') \<le> 5000"
      if "pruned now d d'" "(\<forall>r \<in> set (request_records d). \<not> q_started_at r < now - 7 * 86400) \<and> length (request_records d) \<le> 5000" for d d'
    proof -
      have "deleted (expiredRequest (now - 7 * 86400) (request_records d)) (request_records d) (request_records d')"
        using that(1) by (simp add: pruned_def)
      from deleted_rows [OF this] that(2) show ?thesis by auto
    qed
  qed (auto simp: smallTables_def pruned_def)
qed simp

section \<open>Properties\<close>

text \<open>
  C25: Pruning ends: \<open>fuel\<close> batches per table suffice for tables of fewer than \<open>500 * fuel\<close> rows,
  whatever fails on the way. A pass only deletes rows past their age, and requests that 5000 others are newer than:
  it changes no other table and leaves all other rows, in their order. A pass that succeeds leaves of
  the ledger and the statistics exactly the rows that are not past their age, and of the requests none that is past
  its age and at most 5000.
\<close>

theorem pruning_terminates:
  assumes "smallTables fuel d"
  shows "\<exists>r d'. pruneHistory fuel ctx now d = Some (r, d') \<and> pruned now d d' \<and>
    (r = Inr () \<longrightarrow>
      allocation_entries d' = filter (\<lambda>e. \<not> (e_state e = ''settled'' \<and> e_reset_at e < now - 90 * 86400)) (allocation_entries d) \<and>
      usage_daily d' = filter (\<lambda>row. \<not> uk_time (fst row) < midnight now - 89 * 86400) (usage_daily d) \<and>
      usage_hourly d' = filter (\<lambda>row. \<not> hk_hour (fst row) < midnight now - 90 * 86400) (usage_hourly d) \<and>
      usage_minutes d' = filter (\<lambda>row. \<not> uk_time (snd (fst row)) < midnight now - 90 * 86400) (usage_minutes d) \<and>
      (\<forall>row \<in> set (request_records d'). now - 7 * 86400 \<le> q_started_at row) \<and> length (request_records d') \<le> 5000)"
proof -
  have prunes: "map fst (through now) = prunesAt now" by (simp add: through_def prunesAt_def Let_def)
  obtain r d' where run: "drainAll fuel (prunesAt now) ctx d = Some (r, d')" "pruned now d d'"
    and clean: "r = Inr () \<longrightarrow> list_all (\<lambda>pc. snd pc d') (through now)"
    using drainAll_sound [OF sound_through [of now] assms, unfolded prunes, of ctx] by blast
  show ?thesis
  proof (intro exI conjI impI)
    show "pruneHistory fuel ctx now d = Some (r, d')" "pruned now d d'" using run by (simp_all add: pruneHistory_def)
    assume "r = Inr ()"
    with clean have c: "\<forall>e \<in> set (allocation_entries d'). \<not> (e_state e = ''settled'' \<and> e_reset_at e < now - 90 * 86400)"
      "\<forall>r \<in> set (usage_daily d'). \<not> uk_time (fst r) < midnight now - 89 * 86400"
      "\<forall>r \<in> set (usage_hourly d'). \<not> hk_hour (fst r) < midnight now - 90 * 86400"
      "\<forall>r \<in> set (usage_minutes d'). \<not> uk_time (snd (fst r)) < midnight now - 90 * 86400"
      "\<forall>r \<in> set (request_records d'). \<not> q_started_at r < now - 7 * 86400" "length (request_records d') \<le> 5000"
      by (simp_all add: through_def prunesAt_def Let_def)
    from run(2) show "allocation_entries d' = filter (\<lambda>e. \<not> (e_state e = ''settled'' \<and> e_reset_at e < now - 90 * 86400)) (allocation_entries d)"
      unfolding pruned_def by (blast intro: deleted_kept [OF _ c(1)])
    from run(2) show "usage_daily d' = filter (\<lambda>row. \<not> uk_time (fst row) < midnight now - 89 * 86400) (usage_daily d)"
      unfolding pruned_def by (blast intro: deleted_kept [OF _ c(2)])
    from run(2) show "usage_hourly d' = filter (\<lambda>row. \<not> hk_hour (fst row) < midnight now - 90 * 86400) (usage_hourly d)"
      unfolding pruned_def by (blast intro: deleted_kept [OF _ c(3)])
    from run(2) show "usage_minutes d' = filter (\<lambda>row. \<not> uk_time (snd (fst row)) < midnight now - 90 * 86400) (usage_minutes d)"
      unfolding pruned_def by (blast intro: deleted_kept [OF _ c(4)])
    show "\<forall>row \<in> set (request_records d'). now - 7 * 86400 \<le> q_started_at row" using c(5) by (simp add: not_less)
    show "length (request_records d') \<le> 5000" by (rule c(6))
  qed
qed

definition exampleHistory :: store where
  "exampleHistory = (exampleStore [])\<lparr>request_records :=
     [exampleCounted\<lparr>q_rowid := 1, q_started_at := 0\<rparr>, exampleCounted\<lparr>q_rowid := 2, q_started_at := 8639000\<rparr>], usage_daily :=
     [(\<lparr>uk_time = 0, uk_user = 7, uk_group = 1, uk_provider = ''codex'', uk_model = ''gpt-5'', uk_key = 0\<rparr>, zeroC),
      (\<lparr>uk_time = 8640000, uk_user = 7, uk_group = 1, uk_provider = ''codex'', uk_model = ''gpt-5'', uk_key = 0\<rparr>, zeroC)]\<rparr>"

theorem pruning_terminates_witness:
  "\<exists>d'. pruneHistory 1 (\<lambda>i k. None) 8640000 exampleHistory = Some (Inr (), d') \<and>
     map (uk_time \<circ> fst) (usage_daily d') = [8640000] \<and> map q_rowid (request_records d') = [2]"
proof -
  have small: "smallTables 1 exampleHistory" by (simp add: smallTables_def exampleHistory_def exampleStore_def)
  have "map_option (map_prod id (map q_rowid \<circ> request_records)) (pruneHistory 1 (\<lambda>i k. None) 8640000 exampleHistory) = Some (Inr (), [2])"
    by code_simp
  then obtain d' where d': "pruneHistory 1 (\<lambda>i k. None) 8640000 exampleHistory = Some (Inr (), d')" "map q_rowid (request_records d') = [2]"
    by (cases "pruneHistory 1 (\<lambda>i k. None) 8640000 exampleHistory") auto
  have "usage_daily d' = filter (\<lambda>row. \<not> uk_time (fst row) < midnight 8640000 - 89 * 86400) (usage_daily exampleHistory)"
    using pruning_terminates [OF small, of "\<lambda>i k. None" 8640000] d'(1) by simp
  with d' show ?thesis by (intro exI [of _ d']) (simp add: exampleHistory_def midnight_def)
qed

end
