(* ===== verification/Pagination.thy ===== *)
theory Pagination
  imports Prelude
begin

text \<open>
  Bounds of numbered pages and cursors (\<open>internal/pagination/pagination.go\<close>).
\<close>

record Input =
  in_Page :: int
  in_Limit :: int
  in_Cursor :: int

record Metadata =
  Total :: int
  Page :: int
  PageSize :: int

definition validInput :: "Input \<Rightarrow> bool" where
  "validInput p \<longleftrightarrow> in_Page p \<ge> 0 \<and> in_Limit p \<ge> 0 \<and> in_Limit p \<le> 100 \<and> in_Cursor p \<ge> 0 \<and> (in_Cursor p = 0 \<or> in_Page p = 0)"

definition Resolve :: "Input \<Rightarrow> int \<Rightarrow> Metadata" where
  "Resolve p n =
     (let size = (if in_Limit p = 0 then 50 else in_Limit p);
          page = min (max 1 (in_Page p)) (max 1 (1 + (n - 1) sdiv size))
      in \<lparr>Total = n, Page = page, PageSize = size\<rparr>)"

definition Offset :: "Metadata \<Rightarrow> int" where
  "Offset p = (Page p - 1) * PageSize p"

end
