(* ===== verification/Gateway_History.thy ===== *)
theory Gateway_History
  imports Gateway_Route Alloc_Pricing Statistics Pagination
begin

text \<open>
  Reading the request history (\<open>internal/gateway/requests.go\<close>) in numbered pages or from a cursor, for a workspace or one of its members.
\<close>

section \<open>Statements\<close>

record RequestFilter =
  f_Cursor :: int
  f_Page :: int
  f_Limit :: int
  f_AccountID :: string
  f_Outcome :: string
  f_Model :: string
  f_RequestID :: string
  f_From :: int
  f_Until :: int
  f_KeyID :: int
  f_MemberID :: int

text \<open>The conditions \<open>CountRequests\<close> and \<open>ListRequests\<close> share; a zero value does not filter.\<close>

definition inScope :: "store \<Rightarrow> int \<Rightarrow> int \<Rightarrow> RequestFilter \<Rightarrow> int \<Rightarrow> request_row \<Rightarrow> bool" where
  "inScope d tenant user f since r \<longleftrightarrow>
     list_ex (\<lambda>g. g_id g = q_group r \<and> g_tenant g = tenant) (account_groups d) \<and>
     (q_user r = user \<or> user = 0) \<and> (q_account r = f_AccountID f \<or> f_AccountID f = []) \<and>
     (q_outcome r = f_Outcome f \<or> f_Outcome f = []) \<and> q_started_at r \<ge> since \<and>
     (q_started_at r < f_Until f \<or> f_Until f = 0) \<and> (q_user r = f_MemberID f \<or> f_MemberID f = 0) \<and>
     (q_key r = f_KeyID f \<or> f_KeyID f = 0) \<and> (q_model r = f_Model f \<or> f_Model f = []) \<and>
     (q_id r = f_RequestID f \<or> f_RequestID f = [])"

definition CountRequests :: "store \<Rightarrow> int \<Rightarrow> int \<Rightarrow> RequestFilter \<Rightarrow> int \<Rightarrow> int result" where
  "CountRequests d tenant user f since = query d ''CountRequests''
     (int (length (filter (inScope d tenant user f since) (request_records d))))"

text \<open>The matching requests, newest first.\<close>

definition newestFirst :: "store \<Rightarrow> int \<Rightarrow> int \<Rightarrow> RequestFilter \<Rightarrow> int \<Rightarrow> request_row list" where
  "newestFirst d tenant user f since = rev (sort_key q_rowid (filter (\<lambda>r. inScope d tenant user f since r \<and>
     (q_rowid r < f_Cursor f \<or> f_Cursor f = 0)) (request_records d)))"

definition ListRequests :: "store \<Rightarrow> int \<Rightarrow> int \<Rightarrow> RequestFilter \<Rightarrow> int \<Rightarrow> int \<Rightarrow> int \<Rightarrow> request_row list result" where
  "ListRequests d tenant user f since pageLimit pageOffset = query d ''ListRequests''
     (take (nat pageLimit) (drop (nat pageOffset) (newestFirst d tenant user f since)))"

text \<open>\<open>COALESCE(x.name,'')\<close> of a left join.\<close>

definition nameOf :: "('a \<Rightarrow> bool) \<Rightarrow> ('a \<Rightarrow> string) \<Rightarrow> 'a list \<Rightarrow> string" where
  "nameOf hit name rows = (case first_of hit rows of None \<Rightarrow> [] | Some x \<Rightarrow> name x)"

section \<open>Requests\<close>

record RequestRecord =
  Columns :: request_row
  Username :: string
  KeyName :: string
  GroupName :: string
  AccountName :: string
  EstimatedCostMicroUSD :: "int option"
  Route :: "RouteExplanation option"
  ContentResult :: "content_check option"

record RequestPage =
  pg_Metadata :: Metadata
  Requests' :: "RequestRecord list"
  NextCursor :: int

text \<open>The regular expressions \<open>safeModel\<close> and \<open>safeRequestID\<close>.\<close>

definition safeModel :: "string \<Rightarrow> bool" where
  "safeModel s = (case s of [] \<Rightarrow> False | c # cs \<Rightarrow>
     alnum c \<and> length cs \<le> 159 \<and> list_all (\<lambda>x. alnum x \<or> x \<in> set ''._:/()+-'') cs)"

definition safeRequestID :: "string \<Rightarrow> bool" where
  "safeRequestID s \<longleftrightarrow> 1 \<le> length s \<and> length s \<le> 64 \<and> list_all (\<lambda>x. alnum x \<or> x \<in> set ''_-'') s"

definition validFilter :: "RequestFilter \<Rightarrow> bool" where
  "validFilter f \<longleftrightarrow>
     \<not> (\<not> validInput \<lparr>in_Page = f_Page f, in_Limit = f_Limit f, in_Cursor = f_Cursor f\<rparr> \<or> length (f_AccountID f) > 64 \<or>
        f_KeyID f < 0 \<or> f_MemberID f < 0 \<or> f_From f < 0 \<or> f_Until f < 0 \<or> (f_Until f \<noteq> 0 \<and> f_From f \<ge> f_Until f) \<or>
        (f_Model f \<noteq> [] \<and> \<not> safeModel (f_Model f)) \<or> (f_RequestID f \<noteq> [] \<and> \<not> safeRequestID (f_RequestID f))) \<and>
     f_Outcome f \<in> set [[], ''success'', ''incomplete'', ''error'', ''canceled'', ''rejected'']"

text \<open>An unknown cache split is priced only when it makes no difference.\<close>

definition estimatedCost :: "prices option \<Rightarrow> request_row \<Rightarrow> int option" where
  "estimatedCost pricing row = (case (pricing, q_input row, q_output row) of
     (Some ps, Some input, Some out) \<Rightarrow> (case Lookup ps (q_model row) of None \<Rightarrow> None
       | Some price \<Rightarrow>
           if q_cached row = None \<and> input \<noteq> 0 \<and> P_Input price \<noteq> P_Cached price then None
           else let cached = (case q_cached row of None \<Rightarrow> 0 | Some n \<Rightarrow> n)
                in (case Cost \<lparr>R_Model = [], R_Input = P_Input price, R_Cached = P_Cached price, R_Output = P_Output price\<rparr>
                      input out cached of Inl e \<Rightarrow> None | Inr cost \<Rightarrow> Some cost))
   | _ \<Rightarrow> None)"

definition decodeRoute :: "RouteExplanation option \<Rightarrow> RouteExplanation option" where
  "decodeRoute raw = (case raw of None \<Rightarrow> None | Some r \<Rightarrow> if validRoute r then Some r else None)"

text \<open>A member does not see the account behind a request.\<close>

definition requestRecord :: "prices option \<Rightarrow> store \<Rightarrow> int \<Rightarrow> request_row \<Rightarrow> RequestRecord result" where
  "requestRecord pricing d user row =
     (let record =
        \<lparr>Columns = (if user \<noteq> 0 then row\<lparr>q_account := []\<rparr> else row),
         Username = nameOf (\<lambda>u. u_id u = q_user row) u_username (users d),
         KeyName = nameOf (\<lambda>k. k_id k = q_key row) k_name (api_keys d),
         GroupName = nameOf (\<lambda>g. g_id g = q_group row) g_name (account_groups d),
         AccountName = (if user \<noteq> 0 then [] else nameOf (\<lambda>a. a_id a = q_account row) a_name (accounts d)),
         EstimatedCostMicroUSD = estimatedCost pricing row, Route = decodeRoute (q_route row), ContentResult = None\<rparr>
      in if ContentMode (q_content row) \<noteq> [] \<or> ContentCheckFailed (q_content row) \<noteq> 0
         then bindR (Unmarshal (ContentRuleIds (q_content row))) (\<lambda>_. Inr (record\<lparr>ContentResult := Some (q_content row)\<rparr>))
         else Inr record)"

text \<open>Requests are kept for seven days.\<close>

definition historyStart :: "RequestFilter \<Rightarrow> int \<Rightarrow> int" where
  "historyStart f now = max (now - 7 * 86400) (f_From f)"

definition requests' :: "prices option \<Rightarrow> store \<Rightarrow> int \<Rightarrow> int \<Rightarrow> RequestFilter \<Rightarrow> int \<Rightarrow> RequestPage result" where
  "requests' pricing d tenant user f now =
     guardR (Accounts RErrInput) (\<not> validFilter f) (
     let since = historyStart f now in
     bindR (query d ''BeginTx'' ()) (\<lambda>_.
     bindR (CountRequests d tenant user f since) (\<lambda>n.
     let meta = Resolve \<lparr>in_Page = f_Page f, in_Limit = f_Limit f, in_Cursor = f_Cursor f\<rparr> n in
     bindR (ListRequests d tenant user f since (PageSize meta + 1) (Offset meta)) (\<lambda>rows.
     bindR (query d ''Commit'' ()) (\<lambda>_.
     let more = int (length rows) > PageSize meta; shown = (if more then take (nat (PageSize meta)) rows else rows) in
     bindR (mapR (requestRecord pricing d user) shown) (\<lambda>records.
     Inr \<lparr>pg_Metadata = meta, Requests' = records, NextCursor = (if more then q_rowid (last shown) else 0)\<rparr>))))))"

definition UserRequests :: "prices option \<Rightarrow> store \<Rightarrow> int \<Rightarrow> int \<Rightarrow> RequestFilter \<Rightarrow> int \<Rightarrow> RequestPage result" where
  "UserRequests pricing d tenant user f now =
     guardR (Accounts RErrInput) (user \<le> 0) (requests' pricing d tenant user (f\<lparr>f_MemberID := 0, f_AccountID := []\<rparr>) now)"

definition Requests :: "prices option \<Rightarrow> store \<Rightarrow> int \<Rightarrow> RequestFilter \<Rightarrow> int \<Rightarrow> RequestPage result" where
  "Requests pricing d tenant f now = requests' pricing d tenant 0 f now"

section \<open>Callers\<close>

record RequestCaller = rc_UserID :: int  rc_KeyID :: int  rc_Username :: string  rc_KeyName :: string

definition callerOf :: "store \<Rightarrow> int \<times> int \<Rightarrow> RequestCaller" where
  "callerOf d uk = \<lparr>rc_UserID = fst uk, rc_KeyID = snd uk,
     rc_Username = nameOf (\<lambda>u. u_id u = fst uk) u_username (users d), rc_KeyName = nameOf (\<lambda>k. k_id k = snd uk) k_name (api_keys d)\<rparr>"

definition ListRequestCallers :: "store \<Rightarrow> int \<Rightarrow> int \<Rightarrow> int \<Rightarrow> RequestCaller list result" where
  "ListRequestCallers d tenant user since = query d ''ListRequestCallers''
     (take 5000 (sort_key rc_Username (sort_key rc_KeyName (sort_key rc_KeyID (map (callerOf d) (remdups
       (map (\<lambda>r. (q_user r, q_key r)) (filter (\<lambda>r. list_ex (\<lambda>g. g_id g = q_group r \<and> g_tenant g = tenant) (account_groups d) \<and>
          (q_user r = user \<or> user = 0) \<and> q_started_at r \<ge> since) (request_records d)))))))))"

definition RequestCallers :: "store \<Rightarrow> int \<Rightarrow> int \<Rightarrow> int \<Rightarrow> RequestCaller list result" where
  "RequestCallers d tenant user now = ListRequestCallers d tenant user (now - 7 * 86400)"

section \<open>Lemmas\<close>

lemma mapR_append: "mapR f (xs @ ys) = bindR (mapR f xs) (\<lambda>as. bindR (mapR f ys) (\<lambda>bs. Inr (as @ bs)))"
proof (induction xs)
  case Nil
  show ?case by (cases "mapR f ys") simp_all
next
  case (Cons x xs)
  then show ?case by (cases "f x"; cases "mapR f xs"; cases "mapR f ys") simp_all
qed

text \<open>All requests in scope, and what a page shows of them.\<close>

definition scopeRows :: "store \<Rightarrow> int \<Rightarrow> int \<Rightarrow> RequestFilter \<Rightarrow> int \<Rightarrow> request_row list" where
  "scopeRows d tenant user f now =
     rev (sort_key q_rowid (filter (inScope d tenant user f (historyStart f now)) (request_records d)))"

lemma newestFirst_scope:
  "newestFirst d tenant user f (historyStart f now) =
     filter (\<lambda>r. q_rowid r < f_Cursor f \<or> f_Cursor f = 0) (scopeRows d tenant user f now)"
  by (simp add: newestFirst_def scopeRows_def rev_filter [symmetric] filter_sort conj_commute)

lemma inScope_cursor [simp]: "inScope d tenant user (f\<lparr>f_Cursor := c\<rparr>) since = inScope d tenant user f since"
  by (simp add: inScope_def fun_eq_iff)

lemma historyStart_cursor [simp]: "historyStart (f\<lparr>f_Cursor := c\<rparr>) now = historyStart f now"
  by (simp add: historyStart_def)

lemma scopeRows_cursor [simp]: "scopeRows d tenant user (f\<lparr>f_Cursor := c\<rparr>) now = scopeRows d tenant user f now"
  by (simp add: scopeRows_def)

lemma sorted_wrt_rev_sort: "distinct (map q_rowid xs) \<Longrightarrow> sorted_wrt (\<lambda>a b. q_rowid b < q_rowid a) (rev (sort_key q_rowid xs))"
proof -
  assume "distinct (map q_rowid xs)"
  then have "distinct (map q_rowid (sort_key q_rowid xs))" by (metis distinct_map distinct_sort mset_map mset_sort set_sort)
  then have "sorted_wrt (<) (map q_rowid (sort_key q_rowid xs))" by (simp add: strict_sorted_iff)
  then show ?thesis by (simp add: sorted_wrt_rev sorted_wrt_map)
qed

definition pageSize :: "RequestFilter \<Rightarrow> nat" where
  "pageSize f = nat (if f_Limit f = 0 then 50 else f_Limit f)"

definition healthy :: "store \<Rightarrow> bool" where
  "healthy d \<longleftrightarrow> list_all (\<lambda>name. \<not> fails d name) [''BeginTx'', ''CountRequests'', ''ListRequests'', ''Commit'']"

lemma descending_tail:
  assumes "sorted_wrt (\<lambda>a b. q_rowid b < q_rowid a) xs" "0 < s" "s < length xs"
  shows "filter (\<lambda>r. q_rowid r < q_rowid (last (take s xs))) xs = drop s xs"
proof -
  have "take s xs \<noteq> []" using assms(2,3) by auto
  then have l: "last (take s xs) = xs ! (s - 1)" using assms(2,3) by (simp add: last_conv_nth min_absorb2)
  have up: "\<not> q_rowid r < q_rowid (xs ! (s - 1))" if r: "r \<in> set (take s xs)" for r
  proof -
    obtain i where i: "i < s" "r = xs ! i" using r assms(3) by (auto simp: in_set_conv_nth simp del: nth_mem)
    then have "i = s - 1 \<or> i < s - 1" using assms(2) by linarith
    moreover have "s - 1 < length xs" using assms(3) by simp
    ultimately show ?thesis using i(2) sorted_wrt_nth_less [OF assms(1), of i "s - 1"] by (elim disjE) simp_all
  qed
  have down: "q_rowid r < q_rowid (xs ! (s - 1))" if r: "r \<in> set (drop s xs)" for r
  proof -
    obtain i where i: "s + i < length xs" "r = xs ! (s + i)" using r assms(3) by (force simp: in_set_conv_nth less_diff_conv)
    then show ?thesis using assms(2) sorted_wrt_nth_less [OF assms(1), of "s - 1" "s + i"] by simp
  qed
  have "filter (\<lambda>r. q_rowid r < q_rowid (last (take s xs))) (take s xs @ drop s xs) = drop s xs"
    unfolding filter_append l using up down by (simp add: filter_empty_conv)
  then show ?thesis by simp
qed

lemma nat_int_add_one: "nat (int n + 1) = Suc n"
  by simp

lemma requests_cursor:
  fixes d tenant user f now
  assumes "validFilter f" "healthy d" "f_Page f = 0"
  defines "rows \<equiv> filter (\<lambda>r. q_rowid r < f_Cursor f \<or> f_Cursor f = 0) (scopeRows d tenant user f now)"
  shows "requests' pricing d tenant user f now =
    bindR (mapR (requestRecord pricing d user) (take (pageSize f) rows)) (\<lambda>records. Inr
      \<lparr>pg_Metadata = Resolve \<lparr>in_Page = 0, in_Limit = f_Limit f, in_Cursor = f_Cursor f\<rparr>
          (int (length (scopeRows d tenant user f now))),
       Requests' = records, NextCursor = (if length rows > pageSize f then q_rowid (last (take (pageSize f) rows)) else 0)\<rparr>)"
proof -
  let ?meta = "Resolve \<lparr>in_Page = 0, in_Limit = f_Limit f, in_Cursor = f_Cursor f\<rparr> (int (length (scopeRows d tenant user f now)))"
  have size: "PageSize ?meta = int (pageSize f)" "nat (PageSize ?meta + 1) = Suc (pageSize f)" "nat (PageSize ?meta) = pageSize f"
    using assms(1) by (auto simp: validFilter_def validInput_def Resolve_def pageSize_def Let_def)
  have offset: "Offset ?meta = 0" by (simp add: Resolve_def Offset_def Let_def)
  have len: "length (filter (inScope d tenant user f since) (request_records d)) =
      length (scopeRows d tenant user f now)" if "since = historyStart f now" for since
    using that by (simp add: scopeRows_def)
  have ok: "\<not> fails d ''BeginTx''" "\<not> fails d ''CountRequests''" "\<not> fails d ''ListRequests''" "\<not> fails d ''Commit''"
    using assms(2) by (simp_all add: healthy_def)
  have more: "length (take (Suc (pageSize f)) rows) > pageSize f \<longleftrightarrow> length rows > pageSize f" by auto
  have shown: "(if length rows > pageSize f then take (pageSize f) (take (Suc (pageSize f)) rows) else take (Suc (pageSize f)) rows) =
      take (pageSize f) rows" by auto
  show ?thesis
    using assms(1,3) unfolding requests'_def Let_def
    by (simp add: guardR_def ok query_def CountRequests_def ListRequests_def newestFirst_scope rows_def [symmetric] size offset len
        more shown nat_int_add_one del: length_take)
qed

text \<open>Following the cursor from the first page on.\<close>

fun walk :: "nat \<Rightarrow> (RequestFilter \<Rightarrow> RequestPage result) \<Rightarrow> RequestFilter \<Rightarrow> RequestRecord list result" where
  "walk 0 get f = Inr []"
| "walk (Suc n) get f = bindR (get f) (\<lambda>p. if NextCursor p = 0 then Inr (Requests' p)
     else bindR (walk n get (f\<lparr>f_Cursor := NextCursor p\<rparr>)) (\<lambda>rest. Inr (Requests' p @ rest)))"

lemma walk_rows:
  assumes "validFilter f" "healthy d" "f_Page f = 0" "distinct (map q_rowid (request_records d))"
    "\<forall>r \<in> set (request_records d). 0 < q_rowid r"
  shows "length (filter (\<lambda>r. q_rowid r < f_Cursor f \<or> f_Cursor f = 0) (scopeRows d tenant user f now)) < n \<Longrightarrow>
    walk n (\<lambda>f. requests' pricing d tenant user f now) f =
      mapR (requestRecord pricing d user) (filter (\<lambda>r. q_rowid r < f_Cursor f \<or> f_Cursor f = 0) (scopeRows d tenant user f now))"
  using assms(1,3)
proof (induction n arbitrary: f)
  case 0
  then show ?case by simp
next
  case (Suc n)
  let ?all = "scopeRows d tenant user f now" and ?s = "pageSize f"
  let ?rows = "filter (\<lambda>r. q_rowid r < f_Cursor f \<or> f_Cursor f = 0) ?all"
  note page = requests_cursor [OF Suc.prems(2) assms(2) Suc.prems(3), of pricing tenant user now]
  have s: "0 < ?s" using Suc.prems(2) by (auto simp: validFilter_def validInput_def pageSize_def)
  show ?case
  proof (cases "length ?rows > ?s")
    case False
    then show ?thesis by (cases "mapR (requestRecord pricing d user) ?rows") (simp_all add: page)
  next
    case True
    let ?c = "q_rowid (last (take ?s ?rows))" and ?f = "\<lambda>c. f\<lparr>f_Cursor := c\<rparr>"
    have sorted: "sorted_wrt (\<lambda>a b. q_rowid b < q_rowid a) ?all"
      unfolding scopeRows_def by (rule sorted_wrt_rev_sort) (use assms(4) in \<open>simp add: distinct_map_filter\<close>)
    then have rows: "sorted_wrt (\<lambda>a b. q_rowid b < q_rowid a) ?rows" by (rule sorted_wrt_filter)
    have last: "last (take ?s ?rows) \<in> set ?rows"
      using s True by (metis in_set_takeD last_in_set length_greater_0_conv less_trans take_eq_Nil not_less0 neq0_conv)
    then have c: "0 < ?c" "f_Cursor f = 0 \<or> ?c < f_Cursor f" using assms(5) by (auto simp: scopeRows_def)
    have rest: "filter (\<lambda>r. q_rowid r < ?c \<or> ?c = 0) ?all = drop ?s ?rows"
    proof -
      have "filter (\<lambda>r. q_rowid r < ?c \<or> ?c = 0) ?all = filter (\<lambda>r. q_rowid r < ?c) ?rows"
        using c by (auto intro!: filter_cong)
      then show ?thesis using descending_tail [OF rows s True] by simp
    qed
    have cursor: "filter (\<lambda>r. q_rowid r < f_Cursor (?f ?c) \<or> f_Cursor (?f ?c) = 0) (scopeRows d tenant user (?f ?c) now) = drop ?s ?rows"
      using rest by simp
    have "walk n (\<lambda>f. requests' pricing d tenant user f now) (?f ?c) = mapR (requestRecord pricing d user)
        (filter (\<lambda>r. q_rowid r < f_Cursor (?f ?c) \<or> f_Cursor (?f ?c) = 0) (scopeRows d tenant user (?f ?c) now))"
    proof (rule Suc.IH)
      show "validFilter (?f ?c)" using Suc.prems(2,3) c(1) by (simp add: validFilter_def validInput_def)
      show "length (filter (\<lambda>r. q_rowid r < f_Cursor (?f ?c) \<or> f_Cursor (?f ?c) = 0) (scopeRows d tenant user (?f ?c) now)) < n"
        unfolding cursor using Suc.prems(1) s True by simp
      show "f_Page (?f ?c) = 0" using Suc.prems(3) by simp
    qed
    then have "walk n (\<lambda>f. requests' pricing d tenant user f now) (?f ?c) = mapR (requestRecord pricing d user) (drop ?s ?rows)"
      unfolding cursor .
    moreover have "mapR (requestRecord pricing d user) ?rows =
        bindR (mapR (requestRecord pricing d user) (take ?s ?rows)) (\<lambda>as.
        bindR (mapR (requestRecord pricing d user) (drop ?s ?rows)) (\<lambda>bs. Inr (as @ bs)))"
      using mapR_append [of "requestRecord pricing d user" "take ?s ?rows" "drop ?s ?rows"] by simp
    ultimately show ?thesis
      using True c(1) by (cases "mapR (requestRecord pricing d user) (take ?s ?rows)") (simp_all add: page)
  qed
qed

lemma requests_shown:
  assumes "requests' pricing d tenant user f now = Inr p"
  obtains shown where "set shown \<subseteq> set (newestFirst d tenant user f (historyStart f now))"
    "mapR (requestRecord pricing d user) shown = Inr (Requests' p)"
proof -
  obtain m rows records where rows: "ListRequests d tenant user f (historyStart f now) (PageSize m + 1) (Offset m) = Inr rows"
    and records: "mapR (requestRecord pricing d user)
      (if int (length rows) > PageSize m then take (nat (PageSize m)) rows else rows) = Inr records" and p: "Requests' p = records"
    using assms unfolding requests'_def Let_def guardR_eq_Inr bindR_eq_Inr by force
  have "set rows \<subseteq> set (newestFirst d tenant user f (historyStart f now))"
    using rows by (auto simp: ListRequests_def query_Inr dest!: in_set_takeD in_set_dropD)
  then have "set (if int (length rows) > PageSize m then take (nat (PageSize m)) rows else rows) \<subseteq>
      set (newestFirst d tenant user f (historyStart f now))"
    using set_take_subset [of "nat (PageSize m)" rows] by auto
  then show thesis using records unfolding p [symmetric] by (rule that)
qed

lemma requestRecord_Inr:
  assumes "requestRecord pricing d user row = Inr rec"
  shows "Columns rec = (if user \<noteq> 0 then row\<lparr>q_account := []\<rparr> else row)" "user \<noteq> 0 \<Longrightarrow> AccountName rec = []"
  using assms by (auto simp: requestRecord_def Let_def bindR_eq_Inr split: if_splits)

section \<open>Properties\<close>

text \<open>
  C26: The history is complete: following the cursor from the first page on shows every request in
  scope exactly once, newest first, whatever the size of the pages.
\<close>

theorem history_complete:
  assumes "validFilter f" "healthy d" "f_Page f = 0" "f_Cursor f = 0"
    and "distinct (map q_rowid (request_records d))" "\<forall>r \<in> set (request_records d). 0 < q_rowid r"
    and "length (request_records d) < n"
  shows "walk n (\<lambda>f. requests' pricing d tenant user f now) f =
    mapR (requestRecord pricing d user) (rev (sort_key q_rowid (filter (inScope d tenant user f (historyStart f now)) (request_records d))))"
proof -
  have "length (scopeRows d tenant user f now) < n"
    using assms(7) le_less_trans [OF length_filter_le] by (simp add: scopeRows_def)
  then show ?thesis
    using walk_rows [OF assms(1-3,5,6), of tenant user now n pricing] assms(4) by (simp add: scopeRows_def)
qed

text \<open>
  C27: A member only ever sees their own requests, in their workspace and of the last seven days,
  without the account that served them, whatever filter the client sends.
\<close>

theorem member_history_scoped:
  assumes "UserRequests pricing d tenant user f now = Inr p"
  shows "0 < user \<and> (\<forall>rec \<in> set (Requests' p). q_user (Columns rec) = user \<and> q_account (Columns rec) = [] \<and> AccountName rec = [] \<and>
    now - 7 * 86400 \<le> q_started_at (Columns rec) \<and>
    (\<exists>g \<in> set (account_groups d). g_id g = q_group (Columns rec) \<and> g_tenant g = tenant))"
proof -
  let ?f = "f\<lparr>f_MemberID := 0, f_AccountID := []\<rparr>"
  have user: "0 < user" and run: "requests' pricing d tenant user ?f now = Inr p"
    using assms by (auto simp: UserRequests_def guardR_eq_Inr)
  obtain shown where rows: "set shown \<subseteq> set (newestFirst d tenant user ?f (historyStart ?f now))"
    and shown: "mapR (requestRecord pricing d user) shown = Inr (Requests' p)"
    by (rule requests_shown [OF run])
  have "q_user (Columns rec) = user \<and> q_account (Columns rec) = [] \<and> AccountName rec = [] \<and>
    now - 7 * 86400 \<le> q_started_at (Columns rec) \<and>
    (\<exists>g \<in> set (account_groups d). g_id g = q_group (Columns rec) \<and> g_tenant g = tenant)" if rec: "rec \<in> set (Requests' p)" for rec
  proof -
    obtain row where row: "row \<in> set shown" "requestRecord pricing d user row = Inr rec"
      using rec shown unfolding mapR_eq_Inr by (auto simp: list_all2_conv_all_nth in_set_conv_nth) blast
    then have "row \<in> set (newestFirst d tenant user ?f (historyStart ?f now))" using rows by blast
    then show ?thesis
      using user requestRecord_Inr [OF row(2)] by (auto simp: newestFirst_def inScope_def list_ex_iff historyStart_def)
  qed
  then show ?thesis using user by blast
qed

definition exampleHistoryStore :: store where
  "exampleHistoryStore = afterOne\<lparr>request_records := map (\<lambda>i. exampleCounted\<lparr>q_rowid := i\<rparr>) [1, 2, 3]\<rparr>"

definition exampleFilter :: RequestFilter where
  "exampleFilter = \<lparr>f_Cursor = 0, f_Page = 0, f_Limit = 2, f_AccountID = [], f_Outcome = [], f_Model = [], f_RequestID = [],
     f_From = 0, f_Until = 0, f_KeyID = 0, f_MemberID = 0\<rparr>"

theorem history_complete_witness:
  "walk 4 (\<lambda>f. requests' None exampleHistoryStore 1 7 f 90000) exampleFilter =
    mapR (requestRecord None exampleHistoryStore 7) (map (\<lambda>i. exampleCounted\<lparr>q_rowid := i\<rparr>) [3, 2, 1])"
proof -
  have "rev (sort_key q_rowid (filter (inScope exampleHistoryStore 1 7 exampleFilter (historyStart exampleFilter 90000))
      (request_records exampleHistoryStore))) = map (\<lambda>i. exampleCounted\<lparr>q_rowid := i\<rparr>) [3, 2, 1]" by code_simp
  moreover have "validFilter exampleFilter" "healthy exampleHistoryStore" by code_simp+
  moreover have "request_records exampleHistoryStore = map (\<lambda>i. exampleCounted\<lparr>q_rowid := i\<rparr>) [1, 2, 3]"
    by (simp add: exampleHistoryStore_def)
  ultimately show ?thesis
    using history_complete [of exampleFilter exampleHistoryStore 4 None 1 7 90000] by (simp add: exampleFilter_def)
qed

theorem member_history_scoped_witness:
  "case UserRequests None exampleHistoryStore 1 7 exampleFilter 90000 of Inl e \<Rightarrow> False
   | Inr p \<Rightarrow> length (Requests' p) = 2 \<and> (\<forall>rec \<in> set (Requests' p). q_user (Columns rec) = 7)"
proof (cases "UserRequests None exampleHistoryStore 1 7 exampleFilter 90000")
  case (Inl e)
  have "case UserRequests None exampleHistoryStore 1 7 exampleFilter 90000 of Inl e \<Rightarrow> False | Inr p \<Rightarrow> True" by code_simp
  then have False unfolding Inl sum.case .
  then show ?thesis ..
next
  case (Inr p)
  have "case UserRequests None exampleHistoryStore 1 7 exampleFilter 90000 of Inl e \<Rightarrow> False | Inr p \<Rightarrow> length (Requests' p) = 2" by code_simp
  then have "length (Requests' p) = 2" unfolding Inr sum.case .
  then show ?thesis unfolding Inr sum.case using member_history_scoped [OF Inr] by blast
qed

end
