(* ===== verification/Gateway_Settlement.thy ===== *)
theory Gateway_Settlement
  imports Gateway_Route Statistics
begin

text \<open>
  What a finished request leaves behind (\<open>persistObservation\<close> of \<open>internal/gateway/history.go\<close> and
  \<open>internal/gateway/allocations.go\<close>): its charge, its record and its statistics in one transaction, or a
  place in the list of settlements that are retried before the next admission.
\<close>

section \<open>The record of a request\<close>

definition encodeRoute :: "RouteExplanation \<Rightarrow> RouteExplanation option" where
  "encodeRoute value = (if R_Version value \<noteq> 1 then None else Some value)"

definition recordOf :: "observation \<Rightarrow> request_row" where
  "recordOf e = \<lparr>q_rowid = 0, q_id = RequestID' e, q_user = ob_UserID e, q_key = ob_KeyID e, q_group = ob_GroupID e,
     q_account = ob_AccountID e, q_provider = ob_Provider e, q_model = (if suppressModel e then [] else ob_Model e),
     q_transport = Transport e, q_operation = Operation e, q_started_at = StartedAt e, q_duration_ms = DurationMs e,
     q_outcome = Outcome e, q_error_code = ErrorCode e, q_status = UpstreamStatus e, q_input = InputTokens e,
     q_output = OutputTokens e, q_cached = CachedTokens e, q_first_token_ms = FirstTokenMs e,
     q_reasoning_effort = ReasoningEffort e, q_content = ob_Content e, q_route = encodeRoute (route e)\<rparr>"

section \<open>Settlement\<close>

definition valueOf :: "int option \<Rightarrow> int" where
  "valueOf v = (case v of None \<Rightarrow> 0 | Some x \<Rightarrow> x)"

definition completionOf :: "observation \<Rightarrow> Completion" where
  "completionOf e = \<lparr>Input = valueOf (InputTokens e), Output = valueOf (OutputTokens e), Cached = valueOf (CachedTokens e),
     Known = (InputTokens e \<noteq> None \<and> OutputTokens e \<noteq> None \<and> (usageFinal e \<or> isDone (Outcome e))),
     Dispatched = upstreamDispatched e,
     Rejected = (case UpstreamStatus e of None \<Rightarrow> False | Some status \<Rightarrow> status \<ge> 400)\<rparr>"

definition settleAllocation :: "observation \<Rightarrow> int \<Rightarrow> store \<Rightarrow> store result" where
  "settleAllocation e now d =
     (if \<not> allocationTracked e then Inr d
      else case Finish d (RequestID' e) (completionOf e) (UnixMilli now) False of
        Inl err \<Rightarrow> if errorsIs err NoRows then Inl (Gateway ErrAllocationAccounting) else Inl err
      | Inr d \<Rightarrow> Inr d)"

text \<open>The body of the transaction: a request that is already recorded was settled with it.\<close>

definition recordObservation :: "observation \<Rightarrow> int \<Rightarrow> store \<Rightarrow> store result" where
  "recordObservation e now d =
     bindR (if allocationTracked e then RequestRecorded d (RequestID' e) else Inr False) (\<lambda>recorded.
     if recorded then Inr d
     else bindR (settleAllocation e now d) (\<lambda>d.
          bindR (RecordRequest d (recordOf e)) (\<lambda>d.
          recordStatistics d (recordOf e))))"

definition persistObservation :: "observation \<Rightarrow> int \<Rightarrow> unit step" where
  "persistObservation e now = inTx (recordObservation e now)"

section \<open>Preparation of an admission\<close>

definition setRequest :: "nat \<Rightarrow> observation \<Rightarrow> gateway \<Rightarrow> gateway" where
  "setRequest k e g = g\<lparr>requests := (requests g)[k := e]\<rparr>"

definition ensureAllocationsReady :: "unit step" where
  "ensureAllocationsReady g =
     (if allocationsReady g then (Inr (), g)
      else case writeDB (\<lambda>d. RecoverAllocationEntries d (tenantID g)) g of
        (Inl e, g) \<Rightarrow> (Inl (Gateway ErrAllocationAccounting), g)
      | (Inr _, g) \<Rightarrow> (Inr (), g\<lparr>allocationsReady := True\<rparr>))"

text \<open>Every failed settlement is tried again; the first error and the settlements that remain.\<close>

fun retrySettlements :: "int \<Rightarrow> nat list \<Rightarrow> gateway \<Rightarrow> error option \<times> nat list \<times> gateway" where
  "retrySettlements now [] g = (None, [], g)"
| "retrySettlements now (k # ks) g = (case persistObservation (requests g ! k) now g of
     (Inr _, g) \<Rightarrow> retrySettlements now ks g
   | (Inl e, g) \<Rightarrow> (case retrySettlements now ks g of (_, pending, g) \<Rightarrow> (Some e, k # pending, g)))"

definition retryFailedSettlements :: "int \<Rightarrow> unit step" where
  "retryFailedSettlements now g = (case retrySettlements now (failedSettlements g) g of (err, pending, g) \<Rightarrow>
     (case err of None \<Rightarrow> Inr () | Some e \<Rightarrow> Inl e, g\<lparr>failedSettlements := pending\<rparr>))"

definition prepareAllocation :: "nat \<Rightarrow> int \<Rightarrow> unit step" where
  "prepareAllocation k now =
     doS ensureAllocationsReady (\<lambda>_.
     doS (liftS (\<lambda>g. let e = requests g ! k in KeyScheme (db g) (ob_KeyID e) (ob_UserID e) (ob_GroupID e) (Unix now))) (\<lambda>scheme g.
     let e = (requests g ! k)\<lparr>schemeID := scheme\<rparr> in
     (case retryFailedSettlements now (setRequest k e g) of
        (Inr _, g) \<Rightarrow> (Inr (), g)
      | (Inl _, g) \<Rightarrow>
          if list_ex (\<lambda>failed. schemeID (requests g ! failed) = scheme \<and> ob_UserID (requests g ! failed) = ob_UserID e)
               (failedSettlements g)
          then (Inl (Gateway ErrAllocationAccounting), g) else (Inr (), g))))"

definition recoverAllocations :: "int \<Rightarrow> unit step" where
  "recoverAllocations now =
     doS ensureAllocationsReady (\<lambda>_ g. case retryFailedSettlements now g of
        (Inr _, g) \<Rightarrow> (Inr (), g)
      | (Inl _, g) \<Rightarrow> (Inl (Gateway ErrAllocationAccounting), g))"

definition PrepareAllocations :: "int \<Rightarrow> unit step" where
  "PrepareAllocations now = recoverAllocations now"

end
