(* ===== verification/Gateway_Lease.thy ===== *)
theory Gateway_Lease
  imports Gateway_Settlement Gateway_Selection
begin

text \<open>
  The life of a request in the gateway: it begins (\<open>begin\<close> of \<open>internal/gateway/history.go\<close>), leases
  an account, possibly after waiting for one (\<open>leaseAccount\<close> of \<open>internal/gateway/queue.go\<close>), is checked
  again before a retry (\<open>recheckAttempt\<close> of \<open>internal/gateway/retry.go\<close>), and finishes (\<open>finish\<close> of
  \<open>internal/gateway/history.go\<close>). A waiting call gives up the admission lock, so the loop of
  \<open>leaseAccount\<close> is a sequence of rounds, each a step on the state of the gateway.
\<close>

section \<open>Arrival\<close>

definition begin_request :: "Kind \<Rightarrow> string \<Rightarrow> int \<Rightarrow> int \<Rightarrow> int \<Rightarrow> string \<Rightarrow> int \<Rightarrow> nat step" where
  "begin_request kd i user grp key transport now g =
     (case GetTenantGroup (db g) grp (tenantID g) of
        Inl e \<Rightarrow> (Inl (if errorsIs e NoRows then Groups GErrUnavailable else e), g)
      | Inr _ \<Rightarrow>
          if closed g then (Inl Canceled, g)
          else (Inr (length (requests g)), g\<lparr>requests := requests g @ [newObservation kd i user grp key transport now]\<rparr>))"

section \<open>Leasing an account\<close>

text \<open>
  What a round reads from outside: the two clocks (\<open>s.now\<close> and the monotonic clock of the deadline),
  the state of the request's context at the head of the loop and when the call returns, that of the
  waiting context after the selection and when the call returns, and fresh random text.
\<close>

record Round =
  rd_now :: int
  rd_clock :: int
  rd_ctx :: "error option"
  rd_admission :: "error option"
  rd_ctxEnd :: "error option"
  rd_admissionEnd :: "error option"
  rd_random :: "string result"

text \<open>A round ends the call, or leaves it waiting until a deadline.\<close>

datatype progress = Waiting int | Returned "(string \<times> string) result"

definition waitingIn :: "gateway \<Rightarrow> int \<Rightarrow> int" where
  "waitingIn g grp = (case map_of (waiting g) grp of None \<Rightarrow> 0 | Some n \<Rightarrow> n)"

definition admitWaiting :: "nat \<Rightarrow> int \<Rightarrow> unit step" where
  "admitWaiting k now g =
     (let e = requests g ! k in
      if \<not> memberLeased e then (case admitMember (ob_UserID e) now g of
          (Inl err, g) \<Rightarrow> (Inl err, g)
        | (Inr _, g) \<Rightarrow> (Inr (), setRequest k (e\<lparr>memberLeased := True\<rparr>) g))
      else (recheckMember g (db g) e now, g))"

definition enterRound :: "Round \<Rightarrow> nat \<Rightarrow> int option \<Rightarrow> unit step" where
  "enterRound rd k deadline g =
     (case rd_ctx rd of Some err \<Rightarrow> (Inl err, g)
      | None \<Rightarrow>
          if closed g then (Inl Canceled, g)
          else if (case deadline of None \<Rightarrow> False | Some t \<Rightarrow> rd_clock rd \<ge> t) then (Inl (Gateway ErrAccountWaitTimeout), g)
          else doS (prepareAllocation k (rd_now rd)) (\<lambda>_. admitWaiting k (rd_now rd)) g)"

definition chooseAccount :: "Host \<Rightarrow> Query \<Rightarrow> Round \<Rightarrow> nat \<Rightarrow> gateway \<Rightarrow> (string \<times> error option \<times> string) \<times> gateway" where
  "chooseAccount h q rd k g =
     (let e = requests g ! k;
          q = q\<lparr>qu_user := ob_UserID e, qu_group := ob_GroupID e, qu_scheme := schemeID e\<rparr>
      in case selectAllocationAccount h q (rd_random rd) (rd_now rd) g of ((i, err, r), digest, g) \<Rightarrow>
        ((i, err, digest), setRequest k (e\<lparr>ob_AccountID := i, route := r\<rparr>) g))"

text \<open>The first round that finds every account busy joins the queue of the pool.\<close>

definition joinQueue :: "Round \<Rightarrow> nat \<Rightarrow> int option \<Rightarrow> int step" where
  "joinQueue rd k deadline g =
     (let grp = ob_GroupID (requests g ! k);
          channel = (\<lambda>g. g\<lparr>capacityChanged := (case capacityChanged g grp of
            None \<Rightarrow> (capacityChanged g)(grp \<mapsto> False) | Some b \<Rightarrow> capacityChanged g)\<rparr>)
      in case deadline of
        Some t \<Rightarrow> (Inr t, channel g)
      | None \<Rightarrow>
          if waitingIn g grp \<ge> QueueLimit (gw_policy g) then (Inl (Gateway ErrAccountQueueFull), g)
          else (Inr (rd_clock rd + QueueTimeout (gw_policy g)),
                channel (g\<lparr>waiting := AList.update grp (waitingIn g grp + 1) (waiting g)\<rparr>)))"

text \<open>The leases of an admitted request. Selection has just found the account in \<open>health\<close>.\<close>

definition leaseModel :: "modelRef option \<Rightarrow> gateway \<Rightarrow> nat option \<times> gateway" where
  "leaseModel ref g = (case ref of
     None \<Rightarrow> (None, g)
   | Some (Shared a) \<Rightarrow>
       let m = objects g ! a in (Some a, (setObject a (m\<lparr>inFlight := inFlight m + 1\<rparr>) g)
         \<lparr>modelHealth := AList.update (keyOf m) a (modelHealth g)\<rparr>)
   | Some (Fresh m) \<Rightarrow>
       (Some (length (objects g)), g\<lparr>objects := objects g @ [m\<lparr>inFlight := inFlight m + 1\<rparr>],
          modelHealth := AList.update (keyOf m) (length (objects g)) (modelHealth g)\<rparr>))"

definition grantLease :: "nat \<Rightarrow> string \<Rightarrow> modelRef option \<Rightarrow> gateway \<Rightarrow> gateway" where
  "grantLease k i ref g =
     (let state = the (health g i);
          (address, g) = leaseModel ref (g\<lparr>health := (health g)(i \<mapsto> state\<lparr>InFlight := InFlight state + 1\<rparr>)\<rparr>);
          e = requests g ! k;
          e = e\<lparr>allocationTracked := (schemeID e \<noteq> 0), modelState := (case address of None \<Rightarrow> modelState e | Some a \<Rightarrow> Some a),
                ob_sequence := sequence g + 1, ob_revision := rt_revision state, leased := True\<rparr>
      in setRequest k e (g\<lparr>sequence := sequence g + 1\<rparr>))"

definition takeLease :: "Host \<Rightarrow> Query \<Rightarrow> Round \<Rightarrow> nat \<Rightarrow> string \<Rightarrow> unit step" where
  "takeLease h q rd k i =
     doS (liftS (\<lambda>g. case rd_admission rd of Some err \<Rightarrow> Inl err | None \<Rightarrow> modelLease g i (qu_model q))) (\<lambda>ref.
     doS (\<lambda>g. let e = requests g ! k; now = Unix (rd_now rd) in
            if schemeID e \<noteq> 0
            then inTx (\<lambda>d. Begin d \<lparr>RequestID = RequestID' e, SchemeID = schemeID e, RequestUser = ob_UserID e, GroupID = ob_GroupID e,
                   AccountID = i, RequestModel = qu_model q, StartedAt = now\<rparr> now (hostLocation h)) g
            else (Inr (), g)) (\<lambda>_ g.
     (Inr (), grantLease k i ref g)))"

text \<open>The deferred end of a call: a waiting call leaves the queue, and a late failure is explained.\<close>

definition lateError :: "Round \<Rightarrow> 'a result \<Rightarrow> 'a result" where
  "lateError rd r = (case rd_ctxEnd rd of Some err \<Rightarrow> Inl err
     | None \<Rightarrow> (case r of Inl err \<Rightarrow>
         if rd_admissionEnd rd = Some DeadlineExceeded then Inl (Gateway ErrAccountWaitTimeout) else Inl err
       | Inr v \<Rightarrow> Inr v))"

definition leaveQueue :: "int \<Rightarrow> gateway \<Rightarrow> gateway" where
  "leaveQueue grp g =
     (if waitingIn g grp = 1
      then g\<lparr>waiting := AList.delete grp (waiting g), capacityChanged := (capacityChanged g)(grp := None)\<rparr>
      else g\<lparr>waiting := AList.update grp (waitingIn g grp - 1) (waiting g)\<rparr>)"

definition refusedRoute :: "'a result \<Rightarrow> observation \<Rightarrow> observation" where
  "refusedRoute r e = (case r of
     Inl err \<Rightarrow> if R_Result (route e) = ''selected''
       then e\<lparr>route := (route e)\<lparr>R_Result := ''rejected'', R_Exclusions := reject err (R_Exclusions (route e))\<rparr>\<rparr> else e
   | Inr _ \<Rightarrow> e)"

definition endLease :: "Round \<Rightarrow> nat \<Rightarrow> int option \<Rightarrow> (string \<times> string) result \<Rightarrow> gateway \<Rightarrow> progress \<times> gateway" where
  "endLease rd k deadline r g =
     (let r = (if deadline \<noteq> None then lateError rd r else r);
          g = (if deadline \<noteq> None then leaveQueue (ob_GroupID (requests g ! k)) g else g)
      in (Returned r, setRequest k (refusedRoute r (requests g ! k)) g))"

definition leaseRound :: "Host \<Rightarrow> Query \<Rightarrow> Round \<Rightarrow> nat \<Rightarrow> int option \<Rightarrow> gateway \<Rightarrow> progress \<times> gateway" where
  "leaseRound h q rd k deadline g =
     (case enterRound rd k deadline g of
        (Inl err, g) \<Rightarrow> endLease rd k deadline (Inl err) g
      | (Inr _, g) \<Rightarrow> (case chooseAccount h q rd k g of ((i, err, digest), g) \<Rightarrow>
          if err = Some (Gateway ErrAccountBusy) then (case joinQueue rd k deadline g of
              (Inl err, g) \<Rightarrow> endLease rd k deadline (Inl err) g
            | (Inr t, g) \<Rightarrow> (Waiting t, g))
          else case err of
            Some err \<Rightarrow> endLease rd k deadline (Inl err) g
          | None \<Rightarrow> (case takeLease h q rd k i g of
              (Inl err, g) \<Rightarrow> endLease rd k deadline (Inl err) g
            | (Inr _, g) \<Rightarrow> endLease rd k deadline (Inr (i, digest)) g)))"

text \<open>A waiting call is woken by its timers or by the token of its pool, which it takes.\<close>

definition takeToken :: "nat \<Rightarrow> gateway \<Rightarrow> gateway" where
  "takeToken k g = g\<lparr>capacityChanged := (capacityChanged g)(ob_GroupID (requests g ! k) \<mapsto> False)\<rparr>"

section \<open>Before a retry\<close>

text \<open>\<open>content\<close> is the answer of the content rules for the request.\<close>

definition recheckSnapshot :: "Host \<Rightarrow> gateway \<Rightarrow> observation \<Rightarrow> string \<Rightarrow> string \<Rightarrow> int \<Rightarrow> unit result" where
  "recheckSnapshot h g e i model now =
     (let d = db g in
      bindR (query d ''BeginTx'' ()) (\<lambda>_.
      bindR (recheckMember g d e now) (\<lambda>_.
      bindR (poolAccounts' d (ob_UserID e) (ob_GroupID e)) (\<lambda>allowed.
      guardR (Gateway ErrAffinityUnavailable) (i \<notin> set allowed) (
      bindR (ReadPolicy d (ob_UserID e) (ob_GroupID e)) (\<lambda>policy.
      guardR (Gateway ErrModelNotAllowed)
        (\<not> AllowsProvider policy (ob_Provider e) \<or> \<not> AllowsResource policy (ob_Provider e) model) (
      bindR (KeyScheme d (ob_KeyID e) (ob_UserID e) (ob_GroupID e) (Unix now)) (\<lambda>scheme.
      guardR (Groups GErrUnavailable) (scheme \<noteq> schemeID e) (
      case health g i of None \<Rightarrow> Inl (Accounts RErrNotFound)
      | Some state \<Rightarrow>
      guardR (Gateway (CoolingError (wrap64 (CooldownUntil state - Unix now)) [])) (CooldownUntil state > Unix now) (
      bindR (readModelRuntime g d i model) (\<lambda>ref.
      case (case ref of None \<Rightarrow> None | Some r \<Rightarrow> if cooldownUntil (deref g r) > Unix now then Some r else None) of
        Some r \<Rightarrow> Inl (Gateway (CoolingError (wrap64 (cooldownUntil (deref g r) - Unix now)) model))
      | None \<Rightarrow>
      bindR (catalogSupport h d i model (ob_Provider e) now) (\<lambda>(known, supported).
      guardR (Gateway ErrCatalogUnavailable) (\<not> known) (
      guardR (Gateway ErrModelUnavailable) (\<not> supported) (
      bindR (GetAccount d i (tenantID g)) (\<lambda>row.
      guardR (Accounts RErrDisabled) (\<not> a_enabled row) (
      guardR (Accounts RErrReauthorize) (a_status row = ''reauth_required'') (
      bindR (quotaAdmission d i (a_provider row) model now) (\<lambda>_.
      query d ''Commit'' ()))))))))))))))))))"

definition recheckAttempt :: "Host \<Rightarrow> nat \<Rightarrow> string \<Rightarrow> string \<Rightarrow> unit result \<Rightarrow> int \<Rightarrow> unit step" where
  "recheckAttempt h k i model content now =
     doS (liftS (\<lambda>g. content)) (\<lambda>_.
     doS (loadRuntime now) (\<lambda>_.
     liftS (\<lambda>g. recheckSnapshot h g (requests g ! k) i model now)))"

section \<open>Completion\<close>

definition closeRecord :: "Policy \<Rightarrow> string \<Rightarrow> string \<Rightarrow> string \<Rightarrow> int \<Rightarrow> observation \<Rightarrow> observation" where
  "closeRecord p outcome code penalty now e = e\<lparr>Outcome := outcome, ErrorCode := code,
     DurationMs := max 0 ((now - started e) sdiv 1000000),
     modelTransient := (TransientThreshold p > 0 \<and> penalty = ''upstream_error'' \<and>
       (code = ''stream_interrupted'' \<or> (case UpstreamStatus e of None \<Rightarrow> False | Some status \<Rightarrow> status \<ge> 500))),
     finished := True\<rparr>"

definition rateLimited :: "Policy \<Rightarrow> retryValue \<Rightarrow> int \<Rightarrow> int \<Rightarrow> Runtime \<Rightarrow> Runtime" where
  "rateLimited p retry now seq state =
     (let delay = retryDelay retry now (Some (RateLimitCooldown p)) in
      state\<lparr>Failures := min 16 (Failures state + 1), lastFailureAt := UnixMilli now, lastFailureSequence := seq,
        Reason := ''rate_limited'',
        CooldownUntil := (if delay > 0 then max (CooldownUntil state) (Unix now + delay) else CooldownUntil state)\<rparr>)"

definition recoveredAccount :: "Runtime \<Rightarrow> Runtime" where
  "recoveredAccount state = state\<lparr>Failures := 0, CooldownUntil := 0, Reason := [], lastFailureAt := 0, lastFailureSequence := 0\<rparr>"

text \<open>
  What the result says about the account, unless the account was resumed since: whether its state is to
  be saved, the state, and the sequence number of the last event.
\<close>

definition judgeAccount ::
    "Policy \<Rightarrow> observation \<Rightarrow> string \<Rightarrow> string \<Rightarrow> retryValue \<Rightarrow> int \<Rightarrow> int \<Rightarrow> Runtime \<Rightarrow> bool \<times> Runtime \<times> int" where
  "judgeAccount p e outcome penalty retry now seq state =
     (if rt_revision state \<noteq> ob_revision e then (False, state, seq)
      else if penalty = ''rate_limited'' then (True, rateLimited p retry now (seq + 1) state, seq + 1)
      else if isDone outcome \<and> lastFailureSequence state < ob_sequence e \<and> CooldownUntil state \<le> Unix now
      then (Failures state \<noteq> 0 \<or> CooldownUntil state \<noteq> 0, recoveredAccount state, seq)
      else (False, state, seq))"

definition finishAccount :: "observation \<Rightarrow> string \<Rightarrow> string \<Rightarrow> retryValue \<Rightarrow> int \<Rightarrow> gateway \<Rightarrow> gateway" where
  "finishAccount e outcome penalty retry now g = (case health g (ob_AccountID e) of None \<Rightarrow> g
   | Some state \<Rightarrow> (case judgeAccount (gw_policy g) e outcome penalty retry now (sequence g) state of (changed, state, seq) \<Rightarrow>
       let g = g\<lparr>sequence := seq\<rparr>;
           g = (if changed then snd (persistRuntime state g) else g)
       in g\<lparr>health := (health g)(ob_AccountID e \<mapsto> state\<lparr>InFlight := max 0 (InFlight state - 1)\<rparr>)\<rparr>))"

definition settleOrRetry :: "nat \<Rightarrow> int \<Rightarrow> gateway \<Rightarrow> gateway" where
  "settleOrRetry k now g = (case persistObservation (requests g ! k) now g of
     (Inr _, g) \<Rightarrow> g
   | (Inl _, g) \<Rightarrow> if allocationTracked (requests g ! k) then g\<lparr>failedSettlements := failedSettlements g @ [k]\<rparr> else g)"

text \<open>The leases are released before the charge commits, and a waiting call is told only after it.\<close>

definition finish :: "nat \<Rightarrow> string \<Rightarrow> string \<Rightarrow> string \<Rightarrow> retryValue \<Rightarrow> int \<Rightarrow> gateway \<Rightarrow> gateway" where
  "finish k outcome code penalty retry now g =
     (if finished (requests g ! k) then g
      else let e = closeRecord (gw_policy g) outcome code penalty now (requests g ! k);
               g = setRequest k e g;
               g = (if memberLeased e then releaseMember (ob_UserID e) g else g);
               g = (if leased e then finishAccount e outcome penalty retry now g else g);
               g = snd (finishModelRuntime e outcome retry now g);
               g = settleOrRetry k now g
           in if leased e then notifyCapacity (ob_AccountID e) g else g)"

end
