(* ===== verification/Gateway_Concurrency.thy ===== *)
theory Gateway_Concurrency
  imports Gateway_Lease Gateway_Choice
begin

text \<open>
  Concurrent requests in one gateway. A world is the gateway and, for every request, how far its call of
  \<open>leaseAccount\<close> has come; its steps interleave arrivals, rounds, completions and manual changes. The
  leases the gateway counts are exactly those its requests hold.
\<close>

section \<open>Counting holders\<close>

definition exactly :: "('k \<Rightarrow> int) \<Rightarrow> ('k \<Rightarrow> 'e \<Rightarrow> bool) \<Rightarrow> 'e list \<Rightarrow> bool" where
  "exactly c holds es \<longleftrightarrow> (\<forall>k. c k = int (length (filter (holds k) es)))"

lemma filter_update:
  "j < length es \<Longrightarrow> int (length (filter P (es[j := e]))) = int (length (filter P es)) - of_bool (P (es ! j)) + of_bool (P e)"
proof (induction es arbitrary: j)
  case (Cons x es)
  then show ?case by (cases j) auto
qed simp

lemma exactly_update:
  assumes "exactly c holds es" "j < length es"
    and "\<And>k. c' k = c k - of_bool (holds k (es ! j)) + of_bool (holds k e)"
  shows "exactly c' holds (es[j := e])"
  using assms by (simp add: exactly_def filter_update)

lemma exactly_append:
  assumes "exactly c holds es" "\<And>k. \<not> holds k e"
  shows "exactly c holds (es @ [e])"
  using assms by (simp add: exactly_def)

lemma exactly_ge: "exactly c holds es \<Longrightarrow> 0 \<le> c k"
  by (simp add: exactly_def)

lemma exactly_held:
  assumes "exactly c holds es" "j < length es" "holds k (es ! j)"
  shows "1 \<le> c k"
proof -
  have "es ! j \<in> set (filter (holds k) es)" using assms(2,3) by simp
  then have "0 < length (filter (holds k) es)" by (rule length_pos_if_in_set)
  then have "1 \<le> int (length (filter (holds k) es))" by linarith
  then show ?thesis using assms(1) unfolding exactly_def by metis
qed

section \<open>What a request holds\<close>

text \<open>The part of a request that leases depend on.\<close>

record view =
  v_member :: bool
  v_user :: int
  v_group :: int
  v_account :: "string option"
  v_model :: "nat option"
  v_finished :: bool

definition viewOf :: "observation \<Rightarrow> view" where
  "viewOf e = \<lparr>v_member = memberLeased e, v_user = ob_UserID e, v_group = ob_GroupID e,
     v_account = (if leased e then Some (ob_AccountID e) else None), v_model = modelState e, v_finished = finished e\<rparr>"

definition onAccount :: "string \<Rightarrow> view \<Rightarrow> bool" where
  "onAccount i v \<longleftrightarrow> \<not> v_finished v \<and> v_account v = Some i"

definition onModel :: "nat \<Rightarrow> view \<Rightarrow> bool" where
  "onModel a v \<longleftrightarrow> \<not> v_finished v \<and> v_model v = Some a"

definition ofMember :: "int \<Rightarrow> view \<Rightarrow> bool" where
  "ofMember u v \<longleftrightarrow> \<not> v_finished v \<and> v_member v \<and> v_user v = u"

text \<open>A call of \<open>leaseAccount\<close> has not begun, waits until a deadline, or has returned.\<close>

datatype phase = Idle | Queued int | Over

definition inQueue :: "int \<Rightarrow> phase \<times> view \<Rightarrow> bool" where
  "inQueue grp pv \<longleftrightarrow> (\<exists>t. fst pv = Queued t) \<and> v_group (snd pv) = grp"

text \<open>The counters of the gateway.\<close>

definition inFlightOf :: "gateway \<Rightarrow> string \<Rightarrow> int" where
  "inFlightOf g i = (case health g i of None \<Rightarrow> 0 | Some state \<Rightarrow> InFlight state)"

definition modelCount :: "gateway \<Rightarrow> nat \<Rightarrow> int" where
  "modelCount g a = (if a < length (objects g) then inFlight (objects g ! a) else 0)"

text \<open>Each counter is kept in one field.\<close>

lemma inFlightOf_frame [simp]:
  "inFlightOf (g\<lparr>db := d\<rparr>) = inFlightOf g" "inFlightOf (g\<lparr>cursors := c\<rparr>) = inFlightOf g"
  "inFlightOf (g\<lparr>sequence := n\<rparr>) = inFlightOf g" "inFlightOf (g\<lparr>failedSettlements := ks\<rparr>) = inFlightOf g"
  "inFlightOf (g\<lparr>allocationsReady := b\<rparr>) = inFlightOf g" "inFlightOf (g\<lparr>closed := b\<rparr>) = inFlightOf g"
  "inFlightOf (g\<lparr>requests := es\<rparr>) = inFlightOf g" "inFlightOf (g\<lparr>modelHealth := ms\<rparr>) = inFlightOf g"
  "inFlightOf (g\<lparr>memberActive := f\<rparr>) = inFlightOf g" "inFlightOf (g\<lparr>capacityChanged := q\<rparr>) = inFlightOf g"
  "inFlightOf (g\<lparr>objects := os\<rparr>) = inFlightOf g" "inFlightOf (g\<lparr>waiting := w\<rparr>) = inFlightOf g"
  by (simp_all add: inFlightOf_def fun_eq_iff)

lemma modelCount_frame [simp]:
  "modelCount (g\<lparr>db := d\<rparr>) = modelCount g" "modelCount (g\<lparr>cursors := c\<rparr>) = modelCount g"
  "modelCount (g\<lparr>sequence := n\<rparr>) = modelCount g" "modelCount (g\<lparr>failedSettlements := ks\<rparr>) = modelCount g"
  "modelCount (g\<lparr>allocationsReady := b\<rparr>) = modelCount g" "modelCount (g\<lparr>closed := b\<rparr>) = modelCount g"
  "modelCount (g\<lparr>requests := es\<rparr>) = modelCount g" "modelCount (g\<lparr>modelHealth := ms\<rparr>) = modelCount g"
  "modelCount (g\<lparr>memberActive := f\<rparr>) = modelCount g" "modelCount (g\<lparr>capacityChanged := q\<rparr>) = modelCount g"
  "modelCount (g\<lparr>health := hs\<rparr>) = modelCount g" "modelCount (g\<lparr>waiting := w\<rparr>) = modelCount g"
  by (simp_all add: modelCount_def fun_eq_iff)

lemma waitingIn_frame [simp]:
  "waitingIn (g\<lparr>db := d\<rparr>) = waitingIn g" "waitingIn (g\<lparr>cursors := c\<rparr>) = waitingIn g"
  "waitingIn (g\<lparr>sequence := n\<rparr>) = waitingIn g" "waitingIn (g\<lparr>failedSettlements := ks\<rparr>) = waitingIn g"
  "waitingIn (g\<lparr>allocationsReady := b\<rparr>) = waitingIn g" "waitingIn (g\<lparr>closed := b\<rparr>) = waitingIn g"
  "waitingIn (g\<lparr>requests := es\<rparr>) = waitingIn g" "waitingIn (g\<lparr>modelHealth := ms\<rparr>) = waitingIn g"
  "waitingIn (g\<lparr>memberActive := f\<rparr>) = waitingIn g" "waitingIn (g\<lparr>capacityChanged := q\<rparr>) = waitingIn g"
  "waitingIn (g\<lparr>objects := os\<rparr>) = waitingIn g" "waitingIn (g\<lparr>health := hs\<rparr>) = waitingIn g"
  by (simp_all add: waitingIn_def fun_eq_iff)

lemma modelCount_objects: "modelCount (g\<lparr>objects := os\<rparr>) = (\<lambda>a. if a < length os then inFlight (os ! a) else 0)"
  by (simp add: modelCount_def fun_eq_iff)

definition views :: "gateway \<Rightarrow> view list" where
  "views g = map viewOf (requests g)"

lemma length_views [simp]: "length (views g) = length (requests g)"
  by (simp add: views_def)

lemma nth_views [simp]: "k < length (requests g) \<Longrightarrow> views g ! k = viewOf (requests g ! k)"
  by (simp add: views_def)

section \<open>Operations that hold and release nothing\<close>

definition keeps :: "gateway \<Rightarrow> gateway \<Rightarrow> bool" where
  "keeps g g' \<longleftrightarrow> views g' = views g \<and> inFlightOf g' = inFlightOf g \<and> modelCount g' = modelCount g \<and>
     length (objects g') = length (objects g) \<and> memberActive g' = memberActive g \<and> waitingIn g' = waitingIn g \<and>
     (\<forall>grp. capacityChanged g' grp = None \<longleftrightarrow> capacityChanged g grp = None) \<and>
     snd ` set (modelHealth g') \<subseteq> snd ` set (modelHealth g) \<and> gw_policy g' = gw_policy g \<and> tenantID g' = tenantID g"

lemma keeps_refl [simp, intro]: "keeps g g"
  by (simp add: keeps_def)

lemma keeps_trans [trans]: "keeps g h \<Longrightarrow> keeps h k \<Longrightarrow> keeps g k"
  using order_trans [of "snd ` set (modelHealth k)" "snd ` set (modelHealth h)"] by (simp add: keeps_def)

lemma keeps_db [simp]: "keeps g (g'\<lparr>db := d\<rparr>) = keeps g g'"
  by (simp add: keeps_def views_def)

lemma keeps_cursors [simp]: "keeps g (g'\<lparr>cursors := c\<rparr>) = keeps g g'"
  by (simp add: keeps_def views_def)

lemma keeps_sequence [simp]: "keeps g (g'\<lparr>sequence := n\<rparr>) = keeps g g'"
  by (simp add: keeps_def views_def)

lemma keeps_failed [simp]: "keeps g (g'\<lparr>failedSettlements := ks\<rparr>) = keeps g g'"
  by (simp add: keeps_def views_def)

lemma keeps_ready [simp]: "keeps g (g'\<lparr>allocationsReady := b\<rparr>) = keeps g g'"
  by (simp add: keeps_def views_def)

lemma keeps_closed [simp]: "keeps g (g'\<lparr>closed := b\<rparr>) = keeps g g'"
  by (simp add: keeps_def views_def)

lemma keeps_setRequest:
  assumes "keeps g g'" "k < length (requests g') \<Longrightarrow> viewOf e = viewOf (requests g' ! k)"
  shows "keeps g (setRequest k e g')"
proof -
  have "views (setRequest k e g') = views g'"
  proof (cases "k < length (requests g')")
    case True
    then have "(views g')[k := viewOf e] = views g'" using assms(2) by (metis list_update_id nth_views)
    then show ?thesis by (simp add: views_def setRequest_def map_update)
  qed (simp add: views_def setRequest_def list_update_beyond)
  then show ?thesis using assms(1) unfolding keeps_def
    by (simp add: setRequest_def)
qed

lemma keeps_writeDB [intro]: "writeDB f g = (r, g') \<Longrightarrow> keeps g g'"
  by (auto simp: writeDB_def split: sum.splits)

lemma keeps_inTx [intro]: "inTx f g = (r, g') \<Longrightarrow> keeps g g'"
  by (auto simp: inTx_def)

text \<open>Setting an account's state to one with as many leases, or a model's.\<close>

lemma keeps_health:
  assumes "keeps g g'" "inFlightOf g' i = InFlight state"
  shows "keeps g (g'\<lparr>health := (health g')(i \<mapsto> state)\<rparr>)"
proof -
  have "inFlightOf (g'\<lparr>health := (health g')(i \<mapsto> state)\<rparr>) = inFlightOf g'"
    using assms(2) by (auto simp: inFlightOf_def fun_eq_iff)
  then show ?thesis using assms(1) by (simp add: keeps_def views_def)
qed

lemma keeps_object:
  assumes "keeps g g'" "a < length (objects g') \<Longrightarrow> inFlight m = inFlight (objects g' ! a)"
  shows "keeps g (setObject a m g')"
proof -
  have "modelCount (setObject a m g') = modelCount g'"
    using assms(2) by (cases "a < length (objects g')") (auto simp: modelCount_def fun_eq_iff nth_list_update list_update_beyond)
  then show ?thesis using assms(1) by (simp add: keeps_def views_def setObject_def)
qed

lemma keeps_models:
  assumes "keeps g g'" "snd ` set ms \<subseteq> snd ` set (modelHealth g')"
  shows "keeps g (g'\<lparr>modelHealth := ms\<rparr>)"
  using assms order_trans [OF assms(2)] by (simp add: keeps_def views_def)

lemma keeps_notifyCapacity: "keeps g g' \<Longrightarrow> keeps g (notifyCapacity i g')"
  by (auto simp: keeps_def views_def notifyCapacity_def notify_def split: sum.splits)

lemma loadHealth_inFlight: "(case loadHealth rows h i of None \<Rightarrow> 0 | Some s \<Rightarrow> InFlight s) = (case h i of None \<Rightarrow> 0 | Some s \<Rightarrow> InFlight s)"
  by (auto simp: loadHealth_def loadedState_def split: option.splits)

lemma keeps_loadRuntimeRows: "loadRuntimeRows now g = (r, g') \<Longrightarrow> keeps g g'"
proof -
  assume r: "loadRuntimeRows now g = (r, g')"
  have "keeps g (g\<lparr>db := d, health := loadHealth rows (health g), modelHealth := filter P (modelHealth g)\<rparr>)" for d rows P
    by (auto simp: keeps_def views_def inFlightOf_def loadHealth_inFlight fun_eq_iff)
  then show ?thesis using r
    by (auto simp: loadRuntimeRows_def doS_def liftS_def writeDB_def split: prod.splits sum.splits)
qed

lemma keeps_loadRuntime [intro]: "loadRuntime now g = (r, g') \<Longrightarrow> keeps g g'"
  by (auto simp: loadRuntime_def doS_def returnS_def split: prod.splits sum.splits dest: keeps_loadRuntimeRows)

lemma keeps_chooseCandidate: "chooseCandidate g policy q scope parent now s = (row, r, g') \<Longrightarrow> keeps g g'"
  by (auto simp: chooseCandidate_def Let_def split: prod.splits)

lemma keeps_schedule: "schedule h g d ro q digest replacement now r = (v, g') \<Longrightarrow> keeps g g'"
  by (auto simp: schedule_def Let_def split: prod.splits sum.splits if_splits dest!: keeps_chooseCandidate)

lemma keeps_selectRoute: "selectRoute h q digest now r g = (v, g') \<Longrightarrow> keeps g g'"
  by (auto simp: selectRoute_def split: sum.splits if_splits bound.splits dest: keeps_schedule)

lemma keeps_select: "selectAllocationAccount h q rnd now g = (v, digest, g') \<Longrightarrow> keeps g g'"
  by (auto simp: selectAllocationAccount_def Let_def split: if_splits prod.splits sum.splits
      dest: keeps_loadRuntime keeps_selectRoute intro: keeps_trans)

lemma keeps_retrySettlements: "retrySettlements now ks g = (err, left, g') \<Longrightarrow> keeps g g'"
proof (induction now ks g arbitrary: err left g' rule: retrySettlements.induct)
  case (2 now k ks g)
  obtain r h where p: "persistObservation (requests g ! k) now g = (r, h)" by fastforce
  then have "keeps g h" unfolding persistObservation_def by (rule keeps_inTx)
  moreover have "keeps h g'" using 2 p by (cases r) (auto split: prod.splits)
  ultimately show ?case by (rule keeps_trans)
qed simp

lemma keeps_retryFailed [intro]: "retryFailedSettlements now g = (r, g') \<Longrightarrow> keeps g g'"
  by (auto simp: retryFailedSettlements_def split: prod.splits dest: keeps_retrySettlements)

lemma keeps_ensureReady [intro]: "ensureAllocationsReady g = (r, g') \<Longrightarrow> keeps g g'"
  by (auto simp: ensureAllocationsReady_def split: if_splits prod.splits sum.splits dest: keeps_writeDB)

lemma keeps_prepareAllocation: "prepareAllocation k now g = (r, g') \<Longrightarrow> keeps g g'"
proof -
  assume r: "prepareAllocation k now g = (r, g')"
  obtain v h where h: "ensureAllocationsReady g = (v, h)" by fastforce
  note gh = keeps_ensureReady [OF h]
  show ?thesis
  proof (cases v)
    case (Inl e)
    then show ?thesis using r h gh by (simp add: prepareAllocation_def doS_def)
  next
    case (Inr u)
    let ?e = "requests h ! k"
    show ?thesis
    proof (cases "KeyScheme (db h) (ob_KeyID ?e) (ob_UserID ?e) (ob_GroupID ?e) (Unix now)")
      case (Inl e)
      then show ?thesis using r h gh Inr by (simp add: prepareAllocation_def doS_def liftS_def)
    next
      case scheme: (Inr scheme)
      have "keeps g (setRequest k (?e\<lparr>schemeID := scheme\<rparr>) h)" by (rule keeps_setRequest [OF gh]) (simp add: viewOf_def)
      moreover have "keeps (setRequest k (?e\<lparr>schemeID := scheme\<rparr>) h) g'"
        using r h Inr scheme by (auto simp: prepareAllocation_def doS_def liftS_def Let_def split: prod.splits sum.splits if_splits)
      ultimately show ?thesis by (rule keeps_trans)
    qed
  qed
qed

lemma keeps_recover [intro]: "PrepareAllocations now g = (r, g') \<Longrightarrow> keeps g g'"
  by (auto simp: PrepareAllocations_def recoverAllocations_def doS_def split: prod.splits sum.splits
      intro: keeps_trans dest!: keeps_ensureReady keeps_retryFailed)

lemma keeps_Runtime': "Runtime' before now g = (r, g') \<Longrightarrow> keeps g g'"
  by (auto simp: Runtime'_def doS_def liftS_def split: prod.splits sum.splits dest: keeps_loadRuntimeRows)

lemma keeps_SetConcurrency: "SetConcurrency actor i lim now g = (r, g') \<Longrightarrow> keeps g g'"
proof -
  assume r: "SetConcurrency actor i lim now g = (r, g')"
  let ?f = "\<lambda>d. bindR (SetAccountConcurrency d i (tenantID g) lim) (\<lambda>(d, n).
             guardR (Accounts RErrNotFound) (n = 0) (Record actor (Unix now) d ''account.concurrency'' ''account'' i))"
  obtain v h where h: "inTx ?f g = (v, h)" by fastforce
  note gh = keeps_inTx [OF h]
  have "keeps g (h\<lparr>health := (health h)(i \<mapsto> state\<lparr>MaxConcurrency := lim\<rparr>)\<rparr>)" if "health h i = Some state" for state
    by (rule keeps_health [OF gh]) (simp add: inFlightOf_def that)
  then show ?thesis using r h gh
    by (auto simp: SetConcurrency_def doS_def split: if_splits sum.splits option.splits intro!: keeps_notifyCapacity)
qed

lemma keeps_Resume: "Resume actor i now g = (r, g') \<Longrightarrow> keeps g g'"
proof -
  assume r: "Resume actor i now g = (r, g')"
  obtain v l where l: "loadRuntime now g = (v, l)" by fastforce
  note gl = keeps_loadRuntime [OF l]
  show ?thesis
  proof (cases v)
    case (Inl e)
    then show ?thesis using r l gl by (simp add: Resume_def doS_def)
  next
    case (Inr u)
    show ?thesis
    proof (cases "health l i")
      case None
      then show ?thesis using r l gl Inr by (simp add: Resume_def doS_def)
    next
      case (Some state)
      let ?f = "\<lambda>d. bindR (SaveAccountRuntime d (tenantID l) (runtimeParams (resumed state))) (\<lambda>d.
                bindR (DeleteAccountModelRuntime d i (tenantID l)) (\<lambda>d. Record actor (Unix now) d ''account.resume'' ''account'' i))"
      obtain w h where h: "inTx ?f l = (w, h)" by fastforce
      have gh: "keeps g h" by (rule keeps_trans [OF gl keeps_inTx [OF h]])
      have hl: "health h = health l" using h by (auto simp: inTx_def writeDB_def split: sum.splits)
      have "keeps g (h\<lparr>health := (health h)(i \<mapsto> resumed state), modelHealth := filter P (modelHealth h)\<rparr>)" for P
        by (rule keeps_models [OF keeps_health [OF gh]]) (auto simp: inFlightOf_def hl Some resumed_def)
      then show ?thesis using r l gh Inr Some h
        by (auto simp: Resume_def doS_def split: sum.splits intro!: keeps_notifyCapacity)
    qed
  qed
qed

lemma keeps_recheckAttempt: "recheckAttempt h k i model content now g = (r, g') \<Longrightarrow> keeps g g'"
  by (auto simp: recheckAttempt_def doS_def liftS_def split: prod.splits sum.splits dest: keeps_loadRuntime)

section \<open>The invariant of the leases\<close>

definition coreOK :: "gateway \<Rightarrow> phase list \<Rightarrow> bool" where
  "coreOK g ps \<longleftrightarrow> length ps = length (requests g) \<and>
     exactly (inFlightOf g) onAccount (views g) \<and> exactly (memberActive g) ofMember (views g) \<and>
     exactly (modelCount g) onModel (views g) \<and> exactly (waitingIn g) inQueue (zip ps (views g)) \<and>
     (\<forall>a \<in> snd ` set (modelHealth g). a < length (objects g)) \<and>
     (\<forall>v \<in> set (views g). \<forall>a. v_model v = Some a \<longrightarrow> a < length (objects g) \<and> v_account v \<noteq> None) \<and>
     (\<forall>grp. capacityChanged g grp \<noteq> None \<longleftrightarrow> waitingIn g grp > 0)"

lemmas coreOK_I = coreOK_def [THEN iffD2, OF conjI, OF _ conjI, OF _ _ conjI, OF _ _ _ conjI, OF _ _ _ _ conjI,
  OF _ _ _ _ _ conjI, OF _ _ _ _ _ _ conjI]

lemma coreOK_D:
  assumes "coreOK g ps"
  shows "length ps = length (requests g)" and "exactly (inFlightOf g) onAccount (views g)"
    and "exactly (memberActive g) ofMember (views g)" and "exactly (modelCount g) onModel (views g)"
    and "exactly (waitingIn g) inQueue (zip ps (views g))" and "\<forall>a \<in> snd ` set (modelHealth g). a < length (objects g)"
    and "\<forall>v \<in> set (views g). \<forall>a. v_model v = Some a \<longrightarrow> a < length (objects g) \<and> v_account v \<noteq> None"
    and "\<forall>grp. capacityChanged g grp \<noteq> None \<longleftrightarrow> waitingIn g grp > 0"
  by (insert assms [unfolded coreOK_def]) (elim conjE, assumption)+

text \<open>Only the call that returned holds a lease, and a waiting request is not finished.\<close>

definition phasesOK :: "gateway \<Rightarrow> phase list \<Rightarrow> bool" where
  "phasesOK g ps \<longleftrightarrow> (\<forall>k < length ps. (ps ! k \<noteq> Over \<longrightarrow> v_account (views g ! k) = None) \<and>
     ((\<exists>t. ps ! k = Queued t) \<longrightarrow> \<not> v_finished (views g ! k)))"

lemma bspec_subset: "\<forall>a \<in> A. P a \<Longrightarrow> B \<subseteq> A \<Longrightarrow> \<forall>a \<in> B. P a"
  by blast

lemma coreOK_keeps:
  assumes ok: "coreOK g ps" and k: "keeps g g'"
  shows "coreOK g' ps"
proof -
  have eqs: "views g' = views g" "inFlightOf g' = inFlightOf g" "modelCount g' = modelCount g" "memberActive g' = memberActive g"
    "waitingIn g' = waitingIn g" "length (objects g') = length (objects g)" "length (requests g') = length (requests g)"
    using k length_views [of g'] by (simp_all add: keeps_def)
  have sub: "snd ` set (modelHealth g') \<subseteq> snd ` set (modelHealth g)"
    and cap: "\<forall>c. capacityChanged g' c = None \<longleftrightarrow> capacityChanged g c = None"
    using k by (simp_all add: keeps_def)
  note D = coreOK_D [OF ok]
  show ?thesis
  proof (rule coreOK_I; unfold eqs)
    show "\<forall>a \<in> snd ` set (modelHealth g'). a < length (objects g)" using D(6) sub by (rule bspec_subset)
    show "\<forall>grp. capacityChanged g' grp \<noteq> None \<longleftrightarrow> waitingIn g grp > 0" using D(8) cap by simp
  qed (rule D)+
qed

lemma phasesOK_keeps: "phasesOK g ps \<Longrightarrow> keeps g g' \<Longrightarrow> phasesOK g' ps"
  by (simp add: phasesOK_def keeps_def)

text \<open>One step of a call touches only its own request, and not whether it is finished.\<close>

definition touches :: "nat \<Rightarrow> gateway \<Rightarrow> gateway \<Rightarrow> bool" where
  "touches k g g' \<longleftrightarrow> (\<exists>v. views g' = (views g)[k := v] \<and> v_finished v = v_finished (views g ! k))"

lemma touches_keeps: "keeps g g' \<Longrightarrow> touches k g g'"
  unfolding touches_def keeps_def by (rule exI [of _ "views g ! k"]) simp

lemma touches_trans: "touches k g h \<Longrightarrow> touches k h g' \<Longrightarrow> k < length (requests g) \<Longrightarrow> touches k g g'"
  by (auto simp: touches_def)

lemma touches_length: "touches k g g' \<Longrightarrow> length (requests g') = length (requests g)"
  unfolding touches_def by (metis length_list_update length_views)

lemma touches_phases:
  assumes "phasesOK g ps" "length ps = length (requests g)" "touches k g g'" "k < length ps"
    and "p \<noteq> Over \<Longrightarrow> v_account (views g' ! k) = None" and "(\<exists>t. p = Queued t) \<Longrightarrow> \<not> v_finished (views g ! k)"
  shows "phasesOK g' (ps[k := p])"
proof -
  obtain v where v: "views g' = (views g)[k := v]" "v_finished v = v_finished (views g ! k)"
    using assms(3) by (auto simp: touches_def)
  then have vk: "v = views g' ! k" using assms(2,4) by (metis length_views nth_list_update_eq)
  show ?thesis unfolding phasesOK_def
  proof (intro allI impI)
    fix j assume j: "j < length (ps[k := p])"
    show "(ps[k := p] ! j \<noteq> Over \<longrightarrow> v_account (views g' ! j) = None) \<and>
        ((\<exists>t. ps[k := p] ! j = Queued t) \<longrightarrow> \<not> v_finished (views g' ! j))"
    proof (cases "j = k")
      case True
      then have "ps[k := p] ! j = p" "v_finished (views g' ! j) = v_finished (views g ! k)"
        using assms(4) v(2) vk by simp_all
      then show ?thesis using True assms(5,6) by simp
    next
      case False
      then show ?thesis using assms(1) j v(1) by (auto simp: phasesOK_def)
    qed
  qed
qed

section \<open>A round\<close>

lemma setRequest_simps [simp]:
  "views (setRequest k e g) = (views g)[k := viewOf e]" "inFlightOf (setRequest k e g) = inFlightOf g"
  "modelCount (setRequest k e g) = modelCount g" "waitingIn (setRequest k e g) = waitingIn g"
  "objects (setRequest k e g) = objects g" "memberActive (setRequest k e g) = memberActive g"
  "modelHealth (setRequest k e g) = modelHealth g" "capacityChanged (setRequest k e g) = capacityChanged g"
  "db (setRequest k e g) = db g" "health (setRequest k e g) = health g" "tenantID (setRequest k e g) = tenantID g"
  "gw_policy (setRequest k e g) = gw_policy g" "waiting (setRequest k e g) = waiting g" "sequence (setRequest k e g) = sequence g"
  "failedSettlements (setRequest k e g) = failedSettlements g" "requests (setRequest k e g) = (requests g)[k := e]"
  "closed (setRequest k e g) = closed g"
  by (simp_all add: setRequest_def views_def map_update)

lemma views_frame [simp]:
  "views (g\<lparr>db := d\<rparr>) = views g" "views (g\<lparr>memberActive := f\<rparr>) = views g" "views (g\<lparr>capacityChanged := q\<rparr>) = views g"
  "views (g\<lparr>waiting := w\<rparr>) = views g" "views (g\<lparr>health := hs\<rparr>) = views g" "views (g\<lparr>modelHealth := ms\<rparr>) = views g"
  "views (g\<lparr>objects := os\<rparr>) = views g" "views (g\<lparr>sequence := n\<rparr>) = views g"
  by (simp_all add: views_def)

lemma exactly_queue_view:
  assumes "exactly c inQueue (zip ps vs)" "v_group v = v_group (vs ! k)" "k < length vs" "length ps = length vs"
  shows "exactly c inQueue (zip ps (vs[k := v]))"
proof -
  have "zip ps (vs[k := v]) = (zip ps vs)[k := (ps ! k, v)]" by (metis list_update_id zip_update)
  moreover have "exactly c inQueue ((zip ps vs)[k := (ps ! k, v)])"
    by (rule exactly_update [OF assms(1)]) (use assms in \<open>auto simp: inQueue_def\<close>)
  ultimately show ?thesis by simp
qed

lemma exactly_queue_phase:
  assumes "exactly c inQueue (zip ps vs)" "k < length vs" "length ps = length vs"
    and "\<And>grp. c' grp = c grp - of_bool (inQueue grp (ps ! k, vs ! k)) + of_bool (inQueue grp (p, vs ! k))"
  shows "exactly c' inQueue (zip (ps[k := p]) vs)"
proof -
  have "zip (ps[k := p]) vs = (zip ps vs)[k := (p, vs ! k)]" by (metis list_update_id zip_update)
  moreover have "exactly c' inQueue ((zip ps vs)[k := (p, vs ! k)])"
    by (rule exactly_update [OF assms(1)]) (use assms in auto)
  ultimately show ?thesis by simp
qed

text \<open>Replacing one view of a gateway whose counters follow.\<close>

lemma coreOK_view:
  assumes ok: "coreOK g ps" and k: "k < length (requests g)"
    and views: "views g' = (views g)[k := v]" and len: "length (objects g) \<le> length (objects g')"
    and grp: "v_group v = v_group (views g ! k)" and wait: "waitingIn g' = waitingIn g"
    and account: "\<And>i. inFlightOf g' i = inFlightOf g i - of_bool (onAccount i (views g ! k)) + of_bool (onAccount i v)"
    and member: "\<And>u. memberActive g' u = memberActive g u - of_bool (ofMember u (views g ! k)) + of_bool (ofMember u v)"
    and model: "\<And>a. modelCount g' a = modelCount g a - of_bool (onModel a (views g ! k)) + of_bool (onModel a v)"
    and health: "\<forall>a \<in> snd ` set (modelHealth g'). a < length (objects g')"
    and address: "\<And>a. v_model v = Some a \<Longrightarrow> a < length (objects g') \<and> v_account v \<noteq> None"
    and cap: "\<And>c. capacityChanged g' c = None \<longleftrightarrow> capacityChanged g c = None"
  shows "coreOK g' ps"
proof -
  note D = coreOK_D [OF ok]
  have l: "length (requests g') = length (requests g)" using views by (metis length_list_update length_views)
  have kv: "k < length (views g)" using k by simp
  show ?thesis
  proof (rule coreOK_I; (unfold views wait l)?)
    show "length ps = length (requests g)" by (rule D)
    show "exactly (inFlightOf g') onAccount ((views g)[k := v])" by (rule exactly_update [OF D(2) kv account])
    show "exactly (memberActive g') ofMember ((views g)[k := v])" by (rule exactly_update [OF D(3) kv member])
    show "exactly (modelCount g') onModel ((views g)[k := v])" by (rule exactly_update [OF D(4) kv model])
    show "exactly (waitingIn g) inQueue (zip ps ((views g)[k := v]))"
      by (rule exactly_queue_view [OF D(5) grp kv]) (simp add: D(1))
    show "\<forall>a \<in> snd ` set (modelHealth g'). a < length (objects g')" by (rule health)
    show "\<forall>w \<in> set ((views g)[k := v]). \<forall>a. v_model w = Some a \<longrightarrow> a < length (objects g') \<and> v_account w \<noteq> None"
    proof (intro ballI)
      fix w assume "w \<in> set ((views g)[k := v])"
      then have "w = v \<or> w \<in> set (views g)" using set_update_subset_insert [of "views g" k v] by blast
      then show "\<forall>a. v_model w = Some a \<longrightarrow> a < length (objects g') \<and> v_account w \<noteq> None"
        using D(7) address len by force
    qed
    show "\<forall>c. capacityChanged g' c \<noteq> None \<longleftrightarrow> waitingIn g c > 0" using D(8) cap by simp
  qed
qed

text \<open>The pieces of a round, for a request \<open>k\<close> that holds no account.\<close>

lemma viewOf_member: "viewOf (e\<lparr>memberLeased := True\<rparr>) = (viewOf e)\<lparr>v_member := True\<rparr>"
  by (simp add: viewOf_def)

lemma admitWaiting_OK:
  assumes ok: "coreOK g ps" and k: "k < length (requests g)" and r: "admitWaiting k now g = (r, g')"
    and live: "\<not> v_finished (views g ! k)"
  shows "coreOK g' ps" and "touches k g g'" and "v_account (views g' ! k) = v_account (views g ! k)"
proof -
  let ?e = "requests g ! k"
  have "g' = g \<or> (\<exists>d. g' = setRequest k (?e\<lparr>memberLeased := True\<rparr>) (g\<lparr>db := d,
      memberActive := (memberActive g)(ob_UserID ?e := memberActive g (ob_UserID ?e) + 1)\<rparr>) \<and> \<not> memberLeased ?e)"
    using r by (auto simp: admitWaiting_def Let_def split: if_splits prod.splits sum.splits dest: admitMember_Inl elim!: admitMember_Inr)
  then have "coreOK g' ps \<and> touches k g g' \<and> v_account (views g' ! k) = v_account (views g ! k)"
  proof (elim disjE exE conjE)
    assume "g' = g"
    then show ?thesis using ok touches_keeps [OF keeps_refl] by simp
  next
    fix d
    let ?h = "g\<lparr>db := d, memberActive := (memberActive g)(ob_UserID ?e := memberActive g (ob_UserID ?e) + 1)\<rparr>"
    assume g': "g' = setRequest k (?e\<lparr>memberLeased := True\<rparr>) ?h" and m: "\<not> memberLeased ?e"
    have v: "views g' = (views g)[k := (viewOf ?e)\<lparr>v_member := True\<rparr>]" by (simp add: g' viewOf_member)
    have vk: "views g ! k = viewOf ?e" using k by simp
    have "coreOK g' ps"
    proof (rule coreOK_view [OF ok k v])
      fix u show "memberActive g' u = memberActive g u - of_bool (ofMember u (views g ! k)) +
          of_bool (ofMember u ((viewOf ?e)\<lparr>v_member := True\<rparr>))"
        using m live unfolding vk by (auto simp: g' ofMember_def viewOf_def)
    next
      show "\<forall>a \<in> snd ` set (modelHealth g'). a < length (objects g')" using coreOK_D(6) [OF ok] by (simp add: g')
      show "v_model ((viewOf ?e)\<lparr>v_member := True\<rparr>) = Some a \<Longrightarrow> a < length (objects g') \<and> v_account ((viewOf ?e)\<lparr>v_member := True\<rparr>) \<noteq> None" for a
        using coreOK_D(7) [OF ok] k by (auto simp: g' views_def)
    qed (auto simp: g' vk onAccount_def onModel_def k)
    then show ?thesis using k by (auto simp: touches_def v viewOf_def)
  qed
  then show "coreOK g' ps" "touches k g g'" "v_account (views g' ! k) = v_account (views g ! k)" by blast+
qed

lemma enterRound_OK:
  assumes ok: "coreOK g ps" and k: "k < length (requests g)" and r: "enterRound rd k deadline g = (r, g')"
    and live: "\<not> v_finished (views g ! k)"
  shows "coreOK g' ps" and "touches k g g'" and "v_account (views g' ! k) = v_account (views g ! k)"
proof -
  have "coreOK g' ps \<and> touches k g g' \<and> v_account (views g' ! k) = v_account (views g ! k)"
  proof (cases "g' = g")
    case True
    then show ?thesis using ok touches_keeps [OF keeps_refl] by simp
  next
    case False
    obtain v h where h: "prepareAllocation k (rd_now rd) g = (v, h)" by fastforce
    note gh = keeps_prepareAllocation [OF h]
    have kh: "k < length (requests h)" and vh: "views h = views g"
      using gh k length_views [of h] length_views [of g] by (simp_all add: keeps_def)
    have tgh: "touches k g h" by (rule touches_keeps [OF gh])
    consider "g' = h" | "admitWaiting k (rd_now rd) h = (r, g')"
      using r h False by (auto simp: enterRound_def doS_def split: option.splits if_splits sum.splits)
    then show ?thesis
    proof cases
      case 1
      then show ?thesis using coreOK_keeps [OF ok gh] tgh vh by simp
    next
      case 2
      note a = admitWaiting_OK [OF coreOK_keeps [OF ok gh] kh 2, unfolded vh, OF live]
      then show ?thesis using touches_trans [OF tgh a(2) k] by simp
    qed
  qed
  then show "coreOK g' ps" "touches k g g'" "v_account (views g' ! k) = v_account (views g ! k)" by blast+
qed

lemma chooseAccount_keeps:
  assumes "chooseAccount h q rd k g = (v, g')" "k < length (requests g)" "v_account (views g ! k) = None"
  shows "keeps g g'"
proof -
  let ?e = "requests g ! k"
  obtain w digest l where l: "selectAllocationAccount h (q\<lparr>qu_user := ob_UserID ?e, qu_group := ob_GroupID ?e, qu_scheme := schemeID ?e\<rparr>)
      (rd_random rd) (rd_now rd) g = (w, digest, l)" by (metis prod_cases3)
  note gl = keeps_select [OF l]
  obtain i r where g': "g' = setRequest k (?e\<lparr>ob_AccountID := i, route := r\<rparr>) l"
    using assms(1) l by (auto simp: chooseAccount_def Let_def split: prod.splits)
  have n: "\<not> leased ?e" using assms(2,3) by (auto simp: viewOf_def split: if_splits)
  have "viewOf (?e\<lparr>ob_AccountID := i, route := r\<rparr>) = viewOf (requests l ! k)" if "k < length (requests l)"
  proof -
    have "views l ! k = views g ! k" using gl by (simp add: keeps_def)
    then have "viewOf (requests l ! k) = viewOf ?e" using that assms(2) by simp
    then show ?thesis using n by (simp add: viewOf_def)
  qed
  then show ?thesis unfolding g' by (rule keeps_setRequest [OF gl])
qed

lemma waitingIn_update: "waitingIn (g\<lparr>waiting := AList.update grp n (waiting g)\<rparr>) = (waitingIn g)(grp := n)"
  by (auto simp: waitingIn_def update_conv' fun_eq_iff)

lemma waitingIn_delete: "waitingIn (g\<lparr>waiting := AList.delete grp (waiting g)\<rparr>) = (waitingIn g)(grp := 0)"
  by (auto simp: waitingIn_def map_of_delete fun_eq_iff)

lemma queued_waits:
  assumes "coreOK g ps" "k < length (requests g)" "ps ! k = Queued t"
  shows "1 \<le> waitingIn g (ob_GroupID (requests g ! k))"
proof (rule exactly_held [OF coreOK_D(5) [OF assms(1)]])
  show "k < length (zip ps (views g))" using assms(2) coreOK_D(1) [OF assms(1)] by simp
  show "inQueue (ob_GroupID (requests g ! k)) (zip ps (views g) ! k)"
    using assms coreOK_D(1) [OF assms(1)] by (simp add: inQueue_def viewOf_def)
qed

text \<open>A gateway that differs in its queues only, with the phase of \<open>k\<close>.\<close>

lemma coreOK_queue:
  assumes ok: "coreOK g ps" and k: "k < length (requests g)"
    and same: "views g' = views g" "inFlightOf g' = inFlightOf g" "modelCount g' = modelCount g" "memberActive g' = memberActive g"
      "objects g' = objects g" "modelHealth g' = modelHealth g"
    and count: "\<And>grp. waitingIn g' grp = waitingIn g grp - of_bool (inQueue grp (ps ! k, views g ! k)) + of_bool (inQueue grp (p, views g ! k))"
    and cap: "\<And>grp. capacityChanged g' grp \<noteq> None \<longleftrightarrow> waitingIn g' grp > 0"
  shows "coreOK g' (ps[k := p])"
proof -
  note D = coreOK_D [OF ok]
  have l: "length (requests g') = length (requests g)" using same(1) by (metis length_views)
  have "exactly (waitingIn g') inQueue (zip (ps[k := p]) (views g))"
    by (rule exactly_queue_phase [OF D(5) _ _ count]) (use k D(1) in simp_all)
  then show ?thesis using D cap l unfolding coreOK_def same by simp
qed

lemma joinQueue_OK:
  assumes ok: "coreOK g ps" and k: "k < length (requests g)" and r: "joinQueue rd k deadline g = (Inr t, g')"
    and phase: "case deadline of None \<Rightarrow> ps ! k = Idle | Some t \<Rightarrow> ps ! k = Queued t"
  shows "coreOK g' (ps[k := Queued t])" and "views g' = views g"
proof -
  let ?grp = "ob_GroupID (requests g ! k)"
  have vk: "v_group (views g ! k) = ?grp" using k by (simp add: viewOf_def)
  have "coreOK g' (ps[k := Queued t]) \<and> views g' = views g"
  proof (cases deadline)
    case None
    let ?h = "g\<lparr>waiting := AList.update ?grp (waitingIn g ?grp + 1) (waiting g)\<rparr>"
    have g': "g' = ?h\<lparr>capacityChanged := (case capacityChanged g ?grp of None \<Rightarrow> (capacityChanged g)(?grp \<mapsto> False)
        | Some b \<Rightarrow> capacityChanged g)\<rparr>"
      using r None by (cases "capacityChanged g ?grp") (auto simp: joinQueue_def Let_def split: if_splits)
    have w: "waitingIn g' = (waitingIn g)(?grp := waitingIn g ?grp + 1)" unfolding g' by (simp add: waitingIn_update)
    have "coreOK g' (ps[k := Queued t])"
    proof (rule coreOK_queue [OF ok k])
      fix grp show "capacityChanged g' grp \<noteq> None \<longleftrightarrow> waitingIn g' grp > 0"
        using coreOK_D(8) [OF ok] exactly_ge [OF coreOK_D(5) [OF ok], of ?grp] unfolding w
        by (auto simp: g' split: option.split)
    qed (use phase None in \<open>auto simp: w inQueue_def vk\<close>, simp_all add: g')
    then show ?thesis by (simp add: g')
  next
    case (Some t0)
    then have q: "ps ! k = Queued t0" using phase by simp
    then have "capacityChanged g ?grp \<noteq> None"
      using queued_waits [OF ok k q] coreOK_D(8) [OF ok] by simp
    then have "g' = g" using r Some by (auto simp: joinQueue_def Let_def)
    moreover have "t = t0" using r Some by (auto simp: joinQueue_def Let_def)
    ultimately show ?thesis using ok q by (metis list_update_id)
  qed
  then show "coreOK g' (ps[k := Queued t])" "views g' = views g" by blast+
qed

lemma requests_leaveQueue [simp]: "requests (leaveQueue grp g) = requests g"
  by (simp add: leaveQueue_def)

lemma leaveQueue_OK:
  assumes ok: "coreOK g ps" and k: "k < length (requests g)" and q: "ps ! k = Queued t"
  shows "coreOK (leaveQueue (ob_GroupID (requests g ! k)) g) (ps[k := Over])"
    and "views (leaveQueue (ob_GroupID (requests g ! k)) g) = views g"
proof -
  let ?grp = "ob_GroupID (requests g ! k)"
  let ?g = "leaveQueue ?grp g"
  have vk: "v_group (views g ! k) = ?grp" using k by (simp add: viewOf_def)
  note w1 = queued_waits [OF ok k q]
  have w: "waitingIn ?g = (waitingIn g)(?grp := waitingIn g ?grp - 1)"
    by (auto simp: leaveQueue_def waitingIn_update waitingIn_delete)
  have c: "capacityChanged ?g grp \<noteq> None \<longleftrightarrow> waitingIn ?g grp > 0" for grp
    using coreOK_D(8) [OF ok] w1 unfolding w by (auto simp: leaveQueue_def)
  show "views ?g = views g" by (simp add: leaveQueue_def)
  show "coreOK ?g (ps[k := Over])"
    by (rule coreOK_queue [OF ok k]) (use c in \<open>auto simp: w inQueue_def vk q\<close>, simp_all add: leaveQueue_def)
qed

lemma over_OK:
  assumes ok: "coreOK g ps" and k: "k < length (requests g)" and q: "ps ! k = Idle"
  shows "coreOK g (ps[k := Over])"
  by (rule coreOK_queue [OF ok k]) (use q coreOK_D(8) [OF ok] in \<open>auto simp: inQueue_def\<close>)

lemma endLease_OK:
  assumes ok: "coreOK g ps" and k: "k < length (requests g)" and r: "endLease rd k deadline v g = (p, g')"
    and phase: "case deadline of None \<Rightarrow> ps ! k = Idle | Some t \<Rightarrow> ps ! k = Queued t"
  shows "coreOK g' (ps[k := Over])" and "views g' = views g" and "\<exists>v. p = Returned v"
proof -
  let ?h = "if deadline \<noteq> None then leaveQueue (ob_GroupID (requests g ! k)) g else g"
  have h: "coreOK ?h (ps[k := Over])" "views ?h = views g"
    using phase leaveQueue_OK [OF ok k] over_OK [OF ok k] by (auto split: option.splits)
  obtain w where g': "g' = setRequest k (refusedRoute w (requests g ! k)) ?h" and p: "p = Returned w"
    using r by (cases deadline) (auto simp: endLease_def Let_def)
  have "viewOf (refusedRoute w (requests g ! k)) = viewOf (requests ?h ! k)" if "k < length (requests ?h)"
  proof -
    have "viewOf (requests ?h ! k) = viewOf (requests g ! k)" using h(2) that k by (metis nth_views)
    then show ?thesis by (simp add: refusedRoute_def viewOf_def split: sum.split)
  qed
  then have kp: "keeps ?h g'" unfolding g' by (rule keeps_setRequest [OF keeps_refl])
  show "coreOK g' (ps[k := Over])" by (rule coreOK_keeps [OF h(1) kp])
  show "views g' = views g" using kp h(2) by (simp add: keeps_def)
  show "\<exists>v. p = Returned v" using p by blast
qed

text \<open>The account a selection returns is in \<open>health\<close>, is not cooling and has room.\<close>

lemma selectRoute_health: "selectRoute h q digest now r g = (v, g') \<Longrightarrow> health g' = health g"
  by (auto simp: selectRoute_def schedule_def chooseCandidate_def Let_def split: sum.splits if_splits bound.splits prod.splits)

lemma selected_account:
  assumes "selectAllocationAccount h q rnd now g = ((i, None, r), digest, g')"
  obtains state where "health g' i = Some state" "InFlight state < MaxConcurrency state" "CooldownUntil state \<le> Unix now"
proof (rule selectAllocationAccount_Inr [OF assms])
  fix l r0
  assume l: "selectRoute h q digest now firstRoute l = (Inr (i, r0), g')"
  obtain ro row where a: "rr_id row = i" "admissible h l (db l) ro q now row"
    by (rule selectRoute_sound [OF l]) blast
  then have "accountAdmission l (accountOf row) now = Inr ()" by (simp add: admissible_def)
  then obtain state where "health l i = Some state" "\<not> CooldownUntil state > Unix now" "\<not> InFlight state \<ge> MaxConcurrency state"
    using a(1) by (auto simp: accountAdmission_def accountOf_def split: if_splits option.splits)
  then show thesis using that selectRoute_health [OF l] by simp
qed

lemma chooseAccount_selected:
  assumes r: "chooseAccount h q rd k g = ((i, None, digest), g')" and k: "k < length (requests g)"
    and keeps: "keeps g g'"
  obtains state where "health g' i = Some state" "InFlight state < MaxConcurrency state" "ob_AccountID (requests g' ! k) = i"
proof -
  let ?e = "requests g ! k"
  obtain w dg l where l: "selectAllocationAccount h (q\<lparr>qu_user := ob_UserID ?e, qu_group := ob_GroupID ?e, qu_scheme := schemeID ?e\<rparr>)
      (rd_random rd) (rd_now rd) g = (w, dg, l)" by (metis prod_cases3)
  then obtain rt where w: "w = (i, None, rt)" and g': "g' = setRequest k (?e\<lparr>ob_AccountID := i, route := rt\<rparr>) l"
    using r by (auto simp: chooseAccount_def Let_def split: prod.splits)
  have "k < length (requests l)" using keeps k unfolding keeps_def g' by (metis length_list_update length_views setRequest_simps(1))
  moreover obtain state where "health l i = Some state" "InFlight state < MaxConcurrency state"
    by (rule selected_account [OF l [unfolded w]])
  ultimately show thesis using that by (simp add: g')
qed

text \<open>The reference of a model lease is an address in use, or a state nobody holds.\<close>

definition refOK :: "gateway \<Rightarrow> modelRef option \<Rightarrow> bool" where
  "refOK g ref = (case ref of None \<Rightarrow> True | Some (Shared a) \<Rightarrow> a < length (objects g) | Some (Fresh m) \<Rightarrow> inFlight m = 0)"

lemma refOK_frame [simp]: "refOK (g\<lparr>health := hs\<rparr>) ref = refOK g ref" "refOK (g\<lparr>db := d\<rparr>) ref = refOK g ref"
  by (simp_all add: refOK_def split: option.split modelRef.split)

lemma readModelRuntime_OK:
  assumes "readModelRuntime g d i model = Inr ref" "\<forall>a \<in> snd ` set (modelHealth g). a < length (objects g)"
  shows "refOK g ref"
proof (cases "CatalogModelID model = []")
  case True
  then show ?thesis using assms(1) by (auto simp: readModelRuntime_def refOK_def)
next
  case False
  then obtain row where row: "(case map_of (modelHealth g) (i, CatalogModelID model) of
          Some a \<Rightarrow> if lifecycle (objects g ! a) = mo_lifecycle row \<and> runtimeRevision' (objects g ! a) = mo_runtime_revision row
            then Inr (Some (Shared a)) else Inr (Some (Fresh (fromRow row)))
        | None \<Rightarrow> Inr (Some (Fresh (fromRow row)))) = (Inr ref :: modelRef option result)"
    using assms(1) by (auto simp: readModelRuntime_def Let_def bindR_eq_Inr)
  show ?thesis
  proof (cases "map_of (modelHealth g) (i, CatalogModelID model)")
    case None
    then show ?thesis using row by (auto simp: refOK_def fromRow_def)
  next
    case (Some a)
    then have "a \<in> snd ` set (modelHealth g)" by (force dest: map_of_SomeD)
    then have "a < length (objects g)" using assms(2) by blast
    then show ?thesis using row Some by (auto simp: refOK_def fromRow_def split: if_splits)
  qed
qed

lemma modelLease_OK:
  assumes "modelLease g i model = Inr ref" "\<forall>a \<in> snd ` set (modelHealth g). a < length (objects g)"
  shows "refOK g ref"
proof (rule readModelRuntime_OK [OF _ assms(2)])
  obtain v where v: "readModelRuntime g (db g) i model = Inr v" and r: "(case v of None \<Rightarrow> Inr None
      | Some ref \<Rightarrow> if map_of (modelHealth g) (keyOf (deref g ref)) = None \<and> length (modelHealth g) \<ge> maxModelRuntime
          then Inl (Gateway ErrBusy) else Inr (Some ref)) = Inr ref"
    using assms(1) unfolding modelLease_def bindR_eq_Inr by blast
  from r have "v = ref" by (cases v) (simp_all split: if_splits)
  with v show "readModelRuntime g (db g) i model = Inr ref" by simp
qed

lemma takeLease_cases:
  assumes "takeLease h q rd k i g = (r, g')"
  obtains (refused) e where "r = Inl e" "keeps g g'"
  | (granted) ref d where "r = Inr ()" "modelLease g i (qu_model q) = Inr ref" "g' = grantLease k i ref (g\<lparr>db := d\<rparr>)"
      "d = db g \<or> (\<exists>req now loc. RequestID req = RequestID' (requests g ! k) \<and> Begin (db g) req now loc = Inr d)"
proof -
  let ?m = "case rd_admission rd of Some err \<Rightarrow> Inl err | None \<Rightarrow> modelLease g i (qu_model q)"
  let ?b = "\<lambda>g. let e = requests g ! k; now = Unix (rd_now rd) in
            if schemeID e \<noteq> 0
            then inTx (\<lambda>d. Begin d \<lparr>RequestID = RequestID' e, SchemeID = schemeID e, RequestUser = ob_UserID e, GroupID = ob_GroupID e,
                   AccountID = i, RequestModel = qu_model q, StartedAt = now\<rparr> now (hostLocation h)) g
            else (Inr (), g)"
  show thesis
  proof (cases ?m)
    case (Inl e)
    then have "r = Inl e" "g' = g" using assms by (simp_all add: takeLease_def doS_def liftS_def)
    then show thesis by (intro refused) simp_all
  next
    case (Inr ref)
    then have ref: "modelLease g i (qu_model q) = Inr ref" by (cases "rd_admission rd") simp_all
    obtain v g1 where b: "?b g = (v, g1)" by fastforce
    have kg: "keeps g g1" using b by (auto simp: Let_def split: if_splits)
    let ?begins = "\<lambda>d. d = db g \<or> (\<exists>req now loc. RequestID req = RequestID' (requests g ! k) \<and> Begin (db g) req now loc = Inr d)"
    have "\<exists>d. g1 = g\<lparr>db := d\<rparr> \<and> (v = Inr () \<longrightarrow> ?begins d)"
    proof (cases "schemeID (requests g ! k) = 0")
      case True
      then show ?thesis using b by (auto simp: Let_def intro: exI [of _ "db g"])
    next
      case False
      let ?req = "\<lparr>RequestID = RequestID' (requests g ! k), SchemeID = schemeID (requests g ! k), RequestUser = ob_UserID (requests g ! k),
        GroupID = ob_GroupID (requests g ! k), AccountID = i, RequestModel = qu_model q, StartedAt = Unix (rd_now rd)\<rparr>"
      have tx: "inTx (\<lambda>d. Begin d ?req (Unix (rd_now rd)) (hostLocation h)) g = (v, g1)" using b False by (simp add: Let_def)
      show ?thesis
      proof (cases v)
        case (Inl e)
        then show ?thesis using tx by (auto simp: inTx_def writeDB_def split: sum.splits intro: exI [of _ "db g"])
      next
        case (Inr u)
        then have "inTx (\<lambda>d. Begin d ?req (Unix (rd_now rd)) (hostLocation h)) g = (Inr (), g1)" using tx by simp
        then obtain d where d: "Begin (db g) ?req (Unix (rd_now rd)) (hostLocation h) = Inr d" "g1 = g\<lparr>db := d\<rparr>"
          unfolding inTx_Inr by blast
        have "RequestID ?req = RequestID' (requests g ! k)" by simp
        then show ?thesis using d by blast
      qed
    qed
    then obtain d where d: "g1 = g\<lparr>db := d\<rparr>" "v = Inr () \<longrightarrow> ?begins d" by blast
    show thesis
    proof (cases v)
      case (Inl e)
      then have "r = Inl e" "g' = g1" using assms b Inr by (simp_all add: takeLease_def doS_def liftS_def)
      then show thesis using kg by (intro refused) simp_all
    next
      case granted': (Inr u)
      have "r = Inr ()" "g' = grantLease k i ref g1" using assms Inr b granted' by (simp_all add: takeLease_def doS_def liftS_def)
      then show thesis using granted [OF _ ref] d granted' by simp
    qed
  qed
qed

lemma update_addresses: "snd ` set (AList.update key a al) \<subseteq> insert a (snd ` set al)"
  by (induction al) auto

lemma leaseModel_OK:
  assumes ref: "refOK g ref" and hs: "\<forall>a \<in> snd ` set (modelHealth g). a < length (objects g)"
  obtains address os ms where "leaseModel ref g = (address, g\<lparr>objects := os, modelHealth := ms\<rparr>)" "length (objects g) \<le> length os"
    "\<forall>a \<in> snd ` set ms. a < length os"
    "\<And>a. modelCount (g\<lparr>objects := os\<rparr>) a = modelCount g a + of_bool (address = Some a)" "\<And>a. address = Some a \<Longrightarrow> a < length os"
proof -
  have u: "\<forall>x \<in> snd ` set (AList.update key b (modelHealth g)). x < n" if "b < n" "length (objects g) \<le> n" for key b n
  proof
    fix x assume "x \<in> snd ` set (AList.update key b (modelHealth g))"
    then have "x = b \<or> x \<in> snd ` set (modelHealth g)" using update_addresses [of key b "modelHealth g"] by blast
    then show "x < n" using hs that by (metis order_less_le_trans)
  qed
  show thesis
  proof (cases ref)
    case None
    show thesis by (rule that [where address = None and os = "objects g" and ms = "modelHealth g"]) (use hs None in \<open>simp_all add: leaseModel_def\<close>)
  next
    case (Some r)
    show thesis
    proof (cases r)
      case (Shared a)
      then have a: "a < length (objects g)" using ref Some by (simp add: refOK_def)
      let ?m = "objects g ! a"
      show thesis
        by (rule that [where address = "Some a" and os = "(objects g)[a := ?m\<lparr>inFlight := inFlight ?m + 1\<rparr>]"
              and ms = "AList.update (keyOf ?m) a (modelHealth g)"])
          (use a u in \<open>auto simp: leaseModel_def Some Shared Let_def setObject_def modelCount_def nth_list_update\<close>)
    next
      case (Fresh m)
      then have m: "inFlight m = 0" using ref Some by (simp add: refOK_def)
      show thesis
        by (rule that [where address = "Some (length (objects g))" and os = "objects g @ [m\<lparr>inFlight := inFlight m + 1\<rparr>]"
              and ms = "AList.update (keyOf m) (length (objects g)) (modelHealth g)"])
          (use m u [of "length (objects g)" "Suc (length (objects g))"] in
            \<open>auto simp: leaseModel_def Some Fresh modelCount_def nth_append less_Suc_eq\<close>)
    qed
  qed
qed

lemma grantLease_OK:
  assumes ok: "coreOK g ps" and k: "k < length (requests g)" and idle: "v_account (views g ! k) = None"
    and live: "\<not> v_finished (views g ! k)" and account: "ob_AccountID (requests g ! k) = i" and state: "health g i = Some state"
    and ref: "refOK g ref"
  shows "coreOK (grantLease k i ref g) ps" and "touches k g (grantLease k i ref g)"
    and "inFlightOf (grantLease k i ref g) = (inFlightOf g)(i := inFlightOf g i + 1)"
    and "health (grantLease k i ref g) = (health g)(i \<mapsto> state\<lparr>InFlight := InFlight state + 1\<rparr>)"
    and "waitingIn (grantLease k i ref g) = waitingIn g"
proof -
  let ?e = "requests g ! k"
  let ?h = "g\<lparr>health := (health g)(i \<mapsto> state\<lparr>InFlight := InFlight state + 1\<rparr>)\<rparr>"
  note D = coreOK_D [OF ok]
  have vk: "views g ! k = viewOf ?e" using k by simp
  have free: "v_model (viewOf ?e) = None"
    using D(7) nth_mem [of k "views g"] k idle by (metis length_views not_Some_eq vk)
  have "refOK ?h ref" using ref by simp
  moreover have "\<forall>a \<in> snd ` set (modelHealth ?h). a < length (objects ?h)" using D(6) by simp
  ultimately obtain address os ms where l: "leaseModel ref ?h = (address, ?h\<lparr>objects := os, modelHealth := ms\<rparr>)"
    "length (objects ?h) \<le> length os" "\<forall>a \<in> snd ` set ms. a < length os"
    "\<And>a. modelCount (?h\<lparr>objects := os\<rparr>) a = modelCount ?h a + of_bool (address = Some a)" "\<And>a. address = Some a \<Longrightarrow> a < length os"
    by (rule leaseModel_OK) blast
  let ?g = "?h\<lparr>objects := os, modelHealth := ms\<rparr>"
  let ?e' = "?e\<lparr>allocationTracked := (schemeID ?e \<noteq> 0), modelState := (case address of None \<Rightarrow> modelState ?e | Some a \<Rightarrow> Some a),
                ob_sequence := sequence g + 1, ob_revision := rt_revision state, leased := True\<rparr>"
  have g': "grantLease k i ref g = setRequest k ?e' (?g\<lparr>sequence := sequence g + 1\<rparr>)"
    using l(1) state by (cases address) (simp_all add: grantLease_def Let_def)
  have v': "viewOf ?e' = (viewOf ?e)\<lparr>v_account := Some i, v_model := address\<rparr>"
    using free account by (simp add: viewOf_def split: option.split)
  have v: "views (grantLease k i ref g) = (views g)[k := viewOf ?e']" by (simp add: g')
  have i: "inFlightOf (grantLease k i ref g) = (inFlightOf g)(i := inFlightOf g i + 1)"
    using state by (auto simp: g' inFlightOf_def fun_eq_iff)
  show "inFlightOf (grantLease k i ref g) = (inFlightOf g)(i := inFlightOf g i + 1)" by (rule i)
  show "health (grantLease k i ref g) = (health g)(i \<mapsto> state\<lparr>InFlight := InFlight state + 1\<rparr>)" by (simp add: g')
  show w: "waitingIn (grantLease k i ref g) = waitingIn g" by (simp add: g')
  show "touches k g (grantLease k i ref g)" using v by (auto simp: touches_def vk viewOf_def)
  show "coreOK (grantLease k i ref g) ps"
  proof (rule coreOK_view [OF ok k v _ _ w])
    show "length (objects g) \<le> length (objects (grantLease k i ref g))" using l(2) by (simp add: g')
    show "v_group (viewOf ?e') = v_group (views g ! k)" by (simp add: vk viewOf_def)
    fix j show "inFlightOf (grantLease k i ref g) j = inFlightOf g j - of_bool (onAccount j (views g ! k)) + of_bool (onAccount j (viewOf ?e'))"
      using idle live unfolding i v' vk by (auto simp: onAccount_def)
  next
    fix u show "memberActive (grantLease k i ref g) u = memberActive g u - of_bool (ofMember u (views g ! k)) + of_bool (ofMember u (viewOf ?e'))"
      unfolding v' vk by (simp add: g' ofMember_def)
  next
    fix a show "modelCount (grantLease k i ref g) a = modelCount g a - of_bool (onModel a (views g ! k)) + of_bool (onModel a (viewOf ?e'))"
      using l(4) [of a] live free unfolding v' vk by (auto simp: g' onModel_def)
  next
    show "\<forall>a \<in> snd ` set (modelHealth (grantLease k i ref g)). a < length (objects (grantLease k i ref g))" using l(3) by (simp add: g')
    show "v_model (viewOf ?e') = Some a \<Longrightarrow> a < length (objects (grantLease k i ref g)) \<and> v_account (viewOf ?e') \<noteq> None" for a
      using l(5) unfolding v' by (simp add: g')
    show "capacityChanged (grantLease k i ref g) c = None \<longleftrightarrow> capacityChanged g c = None" for c by (simp add: g')
  qed
qed

lemma leaseRound_OK:
  assumes ok: "coreOK g ps" and k: "k < length (requests g)" and r: "leaseRound h q rd k deadline g = (p, g')"
    and phase: "case deadline of None \<Rightarrow> ps ! k = Idle | Some t \<Rightarrow> ps ! k = Queued t"
    and idle: "v_account (views g ! k) = None" and live: "\<not> v_finished (views g ! k)"
  shows "coreOK g' (ps[k := (case p of Waiting t \<Rightarrow> Queued t | Returned v \<Rightarrow> Over)])" and "touches k g g'"
    and "\<And>t. p = Waiting t \<Longrightarrow> v_account (views g' ! k) = None"
    and "\<And>i. inFlightOf g' i \<le> inFlightOf g i \<or>
      (\<exists>state. health g' i = Some state \<and> InFlight state = inFlightOf g i + 1 \<and> InFlight state \<le> MaxConcurrency state)"
    and "waitingIn g' grp \<le> waitingIn g grp \<or> waitingIn g' grp \<le> QueueLimit (gw_policy g)"
proof -
  let ?goal = "coreOK g' (ps[k := (case p of Waiting t \<Rightarrow> Queued t | Returned v \<Rightarrow> Over)]) \<and> touches k g g' \<and>
    (\<forall>t. p = Waiting t \<longrightarrow> v_account (views g' ! k) = None) \<and> (\<forall>i. inFlightOf g' i \<le> inFlightOf g i \<or>
      (\<exists>state. health g' i = Some state \<and> InFlight state = inFlightOf g i + 1 \<and> InFlight state \<le> MaxConcurrency state)) \<and>
    (\<forall>grp. waitingIn g' grp \<le> waitingIn g grp \<or> waitingIn g' grp \<le> QueueLimit (gw_policy g))"
  have endc: ?goal if "coreOK l ps" "touches k g l" "endLease rd k deadline v l = (p, g')"
    "\<And>i. inFlightOf l i \<le> inFlightOf g i \<or> (\<exists>state. health l i = Some state \<and> InFlight state = inFlightOf g i + 1 \<and> InFlight state \<le> MaxConcurrency state)"
    "waitingIn l = waitingIn g" for l v
  proof -
    have kl: "k < length (requests l)" using that(2) k by (simp add: touches_length)
    note e = endLease_OK [OF that(1) kl that(3) phase]
    have h: "health g' = health l" using that(3) by (auto simp: endLease_def Let_def leaveQueue_def split: if_splits)
    have "inFlightOf g' = inFlightOf l" by (simp add: inFlightOf_def h fun_eq_iff)
    moreover have "touches k g g'" using that(2) e(2) by (simp add: touches_def)
    moreover have "waitingIn g' grp \<le> waitingIn g grp" for grp
      using that(3,5) by (auto simp: endLease_def Let_def leaveQueue_def waitingIn_update waitingIn_delete split: if_splits)
    ultimately show ?thesis using e that(4) h by auto
  qed
  have same: "inFlightOf l i \<le> inFlightOf g i \<or> A" if "inFlightOf l = inFlightOf g" for l i A using that by simp
  obtain v h1 where e: "enterRound rd k deadline g = (v, h1)" by fastforce
  note h1 = enterRound_OK [OF ok k e live]
  have f1: "inFlightOf h1 = inFlightOf g"
  proof (cases "h1 = g")
    case False
    obtain w l where l: "prepareAllocation k (rd_now rd) g = (w, l)" by fastforce
    have gl: "inFlightOf l = inFlightOf g" using keeps_prepareAllocation [OF l] by (simp add: keeps_def)
    have "h1 = l \<or> admitWaiting k (rd_now rd) l = (v, h1)"
      using e l False by (auto simp: enterRound_def doS_def split: option.splits if_splits sum.splits)
    then show ?thesis using gl
      by (auto simp: admitWaiting_def Let_def split: if_splits prod.splits sum.splits dest: admitMember_Inl elim!: admitMember_Inr)
  qed simp
  have w1: "waitingIn h1 = waitingIn g" "gw_policy h1 = gw_policy g"
  proof -
    have "waitingIn h1 = waitingIn g \<and> gw_policy h1 = gw_policy g"
    proof (cases "h1 = g")
      case False
      obtain w l where l: "prepareAllocation k (rd_now rd) g = (w, l)" by fastforce
      have gl: "waitingIn l = waitingIn g \<and> gw_policy l = gw_policy g" using keeps_prepareAllocation [OF l] by (simp add: keeps_def)
      have "h1 = l \<or> admitWaiting k (rd_now rd) l = (v, h1)"
        using e l False by (auto simp: enterRound_def doS_def split: option.splits if_splits sum.splits)
      then show ?thesis using gl
        by (auto simp: admitWaiting_def Let_def split: if_splits prod.splits sum.splits dest: admitMember_Inl elim!: admitMember_Inr)
    qed simp
    then show "waitingIn h1 = waitingIn g" "gw_policy h1 = gw_policy g" by blast+
  qed
  have k1: "k < length (requests h1)" using h1(2) k by (simp add: touches_length)
  have live1: "\<not> v_finished (views h1 ! k)" using h1(2) live k by (auto simp: touches_def)
  have ?goal
  proof (cases v)
    case (Inl err)
    then have "endLease rd k deadline (Inl err) h1 = (p, g')" using r e by (simp add: leaseRound_def)
    from endc [OF h1(1,2) this same [OF f1] w1(1)] show ?thesis .
  next
    case (Inr u)
    obtain i err digest h2 where c: "chooseAccount h q rd k h1 = ((i, err, digest), h2)"
      by (cases "chooseAccount h q rd k h1") (metis prod_cases3)
    note k12 = chooseAccount_keeps [OF c k1 h1(3) [unfolded idle]]
    have ok2: "coreOK h2 ps" by (rule coreOK_keeps [OF h1(1) k12])
    have t2: "touches k g h2" by (rule touches_trans [OF h1(2) touches_keeps [OF k12] k])
    have v2: "views h2 = views h1" and f2: "inFlightOf h2 = inFlightOf g" and w2: "waitingIn h2 = waitingIn g"
      and p2: "gw_policy h2 = gw_policy g" using k12 f1 w1 by (simp_all add: keeps_def)
    have k2: "k < length (requests h2)" using t2 k by (simp add: touches_length)
    consider (busy) "err = Some (Gateway ErrAccountBusy)" | (fail) e where "err = Some e" "e \<noteq> Gateway ErrAccountBusy" | (ok) "err = None"
      by (cases err) auto
    then show ?thesis
    proof cases
      case busy
      obtain w h3 where j: "joinQueue rd k deadline h2 = (w, h3)" by fastforce
      show ?thesis
      proof (cases w)
        case (Inl e')
        then have "h3 = h2" using j by (auto simp: joinQueue_def Let_def split: option.splits if_splits)
        then have "endLease rd k deadline (Inl e') h2 = (p, g')" using r e Inr c busy j Inl by (simp add: leaseRound_def)
        from endc [OF ok2 t2 this same [OF f2] w2] show ?thesis .
      next
        case w: (Inr t)
        then have p: "p = Waiting t" "g' = h3" using r e Inr c busy j by (simp_all add: leaseRound_def)
        note q = joinQueue_OK [OF ok2 k2 j [unfolded w] phase]
        have "health h3 = health h2" using j by (auto simp: joinQueue_def Let_def split: option.splits if_splits)
        then have "inFlightOf h3 = inFlightOf g" using f2 by (simp add: inFlightOf_def fun_eq_iff)
        moreover have "waitingIn h3 grp \<le> waitingIn g grp \<or> waitingIn h3 grp \<le> QueueLimit (gw_policy g)" for grp
          using j w w2 p2 by (auto simp: joinQueue_def Let_def waitingIn_update split: option.splits if_splits)
        ultimately show ?thesis using q t2 p v2 h1(3) idle by (simp add: touches_def)
      qed
    next
      case fail
      then have "endLease rd k deadline (Inl e) h2 = (p, g')" using r \<open>enterRound rd k deadline g = (v, h1)\<close> Inr c by (simp add: leaseRound_def)
      from endc [OF ok2 t2 this same [OF f2] w2] show ?thesis .
    next
      case ok
      obtain w h3 where tl: "takeLease h q rd k i h2 = (w, h3)" by fastforce
      show ?thesis
      proof (rule takeLease_cases [OF tl])
        fix e' assume w: "w = Inl e'" and k23: "keeps h2 h3"
        have "endLease rd k deadline (Inl e') h3 = (p, g')" using r e Inr c ok tl w by (simp add: leaseRound_def)
        moreover have "inFlightOf h3 = inFlightOf g" "waitingIn h3 = waitingIn g" using k23 f2 w2 by (simp_all add: keeps_def)
        ultimately show ?thesis
          using endc [OF coreOK_keeps [OF ok2 k23] touches_trans [OF t2 touches_keeps [OF k23] k]] same by blast
      next
        fix ref d assume w: "w = Inr ()" and ml: "modelLease h2 i (qu_model q) = Inr ref" and h3: "h3 = grantLease k i ref (h2\<lparr>db := d\<rparr>)"
        obtain state where st: "health h2 i = Some state" "InFlight state < MaxConcurrency state" "ob_AccountID (requests h2 ! k) = i"
          by (rule chooseAccount_selected [OF c [unfolded ok] k1 k12])
        let ?h = "h2\<lparr>db := d\<rparr>"
        have okh: "coreOK ?h ps" by (rule coreOK_keeps [OF ok2]) simp
        have th: "touches k g ?h" using t2 by (simp add: touches_def)
        have "refOK ?h ref" using modelLease_OK [OF ml coreOK_D(6) [OF ok2]] by simp
        note gl = grantLease_OK [OF okh _ _ _ _ _ this, of k i state, folded h3]
        have gl': "coreOK h3 ps" "touches k ?h h3" "inFlightOf h3 = (inFlightOf ?h)(i := inFlightOf ?h i + 1)"
          "health h3 = (health ?h)(i \<mapsto> state\<lparr>InFlight := InFlight state + 1\<rparr>)" "waitingIn h3 = waitingIn ?h"
          by (rule gl; use k2 v2 h1(3) idle live1 st in simp)+
        have "endLease rd k deadline (Inr (i, digest)) h3 = (p, g')" using r e Inr c ok tl w by (simp add: leaseRound_def)
        moreover have "InFlight state = inFlightOf g i" using f2 st(1) by (metis inFlightOf_def option.case(2))
        then have "inFlightOf h3 j \<le> inFlightOf g j \<or> (\<exists>state. health h3 j = Some state \<and> InFlight state = inFlightOf g j + 1 \<and> InFlight state \<le> MaxConcurrency state)" for j
          using st(2) gl'(3,4) f2 by (cases "j = i") simp_all
        moreover have "waitingIn h3 = waitingIn g" using gl'(5) w2 by simp
        ultimately show ?thesis using endc [OF gl'(1) touches_trans [OF th gl'(2) k]] by blast
      qed
    qed
  qed
  then show "coreOK g' (ps[k := (case p of Waiting t \<Rightarrow> Queued t | Returned v \<Rightarrow> Over)])" "touches k g g'"
    "\<And>t. p = Waiting t \<Longrightarrow> v_account (views g' ! k) = None"
    "\<And>i. inFlightOf g' i \<le> inFlightOf g i \<or>
      (\<exists>state. health g' i = Some state \<and> InFlight state = inFlightOf g i + 1 \<and> InFlight state \<le> MaxConcurrency state)"
    "waitingIn g' grp \<le> waitingIn g grp \<or> waitingIn g' grp \<le> QueueLimit (gw_policy g)"
    by blast+
qed

section \<open>Completion\<close>

lemma persistRuntime_frame: "\<exists>d. snd (persistRuntime state g) = g\<lparr>db := d\<rparr>"
  by (auto simp: persistRuntime_def writeDB_def split: sum.split intro: exI [of _ "db g"])

lemma judgeAccount_inFlight: "judgeAccount p e outcome penalty retry now seq state = (changed, state', seq') \<Longrightarrow> InFlight state' = InFlight state"
  by (auto simp: judgeAccount_def rateLimited_def recoveredAccount_def Let_def split: if_splits)

lemma finishAccount_effect:
  assumes "1 \<le> inFlightOf g (ob_AccountID e)"
  obtains d seq hs where "finishAccount e outcome penalty retry now g = g\<lparr>db := d, sequence := seq, health := hs\<rparr>"
    "inFlightOf (finishAccount e outcome penalty retry now g) = (inFlightOf g)(ob_AccountID e := inFlightOf g (ob_AccountID e) - 1)"
proof -
  let ?i = "ob_AccountID e"
  obtain state where state: "health g ?i = Some state"
    using assms by (cases "health g ?i") (auto simp: inFlightOf_def)
  then have n: "InFlight state = inFlightOf g ?i" by (simp add: inFlightOf_def)
  obtain changed state' seq where j: "judgeAccount (gw_policy g) e outcome penalty retry now (sequence g) state = (changed, state', seq)"
    by (metis prod_cases3)
  let ?g = "g\<lparr>sequence := seq\<rparr>"
  obtain d where d: "(if changed then snd (persistRuntime state' ?g) else ?g) = ?g\<lparr>db := d\<rparr>"
    using persistRuntime_frame [of state' ?g] by (cases changed) (auto intro: that [of "db g"])
  have f: "finishAccount e outcome penalty retry now g =
      g\<lparr>db := d, sequence := seq, health := (health g)(?i \<mapsto> state'\<lparr>InFlight := max 0 (InFlight state' - 1)\<rparr>)\<rparr>"
    by (simp add: finishAccount_def state j Let_def d)
  show thesis
  proof (rule that [OF f])
    show "inFlightOf (finishAccount e outcome penalty retry now g) = (inFlightOf g)(?i := inFlightOf g ?i - 1)"
      using n assms judgeAccount_inFlight [OF j] unfolding f by (auto simp: inFlightOf_def fun_eq_iff)
  qed
qed

lemma recordFailure_effect:
  "\<exists>d m. snd (recordFailure a e retry now g) = setObject a m (g\<lparr>sequence := sequence g + 1, db := d\<rparr>) \<and>
     inFlight m = inFlight (objects g ! a)"
proof -
  let ?m = "(modelFailure (gw_policy g) (objects g ! a) (modelLimited e) (modelTransient e) retry now)
    \<lparr>md_lastFailureSequence := sequence g + 1\<rparr>"
  let ?g = "g\<lparr>sequence := sequence g + 1\<rparr>"
  show ?thesis
  proof (cases "SaveAccountModelRuntime (db g) (tenantID g) (toRow ?m)")
    case (Inr dv)
    then have "snd (recordFailure a e retry now g) = setObject a (?m\<lparr>md_version := snd dv, persistFailed := False\<rparr>) (?g\<lparr>db := fst dv\<rparr>)"
      by (simp add: recordFailure_def Let_def split: prod.split)
    then show ?thesis by (intro exI conjI, assumption) simp
  next
    case (Inl err)
    show ?thesis
    proof (cases "errorsIs err NoRows")
      case True
      then have "snd (recordFailure a e retry now g) = setObject a (objects g ! a) (?g\<lparr>db := db g\<rparr>)"
        by (simp add: recordFailure_def Let_def Inl setObject_def)
      then show ?thesis by (intro exI conjI, assumption) simp
    next
      case False
      then have "snd (recordFailure a e retry now g) = setObject a (?m\<lparr>persistFailed := True\<rparr>) (?g\<lparr>db := db g\<rparr>)"
        by (simp add: recordFailure_def Let_def Inl)
      then show ?thesis by (intro exI conjI, assumption) simp
    qed
  qed
qed

lemma recordSuccess_effect:
  "\<exists>d m. snd (recordSuccess a g) = setObject a m (g\<lparr>db := d\<rparr>) \<and> inFlight m = inFlight (objects g ! a)"
proof (cases "DeleteAccountModelLimit (db g) (tenantID g) (mk_account (objects g ! a)) (mk_model (objects g ! a))
      (md_version (objects g ! a)) (lifecycle (objects g ! a)) (runtimeRevision' (objects g ! a))")
  case (Inr d)
  then have "snd (recordSuccess a g) = setObject a ((objects g ! a)\<lparr>failures := 0, cooldownUntil := 0, persistFailed := False\<rparr>) (g\<lparr>db := d\<rparr>)"
    by (simp add: recordSuccess_def Let_def)
  then show ?thesis by (intro exI conjI, assumption) simp
next
  case (Inl err)
  then have "snd (recordSuccess a g) = setObject a ((objects g ! a)\<lparr>persistFailed := True\<rparr>) (g\<lparr>db := db g\<rparr>)"
    by (simp add: recordSuccess_def Let_def)
  then show ?thesis by (intro exI conjI, assumption) simp
qed

lemma finishModelRuntime_effect:
  assumes "modelState e = Some a" "a < length (objects g)" "1 \<le> modelCount g a"
  obtains d seq os ms where
    "snd (finishModelRuntime e outcome retry now g) = g\<lparr>sequence := seq, db := d, objects := os, modelHealth := ms\<rparr>"
    "length os = length (objects g)" "snd ` set ms \<subseteq> snd ` set (modelHealth g)"
    "modelCount (g\<lparr>objects := os\<rparr>) = (modelCount g)(a := modelCount g a - 1)"
proof -
  let ?m = "(objects g ! a)\<lparr>inFlight := max 0 (inFlight (objects g ! a) - 1)\<rparr>"
  let ?g = "setObject a ?m g"
  have n: "inFlight ?m = modelCount g a - 1" "objects ?g ! a = ?m" using assms(2,3) by (simp_all add: modelCount_def)
  have count: "modelCount (g\<lparr>objects := (objects g)[a := m]\<rparr>) = (modelCount g)(a := modelCount g a - 1)" if "inFlight m = inFlight ?m" for m
    using that n assms(2) by (auto simp: modelCount_def fun_eq_iff nth_list_update)
  show thesis
  proof (cases "map_of (modelHealth g) (keyOf ?m) = Some a")
    case False
    show thesis
      by (rule that [where seq = "sequence g" and d = "db g" and os = "(objects g)[a := ?m]" and ms = "modelHealth g"])
        (use False n(2) count [of ?m] in \<open>simp_all add: finishModelRuntime_def assms(1) Let_def setObject_def\<close>)
  next
    case True
    obtain failed g1 where j: "(if modelLimited e \<or> modelTransient e then recordFailure a e retry now ?g
                   else if isDone outcome \<and> cooldownUntil ?m \<le> Unix now \<and>
                     md_lastFailureSequence ?m < ob_sequence e \<and> failures ?m > 0 then recordSuccess a ?g
                   else (False, ?g)) = (failed, g1)" by fastforce
    have "\<exists>d m seq. g1 = setObject a m (g\<lparr>sequence := seq, db := d\<rparr>) \<and> inFlight m = inFlight ?m"
    proof -
      consider "g1 = snd (recordFailure a e retry now ?g)" | "g1 = snd (recordSuccess a ?g)" | "g1 = ?g"
        using j by (metis snd_conv)
      then show ?thesis
      proof cases
        case 1
        with recordFailure_effect [of a e retry now ?g] obtain d m
          where "g1 = setObject a m (?g\<lparr>sequence := sequence ?g + 1, db := d\<rparr>)" "inFlight m = inFlight ?m" using n(2) by auto
        then show ?thesis by (intro exI [of _ d] exI [of _ m] exI [of _ "sequence g + 1"]) (simp add: setObject_def)
      next
        case 2
        with recordSuccess_effect [of a ?g] obtain d m where "g1 = setObject a m (?g\<lparr>db := d\<rparr>)" "inFlight m = inFlight ?m" using n(2) by auto
        then show ?thesis by (intro exI [of _ d] exI [of _ m] exI [of _ "sequence g"]) (simp add: setObject_def)
      next
        case 3
        then show ?thesis by (intro exI [of _ "db g"] exI [of _ ?m] exI [of _ "sequence g"]) simp
      qed
    qed
    then obtain d m seq where g1: "g1 = setObject a m (g\<lparr>sequence := seq, db := d\<rparr>)" "inFlight m = inFlight ?m" by blast
    have h1: "modelHealth g1 = modelHealth g" by (simp add: g1)
    have "\<exists>ms. snd (finishModelRuntime e outcome retry now g) = g1\<lparr>modelHealth := ms\<rparr> \<and> snd ` set ms \<subseteq> snd ` set (modelHealth g)"
    proof -
      let ?drop = "inFlight (objects g1 ! a) = 0 \<and> \<not> persistFailed (objects g1 ! a)"
      have f: "snd (finishModelRuntime e outcome retry now g) =
          (if ?drop then g1\<lparr>modelHealth := AList.delete (keyOf (objects g1 ! a)) (modelHealth g1)\<rparr> else g1)"
        by (simp only: finishModelRuntime_def assms(1) option.case Let_def n(2) setObject_simps(3) True j prod.case snd_conv
            simp_thms if_False)
      have "snd ` set (AList.delete key (modelHealth g)) \<subseteq> snd ` set (modelHealth g)" for key
        by (auto simp: AList.delete_eq)
      then have sub: "snd ` set (if ?drop then AList.delete (keyOf (objects g1 ! a)) (modelHealth g1) else modelHealth g1)
          \<subseteq> snd ` set (modelHealth g)" using h1 by simp
      have "snd (finishModelRuntime e outcome retry now g) =
          g1\<lparr>modelHealth := (if ?drop then AList.delete (keyOf (objects g1 ! a)) (modelHealth g1) else modelHealth g1)\<rparr>"
        unfolding f by simp
      then show ?thesis using sub by blast
    qed
    then obtain ms where ms: "snd (finishModelRuntime e outcome retry now g) = g1\<lparr>modelHealth := ms\<rparr>"
      "snd ` set ms \<subseteq> snd ` set (modelHealth g)" by blast
    show thesis
      by (rule that [where seq = seq and d = d and os = "(objects g)[a := m]" and ms = ms])
        (use ms g1 count [of m] in \<open>simp_all add: setObject_def\<close>)
  qed
qed

lemma keeps_settleOrRetry: "keeps g (settleOrRetry k now g)"
proof -
  obtain r h where p: "persistObservation (requests g ! k) now g = (r, h)" by fastforce
  then have "keeps g h" unfolding persistObservation_def by (rule keeps_inTx)
  then show ?thesis by (simp add: settleOrRetry_def p split: sum.split)
qed

lemma finish_OK:
  assumes ok: "coreOK g ps" and k: "k < length (requests g)" and live: "\<not> finished (requests g ! k)"
  shows "coreOK (finish k outcome code penalty retry now g) ps"
    and "views (finish k outcome code penalty retry now g) = (views g)[k := (views g ! k)\<lparr>v_finished := True\<rparr>]"
    and "inFlightOf (finish k outcome code penalty retry now g) i \<le> inFlightOf g i"
    and "waitingIn (finish k outcome code penalty retry now g) = waitingIn g"
proof -
  note D = coreOK_D [OF ok]
  let ?o = "requests g ! k"
  let ?e = "closeRecord (gw_policy g) outcome code penalty now ?o"
  have vk: "views g ! k = viewOf ?o" using k by simp
  have held: "1 \<le> inFlightOf g (ob_AccountID ?o)" if "leased ?o"
    by (rule exactly_held [OF D(2), of k]) (use k live that in \<open>simp_all add: onAccount_def viewOf_def\<close>)
  have member: "1 \<le> memberActive g (ob_UserID ?o)" if "memberLeased ?o"
    by (rule exactly_held [OF D(3), of k]) (use k live that in \<open>simp_all add: ofMember_def viewOf_def\<close>)
  have model: "a < length (objects g) \<and> leased ?o \<and> 1 \<le> modelCount g a" if "modelState ?o = Some a" for a
  proof -
    have "viewOf ?o \<in> set (views g)" using k by (metis length_views nth_mem vk)
    moreover have "v_model (viewOf ?o) = Some a" using that by (simp add: viewOf_def)
    ultimately have "a < length (objects g) \<and> v_account (viewOf ?o) \<noteq> None" using D(7) by blast
    moreover have "1 \<le> modelCount g a"
      by (rule exactly_held [OF D(4), of k]) (use k live that in \<open>simp_all add: onModel_def viewOf_def\<close>)
    moreover have "v_account (viewOf ?o) = (if leased ?o then Some (ob_AccountID ?o) else None)" by (simp add: viewOf_def)
    ultimately show ?thesis by presburger
  qed
  have e: "memberLeased ?e = memberLeased ?o" "leased ?e = leased ?o" "ob_UserID ?e = ob_UserID ?o"
    "ob_AccountID ?e = ob_AccountID ?o" "modelState ?e = modelState ?o" "viewOf ?e = (viewOf ?o)\<lparr>v_finished := True\<rparr>"
    by (simp_all add: closeRecord_def viewOf_def)
  define g1 where "g1 = setRequest k ?e g"
  define g2 where "g2 = (if memberLeased ?e then releaseMember (ob_UserID ?e) g1 else g1)"
  define g3 where "g3 = (if leased ?e then finishAccount ?e outcome penalty retry now g2 else g2)"
  define g4 where "g4 = snd (finishModelRuntime ?e outcome retry now g3)"
  define g5 where "g5 = settleOrRetry k now g4"
  define g6 where "g6 = (if leased ?e then notifyCapacity (ob_AccountID ?e) g5 else g5)"
  have f: "finish k outcome code penalty retry now g = g6" using live by (simp add: finish_def Let_def g1_def g2_def g3_def g4_def g5_def g6_def)
  have a2: "inFlightOf g2 = inFlightOf g" by (simp add: g2_def g1_def releaseMember_def)
  obtain dx sx hx where g3: "g3 = g2\<lparr>db := dx, sequence := sx, health := hx\<rparr>"
    and a3: "inFlightOf g3 = (if leased ?o then (inFlightOf g)(ob_AccountID ?o := inFlightOf g (ob_AccountID ?o) - 1) else inFlightOf g)"
  proof (cases "leased ?o")
    case True
    have "1 \<le> inFlightOf g2 (ob_AccountID ?e)" using held [OF True] a2 e(4) by simp
    then obtain d seq hs where "finishAccount ?e outcome penalty retry now g2 = g2\<lparr>db := d, sequence := seq, health := hs\<rparr>"
      "inFlightOf (finishAccount ?e outcome penalty retry now g2) = (inFlightOf g2)(ob_AccountID ?e := inFlightOf g2 (ob_AccountID ?e) - 1)"
      by (rule finishAccount_effect)
    then show thesis using that True e(2,4) a2 by (simp add: g3_def)
  next
    case False
    then show thesis using that [where dx = "db g2" and sx = "sequence g2" and hx = "health g2"] False e(2) a2 by (simp add: g3_def)
  qed
  have m3: "modelCount g3 = modelCount g" "objects g3 = objects g" "modelHealth g3 = modelHealth g"
    "memberActive g3 = memberActive g2" "waitingIn g3 = waitingIn g" "capacityChanged g3 = capacityChanged g"
    "views g3 = (views g)[k := viewOf ?e]"
    unfolding g3 by (simp_all add: g2_def g1_def releaseMember_def)
  obtain dy sy oy hy where g4: "g4 = g3\<lparr>sequence := sy, db := dy, objects := oy, modelHealth := hy\<rparr>"
    and oy: "length oy = length (objects g)" and hy: "snd ` set hy \<subseteq> snd ` set (modelHealth g)"
    and c4: "modelCount g4 = (\<lambda>a. modelCount g a - of_bool (modelState ?o = Some a))"
  proof (cases "modelState ?o")
    case None
    then have "g4 = g3" using e(5) by (simp add: g4_def finishModelRuntime_def)
    then show thesis using that [where sy = "sequence g3" and dy = "db g3" and oy = "objects g3" and hy = "modelHealth g3"] None m3(1-3) by simp
  next
    case (Some a)
    note m = model [OF Some]
    have "modelState ?e = Some a" "a < length (objects g3)" "1 \<le> modelCount g3 a" using m m3(1,2) Some e(5) by simp_all
    then obtain d seq os ms where
      "g4 = g3\<lparr>sequence := seq, db := d, objects := os, modelHealth := ms\<rparr>"
      "length os = length (objects g3)" "snd ` set ms \<subseteq> snd ` set (modelHealth g3)"
      "modelCount (g3\<lparr>objects := os\<rparr>) = (modelCount g3)(a := modelCount g3 a - 1)"
      unfolding g4_def by (rule finishModelRuntime_effect)
    then show thesis using that [where sy = seq and dy = d and oy = os and hy = ms] m3(1-3) Some by (simp add: fun_eq_iff modelCount_objects)
  qed
  have v4: "views g4 = (views g)[k := viewOf ?e]" "inFlightOf g4 = inFlightOf g3" "memberActive g4 = memberActive g2"
    "waitingIn g4 = waitingIn g" "capacityChanged g4 = capacityChanged g" "objects g4 = oy" "modelHealth g4 = hy"
    unfolding g4 using m3(4-7) by simp_all
  have ok4: "coreOK g4 ps"
  proof (rule coreOK_view [OF ok k v4(1) _ _ v4(4)])
    show "length (objects g) \<le> length (objects g4)" using oy v4(6) by simp
    show "v_group (viewOf ?e) = v_group (views g ! k)" unfolding e(6) vk by simp
    fix j show "inFlightOf g4 j = inFlightOf g j - of_bool (onAccount j (views g ! k)) + of_bool (onAccount j (viewOf ?e))"
      unfolding v4(2) a3 e(6) vk using live by (auto simp: onAccount_def viewOf_def)
  next
    fix u
    have "memberActive g2 u = memberActive g u - of_bool (memberLeased ?o \<and> ob_UserID ?o = u)"
      using member e(1,3) by (cases "memberLeased ?o") (auto simp: g2_def g1_def releaseMember_def)
    then show "memberActive g4 u = memberActive g u - of_bool (ofMember u (views g ! k)) + of_bool (ofMember u (viewOf ?e))"
      unfolding v4(3) e(6) vk using live by (simp add: ofMember_def viewOf_def)
  next
    fix a show "modelCount g4 a = modelCount g a - of_bool (onModel a (views g ! k)) + of_bool (onModel a (viewOf ?e))"
      unfolding c4 e(6) vk using live by (simp add: onModel_def viewOf_def)
  next
    show "\<forall>a \<in> snd ` set (modelHealth g4). a < length (objects g4)"
      unfolding v4(6,7) oy by (rule bspec_subset [OF D(6) hy])
    show "v_model (viewOf ?e) = Some a \<Longrightarrow> a < length (objects g4) \<and> v_account (viewOf ?e) \<noteq> None" for a
      using model [of a] unfolding v4(6) oy e(6) by (simp add: viewOf_def)
    show "capacityChanged g4 c = None \<longleftrightarrow> capacityChanged g c = None" for c unfolding v4(5) by simp
  qed
  have k46: "keeps g4 g6" unfolding g6_def g5_def using keeps_settleOrRetry keeps_notifyCapacity by simp
  show "coreOK (finish k outcome code penalty retry now g) ps" unfolding f by (rule coreOK_keeps [OF ok4 k46])
  show "views (finish k outcome code penalty retry now g) = (views g)[k := (views g ! k)\<lparr>v_finished := True\<rparr>]"
    unfolding f using k46 v4(1) e(6) vk by (simp add: keeps_def)
  show "waitingIn (finish k outcome code penalty retry now g) = waitingIn g" unfolding f using k46 v4(4) by (simp add: keeps_def)
  have "inFlightOf g6 = inFlightOf g3" using k46 v4(2) by (simp add: keeps_def)
  then show "inFlightOf (finish k outcome code penalty retry now g) i \<le> inFlightOf g i"
    unfolding f using a3 by simp
qed

section \<open>The system\<close>

record world =
  gate :: gateway
  phases :: "phase list"

text \<open>What the owner of a request records about its answer while it runs; its identity and its leases stay.\<close>

definition measured :: "observation \<Rightarrow> observation \<Rightarrow> bool" where
  "measured e e' \<longleftrightarrow> viewOf e' = viewOf e \<and> RequestID' e' = RequestID' e \<and> ob_AccountID e' = ob_AccountID e \<and>
     ob_KeyID e' = ob_KeyID e \<and> schemeID e' = schemeID e \<and> allocationTracked e' = allocationTracked e \<and>
     ob_sequence e' = ob_sequence e \<and> ob_revision e' = ob_revision e"

definition deadlineOf :: "phase \<Rightarrow> int option" where
  "deadlineOf p = (case p of Queued t \<Rightarrow> Some t | _ \<Rightarrow> None)"

definition nextPhase :: "progress \<Rightarrow> phase" where
  "nextPhase p = (case p of Waiting t \<Rightarrow> Queued t | Returned r \<Rightarrow> Over)"

text \<open>
  What the rest of the program does to the database between two steps: it neither records the requests of this
  gateway nor makes their entries active, and the request is the key of the table of entries.
\<close>

definition identifiers :: "gateway \<Rightarrow> string set" where
  "identifiers g = set (map RequestID' (requests g))"

definition recordsOf :: "store \<Rightarrow> string \<Rightarrow> nat" where
  "recordsOf d i = length (filter (\<lambda>r. q_id r = i) (request_records d))"

definition leavesAlone :: "gateway \<Rightarrow> store \<Rightarrow> bool" where
  "leavesAlone g d \<longleftrightarrow> (\<forall>x \<in> set (allocation_entries d). e_state x = ''active'' \<and> e_request x \<in> identifiers g \<longrightarrow> x \<in> set (allocation_entries (db g))) \<and>
     (\<forall>i \<in> identifiers g. recordsOf d i \<le> recordsOf (db g) i) \<and> distinct (map e_request (allocation_entries d))"

inductive gateway_step :: "world \<Rightarrow> world \<Rightarrow> bool" where
  arrives: "begin_request kd i user grp key transport now (gate w) = (Inr k, g) \<Longrightarrow>
    i \<notin> identifiers (gate w) \<Longrightarrow> recordsOf (db (gate w)) i = 0 \<Longrightarrow> i \<notin> e_request ` set (allocation_entries (db (gate w))) \<Longrightarrow>
    gateway_step w \<lparr>gate = g, phases = phases w @ [Idle]\<rparr>"
| answers: "k < length (requests (gate w)) \<Longrightarrow> \<not> finished (requests (gate w) ! k) \<Longrightarrow> measured (requests (gate w) ! k) e \<Longrightarrow>
    gateway_step w (w\<lparr>gate := setRequest k e (gate w)\<rparr>)"
| tries: "k < length (requests (gate w)) \<Longrightarrow> \<not> finished (requests (gate w) ! k) \<Longrightarrow> phases w ! k \<noteq> Over \<Longrightarrow>
    leaseRound h q rd k (deadlineOf (phases w ! k)) (gate w) = (p, g) \<Longrightarrow>
    gateway_step w \<lparr>gate = g, phases = (phases w)[k := nextPhase p]\<rparr>"
| wakes: "k < length (requests (gate w)) \<Longrightarrow> phases w ! k = Queued t \<Longrightarrow> capacityChanged (gate w) (ob_GroupID (requests (gate w) ! k)) = Some True \<Longrightarrow>
    gateway_step w (w\<lparr>gate := takeToken k (gate w)\<rparr>)"
| finishes: "k < length (requests (gate w)) \<Longrightarrow> phases w ! k = Idle \<or> phases w ! k = Over \<Longrightarrow>
    gateway_step w (w\<lparr>gate := finish k outcome code penalty retry now (gate w)\<rparr>)"
| rechecks: "recheckAttempt h k i model content now (gate w) = (r, g) \<Longrightarrow> gateway_step w (w\<lparr>gate := g\<rparr>)"
| resumes: "Resume actor i now (gate w) = (r, g) \<Longrightarrow> gateway_step w (w\<lparr>gate := g\<rparr>)"
| limits: "SetConcurrency actor i lim now (gate w) = (r, g) \<Longrightarrow> gateway_step w (w\<lparr>gate := g\<rparr>)"
| shows_runtime: "Runtime' before now (gate w) = (r, g) \<Longrightarrow> gateway_step w (w\<lparr>gate := g\<rparr>)"
| recovers: "PrepareAllocations now (gate w) = (r, g) \<Longrightarrow> gateway_step w (w\<lparr>gate := g\<rparr>)"
| stops: "gateway_step w (w\<lparr>gate := (gate w)\<lparr>closed := True\<rparr>\<rparr>)"
| elsewhere: "leavesAlone (gate w) d \<Longrightarrow> gateway_step w (w\<lparr>gate := (gate w)\<lparr>db := d\<rparr>\<rparr>)"

inductive_cases gateway_stepE: "gateway_step w w'"

definition opened :: "world \<Rightarrow> bool" where
  "opened w \<longleftrightarrow> phases w = [] \<and> requests (gate w) = [] \<and> health (gate w) = Map.empty \<and> modelHealth (gate w) = [] \<and>
     objects (gate w) = [] \<and> memberActive (gate w) = (\<lambda>u. 0) \<and> waiting (gate w) = [] \<and> capacityChanged (gate w) = Map.empty \<and>
     failedSettlements (gate w) = [] \<and> distinct (map e_request (allocation_entries (db (gate w))))"

definition leasesOK :: "world \<Rightarrow> bool" where
  "leasesOK w \<longleftrightarrow> coreOK (gate w) (phases w) \<and> phasesOK (gate w) (phases w)"

lemma leasesOK_keeps: "leasesOK w \<Longrightarrow> keeps (gate w) g \<Longrightarrow> leasesOK (w\<lparr>gate := g\<rparr>)"
  by (auto simp: leasesOK_def intro: coreOK_keeps phasesOK_keeps)

lemma opened_OK: "opened w \<Longrightarrow> leasesOK w"
  by (simp add: leasesOK_def opened_def coreOK_def phasesOK_def exactly_def views_def inFlightOf_def modelCount_def waitingIn_def)

lemma begin_request_Inr:
  assumes "begin_request kd i user grp key transport now g = (Inr k, g')"
  shows "g' = g\<lparr>requests := requests g @ [newObservation kd i user grp key transport now]\<rparr>" "k = length (requests g)"
  using assms by (auto simp: begin_request_def split: sum.splits if_splits)

lemma arrival_OK:
  assumes ok: "leasesOK w" and r: "begin_request kd i user grp key transport now (gate w) = (Inr k, g)"
  shows "leasesOK \<lparr>gate = g, phases = phases w @ [Idle]\<rparr>"
proof -
  let ?v = "viewOf (newObservation kd i user grp key transport now)"
  have v: "v_account ?v = None" "v_model ?v = None" "\<not> v_finished ?v" "\<not> v_member ?v"
    by (simp_all add: viewOf_def newObservation_def)
  note g = begin_request_Inr(1) [OF r]
  have gv: "views g = views (gate w) @ [?v]" by (simp add: g views_def)
  have ok': "coreOK (gate w) (phases w)" "phasesOK (gate w) (phases w)" using ok by (simp_all add: leasesOK_def)
  note D = coreOK_D [OF ok'(1)]
  have "coreOK g (phases w @ [Idle])"
  proof (rule coreOK_I; (unfold gv)?)
    show "length (phases w @ [Idle]) = length (requests g)" using D(1) by (simp add: g)
    show "exactly (inFlightOf g) onAccount (views (gate w) @ [?v])"
      using exactly_append [OF D(2), of ?v] v by (simp add: g onAccount_def)
    show "exactly (memberActive g) ofMember (views (gate w) @ [?v])"
      using exactly_append [OF D(3), of ?v] v by (simp add: g ofMember_def)
    show "exactly (modelCount g) onModel (views (gate w) @ [?v])"
      using exactly_append [OF D(4), of ?v] v by (simp add: g onModel_def)
    show "exactly (waitingIn g) inQueue (zip (phases w @ [Idle]) (views (gate w) @ [?v]))"
      using exactly_append [OF D(5), of "(Idle, ?v)"] D(1) by (simp add: g inQueue_def)
    show "\<forall>a \<in> snd ` set (modelHealth g). a < length (objects g)" using D(6) by (simp add: g)
    show "\<forall>v \<in> set (views (gate w) @ [?v]). \<forall>a. v_model v = Some a \<longrightarrow> a < length (objects g) \<and> v_account v \<noteq> None"
      using D(7) v by (simp add: g)
    show "\<forall>c. capacityChanged g c \<noteq> None \<longleftrightarrow> waitingIn g c > 0" using D(8) by (simp add: g)
  qed
  moreover have "phasesOK g (phases w @ [Idle])"
    using ok'(2) D(1) v unfolding phasesOK_def gv by (auto simp: nth_append less_Suc_eq)
  ultimately show ?thesis by (simp add: leasesOK_def)
qed

lemma tries_OK:
  assumes ok: "leasesOK w" and k: "k < length (requests (gate w))" and live: "\<not> finished (requests (gate w) ! k)"
    and phase: "phases w ! k \<noteq> Over" and r: "leaseRound h q rd k (deadlineOf (phases w ! k)) (gate w) = (p, g)"
  shows "leasesOK \<lparr>gate = g, phases = (phases w)[k := nextPhase p]\<rparr>"
proof -
  have ok': "coreOK (gate w) (phases w)" "phasesOK (gate w) (phases w)" using ok by (simp_all add: leasesOK_def)
  have len: "length (phases w) = length (requests (gate w))" by (rule coreOK_D [OF ok'(1)])
  have idle: "v_account (views (gate w) ! k) = None" using ok'(2) k len phase by (simp add: phasesOK_def)
  have l: "\<not> v_finished (views (gate w) ! k)" using live k by (simp add: viewOf_def)
  have ph: "case deadlineOf (phases w ! k) of None \<Rightarrow> phases w ! k = Idle | Some t \<Rightarrow> phases w ! k = Queued t"
    using phase by (simp add: deadlineOf_def split: phase.splits)
  note R = leaseRound_OK [OF ok'(1) k r ph idle l]
  have "phasesOK g ((phases w)[k := nextPhase p])"
  proof (rule touches_phases [OF ok'(2) len R(2)])
    show "k < length (phases w)" using k len by simp
    show "nextPhase p \<noteq> Over \<Longrightarrow> v_account (views g ! k) = None" using R(3) by (cases p) (simp_all add: nextPhase_def)
    show "\<not> v_finished (views (gate w) ! k)" by (rule l)
  qed
  then show ?thesis using R(1) by (simp add: leasesOK_def nextPhase_def)
qed

lemma finishes_OK:
  assumes ok: "leasesOK w" and k: "k < length (requests (gate w))" and phase: "phases w ! k = Idle \<or> phases w ! k = Over"
  shows "leasesOK (w\<lparr>gate := finish k outcome code penalty retry now (gate w)\<rparr>)"
proof (cases "finished (requests (gate w) ! k)")
  case True
  then show ?thesis using ok by (simp add: finish_def)
next
  case False
  have ok': "coreOK (gate w) (phases w)" "phasesOK (gate w) (phases w)" using ok by (simp_all add: leasesOK_def)
  note F = finish_OK [OF ok'(1) k False]
  have "phasesOK (finish k outcome code penalty retry now (gate w)) (phases w)"
    using ok'(2) phase k coreOK_D(1) [OF ok'(1)] by (auto simp: phasesOK_def F(2) nth_list_update)
  then show ?thesis using F(1) by (simp add: leasesOK_def)
qed

lemma takeToken_keeps:
  assumes "capacityChanged g (ob_GroupID (requests g ! k)) \<noteq> None"
  shows "keeps g (takeToken k g)"
  using assms by (simp add: keeps_def takeToken_def views_def)

lemma gateway_step_OK:
  assumes s: "gateway_step w w'" and ok: "leasesOK w"
  shows "leasesOK w'"
  using s
proof (cases rule: gateway_step.cases)
  case (arrives kd i user grp key transport now k g)
  then show ?thesis using arrival_OK [OF ok] by simp
next
  case (answers k e)
  then show ?thesis using leasesOK_keeps [OF ok keeps_setRequest [OF keeps_refl]] by (simp add: measured_def)
next
  case (tries k h q rd p g)
  then show ?thesis using tries_OK [OF ok] by simp
next
  case (wakes k t)
  then show ?thesis using leasesOK_keeps [OF ok takeToken_keeps [of "gate w" k]] by simp
next
  case (finishes k outcome code penalty retry now)
  then show ?thesis using finishes_OK [OF ok] by simp
next
  case (rechecks h k i model content now r g)
  then show ?thesis using leasesOK_keeps [OF ok keeps_recheckAttempt] by simp
next
  case (resumes actor i now r g)
  then show ?thesis using leasesOK_keeps [OF ok keeps_Resume] by simp
next
  case (limits actor i lim now r g)
  then show ?thesis using leasesOK_keeps [OF ok keeps_SetConcurrency] by simp
next
  case (shows_runtime before now r g)
  then show ?thesis using leasesOK_keeps [OF ok keeps_Runtime'] by simp
next
  case (recovers now r g)
  then show ?thesis using leasesOK_keeps [OF ok keeps_recover] by simp
next
  case stops
  then show ?thesis using leasesOK_keeps [OF ok, of "(gate w)\<lparr>closed := True\<rparr>"] by simp
next
  case (elsewhere d)
  then show ?thesis using leasesOK_keeps [OF ok, of "(gate w)\<lparr>db := d\<rparr>"] by simp
qed

interpretation leases: step_invariant opened gateway_step leasesOK
  by unfold_locales (erule opened_OK, erule gateway_step_OK, assumption)

section \<open>Examples\<close>

text \<open>Member 7 sends requests to pool 1 with a key, at a fixed time; each may try once and may fail.\<close>

definition exampleClock :: int where
  "exampleClock = 19001000000000"

definition exampleRound :: Round where
  "exampleRound = \<lparr>rd_now = exampleClock, rd_clock = 0, rd_ctx = None, rd_admission = None, rd_ctxEnd = None,
     rd_admissionEnd = None, rd_random = Inr (replicate 32 (CHR ''r''))\<rparr>"

definition arriveWith :: "int \<Rightarrow> string \<Rightarrow> world \<Rightarrow> world" where
  "arriveWith key i w = \<lparr>gate = snd (begin_request Responses i 7 1 key ''http'' exampleClock (gate w)), phases = phases w @ [Idle]\<rparr>"

definition tryWith :: "nat \<Rightarrow> world \<Rightarrow> world" where
  "tryWith k w = (case leaseRound exampleHost (exampleQuery []) exampleRound k (deadlineOf (phases w ! k)) (gate w) of
     (p, g) \<Rightarrow> \<lparr>gate = g, phases = (phases w)[k := nextPhase p]\<rparr>)"

definition finishWith :: "nat \<Rightarrow> world \<Rightarrow> world" where
  "finishWith k w = w\<lparr>gate := finish k ''error'' ''stream_interrupted'' ''upstream_error'' RetryNone exampleClock (gate w)\<rparr>"

lemma arriveWith_step:
  assumes "isl (fst (begin_request Responses i 7 1 key ''http'' exampleClock (gate w))) = False"
    and "list_all (\<lambda>e. RequestID' e \<noteq> i) (requests (gate w))" "list_all (\<lambda>r. q_id r \<noteq> i) (request_records (db (gate w)))"
    "list_all (\<lambda>e. e_request e \<noteq> i) (allocation_entries (db (gate w)))"
  shows "gateway_step w (arriveWith key i w)"
proof -
  obtain v g where v: "begin_request Responses i 7 1 key ''http'' exampleClock (gate w) = (v, g)" by fastforce
  then obtain k where r: "begin_request Responses i 7 1 key ''http'' exampleClock (gate w) = (Inr k, g)"
    using assms(1) by (cases v) simp_all
  have "i \<notin> identifiers (gate w)" "recordsOf (db (gate w)) i = 0" "i \<notin> e_request ` set (allocation_entries (db (gate w)))"
    using assms(2-4) by (auto simp: identifiers_def recordsOf_def list_all_iff filter_empty_conv)
  from arrives [OF r this] show ?thesis by (simp add: arriveWith_def r)
qed

lemma tryWith_step:
  assumes "k < length (requests (gate w))" "\<not> finished (requests (gate w) ! k)" "phases w ! k \<noteq> Over"
  shows "gateway_step w (tryWith k w)"
proof -
  obtain p g where r: "leaseRound exampleHost (exampleQuery []) exampleRound k (deadlineOf (phases w ! k)) (gate w) = (p, g)" by fastforce
  from tries [OF assms r] show ?thesis by (simp add: tryWith_def r)
qed

end
