(* ===== verification/Gateway_Leases.thy ===== *)
theory Gateway_Leases
  imports Gateway_Concurrency
begin

text \<open>
  What the interleaving of requests guarantees: leases are counted exactly, an account is never
  given more requests than it may serve at once, and the end of a request wakes a call that waits for it.
\<close>

section \<open>Counting in terms of the requests\<close>

lemma held_requests:
  assumes "exactly c holds (map f es)" and "\<And>e. e \<in> set es \<Longrightarrow> holds k (f e) = P e"
  shows "c k = int (length (filter P es))"
proof -
  have "filter (holds k) (map f es) = map f (filter P es)"
    unfolding filter_map o_def by (intro arg_cong [of _ _ "map f"] filter_cong refl assms(2))
  moreover have "c k = int (length (filter (holds k) (map f es)))" using assms(1) unfolding exactly_def ..
  ultimately show ?thesis by (simp only: length_map)
qed

lemma queued_requests:
  assumes "exactly c inQueue (zip ps (views g))" "length ps = length (requests g)"
  shows "c grp = int (length (filter (\<lambda>k. (\<exists>t. ps ! k = Queued t) \<and> ob_GroupID (requests g ! k) = grp) [0..<length (requests g)]))"
proof -
  have "zip ps (views g) = map (\<lambda>k. (ps ! k, viewOf (requests g ! k))) [0..<length (requests g)]"
    using assms(2) by (intro nth_equalityI) (simp_all add: views_def)
  from held_requests [OF assms(1) [unfolded this], of grp] show ?thesis by (simp add: inQueue_def viewOf_def)
qed

section \<open>Notifications\<close>

lemma notifyCapacity_wakes:
  assumes "capacityChanged g grp \<noteq> None" "waitingIn g grp > 0"
    and "case ListResourceGroups (db g) i (tenantID g) of Inl e \<Rightarrow> True | Inr groups \<Rightarrow> grp \<in> set groups"
  shows "capacityChanged (notifyCapacity i g) grp = Some True"
proof -
  have "waiting g \<noteq> []" "grp \<in> set (map fst (waiting g))"
    using assms(2) map_of_eq_None_iff [of "waiting g" grp] by (auto simp: waitingIn_def split: option.splits)
  then show ?thesis using assms(1,3) by (simp add: notifyCapacity_def notify_def split: sum.splits)
qed

text \<open>\<open>finish\<close> of a request with a lease ends with the notification.\<close>

lemma finish_notifies:
  assumes "\<not> finished (requests g ! k)" "leased (requests g ! k)"
  obtains h where "finish k outcome code penalty retry now g = notifyCapacity (ob_AccountID (requests g ! k)) h"
proof -
  let ?e = "closeRecord (gw_policy g) outcome code penalty now (requests g ! k)"
  have "leased ?e" "ob_AccountID ?e = ob_AccountID (requests g ! k)" using assms(2) by (simp_all add: closeRecord_def)
  then show thesis using that assms(1) unfolding finish_def by (simp add: Let_def)
qed

section \<open>Examples\<close>

text \<open>
  Member 7 sends two requests to a pool without a scheme, whose only account serves one request at a time: the
  first leases the account, the second waits for it, the first finishes.
\<close>

definition exampleDoor :: gateway where
  "exampleDoor = exampleGateway\<lparr>db := (db exampleGateway)\<lparr>allocation_schemes := [],
     accounts := map (\<lambda>a. a\<lparr>a_max_concurrency := 1\<rparr>) (accounts (db exampleGateway))\<rparr>\<rparr>"

definition exampleOpened :: world where
  "exampleOpened = \<lparr>gate = exampleDoor, phases = []\<rparr>"

definition exampleArrived :: world where
  "exampleArrived = arriveWith 0 ''q2'' (arriveWith 0 ''q1'' exampleOpened)"

definition exampleLeased :: world where
  "exampleLeased = tryWith 0 exampleArrived"

definition exampleWaiting :: world where
  "exampleWaiting = tryWith 1 exampleLeased"

lemma exampleOpened_opened: "opened exampleOpened"
  by (simp add: opened_def exampleOpened_def exampleDoor_def exampleGateway_def exampleStore_def)

definition exampleArrived1 :: world where
  "exampleArrived1 = arriveWith 0 ''q1'' exampleOpened"

lemma exampleArrivals:
  "isl (fst (begin_request Responses ''q1'' 7 1 0 ''http'' exampleClock (gate exampleOpened))) = False \<and>
   requests (gate exampleOpened) = [] \<and> request_records (db (gate exampleOpened)) = [] \<and> allocation_entries (db (gate exampleOpened)) = []"
  "isl (fst (begin_request Responses ''q2'' 7 1 0 ''http'' exampleClock (gate exampleArrived1))) = False \<and>
   map RequestID' (requests (gate exampleArrived1)) = [''q1''] \<and> request_records (db (gate exampleArrived1)) = [] \<and>
   allocation_entries (db (gate exampleArrived1)) = []"
  "map finished (requests (gate exampleArrived)) = [False, False] \<and> phases exampleArrived = [Idle, Idle]"
  by code_simp+

definition summary :: "world \<Rightarrow> (bool \<times> bool \<times> string \<times> int \<times> int) list \<times> phase list \<times> bool" where
  "summary w = (map (\<lambda>e. (leased e, finished e, ob_AccountID e, ob_UserID e, ob_GroupID e)) (requests (gate w)), phases w,
     let g = gate (finishWith 0 w) in case ListResourceGroups (db g) exampleAccount (tenantID g) of Inl e \<Rightarrow> True | Inr groups \<Rightarrow> 1 \<in> set groups)"

lemma exampleLeased_run: "fst (summary exampleLeased) = [(True, False, exampleAccount, 7, 1), (False, False, [], 7, 1)] \<and>
   fst (snd (summary exampleLeased)) = [Over, Idle]"
  by code_simp

lemma exampleWaiting_run: "summary exampleWaiting =
   ([(True, False, exampleAccount, 7, 1), (False, False, [], 7, 1)], [Over, Queued 30000000000], True)"
  by code_simp

lemma exampleLeased_facts:
  obtains a b where "requests (gate exampleLeased) = [a, b]" "leased a" "\<not> finished a" "ob_AccountID a = exampleAccount"
    "\<not> leased b" "\<not> finished b" "phases exampleLeased = [Over, Idle]"
  using exampleLeased_run by (auto simp: summary_def map_eq_Cons_conv)

lemma exampleWaiting_facts:
  obtains a b where "requests (gate exampleWaiting) = [a, b]" "leased a" "\<not> finished a" "ob_AccountID a = exampleAccount" "ob_GroupID a = 1"
    "\<not> leased b" "\<not> finished b" "ob_GroupID b = 1" "phases exampleWaiting = [Over, Queued 30000000000]"
    "case ListResourceGroups (db (gate (finishWith 0 exampleWaiting))) exampleAccount (tenantID (gate (finishWith 0 exampleWaiting))) of
       Inl e \<Rightarrow> True | Inr groups \<Rightarrow> 1 \<in> set groups"
  using exampleWaiting_run by (auto simp: summary_def Let_def map_eq_Cons_conv)

lemma example_reach:
  "reach opened gateway_step exampleArrived" "gateway_step exampleArrived exampleLeased"
  "reach opened gateway_step exampleLeased" "reach opened gateway_step exampleWaiting"
proof -
  have "gateway_step exampleOpened exampleArrived1"
    unfolding exampleArrived1_def by (rule arriveWith_step) (use exampleArrivals(1) in simp_all)
  moreover have "gateway_step exampleArrived1 exampleArrived"
    unfolding exampleArrived_def exampleArrived1_def [symmetric]
    by (rule arriveWith_step) (use exampleArrivals(2) in \<open>auto simp: map_eq_Cons_conv\<close>)
  ultimately show a: "reach opened gateway_step exampleArrived"
    using exampleOpened_opened by (meson reach_init reach_step)
  have l: "length (requests (gate exampleArrived)) = 2" using exampleArrivals(3) by (metis length_Cons length_map list.size(3) numeral_2_eq_2)
  show s: "gateway_step exampleArrived exampleLeased"
    unfolding exampleLeased_def by (rule tryWith_step) (use exampleArrivals(3) l in \<open>auto simp: map_eq_Cons_conv\<close>)
  show r: "reach opened gateway_step exampleLeased" by (rule reach_step [OF a s])
  have "gateway_step exampleLeased exampleWaiting"
    unfolding exampleWaiting_def by (rule exampleLeased_facts, rule tryWith_step) simp_all
  with r show "reach opened gateway_step exampleWaiting" by (rule reach_step)
qed

section \<open>Properties\<close>

text \<open>
  C14: The gateway counts its leases exactly. However requests arrive, wait, give up, are woken, retried
  and finished, and whatever operators do to the accounts meanwhile, the requests in flight of an account,
  the active requests of a member, the leases of a model and the waiters of a pool are the numbers of
  requests that hold them: none is leaked, none is released twice.
\<close>

theorem leases_are_exact:
  assumes "reach opened gateway_step w"
  shows "(\<forall>i. inFlightOf (gate w) i =
      int (length (filter (\<lambda>e. leased e \<and> \<not> finished e \<and> ob_AccountID e = i) (requests (gate w))))) \<and>
    (\<forall>u. memberActive (gate w) u =
      int (length (filter (\<lambda>e. memberLeased e \<and> \<not> finished e \<and> ob_UserID e = u) (requests (gate w))))) \<and>
    (\<forall>a < length (objects (gate w)). inFlight (objects (gate w) ! a) =
      int (length (filter (\<lambda>e. modelState e = Some a \<and> \<not> finished e) (requests (gate w))))) \<and>
    (\<forall>grp. waitingIn (gate w) grp =
      int (length (filter (\<lambda>k. (\<exists>t. phases w ! k = Queued t) \<and> ob_GroupID (requests (gate w) ! k) = grp) [0..<length (requests (gate w))])))"
proof -
  have "coreOK (gate w) (phases w)" using leases.reach_inv [OF assms] by (simp add: leasesOK_def)
  note D = coreOK_D [OF this, unfolded views_def]
  have m: "modelCount (gate w) a = int (length (filter (\<lambda>e. modelState e = Some a \<and> \<not> finished e) (requests (gate w))))" for a
    by (rule held_requests [OF D(4)]) (auto simp: onModel_def viewOf_def)
  have "inFlight (objects (gate w) ! a) = modelCount (gate w) a" if "a < length (objects (gate w))" for a
    using that by (simp add: modelCount_def)
  then show ?thesis using m queued_requests [OF D(5) [folded views_def] D(1)]
    by (intro conjI allI impI held_requests [OF D(2)] held_requests [OF D(3)]) (auto simp: onAccount_def ofMember_def viewOf_def)
qed

theorem leases_are_exact_witness:
  "inFlightOf (gate exampleWaiting) exampleAccount = 1 \<and> waitingIn (gate exampleWaiting) 1 = 1"
proof (rule exampleWaiting_facts)
  fix a b
  assume r: "requests (gate exampleWaiting) = [a, b]" "leased a" "\<not> finished a" "ob_AccountID a = exampleAccount" "ob_GroupID a = 1"
    "\<not> leased b" "ob_GroupID b = 1" and p: "phases exampleWaiting = [Over, Queued 30000000000]"
  have "[0..<length (requests (gate exampleWaiting))] = [0, 1]" by (simp add: r upt_rec)
  then show ?thesis using leases_are_exact [OF example_reach(4)] by (simp add: r p)
qed

text \<open>
  C15: Concurrency is bounded. In every reachable state a step gives an account at most one more request, and
  only up to the limit in force at that moment; the waiters of a pool grow only up to the limit of the queue.
\<close>

theorem concurrency_bounded:
  assumes "reach opened gateway_step w" and "gateway_step w w'"
  shows "(inFlightOf (gate w') i \<le> inFlightOf (gate w) i \<or> (\<exists>state. health (gate w') i = Some state \<and>
      InFlight state = inFlightOf (gate w) i + 1 \<and> InFlight state \<le> MaxConcurrency state)) \<and>
    (waitingIn (gate w') grp \<le> waitingIn (gate w) grp \<or> waitingIn (gate w') grp \<le> QueueLimit (gw_policy (gate w)))"
proof -
  have ok: "leasesOK w" by (rule leases.reach_inv [OF assms(1)])
  then have ok': "coreOK (gate w) (phases w)" "phasesOK (gate w) (phases w)" by (simp_all add: leasesOK_def)
  have calm: ?thesis if "keeps (gate w) (gate w')" using that by (simp add: keeps_def)
  show ?thesis using assms(2)
  proof (cases rule: gateway_step.cases)
    case (arrives kd j user grp key transport now k g)
    then show ?thesis using begin_request_Inr(1) [OF arrives(2)] by simp
  next
    case (answers k e)
    then show ?thesis by simp
  next
    case (tries k h q rd p g)
    have ph: "case deadlineOf (phases w ! k) of None \<Rightarrow> phases w ! k = Idle | Some t \<Rightarrow> phases w ! k = Queued t"
      using tries by (simp add: deadlineOf_def split: phase.splits)
    have "k < length (phases w)" using tries coreOK_D(1) [OF ok'(1)] by simp
    then have idle: "v_account (views (gate w) ! k) = None" using tries(4) ok'(2) unfolding phasesOK_def by blast
    have live: "\<not> v_finished (views (gate w) ! k)" using tries by (simp add: viewOf_def)
    note R = leaseRound_OK [OF ok'(1) _ _ ph idle live]
    show ?thesis using R(4,5) tries by simp
  next
    case (wakes k t)
    then show ?thesis using takeToken_keeps [of "gate w" k] calm by simp
  next
    case (finishes k outcome code penalty retry now)
    show ?thesis
    proof (cases "finished (requests (gate w) ! k)")
      case True
      then show ?thesis using finishes by (simp add: finish_def)
    next
      case False
      note F = finish_OK [OF ok'(1) finishes(2) False]
      have "inFlightOf (gate w') i \<le> inFlightOf (gate w) i" using F(3) finishes(1) by simp
      moreover have "waitingIn (gate w') = waitingIn (gate w)" using F(4) finishes(1) by simp
      ultimately show ?thesis by simp
    qed
  next
    case (rechecks h k j model content now r g)
    then show ?thesis using keeps_recheckAttempt calm by simp
  next
    case (resumes actor j now r g)
    then show ?thesis using keeps_Resume calm by simp
  next
    case (limits actor j lim now r g)
    then show ?thesis using keeps_SetConcurrency calm by simp
  next
    case (shows_runtime before now r g)
    then show ?thesis using keeps_Runtime' calm by simp
  next
    case (recovers now r g)
    then show ?thesis using keeps_recover calm by simp
  next
    case stops
    then show ?thesis by simp
  next
    case (elsewhere d)
    then show ?thesis by simp
  qed
qed

theorem concurrency_bounded_witness:
  "\<exists>state. health (gate exampleLeased) exampleAccount = Some state \<and> InFlight state = 1 \<and> 1 \<le> MaxConcurrency state"
proof (rule exampleLeased_facts)
  fix a b
  assume r: "requests (gate exampleLeased) = [a, b]" "leased a" "\<not> finished a" "ob_AccountID a = exampleAccount"
  have z: "leasesOK exampleArrived" "leasesOK exampleLeased" by (rule leases.reach_inv, rule example_reach)+
  have "exactly (inFlightOf (gate exampleLeased)) onAccount (views (gate exampleLeased))"
    using z(2) coreOK_D(2) by (auto simp: leasesOK_def)
  from exactly_held [OF this, of 0 exampleAccount] have "1 \<le> inFlightOf (gate exampleLeased) exampleAccount"
    by (simp add: r onAccount_def viewOf_def)
  moreover have "inFlightOf (gate exampleArrived) exampleAccount = 0"
    by (simp add: exampleArrived_def arriveWith_def begin_request_def exampleOpened_def exampleDoor_def exampleGateway_def
        inFlightOf_def split: sum.split)
  ultimately show ?thesis
    using concurrency_bounded [OF example_reach(1,2), of exampleAccount 1] by auto
qed

text \<open>
  C16: A waiting call is not forgotten. When a request that holds an account finishes, every pool of that
  account in which a call waits, or every pool with a waiting call when the pools cannot be read, has a token
  for one of its calls, so that call can wake and try again.
\<close>

theorem completion_wakes_waiters:
  assumes "reach opened gateway_step w" and "k < length (requests (gate w))"
    and "leased (requests (gate w) ! k)" "\<not> finished (requests (gate w) ! k)"
    and "j < length (requests (gate w))" "phases w ! j = Queued t" "grp = ob_GroupID (requests (gate w) ! j)"
    and "w' = w\<lparr>gate := finish k outcome code penalty retry now (gate w)\<rparr>"
    and "case ListResourceGroups (db (gate w')) (ob_AccountID (requests (gate w) ! k)) (tenantID (gate w')) of
      Inl e \<Rightarrow> True | Inr groups \<Rightarrow> grp \<in> set groups"
  shows "capacityChanged (gate w') grp = Some True \<and> gateway_step w' (w'\<lparr>gate := takeToken j (gate w')\<rparr>)"
proof -
  have ok: "leasesOK w" by (rule leases.reach_inv [OF assms(1)])
  then have ok': "coreOK (gate w) (phases w)" by (simp add: leasesOK_def)
  note F = finish_OK [OF ok' assms(2,4)]
  obtain h where h: "gate w' = notifyCapacity (ob_AccountID (requests (gate w) ! k)) h"
    using finish_notifies [OF assms(4,3), of outcome code penalty retry now] unfolding assms(8) by auto
  have kh: "keeps h (gate w')" unfolding h by (rule keeps_notifyCapacity) simp
  have r: "length (requests (gate w')) = length (requests (gate w))"
    using arg_cong [OF F(2), of length] assms(8) by simp
  have ok'': "coreOK (gate w') (phases w')" using F(1) assms(8) by simp
  have grp: "ob_GroupID (requests (gate w') ! j) = grp"
  proof -
    have "v_group (views (gate w') ! j) = v_group (views (gate w) ! j)" using F(2) assms(5,8) by (cases "j = k") simp_all
    then show ?thesis using assms(5,7) r by (simp add: viewOf_def)
  qed
  have q: "phases w' ! j = Queued t" using assms(6,8) by simp
  have "1 \<le> waitingIn (gate w') grp" using queued_waits [OF ok'' _ q] assms(5) r grp by simp
  then have wt: "waitingIn h grp > 0" and ct: "capacityChanged h grp \<noteq> None"
    using kh coreOK_D(8) [OF ok''] by (simp_all add: keeps_def)
  have "db (gate w') = db h" "tenantID (gate w') = tenantID h" by (simp_all add: h)
  then have token: "capacityChanged (gate w') grp = Some True"
    using notifyCapacity_wakes [OF ct wt] assms(9) h by simp
  have "gateway_step w' (w'\<lparr>gate := takeToken j (gate w')\<rparr>)"
    by (rule wakes) (use assms(5) r q token grp in simp_all)
  with token show ?thesis by simp
qed

theorem completion_wakes_waiters_witness:
  "capacityChanged (gate (finishWith 0 exampleWaiting)) 1 = Some True"
proof (rule exampleWaiting_facts)
  fix a b
  assume r: "requests (gate exampleWaiting) = [a, b]" "leased a" "\<not> finished a" "ob_AccountID a = exampleAccount"
    "ob_GroupID b = 1" and p: "phases exampleWaiting = [Over, Queued 30000000000]"
    and g: "case ListResourceGroups (db (gate (finishWith 0 exampleWaiting))) exampleAccount (tenantID (gate (finishWith 0 exampleWaiting))) of
       Inl e \<Rightarrow> True | Inr groups \<Rightarrow> 1 \<in> set groups"
  show ?thesis
    using completion_wakes_waiters [OF example_reach(4), of 0 1 30000000000 1 "finishWith 0 exampleWaiting", OF _ _ _ _ _ _ finishWith_def]
    by (simp add: r p g)
qed

end
