(* ===== verification/Gateway_Books.thy ===== *)
theory Gateway_Books
  imports Gateway_Concurrency Alloc_Settlement
begin

text \<open>
  The books of the gateway: every request that drew on a scheme and is over is either settled and recorded,
  or on the list of settlements that are tried again. No fault of the database loses a charge, and no
  retry records a request twice.
\<close>

section \<open>Steps that leave the books alone\<close>

text \<open>No record is written, and no entry is added or becomes active.\<close>

definition quiet :: "store \<Rightarrow> store \<Rightarrow> bool" where
  "quiet d d' \<longleftrightarrow> request_records d' = request_records d \<and>
     map e_request (allocation_entries d') = map e_request (allocation_entries d) \<and>
     (\<forall>x \<in> set (allocation_entries d'). e_state x = ''active'' \<longrightarrow> x \<in> set (allocation_entries d))"

lemma quiet_same: "request_records d' = request_records d \<Longrightarrow> allocation_entries d' = allocation_entries d \<Longrightarrow> quiet d d'"
  by (simp add: quiet_def)

lemma quiet_refl [simp]: "quiet d d"
  by (simp add: quiet_same)

lemma quiet_trans: "quiet d e \<Longrightarrow> quiet e f \<Longrightarrow> quiet d f"
  by (auto simp: quiet_def)

lemma quiet_Recover: "RecoverAllocationEntries d t = Inr d' \<Longrightarrow> quiet d d'"
  by (drule Recover_Inr) (auto simp: quiet_def recoveredEntry_def)

lemma quiet_statements:
  "DeleteObsoleteModelRuntime d t n = Inr d' \<Longrightarrow> quiet d d'"
  "SaveAccountRuntime d t row = Inr d' \<Longrightarrow> quiet d d'"
  "DeleteAccountModelLimit d t i m v l rv = Inr d' \<Longrightarrow> quiet d d'"
  "DeleteAccountModelRuntime d i t = Inr d' \<Longrightarrow> quiet d d'"
  "PruneAccountAffinity d n = Inr d' \<Longrightarrow> quiet d d'"
  "CreateAccountAffinity d af = Inr d' \<Longrightarrow> quiet d d'"
  "ReplaceAccountAffinity d u grp hash p i m ex = Inr d' \<Longrightarrow> quiet d d'"
  "TouchAccountAffinity d u grp hash p m ex before = Inr d' \<Longrightarrow> quiet d d'"
  by (auto simp: DeleteObsoleteModelRuntime_def SaveAccountRuntime_def DeleteAccountModelLimit_def DeleteAccountModelRuntime_def
      PruneAccountAffinity_def CreateAccountAffinity_def ReplaceAccountAffinity_def TouchAccountAffinity_def exec_Inr
      intro!: quiet_same split: if_splits)

lemma quiet_SaveModel: "SaveAccountModelRuntime d t row = Inr (d', v) \<Longrightarrow> quiet d d'"
  by (drule SaveAccountModelRuntime_Inr) (simp add: quiet_same)

lemma quiet_SetConcurrency: "SetAccountConcurrency d i t lim = Inr (d', n) \<Longrightarrow> quiet d d'"
  by (auto simp: SetAccountConcurrency_def Let_def bindR_eq_Inr exec_Inr intro!: quiet_same)

lemma quiet_Record: "Record actor now d action resource i = Inr d' \<Longrightarrow> quiet d d'"
  by (drule Record_frame) (auto intro: quiet_same)

lemma quiet_rememberAffinity: "rememberAffinity d u grp digest scope i m now ex rebound = Inr d' \<Longrightarrow> quiet d d'"
  by (auto simp: rememberAffinity_def bindR_eq_Inr guardR_eq_Inr dest!: quiet_statements intro: quiet_trans)

lemma quiet_remember: "remember d q digest replacement i now = Inr d' \<Longrightarrow> quiet d d'"
  by (auto simp: remember_def Let_def split: if_splits option.splits dest: quiet_rememberAffinity quiet_statements)

lemma quiet_keepBinding: "keepBinding d q digest scope existing now ex = Inr d' \<Longrightarrow> quiet d d'"
  by (auto simp: keepBinding_def Let_def bindR_eq_Inr split: if_splits dest!: quiet_statements quiet_rememberAffinity intro: quiet_trans)

lemma quiet_useBinding: "useBinding h g d rows allowed policy q digest scope b now r = Inr (Some d') \<Longrightarrow> quiet d d'"
  by (auto simp: useBinding_def Let_def bindR_eq_Inr guardR_eq_Inr refuse_Inr split: option.splits if_splits dest!: quiet_keepBinding)

lemma quiet_bindingStep: "bindingStep h g d ro q digest now r = Inr (Keep i d') \<Longrightarrow> quiet d d'"
  by (auto simp: bindingStep_def bindR_eq_Inr refuse_Inr split: if_splits option.splits dest!: quiet_useBinding)

text \<open>The identity of a request, whether it is over and whether it draws on a scheme.\<close>

definition identOf :: "observation \<Rightarrow> string \<times> bool \<times> bool" where
  "identOf e = (RequestID' e, finished e, allocationTracked e)"

definition idents :: "gateway \<Rightarrow> (string \<times> bool \<times> bool) list" where
  "idents g = map identOf (requests g)"

definition calm :: "gateway \<Rightarrow> gateway \<Rightarrow> bool" where
  "calm g g' \<longleftrightarrow> quiet (db g) (db g') \<and> idents g' = idents g \<and> failedSettlements g' = failedSettlements g"

lemma calm_refl [simp]: "calm g g"
  by (simp add: calm_def)

lemma calm_trans: "calm g h \<Longrightarrow> calm h g' \<Longrightarrow> calm g g'"
  by (auto simp: calm_def intro: quiet_trans)

lemma calm_frame:
  "calm g (g'\<lparr>cursors := c\<rparr>) = calm g g'" "calm g (g'\<lparr>health := hs\<rparr>) = calm g g'" "calm g (g'\<lparr>modelHealth := ms\<rparr>) = calm g g'"
  "calm g (g'\<lparr>objects := os\<rparr>) = calm g g'" "calm g (g'\<lparr>memberActive := f\<rparr>) = calm g g'" "calm g (g'\<lparr>waiting := w\<rparr>) = calm g g'"
  "calm g (g'\<lparr>capacityChanged := q\<rparr>) = calm g g'" "calm g (g'\<lparr>closed := b\<rparr>) = calm g g'"
  "calm g (g'\<lparr>allocationsReady := b\<rparr>) = calm g g'" "calm g (g'\<lparr>sequence := n\<rparr>) = calm g g'"
  by (simp_all add: calm_def idents_def)

lemma calm_db: "calm g g' \<Longrightarrow> quiet (db g') d \<Longrightarrow> calm g (g'\<lparr>db := d\<rparr>)"
  by (auto simp: calm_def idents_def intro: quiet_trans)

lemma calm_setRequest:
  assumes "calm g g'" "k < length (requests g') \<Longrightarrow> identOf e = identOf (requests g' ! k)"
  shows "calm g (setRequest k e g')"
proof -
  have "idents (setRequest k e g') = idents g'"
  proof (cases "k < length (requests g')")
    case True
    then have "(idents g')[k := identOf e] = idents g'" using assms(2) by (metis idents_def list_update_id nth_map)
    then show ?thesis by (simp add: idents_def map_update)
  qed (simp add: idents_def list_update_beyond)
  then show ?thesis using assms(1) by (simp add: calm_def)
qed

lemma calm_writeDB:
  assumes "writeDB f g = (r, g')" "\<And>d. f (db g) = Inr d \<Longrightarrow> quiet (db g) d"
  shows "calm g g'"
  using assms by (auto simp: writeDB_def split: sum.splits intro: calm_db)

lemma calm_inTx:
  assumes "inTx f g = (r, g')" "\<And>d. f (db g) = Inr d \<Longrightarrow> quiet (db g) d"
  shows "calm g g'"
  using assms(1) unfolding inTx_def by (rule calm_writeDB) (use assms(2) in \<open>auto simp: bindR_eq_Inr\<close>)

lemma calm_loadRuntime: "loadRuntime now g = (r, g') \<Longrightarrow> calm g g'"
proof -
  assume r: "loadRuntime now g = (r, g')"
  obtain v h where h: "writeDB (\<lambda>d. DeleteObsoleteModelRuntime d (tenantID g) (Unix now)) g = (v, h)" by fastforce
  have "calm g h" using h by (rule calm_writeDB) (rule quiet_statements)
  then show ?thesis using r h
    by (auto simp: loadRuntime_def loadRuntimeRows_def doS_def returnS_def liftS_def calm_frame split: prod.splits sum.splits)
qed

lemma calm_loadRows: "loadRuntimeRows now g = (r, g') \<Longrightarrow> calm g g'"
proof -
  assume r: "loadRuntimeRows now g = (r, g')"
  then have "loadRuntime now g = ((case r of Inl e \<Rightarrow> Inl e | Inr v \<Rightarrow> Inr ()), g')"
    by (simp add: loadRuntime_def doS_def returnS_def split: sum.split)
  then show ?thesis by (rule calm_loadRuntime)
qed

lemma calm_schedule: "schedule h g d ro q digest replacement now r = (v, g') \<Longrightarrow> d = db g \<Longrightarrow> calm g g'"
  by (auto simp: schedule_def chooseCandidate_def commit_def Let_def bindR_eq_Inr calm_frame
      split: prod.splits sum.splits if_splits dest!: quiet_remember intro: calm_db)

lemma calm_selectRoute: "selectRoute h q digest now r g = (v, g') \<Longrightarrow> calm g g'"
  by (auto simp: selectRoute_def commit_def bindR_eq_Inr split: sum.splits if_splits bound.splits
      dest: calm_schedule intro!: calm_db dest!: quiet_bindingStep)

lemma calm_select: "selectAllocationAccount h q rnd now g = (v, digest, g') \<Longrightarrow> calm g g'"
  by (auto simp: selectAllocationAccount_def Let_def split: if_splits prod.splits sum.splits
      dest: calm_loadRuntime calm_selectRoute intro: calm_trans)

lemma calm_notify: "calm g g' \<Longrightarrow> calm g (notifyCapacity i g')"
  by (subst notifyCapacity_frame) (simp add: calm_frame)

lemma calm_ensureReady: "ensureAllocationsReady g = (r, g') \<Longrightarrow> calm g g'"
proof -
  assume r: "ensureAllocationsReady g = (r, g')"
  obtain v h where h: "writeDB (\<lambda>d. RecoverAllocationEntries d (tenantID g)) g = (v, h)" by fastforce
  have "calm g h" using h by (rule calm_writeDB) (rule quiet_Recover)
  then show ?thesis using r h by (auto simp: ensureAllocationsReady_def calm_frame split: if_splits sum.splits)
qed

lemma calm_persistRuntime: "calm g (snd (persistRuntime state g))"
  by (cases "persistRuntime state g") (auto simp: persistRuntime_def intro: calm_writeDB quiet_statements)

lemma calm_SetConcurrency: "SetConcurrency actor i lim now g = (r, g') \<Longrightarrow> calm g g'"
proof -
  assume r: "SetConcurrency actor i lim now g = (r, g')"
  let ?f = "\<lambda>d. bindR (SetAccountConcurrency d i (tenantID g) lim) (\<lambda>(d, n).
             guardR (Accounts RErrNotFound) (n = 0) (Record actor (Unix now) d ''account.concurrency'' ''account'' i))"
  obtain v h where h: "inTx ?f g = (v, h)" by fastforce
  have "calm g h" using h
    by (rule calm_inTx) (auto simp: bindR_eq_Inr guardR_eq_Inr dest!: quiet_SetConcurrency quiet_Record intro: quiet_trans)
  then show ?thesis using r h
    by (auto simp: SetConcurrency_def doS_def calm_frame split: if_splits sum.splits option.splits intro!: calm_notify)
qed

lemma calm_Resume: "Resume actor i now g = (r, g') \<Longrightarrow> calm g g'"
proof -
  assume r: "Resume actor i now g = (r, g')"
  obtain v l where l: "loadRuntime now g = (v, l)" by fastforce
  note gl = calm_loadRuntime [OF l]
  show ?thesis
  proof (cases "v = Inr () \<and> health l i \<noteq> None")
    case False
    then show ?thesis using r l gl by (auto simp: Resume_def doS_def split: sum.splits)
  next
    case True
    then obtain state where state: "health l i = Some state" by blast
    let ?f = "\<lambda>d. bindR (SaveAccountRuntime d (tenantID l) (runtimeParams (resumed state))) (\<lambda>d.
              bindR (DeleteAccountModelRuntime d i (tenantID l)) (\<lambda>d. Record actor (Unix now) d ''account.resume'' ''account'' i))"
    obtain w h where h: "inTx ?f l = (w, h)" by fastforce
    have "calm l h" using h
      by (rule calm_inTx) (auto simp: bindR_eq_Inr dest!: quiet_statements quiet_Record intro: quiet_trans)
    then have "calm g h" by (rule calm_trans [OF gl])
    then show ?thesis using r l True state h
      by (auto simp: Resume_def doS_def calm_frame split: sum.splits intro!: calm_notify)
  qed
qed

lemma calm_Runtime': "Runtime' before now g = (r, g') \<Longrightarrow> calm g g'"
  by (auto simp: Runtime'_def doS_def liftS_def split: prod.splits sum.splits dest: calm_loadRows)

lemma calm_recheckAttempt: "recheckAttempt h k i model content now g = (r, g') \<Longrightarrow> calm g g'"
  by (auto simp: recheckAttempt_def doS_def liftS_def split: prod.splits sum.splits dest: calm_loadRuntime)

section \<open>Settling one request\<close>

definition settled :: "store \<Rightarrow> string \<Rightarrow> bool" where
  "settled d i \<longleftrightarrow> (\<forall>x \<in> set (allocation_entries d). e_request x = i \<longrightarrow> e_state x \<noteq> ''active'')"

definition distinctEntries :: "store \<Rightarrow> bool" where
  "distinctEntries d \<longleftrightarrow> distinct (map e_request (allocation_entries d))"

lemma settled_quiet: "settled d i \<Longrightarrow> quiet d d' \<Longrightarrow> settled d' i"
  by (auto simp: settled_def quiet_def)

lemma recordsOf_quiet: "quiet d d' \<Longrightarrow> recordsOf d' i = recordsOf d i"
  by (simp add: quiet_def recordsOf_def)

lemma distinctEntries_quiet: "quiet d d' \<Longrightarrow> distinctEntries d' = distinctEntries d"
  by (simp add: quiet_def distinctEntries_def)

lemma Finish_settles:
  assumes f: "Finish d i c now False = Inr d'" and dist: "distinctEntries d"
  shows "settled d' i" and "request_records d' = request_records d" and "distinctEntries d'"
    and "settled d j \<Longrightarrow> settled d' j"
proof -
  have "settled d' i \<and> request_records d' = request_records d \<and> distinctEntries d' \<and> (settled d j \<longrightarrow> settled d' j)" using f
  proof (cases rule: Finish_cases)
    case (repeated e)
    have "e_state x \<noteq> ''active''" if "x \<in> set (allocation_entries d)" "e_request x = i" for x
      using first_of_unique [of e_request "allocation_entries d" x] dist that repeated by (simp add: distinctEntries_def)
    then show ?thesis using repeated(2) dist by (simp add: settled_def)
  next
    case (written e cost)
    define f where "f = finishedEntry c now False (if Dispatched c \<and> \<not> Rejected c \<and> \<not> Known c then ''pending'' else ''settled'')
         (if Dispatched c \<and> \<not> Rejected c \<and> \<not> Known c then 0 else cost)"
    have f: "e_state (f x) \<noteq> ''active''" "e_request (f x) = e_request x" for x by (simp_all add: f_def finishedEntry_def)
    have d': "d' = finishRow i f d" unfolding f_def by (rule written(5))
    have "settled d' i" "settled d j \<longrightarrow> settled d' j" unfolding settled_def d' finishRow_entries using f by auto
    moreover have "request_records d' = request_records d" by (simp add: d' finishRow_def)
    moreover have "distinctEntries d'" using dist finishRow_requests [OF f(2)] unfolding distinctEntries_def d' by metis
    ultimately show ?thesis by blast
  qed
  then show "settled d' i" "request_records d' = request_records d" "distinctEntries d'" "settled d j \<Longrightarrow> settled d' j" by blast+
qed

lemma recordStatistics_frame:
  assumes "recordStatistics d r = Inr d'"
  shows "request_records d' = request_records d \<and> allocation_entries d' = allocation_entries d"
proof (cases "0 < q_user r")
  case True
  show ?thesis by (rule recordStatistics_Inr [OF assms True]) simp
next
  case False
  then show ?thesis using assms by (simp add: recordStatistics_def)
qed

text \<open>A transaction that records a request for the first time settles it.\<close>

lemma recordObservation_effect:
  assumes r: "recordObservation e now d = Inr d'" and fresh: "recordsOf d (RequestID' e) = 0" and dist: "distinctEntries d"
  shows "recordsOf d' (RequestID' e) = 1" and "j \<noteq> RequestID' e \<Longrightarrow> recordsOf d' j = recordsOf d j" and "distinctEntries d'"
    and "allocationTracked e \<Longrightarrow> settled d' (RequestID' e)" and "settled d j \<Longrightarrow> settled d' j"
proof -
  have n: "RequestRecorded d (RequestID' e) \<noteq> Inr True"
    using fresh by (auto simp: RequestRecorded_def query_def recordsOf_def list_ex_iff filter_empty_conv)
  obtain d1 d2 where s: "settleAllocation e now d = Inr d1" and q: "RecordRequest d1 (recordOf e) = Inr d2"
    and st: "recordStatistics d2 (recordOf e) = Inr d'"
    using r n unfolding recordObservation_def by (auto simp: bindR_eq_Inr split: if_splits)
  have one: "request_records d1 = request_records d \<and> distinctEntries d1 \<and> (allocationTracked e \<longrightarrow> settled d1 (RequestID' e)) \<and>
      (settled d j \<longrightarrow> settled d1 j)"
  proof (cases "allocationTracked e")
    case True
    then have "Finish d (RequestID' e) (completionOf e) (UnixMilli now) False = Inr d1"
      using s by (auto simp: settleAllocation_def split: sum.splits if_splits)
    from Finish_settles [OF this dist] show ?thesis by blast
  next
    case False
    then show ?thesis using s dist by (simp add: settleAllocation_def)
  qed
  have two: "request_records d2 = request_records d1 @ [(recordOf e)\<lparr>q_rowid := request_seq d1 + 1\<rparr>]" "allocation_entries d2 = allocation_entries d1"
    using q by (auto simp: RecordRequest_def exec_Inr)
  note three = recordStatistics_frame [OF st]
  have i: "q_id ((recordOf e)\<lparr>q_rowid := n\<rparr>) = RequestID' e" for n by (simp add: recordOf_def)
  show "recordsOf d' (RequestID' e) = 1" "j \<noteq> RequestID' e \<Longrightarrow> recordsOf d' j = recordsOf d j"
    using fresh one two three i by (simp_all add: recordsOf_def)
  show "distinctEntries d'" "allocationTracked e \<Longrightarrow> settled d' (RequestID' e)" "settled d j \<Longrightarrow> settled d' j"
    using one two(2) three by (simp_all add: distinctEntries_def settled_def)
qed

section \<open>The invariant of the books\<close>

text \<open>\<open>F\<close> lists the requests whose settlement is still to be tried.\<close>

definition booksOK :: "gateway \<Rightarrow> nat list \<Rightarrow> bool" where
  "booksOK g F \<longleftrightarrow> distinct (map fst (idents g)) \<and> distinct F \<and> distinctEntries (db g) \<and>
     (\<forall>k \<in> set F. k < length (requests g) \<and> finished (requests g ! k)) \<and>
     (\<forall>k < length (requests g). let e = requests g ! k in
        (\<not> finished e \<or> k \<in> set F \<longrightarrow> recordsOf (db g) (RequestID' e) = 0) \<and> recordsOf (db g) (RequestID' e) \<le> 1 \<and>
        (finished e \<and> allocationTracked e \<and> k \<notin> set F \<longrightarrow> settled (db g) (RequestID' e)))"

lemma idents_nth: "idents g' = idents g \<Longrightarrow> length (requests g') = length (requests g)"
  unfolding idents_def by (metis length_map)

lemma idents_same:
  assumes "idents g' = idents g" "k < length (requests g)"
  shows "RequestID' (requests g' ! k) = RequestID' (requests g ! k)" "finished (requests g' ! k) = finished (requests g ! k)"
    "allocationTracked (requests g' ! k) = allocationTracked (requests g ! k)"
proof -
  have "identOf (requests g' ! k) = identOf (requests g ! k)"
    using assms idents_nth [OF assms(1)] unfolding idents_def by (metis nth_map)
  then show "RequestID' (requests g' ! k) = RequestID' (requests g ! k)" "finished (requests g' ! k) = finished (requests g ! k)"
    "allocationTracked (requests g' ! k) = allocationTracked (requests g ! k)" by (simp_all add: identOf_def)
qed

lemma booksOK_calm:
  assumes ok: "booksOK g F" and c: "calm g g'"
  shows "booksOK g' F"
proof -
  have q: "quiet (db g) (db g')" and i: "idents g' = idents g" using c by (simp_all add: calm_def)
  show ?thesis using ok idents_nth [OF i] idents_same [OF i] settled_quiet [OF _ q] recordsOf_quiet [OF q] distinctEntries_quiet [OF q]
    unfolding booksOK_def i Let_def by simp
qed

lemma idents_distinct:
  assumes "distinct (map fst (idents g))" "j < length (requests g)" "k < length (requests g)" "j \<noteq> k"
  shows "RequestID' (requests g ! j) \<noteq> RequestID' (requests g ! k)"
proof -
  have "map fst (idents g) ! j \<noteq> map fst (idents g) ! k"
    using assms nth_eq_iff_index_eq [OF assms(1), of j k] by (simp add: idents_def)
  then show ?thesis using assms(2,3) by (simp add: idents_def identOf_def)
qed

lemma persist_cases:
  assumes "persistObservation e now g = (r, g')"
  obtains (failed) err where "r = Inl err" "g' = g" | (saved) d where "r = Inr ()" "recordObservation e now (db g) = Inr d" "g' = g\<lparr>db := d\<rparr>"
proof (cases r)
  case (Inl err)
  have "g' = g" using assms Inl by (auto simp: persistObservation_def inTx_def writeDB_def split: sum.splits)
  with Inl show thesis by (rule failed)
next
  case (Inr u)
  have "persistObservation e now g = (Inr (), g')" using assms Inr by simp
  then obtain d where "recordObservation e now (db g) = Inr d" "g' = g\<lparr>db := d\<rparr>"
    unfolding persistObservation_def inTx_Inr by blast
  with Inr show thesis using saved by simp
qed

lemma booksOK_saved:
  assumes ok: "booksOK g F" and k: "k \<in> set F" and r: "recordObservation (requests g ! k) now (db g) = Inr d"
  shows "booksOK (g\<lparr>db := d\<rparr>) (removeAll k F)"
proof -
  have kl: "k < length (requests g)" "recordsOf (db g) (RequestID' (requests g ! k)) = 0" "distinctEntries (db g)"
    "distinct (map fst (idents g))"
    using ok k by (auto simp: booksOK_def Let_def)
  note E = recordObservation_effect [OF r kl(2,3)]
  have "(\<not> finished e \<or> j \<in> set (removeAll k F) \<longrightarrow> recordsOf d (RequestID' e) = 0) \<and> recordsOf d (RequestID' e) \<le> 1 \<and>
      (finished e \<and> allocationTracked e \<and> j \<notin> set (removeAll k F) \<longrightarrow> settled d (RequestID' e))"
    if j: "j < length (requests g)" and e: "e = requests g ! j" for j e
  proof (cases "j = k")
    case True
    then show ?thesis using E(1,4) ok k e by (auto simp: booksOK_def)
  next
    case False
    then have ne: "RequestID' e \<noteq> RequestID' (requests g ! k)" using idents_distinct [OF kl(4) j kl(1)] e by simp
    show ?thesis using False ok j e E(2) [OF ne] E(5) [of "RequestID' e"] by (auto simp: booksOK_def Let_def)
  qed
  then show ?thesis using ok E(3) unfolding booksOK_def Let_def
    by (auto simp: idents_def distinct_removeAll)
qed

lemma booksOK_retry:
  assumes "retrySettlements now ks g = (err, left, g')" "booksOK g F" "set ks \<subseteq> set F" "distinct ks"
  shows "\<exists>F'. booksOK g' F' \<and> set F' = (set F - set ks) \<union> set left \<and> set left \<subseteq> set ks \<and> distinct left \<and>
    requests g' = requests g \<and> failedSettlements g' = failedSettlements g"
  using assms
proof (induction ks arbitrary: g err left F)
  case Nil
  then show ?case by (intro exI [of _ F]) auto
next
  case (Cons k ks)
  obtain r h where p: "persistObservation (requests g ! k) now g = (r, h)" by fastforce
  then show ?case
  proof (cases rule: persist_cases)
    case (failed e)
    obtain err1 left1 where r1: "retrySettlements now ks g = (err1, left1, g')" and l: "left = k # left1"
      using Cons.prems(1) p failed by (auto split: prod.splits)
    have "set ks \<subseteq> set F" "distinct ks" using Cons.prems(3,4) by auto
    from Cons.IH [OF r1 Cons.prems(2) this] obtain F' where F': "booksOK g' F'" "set F' = (set F - set ks) \<union> set left1"
      "set left1 \<subseteq> set ks" "distinct left1" "requests g' = requests g" "failedSettlements g' = failedSettlements g" by blast
    have "set F' = (set F - set (k # ks)) \<union> set left" using F'(2) l Cons.prems(3,4) by auto
    moreover have "set left \<subseteq> set (k # ks)" "distinct left" using F'(3,4) l Cons.prems(4) by auto
    ultimately show ?thesis using F'(1,5,6) by blast
  next
    case (saved d)
    have r1: "retrySettlements now ks (g\<lparr>db := d\<rparr>) = (err, left, g')" using Cons.prems(1) p saved by simp
    have k: "k \<in> set F" and ks: "set ks \<subseteq> set (removeAll k F)" "distinct ks" using Cons.prems(3,4) by auto
    from Cons.IH [OF r1 booksOK_saved [OF Cons.prems(2) k saved(2)] ks] obtain F' where F': "booksOK g' F'"
      "set F' = (set (removeAll k F) - set ks) \<union> set left" "set left \<subseteq> set ks" "distinct left"
      "requests g' = requests g" "failedSettlements g' = failedSettlements g" by auto
    have "set F' = (set F - set (k # ks)) \<union> set left" using F'(2) by auto
    then show ?thesis using F' by (intro exI [of _ F']) auto
  qed
qed

definition books :: "gateway \<Rightarrow> bool" where
  "books g \<longleftrightarrow> booksOK g (failedSettlements g)"

lemma books_calm: "books g \<Longrightarrow> calm g g' \<Longrightarrow> books g'"
  by (simp add: books_def booksOK_calm calm_def)

lemma booksOK_set: "booksOK g F \<Longrightarrow> set F' = set F \<Longrightarrow> distinct F' \<Longrightarrow> booksOK g F'"
  by (simp add: booksOK_def Let_def)

lemma booksOK_failed [simp]: "booksOK (g\<lparr>failedSettlements := ks\<rparr>) F = booksOK g F"
  by (simp add: booksOK_def idents_def)

lemma books_retryFailed:
  assumes ok: "books g" and r: "retryFailedSettlements now g = (v, g')"
  shows "books g'"
proof -
  obtain err left h where h: "retrySettlements now (failedSettlements g) g = (err, left, h)" by (metis prod_cases3)
  have ok': "booksOK g (failedSettlements g)" and d: "distinct (failedSettlements g)" using ok by (simp_all add: books_def booksOK_def)
  obtain F' where F': "booksOK h F'" "set F' = set left" "distinct left" using booksOK_retry [OF h ok' subset_refl d] by auto
  have "g' = h\<lparr>failedSettlements := left\<rparr>" using r h by (auto simp: retryFailedSettlements_def)
  then show ?thesis using booksOK_set [OF F'(1) _ F'(3)] F'(2) by (simp add: books_def)
qed

lemma books_prepare:
  assumes ok: "books g" and r: "prepareAllocation k now g = (v, g')"
  shows "books g'"
proof -
  obtain w h where h: "ensureAllocationsReady g = (w, h)" by fastforce
  have okh: "books h" by (rule books_calm [OF ok calm_ensureReady [OF h]])
  let ?e = "requests h ! k"
  show ?thesis
  proof (cases w)
    case (Inl e)
    then show ?thesis using r h okh by (simp add: prepareAllocation_def doS_def)
  next
    case (Inr u)
    show ?thesis
    proof (cases "KeyScheme (db h) (ob_KeyID ?e) (ob_UserID ?e) (ob_GroupID ?e) (Unix now)")
      case (Inl e)
      then show ?thesis using r h okh Inr by (simp add: prepareAllocation_def doS_def liftS_def)
    next
      case scheme: (Inr scheme)
      have "books (setRequest k (?e\<lparr>schemeID := scheme\<rparr>) h)"
        by (rule books_calm [OF okh calm_setRequest [OF calm_refl]]) (simp add: identOf_def)
      then show ?thesis
        using r h Inr scheme by (auto simp: prepareAllocation_def doS_def liftS_def Let_def split: prod.splits sum.splits if_splits
            dest: books_retryFailed)
    qed
  qed
qed

lemma books_PrepareAllocations:
  assumes ok: "books g" and r: "PrepareAllocations now g = (v, g')"
  shows "books g'"
proof -
  obtain w h where h: "ensureAllocationsReady g = (w, h)" by fastforce
  have okh: "books h" by (rule books_calm [OF ok calm_ensureReady [OF h]])
  obtain x h2 where h2: "retryFailedSettlements now h = (x, h2)" by fastforce
  show ?thesis using r h okh books_retryFailed [OF okh h2] h2
    by (auto simp: PrepareAllocations_def recoverAllocations_def doS_def split: sum.splits)
qed

lemma calm_admitWaiting: "admitWaiting k now g = (v, g') \<Longrightarrow> calm g g'"
proof -
  assume r: "admitWaiting k now g = (v, g')"
  let ?e = "requests g ! k"
  show ?thesis
  proof (cases "memberLeased ?e")
    case True
    then show ?thesis using r by (simp add: admitWaiting_def Let_def)
  next
    case False
    obtain w h where h: "admitMember (ob_UserID ?e) now g = (w, h)" by fastforce
    have "calm g h \<and> requests h = requests g"
    proof (cases w)
      case (Inl e)
      then have "h = g" using h admitMember_Inl by blast
      then show ?thesis by simp
    next
      case (Inr u)
      then have "admitMember (ob_UserID ?e) now g = (Inr (), h)" using h by simp
      then show ?thesis
        by (rule admitMember_Inr)
          (auto simp: calm_frame takeRate_def bindR_eq_Inr intro!: calm_db quiet_same split: if_splits dest: TakeMemberRate_Inr(4))
    qed
    then show ?thesis using r h False
      by (auto simp: admitWaiting_def Let_def identOf_def split: sum.splits intro!: calm_setRequest)
  qed
qed

lemma books_enterRound:
  assumes ok: "books g" and r: "enterRound rd k deadline g = (v, g')"
  shows "books g'"
proof (cases "g' = g")
  case False
  obtain w l where l: "prepareAllocation k (rd_now rd) g = (w, l)" by fastforce
  note okl = books_prepare [OF ok l]
  have "g' = l \<or> admitWaiting k (rd_now rd) l = (v, g')"
    using r l False by (auto simp: enterRound_def doS_def split: option.splits if_splits sum.splits)
  then show ?thesis using okl books_calm [OF okl] calm_admitWaiting by blast
qed (use ok in simp)

lemma calm_chooseAccount: "chooseAccount h q rd k g = (v, g') \<Longrightarrow> calm g g'"
proof -
  assume r: "chooseAccount h q rd k g = (v, g')"
  let ?e = "requests g ! k"
  obtain w digest l where l: "selectAllocationAccount h (q\<lparr>qu_user := ob_UserID ?e, qu_group := ob_GroupID ?e, qu_scheme := schemeID ?e\<rparr>)
      (rd_random rd) (rd_now rd) g = (w, digest, l)" by (metis prod_cases3)
  note gl = calm_select [OF l]
  obtain i rt where g': "g' = setRequest k (?e\<lparr>ob_AccountID := i, route := rt\<rparr>) l"
    using r l by (auto simp: chooseAccount_def Let_def split: prod.splits)
  have "identOf (?e\<lparr>ob_AccountID := i, route := rt\<rparr>) = identOf (requests l ! k)" if "k < length (requests l)"
    using that gl idents_same [of l g k] idents_nth [of l g] by (simp add: calm_def identOf_def)
  then show ?thesis unfolding g' by (rule calm_setRequest [OF gl])
qed

lemma calm_joinQueue: "joinQueue rd k deadline g = (v, g') \<Longrightarrow> calm g g'"
  by (auto simp: joinQueue_def Let_def calm_frame split: option.splits if_splits)

lemma calm_endLease: "endLease rd k deadline v g = (p, g') \<Longrightarrow> calm g g'"
proof -
  assume r: "endLease rd k deadline v g = (p, g')"
  let ?h = "if deadline \<noteq> None then leaveQueue (ob_GroupID (requests g ! k)) g else g"
  have h: "calm g ?h" by (simp add: leaveQueue_def calm_frame)
  obtain w :: "(string \<times> string) result" where g': "g' = setRequest k (refusedRoute w (requests g ! k)) ?h"
    using r by (cases deadline) (auto simp: endLease_def Let_def)
  show ?thesis unfolding g'
    by (rule calm_setRequest [OF h]) (simp add: refusedRoute_def identOf_def split: sum.split)
qed

text \<open>A step of an unfinished request changes nothing about the finished ones.\<close>

lemma booksOK_step:
  assumes ok: "booksOK g F" and ids: "map fst (idents g') = map fst (idents g)"
    and fin: "\<And>j. j < length (requests g) \<Longrightarrow> finished (requests g' ! j) = finished (requests g ! j)"
    and tracked: "\<And>j. j < length (requests g) \<Longrightarrow> finished (requests g ! j) \<Longrightarrow> allocationTracked (requests g' ! j) = allocationTracked (requests g ! j)"
    and dist: "distinctEntries (db g')" and recs: "\<And>j. j < length (requests g) \<Longrightarrow>
      recordsOf (db g') (RequestID' (requests g ! j)) \<le> recordsOf (db g) (RequestID' (requests g ! j))"
    and settled: "\<And>j. j < length (requests g) \<Longrightarrow> finished (requests g ! j) \<Longrightarrow> settled (db g) (RequestID' (requests g ! j)) \<Longrightarrow>
      settled (db g') (RequestID' (requests g ! j))"
  shows "booksOK g' F"
proof -
  have len: "length (requests g') = length (requests g)" using arg_cong [OF ids, of length] by (simp add: idents_def)
  have id: "RequestID' (requests g' ! j) = RequestID' (requests g ! j)" if "j < length (requests g)" for j
    using arg_cong [OF ids, of "\<lambda>l. l ! j"] that len by (simp add: idents_def identOf_def)
  have zero: "recordsOf (db g) (RequestID' (requests g ! j)) = 0 \<Longrightarrow> recordsOf (db g') (RequestID' (requests g ! j)) = 0"
    and one: "recordsOf (db g) (RequestID' (requests g ! j)) \<le> 1 \<Longrightarrow> recordsOf (db g') (RequestID' (requests g ! j)) \<le> 1"
    if "j < length (requests g)" for j using recs [OF that] by simp_all
  show ?thesis using ok fin tracked settled dist zero one len id unfolding booksOK_def ids Let_def by auto
qed

lemma grantLease_parts:
  assumes "k < length (requests g)"
  shows "db (grantLease k i ref g) = db g" "failedSettlements (grantLease k i ref g) = failedSettlements g"
    "idents (grantLease k i ref g) = (idents g)[k := (RequestID' (requests g ! k), finished (requests g ! k), schemeID (requests g ! k) \<noteq> 0)]"
proof -
  obtain address l where l: "leaseModel ref (g\<lparr>health := (health g)(i \<mapsto> (the (health g i))\<lparr>InFlight := InFlight (the (health g i)) + 1\<rparr>)\<rparr>) = (address, l)"
    by fastforce
  then have "db l = db g \<and> failedSettlements l = failedSettlements g \<and> requests l = requests g"
    by (auto simp: leaseModel_def setObject_def Let_def split: option.splits modelRef.splits)
  then show "db (grantLease k i ref g) = db g" "failedSettlements (grantLease k i ref g) = failedSettlements g"
    "idents (grantLease k i ref g) = (idents g)[k := (RequestID' (requests g ! k), finished (requests g ! k), schemeID (requests g ! k) \<noteq> 0)]"
    using l assms by (simp_all add: grantLease_def Let_def idents_def map_update identOf_def)
qed

lemma books_takeLease:
  assumes ok: "books g" and k: "k < length (requests g)" and live: "\<not> finished (requests g ! k)"
    and r: "takeLease h q rd k i g = (v, g')"
  shows "books g'"
proof (rule takeLease_cases [OF r])
  fix e assume "v = Inl e"
  then have "calm g g'" using r
    by (auto simp: takeLease_def doS_def liftS_def inTx_def writeDB_def Let_def split: option.splits sum.splits if_splits)
  then show ?thesis by (rule books_calm [OF ok])
next
  fix ref d
  assume g': "g' = grantLease k i ref (g\<lparr>db := d\<rparr>)"
    and d: "d = db g \<or> (\<exists>req now loc. RequestID req = RequestID' (requests g ! k) \<and> Begin (db g) req now loc = Inr d)"
  let ?i = "RequestID' (requests g ! k)"
  have k': "k < length (requests (g\<lparr>db := d\<rparr>))" using k by simp
  note P = grantLease_parts [OF k', of i ref, folded g']
  have ok': "booksOK g (failedSettlements g)" and u: "distinct (map fst (idents g))" and di: "distinctEntries (db g)"
    using ok by (simp_all add: books_def booksOK_def)
  have d': "d = db g \<or> (\<exists>x. e_request x = ?i \<and> ?i \<notin> e_request ` set (allocation_entries (db g)) \<and>
      d = (db g)\<lparr>allocation_entries := allocation_entries (db g) @ [x]\<rparr>)"
  proof (cases "d = db g")
    case False
    then obtain req now loc where "RequestID req = ?i" "Begin (db g) req now loc = Inr d" using d by blast
    then obtain rv where rv: "\<not> list_ex (\<lambda>x. e_request x = ?i) (allocation_entries (db g))"
      "d = (db g)\<lparr>allocation_entries := allocation_entries (db g) @ [newEntry req rv (effectiveWindow rv now loc)]\<rparr>"
      "e_request (newEntry req rv (effectiveWindow rv now loc)) = ?i" by (auto simp: Begin_Inr newEntry_def)
    then have "?i \<notin> e_request ` set (allocation_entries (db g))" by (auto simp: list_ex_iff)
    with rv show ?thesis by blast
  qed simp
  have "booksOK g' (failedSettlements g)"
  proof (rule booksOK_step [OF ok'])
    have id: "idents (g\<lparr>db := d\<rparr>) = idents g" by (simp add: idents_def)
    have "(map fst (idents g))[k := ?i] = map fst (idents g)" using k by (metis identOf_def fst_conv idents_def length_map list_update_id nth_map)
    then show "map fst (idents g') = map fst (idents g)" by (simp add: P(3) id map_update)
    have n: "identOf (requests g' ! j) = (if j = k then (?i, finished (requests g ! k), schemeID (requests g ! k) \<noteq> 0) else identOf (requests g ! j))"
      if "j < length (requests g)" for j
    proof -
      have "length (idents g') = length (idents g)" by (simp only: P(3) id length_list_update)
      then have "length (requests g') = length (requests g)" by (simp add: idents_def)
      then have "identOf (requests g' ! j) = idents g' ! j" using that by (simp add: idents_def)
      also have "\<dots> = (if j = k then (?i, finished (requests g ! k), schemeID (requests g ! k) \<noteq> 0) else idents g ! j)"
        using that k unfolding P(3) id by (simp add: idents_def)
      finally show ?thesis using that by (simp add: idents_def)
    qed
    fix j assume j: "j < length (requests g)"
    show "finished (requests g' ! j) = finished (requests g ! j)" using n [OF j] by (simp add: identOf_def split: if_splits)
    show "finished (requests g ! j) \<Longrightarrow> allocationTracked (requests g' ! j) = allocationTracked (requests g ! j)"
      using n [OF j] live by (auto simp: identOf_def split: if_splits)
    assume f: "finished (requests g ! j)" and s: "settled (db g) (RequestID' (requests g ! j))"
    then have "RequestID' (requests g ! j) \<noteq> ?i" using idents_distinct [OF u j k] live by blast
    then show "settled (db g') (RequestID' (requests g ! j))" using s d' by (auto simp: P(1) settled_def)
  next
    show "distinctEntries (db g')" using di d' by (auto simp: P(1) distinctEntries_def)
    show "recordsOf (db g') (RequestID' (requests g ! j)) \<le> recordsOf (db g) (RequestID' (requests g ! j))" for j
      using d' by (auto simp: P(1) recordsOf_def)
  qed
  then show ?thesis by (simp add: books_def P(2))
qed

lemma touches_finished:
  assumes "touches k g g'" "k < length (requests g)"
  shows "finished (requests g' ! k) = finished (requests g ! k)" "k < length (requests g')"
proof -
  show l: "k < length (requests g')" using assms by (simp add: touches_length)
  have "v_finished (views g' ! k) = v_finished (views g ! k)" using assms by (auto simp: touches_def)
  then show "finished (requests g' ! k) = finished (requests g ! k)" using l assms(2) by (simp add: viewOf_def)
qed

lemma calm_finished:
  assumes "calm g g'" "k < length (requests g)"
  shows "finished (requests g' ! k) = finished (requests g ! k)" "k < length (requests g')"
  using assms idents_same [of g' g k] idents_nth [of g' g] by (simp_all add: calm_def)

lemma books_leaseRound:
  assumes lok: "leasesOK w" and g: "g = gate w" and ok: "books g" and k: "k < length (requests g)" and live: "\<not> finished (requests g ! k)"
    and r: "leaseRound h q rd k deadline g = (p, g')"
  shows "books g'"
proof -
  have core: "coreOK g (phases w)" using lok g by (simp add: leasesOK_def)
  have fl: "\<not> v_finished (views g ! k)" using live k by (simp add: viewOf_def)
  obtain v h1 where e: "enterRound rd k deadline g = (v, h1)" by fastforce
  note ok1 = books_enterRound [OF ok e]
  note F1 = touches_finished [OF enterRound_OK(2) [OF core k e fl] k]
  have ends: "books g'" if "endLease rd k deadline x l = (p, g')" "books l" for x l
    using that(2) calm_endLease [OF that(1)] by (rule books_calm)
  show ?thesis
  proof (cases v)
    case (Inl err)
    then have "endLease rd k deadline (Inl err) h1 = (p, g')" using r e by (simp add: leaseRound_def)
    then show ?thesis using ok1 by (rule ends)
  next
    case (Inr u)
    obtain i err digest h2 where c: "chooseAccount h q rd k h1 = ((i, err, digest), h2)"
      by (cases "chooseAccount h q rd k h1") (metis prod_cases3)
    note ok2 = books_calm [OF ok1 calm_chooseAccount [OF c]]
    note F2 = calm_finished [OF calm_chooseAccount [OF c] F1(2)]
    consider (busy) "err = Some (Gateway ErrAccountBusy)" | (fail) e where "err = Some e" "e \<noteq> Gateway ErrAccountBusy" | (ok) "err = None"
      by (cases err) auto
    then show ?thesis
    proof cases
      case busy
      obtain w3 h3 where j: "joinQueue rd k deadline h2 = (w3, h3)" by fastforce
      note ok3 = books_calm [OF ok2 calm_joinQueue [OF j]]
      show ?thesis
      proof (cases w3)
        case (Inl e')
        then have "endLease rd k deadline (Inl e') h3 = (p, g')" using r e Inr c busy j by (simp add: leaseRound_def)
        then show ?thesis using ok3 by (rule ends)
      next
        case w: (Inr t)
        then have "g' = h3" using r e Inr c busy j by (simp add: leaseRound_def)
        then show ?thesis using ok3 by simp
      qed
    next
      case (fail e')
      then have "endLease rd k deadline (Inl e') h2 = (p, g')" using r e Inr c by (simp add: leaseRound_def)
      then show ?thesis using ok2 by (rule ends)
    next
      case ok
      obtain w3 h3 where tl: "takeLease h q rd k i h2 = (w3, h3)" by fastforce
      have ok3: "books h3" by (rule books_takeLease [OF ok2 F2(2) _ tl]) (use F1(1) F2(1) live in simp)
      have "\<exists>x. endLease rd k deadline x h3 = (p, g')" using r e Inr c ok tl by (cases w3) (auto simp: leaseRound_def)
      then show ?thesis using ok3 ends by blast
    qed
  qed
qed

section \<open>Completion\<close>

lemma calm_setObject [simp]: "calm g (setObject a m g') = calm g g'"
  by (simp add: setObject_def calm_frame)

lemma calm_recordFailure: "calm g (snd (recordFailure a e retry now g))"
  by (auto simp: recordFailure_def Let_def calm_frame split: sum.split intro!: calm_db dest!: quiet_SaveModel)

lemma calm_recordSuccess: "calm g (snd (recordSuccess a g))"
  by (auto simp: recordSuccess_def Let_def split: sum.split intro!: calm_db dest!: quiet_statements)

lemma calm_finishModelRuntime: "calm g (snd (finishModelRuntime e outcome retry now g))"
proof (cases "modelState e")
  case (Some a)
  let ?m = "(objects g ! a)\<lparr>inFlight := max 0 (inFlight (objects g ! a) - 1)\<rparr>"
  let ?g = "setObject a ?m g"
  define fg where "fg = (if modelLimited e \<or> modelTransient e then recordFailure a e retry now ?g
                   else if isDone outcome \<and> cooldownUntil (objects ?g ! a) \<le> Unix now \<and>
                     md_lastFailureSequence (objects ?g ! a) < ob_sequence e \<and> failures (objects ?g ! a) > 0 then recordSuccess a ?g
                   else (False, ?g))"
  have "calm ?g (snd fg)" unfolding fg_def using calm_recordFailure calm_recordSuccess by simp
  then have c: "calm g (snd fg)" by (rule calm_trans [rotated]) simp
  have "snd (finishModelRuntime e outcome retry now g) = (if map_of (modelHealth g) (keyOf (objects ?g ! a)) \<noteq> Some a then ?g
      else if inFlight (objects (snd fg) ! a) = 0 \<and> \<not> persistFailed (objects (snd fg) ! a)
        then (snd fg)\<lparr>modelHealth := AList.delete (keyOf (objects (snd fg) ! a)) (modelHealth (snd fg))\<rparr> else snd fg)"
    unfolding finishModelRuntime_def Some option.case Let_def fg_def [symmetric] by (cases fg) simp
  then show ?thesis using c by (simp add: calm_frame)
qed (simp add: finishModelRuntime_def)

lemma calm_finishAccount: "calm g (finishAccount e outcome penalty retry now g)"
proof (cases "health g (ob_AccountID e)")
  case (Some state)
  obtain changed state' seq where j: "judgeAccount (gw_policy g) e outcome penalty retry now (sequence g) state = (changed, state', seq)"
    by (metis prod_cases3)
  have "calm (g\<lparr>sequence := seq\<rparr>) (snd (persistRuntime state' (g\<lparr>sequence := seq\<rparr>)))" by (rule calm_persistRuntime)
  then have "calm g (snd (persistRuntime state' (g\<lparr>sequence := seq\<rparr>)))" by (rule calm_trans [rotated]) (simp add: calm_frame)
  then show ?thesis by (simp add: finishAccount_def Some j Let_def calm_frame)
qed (simp add: finishAccount_def)

lemma booksOK_closed:
  assumes ok: "booksOK g F" and k: "k < length (requests g)" and live: "\<not> finished (requests g ! k)"
    and e: "RequestID' e = RequestID' (requests g ! k)" "finished e" "allocationTracked e = allocationTracked (requests g ! k)"
  shows "booksOK (setRequest k e g) (F @ [k])"
proof -
  have "(map fst (idents g))[k := RequestID' e] = map fst (idents g)"
    using k e(1) by (metis identOf_def fst_conv idents_def length_map list_update_id nth_map)
  then have id: "map fst (idents (setRequest k e g)) = map fst (idents g)" by (simp add: idents_def map_update identOf_def)
  have "k \<notin> set F" using ok live by (auto simp: booksOK_def)
  moreover have "(\<not> finished (requests (setRequest k e g) ! j) \<or> j \<in> set (F @ [k]) \<longrightarrow> recordsOf (db g) (RequestID' (requests (setRequest k e g) ! j)) = 0) \<and>
      recordsOf (db g) (RequestID' (requests (setRequest k e g) ! j)) \<le> 1 \<and>
      (finished (requests (setRequest k e g) ! j) \<and> allocationTracked (requests (setRequest k e g) ! j) \<and> j \<notin> set (F @ [k]) \<longrightarrow>
        settled (db g) (RequestID' (requests (setRequest k e g) ! j)))" if "j < length (requests g)" for j
    using that ok live k e by (cases "j = k") (auto simp: booksOK_def Let_def)
  ultimately show ?thesis using ok k e(2) unfolding booksOK_def id Let_def by (auto simp: nth_list_update)
qed

lemma books_settleOrRetry:
  assumes ok: "booksOK g (failedSettlements g @ [k])"
  shows "books (settleOrRetry k now g)"
proof -
  obtain r h where p: "persistObservation (requests g ! k) now g = (r, h)" by fastforce
  then show ?thesis
  proof (cases rule: persist_cases)
    case (failed e)
    have "booksOK g (failedSettlements g)" if "\<not> allocationTracked (requests g ! k)"
      using ok that unfolding booksOK_def Let_def by auto
    then show ?thesis using p failed ok by (simp add: settleOrRetry_def books_def)
  next
    case (saved d)
    have "k \<notin> set (failedSettlements g)" using ok by (simp add: booksOK_def)
    then have "booksOK (g\<lparr>db := d\<rparr>) (failedSettlements g)" using booksOK_saved [OF ok _ saved(2)] by simp
    then show ?thesis using p saved by (simp add: settleOrRetry_def books_def)
  qed
qed

lemma books_finish:
  assumes ok: "books g" and k: "k < length (requests g)"
  shows "books (finish k outcome code penalty retry now g)"
proof (cases "finished (requests g ! k)")
  case True
  then show ?thesis using ok by (simp add: finish_def)
next
  case False
  let ?e = "closeRecord (gw_policy g) outcome code penalty now (requests g ! k)"
  define g1 where "g1 = setRequest k ?e g"
  define g2 where "g2 = (if memberLeased ?e then releaseMember (ob_UserID ?e) g1 else g1)"
  define g3 where "g3 = (if leased ?e then finishAccount ?e outcome penalty retry now g2 else g2)"
  define g4 where "g4 = snd (finishModelRuntime ?e outcome retry now g3)"
  have f: "finish k outcome code penalty retry now g =
      (if leased ?e then notifyCapacity (ob_AccountID ?e) (settleOrRetry k now g4) else settleOrRetry k now g4)"
    using False by (simp add: finish_def Let_def g1_def g2_def g3_def g4_def)
  have "booksOK g1 (failedSettlements g @ [k])"
    unfolding g1_def by (rule booksOK_closed) (use ok k False in \<open>simp_all add: books_def closeRecord_def\<close>)
  moreover have "calm g1 g4"
  proof -
    have "calm g1 g2" by (simp add: g2_def releaseMember_def calm_frame)
    moreover have "calm g2 g3" by (simp add: g3_def calm_finishAccount)
    moreover have "calm g3 g4" unfolding g4_def by (rule calm_finishModelRuntime)
    ultimately show ?thesis using calm_trans by blast
  qed
  ultimately have "booksOK g4 (failedSettlements g4 @ [k])" using booksOK_calm by (simp add: calm_def g1_def)
  then have "books (settleOrRetry k now g4)" by (rule books_settleOrRetry)
  then show ?thesis unfolding f using books_calm [OF _ calm_notify [OF calm_refl]] by simp
qed

section \<open>The system\<close>

definition balanced :: "world \<Rightarrow> bool" where
  "balanced w \<longleftrightarrow> leasesOK w \<and> books (gate w)"

lemma books_arrival:
  assumes ok: "books g" and r: "begin_request kd i user grp key transport now g = (Inr k, g')"
    and fresh: "i \<notin> identifiers g" "recordsOf (db g) i = 0"
  shows "books g'"
proof -
  note g' = begin_request_Inr(1) [OF r]
  have id: "idents g' = idents g @ [(i, False, False)]" by (simp add: g' idents_def identOf_def newObservation_def)
  have "i \<notin> set (map fst (idents g))" using fresh(1) by (auto simp: identifiers_def idents_def identOf_def)
  then have u: "distinct (map fst (idents g'))" using ok by (auto simp: id books_def booksOK_def)
  define e where "e = newObservation kd i user grp key transport now"
  have rq: "requests g' = requests g @ [e]" and rest: "db g' = db g" "failedSettlements g' = failedSettlements g"
    and e: "RequestID' e = i" "\<not> finished e" by (simp_all add: g' e_def newObservation_def)
  have old: "booksOK g (failedSettlements g)" using ok by (simp add: books_def)
  define F where "F = failedSettlements g"
  have range: "j < length (requests g) \<and> finished (requests g ! j)" if "j \<in> set F" for j using old that by (simp add: booksOK_def F_def)
  have each: "(\<not> finished (requests g' ! j) \<or> j \<in> set F \<longrightarrow> recordsOf (db g) (RequestID' (requests g' ! j)) = 0) \<and>
      recordsOf (db g) (RequestID' (requests g' ! j)) \<le> 1 \<and>
      (finished (requests g' ! j) \<and> allocationTracked (requests g' ! j) \<and> j \<notin> set F \<longrightarrow> settled (db g) (RequestID' (requests g' ! j)))"
    if "j < length (requests g')" for j
  proof (cases "j < length (requests g)")
    case True
    then have same: "requests g' ! j = requests g ! j" by (simp add: rq nth_append)
    show ?thesis unfolding same F_def using old True by (simp add: booksOK_def Let_def)
  next
    case False
    then have "requests g' ! j = e" using that by (simp add: rq nth_append)
    then show ?thesis using e fresh(2) by simp
  qed
  have "booksOK g' F" unfolding booksOK_def Let_def rest
  proof (intro conjI ballI allI impI u)
    show "distinct F" "distinctEntries (db g)" using old by (simp_all add: booksOK_def F_def)
    show "j < length (requests g')" "finished (requests g' ! j)" if "j \<in> set F" for j
      using range [OF that] by (simp_all add: rq nth_append)
  qed (use each in blast)+
  then show ?thesis by (simp add: books_def rest F_def)
qed

lemma books_elsewhere:
  assumes ok: "books g" and l: "leavesAlone g d"
  shows "books (g\<lparr>db := d\<rparr>)"
proof -
  have id: "RequestID' (requests g ! j) \<in> identifiers g" if "j < length (requests g)" for j
    using that by (simp add: identifiers_def)
  have rec: "recordsOf d (RequestID' (requests g ! j)) \<le> recordsOf (db g) (RequestID' (requests g ! j))" if "j < length (requests g)" for j
    using l id [OF that] by (simp add: leavesAlone_def)
  have set: "settled (db g) (RequestID' (requests g ! j)) \<Longrightarrow> settled d (RequestID' (requests g ! j))" if "j < length (requests g)" for j
  proof -
    assume s: "settled (db g) (RequestID' (requests g ! j))"
    have "e_state x \<noteq> ''active''" if "x \<in> set (allocation_entries d)" "e_request x = RequestID' (requests g ! j)" for x
      using l s id [OF \<open>j < length (requests g)\<close>] that unfolding settled_def leavesAlone_def by auto
    then show ?thesis by (simp add: settled_def)
  qed
  have di: "distinctEntries d" using l by (simp add: leavesAlone_def distinctEntries_def)
  have "booksOK (g\<lparr>db := d\<rparr>) (failedSettlements g)"
    by (rule booksOK_step [OF ok [unfolded books_def]]) (use rec set di in \<open>simp_all add: idents_def\<close>)
  then show ?thesis by (simp add: books_def)
qed

lemma balanced_step:
  assumes s: "gateway_step w w'" and b: "balanced w"
  shows "balanced w'"
proof -
  have ok: "books (gate w)" and lok: "leasesOK w" using b by (simp_all add: balanced_def)
  have "books (gate w')" using s
  proof (cases rule: gateway_step.cases)
    case (arrives kd i user grp key transport now k g)
    then show ?thesis using books_arrival [OF ok] by simp
  next
    case (answers k e)
    have "calm (gate w) (setRequest k e (gate w))"
      by (rule calm_setRequest [OF calm_refl]) (use answers in \<open>simp add: measured_def identOf_def viewOf_def\<close>)
    then show ?thesis using books_calm [OF ok] answers by simp
  next
    case (tries k h q rd p g)
    then show ?thesis using books_leaseRound [OF lok refl ok] by simp
  next
    case (wakes k t)
    then show ?thesis using books_calm [OF ok, of "takeToken k (gate w)"] by (simp add: takeToken_def calm_frame)
  next
    case (finishes k outcome code penalty retry now)
    then show ?thesis using books_finish [OF ok] by simp
  next
    case (rechecks h k i model content now r g)
    then show ?thesis using books_calm [OF ok calm_recheckAttempt] by simp
  next
    case (resumes actor i now r g)
    then show ?thesis using books_calm [OF ok calm_Resume] by simp
  next
    case (limits actor i lim now r g)
    then show ?thesis using books_calm [OF ok calm_SetConcurrency] by simp
  next
    case (shows_runtime before now r g)
    then show ?thesis using books_calm [OF ok calm_Runtime'] by simp
  next
    case (recovers now r g)
    then show ?thesis using books_PrepareAllocations [OF ok] by simp
  next
    case stops
    then show ?thesis using books_calm [OF ok, of "(gate w)\<lparr>closed := True\<rparr>"] by (simp add: calm_frame)
  next
    case (elsewhere d)
    then show ?thesis using books_elsewhere [OF ok] by simp
  qed
  then show ?thesis using gateway_step_OK [OF s lok] by (simp add: balanced_def)
qed

interpretation accounts_books: step_invariant opened gateway_step balanced
proof
  show "opened w \<Longrightarrow> balanced w" for w
    by (auto simp: balanced_def opened_OK opened_def books_def booksOK_def idents_def distinctEntries_def)
  show "balanced w \<Longrightarrow> gateway_step w w' \<Longrightarrow> balanced w'" for w w' by (rule balanced_step)
qed

text \<open>The invariant, read off for one request.\<close>

lemma books_D:
  assumes "books g" "k < length (requests g)"
  shows "finished (requests g ! k) \<Longrightarrow> allocationTracked (requests g ! k) \<Longrightarrow>
      k \<in> set (failedSettlements g) \<or> settled (db g) (RequestID' (requests g ! k))"
    "recordsOf (db g) (RequestID' (requests g ! k)) \<le> 1"
    "\<not> finished (requests g ! k) \<or> k \<in> set (failedSettlements g) \<Longrightarrow> recordsOf (db g) (RequestID' (requests g ! k)) = 0"
  using assms unfolding books_def booksOK_def Let_def by blast+


text \<open>
  A member's request takes a lease and an allocation, and ends while the store cannot write the history:
  its settlement waits in the queue.
\<close>

definition trackedOpened :: world where
  "trackedOpened = \<lparr>gate = exampleGateway\<lparr>db := (db exampleGateway)\<lparr>allocation_keys := [(9, 1)]\<rparr>\<rparr>, phases = []\<rparr>"

definition trackedArrived :: world where
  "trackedArrived = arriveWith 9 ''q1'' trackedOpened"

definition trackedLeased :: world where
  "trackedLeased = tryWith 0 trackedArrived"

definition trackedFailing :: world where
  "trackedFailing = trackedLeased\<lparr>gate := (gate trackedLeased)\<lparr>db := (db (gate trackedLeased))\<lparr>faults := [''RecordRequest'']\<rparr>\<rparr>\<rparr>"

definition trackedEnded :: world where
  "trackedEnded = finishWith 0 trackedFailing"

definition bookkeeping :: "world \<Rightarrow> (string \<times> bool \<times> bool) list \<times> nat list \<times> nat \<times> string list" where
  "bookkeeping w = (map (\<lambda>e. (RequestID' e, finished e, allocationTracked e)) (requests (gate w)), failedSettlements (gate w),
     recordsOf (db (gate w)) ''q1'', map e_state (allocation_entries (db (gate w))))"

lemma trackedArrived_run:
  "isl (fst (begin_request Responses ''q1'' 7 1 9 ''http'' exampleClock (gate trackedOpened))) = False \<and>
   requests (gate trackedOpened) = [] \<and> request_records (db (gate trackedOpened)) = [] \<and> allocation_entries (db (gate trackedOpened)) = []"
  "map finished (requests (gate trackedArrived)) = [False] \<and> phases trackedArrived = [Idle]"
  by code_simp+

lemma trackedEnded_run: "bookkeeping trackedEnded = ([(''q1'', True, True)], [0], 0, [''active'']) \<and>
   map finished (requests (gate trackedLeased)) = [False] \<and> phases trackedLeased = [Over] \<and> map e_request (allocation_entries (db (gate trackedLeased))) = [''q1'']"
  by code_simp

lemma trackedEnded_reach: "reach opened gateway_step trackedEnded"
proof -
  have "opened trackedOpened" by (simp add: opened_def trackedOpened_def exampleGateway_def exampleStore_def)
  moreover have "gateway_step trackedOpened trackedArrived"
    unfolding trackedArrived_def by (rule arriveWith_step) (use trackedArrived_run(1) in simp_all)
  moreover have "gateway_step trackedArrived trackedLeased"
    unfolding trackedLeased_def by (rule tryWith_step) (use trackedArrived_run(2) in \<open>auto simp: map_eq_Cons_conv\<close>)
  moreover have "gateway_step trackedLeased trackedFailing"
    unfolding trackedFailing_def by (rule elsewhere) (use trackedEnded_run in \<open>simp add: leavesAlone_def recordsOf_def\<close>)
  moreover have "gateway_step trackedFailing trackedEnded"
    unfolding trackedEnded_def finishWith_def
    by (rule finishes) (use trackedEnded_run in \<open>auto simp: trackedFailing_def map_eq_Cons_conv\<close>)
  ultimately show ?thesis by (meson reach_init reach_step)
qed


end
