(* ===== verification/Tokens.thy ===== *)
theory Tokens
  imports Store
begin

text \<open>
  Random tokens in the unpadded URL alphabet of \<open>encoding/base64\<close>, as API keys and sessions use
  them, and transactions that return a value with the store they commit.
\<close>

section \<open>Base64\<close>

definition encode6 :: "nat \<Rightarrow> char" where
  "encode6 n = char_of (if n < 26 then n + 65 else if n < 52 then n + 71 else if n < 62 then n - 4 else if n = 62 then 45 else 95)"

definition decode6 :: "char \<Rightarrow> nat option" where
  "decode6 c = (let n = of_char c in
     if 65 \<le> n \<and> n \<le> 90 then Some (n - 65) else if 97 \<le> n \<and> n \<le> 122 then Some (n - 71)
     else if 48 \<le> n \<and> n \<le> 57 then Some (n + 4) else if n = 45 then Some 62 else if n = 95 then Some 63 else None)"

fun sextets :: "nat list \<Rightarrow> nat list" where
  "sextets [] = []"
| "sextets [a] = [a div 4, a mod 4 * 16]"
| "sextets [a, b] = [a div 4, a mod 4 * 16 + b div 16, b mod 16 * 4]"
| "sextets (a # b # c # r) = a div 4 # (a mod 4 * 16 + b div 16) # (b mod 16 * 4 + c div 64) # (c mod 64) # sextets r"

text \<open>Trailing bits are ignored; a single sextet is too short.\<close>

fun octets :: "nat list \<Rightarrow> nat list option" where
  "octets [] = Some []"
| "octets [a] = None"
| "octets [a, b] = Some [a * 4 + b div 16]"
| "octets [a, b, c] = Some [a * 4 + b div 16, b mod 16 * 16 + c div 4]"
| "octets (a # b # c # e # r) = map_option (\<lambda>bs. (a * 4 + b div 16) # (b mod 16 * 16 + c div 4) # (c mod 4 * 64 + e) # bs) (octets r)"

fun allSome :: "'a option list \<Rightarrow> 'a list option" where
  "allSome [] = Some []"
| "allSome (x # xs) = (case x of None \<Rightarrow> None | Some v \<Rightarrow> map_option (Cons v) (allSome xs))"

definition EncodeToString :: "string \<Rightarrow> string" where
  "EncodeToString raw = map encode6 (sextets (map of_char raw))"

text \<open>Line breaks in the input are skipped.\<close>

definition DecodeString :: "string \<Rightarrow> string option" where
  "DecodeString s =
     (case allSome (map decode6 (filter (\<lambda>c. c \<noteq> CHR 0x0A \<and> c \<noteq> CHR 0x0D) s)) of None \<Rightarrow> None
      | Some ns \<Rightarrow> map_option (map char_of) (octets ns))"

section \<open>Tokens\<close>

text \<open>\<open>newToken\<close> and \<open>validToken\<close> of \<open>internal/auth/auth.go\<close>; \<open>raw\<close> is 32 random bytes.\<close>

definition newToken :: "string \<Rightarrow> string" where
  "newToken raw = EncodeToString raw"

definition validToken :: "string \<Rightarrow> bool" where
  "validToken token \<longleftrightarrow> length token = 43 \<and>
     (case DecodeString token of None \<Rightarrow> False | Some raw \<Rightarrow> length raw = 32)"

section \<open>Transactions\<close>

definition transaction :: "store \<Rightarrow> (store \<Rightarrow> (store \<times> 'a) result) \<Rightarrow> (store \<times> 'a) result" where
  "transaction d f =
     bindR (query d ''BeginTx'' ()) (\<lambda>_. bindR (f d) (\<lambda>(d, v). bindR (query d ''Commit'' ()) (\<lambda>_. Inr (d, v))))"

lemma transaction_Inr [res_simps]:
  "transaction d f = Inr (d', v) \<longleftrightarrow> \<not> fails d ''BeginTx'' \<and> f d = Inr (d', v) \<and> \<not> fails d' ''Commit''"
  by (auto simp: transaction_def res_simps)

text \<open>The key of a new row of a table without \<open>AUTOINCREMENT\<close>.\<close>

definition nextID :: "int list \<Rightarrow> int" where
  "nextID ids = foldl max 0 ids + 1"

lemma foldl_max_ge: "m \<le> foldl max m is \<and> (\<forall>i \<in> set is. i \<le> foldl max m is)" for m :: int
proof (induction "is" arbitrary: m)
  case (Cons i rest)
  have "max m i \<le> foldl max (max m i) rest" "\<forall>j \<in> set rest. j \<le> foldl max (max m i) rest" using Cons by simp_all
  then show ?case by auto
qed simp

lemma nextID_fresh: "i \<in> set is \<Longrightarrow> i < nextID is"
  using foldl_max_ge [of 0 "is"] by (fastforce simp: nextID_def)

lemma nextID_pos: "0 < nextID is"
  using foldl_max_ge [of 0 "is"] by (simp add: nextID_def)

section \<open>Round trip\<close>

lemma encode6_decode6: "n < 64 \<Longrightarrow> decode6 (encode6 n) = Some n"
proof -
  assume n: "n < 64"
  let ?k = "if n < 26 then n + 65 else if n < 52 then n + 71 else if n < 62 then n - 4 else if n = 62 then 45 else 95"
  have "(of_char (encode6 n) :: nat) = ?k" using n by (simp add: encode6_def)
  then show ?thesis using n by (auto simp: decode6_def Let_def)
qed

lemma encode6_text: "n < 64 \<Longrightarrow> encode6 n \<noteq> CHR 0x0A \<and> encode6 n \<noteq> CHR 0x0D"
  using encode6_decode6 [of n] by (auto simp: decode6_def)

lemma sextets_range: "list_all (\<lambda>n. n < 256) bs \<Longrightarrow> list_all (\<lambda>n. n < 64) (sextets bs)"
  by (induction bs rule: sextets.induct) auto

lemma octets_sextets: "list_all (\<lambda>n. n < 256) bs \<Longrightarrow> octets (sextets bs) = Some bs"
  by (induction bs rule: sextets.induct) auto

lemma allSome_decode: "list_all (\<lambda>n. n < 64) ns \<Longrightarrow> allSome (map decode6 (map encode6 ns)) = Some ns"
  by (induction ns) (auto simp: encode6_decode6)

lemma filter_encode: "list_all (\<lambda>n. n < 64) ns \<Longrightarrow>
    filter (\<lambda>c. c \<noteq> CHR 0x0A \<and> c \<noteq> CHR 0x0D) (map encode6 ns) = map encode6 ns"
  by (induction ns) (auto simp: encode6_text)

lemma char_bytes: "list_all (\<lambda>n. n < (256 :: nat)) (map of_char (s :: string))"
  by (simp add: list_all_iff)

lemma decode_encode: "DecodeString (EncodeToString raw) = Some raw"
proof -
  let ?ns = "sextets (map of_char raw)"
  have r: "list_all (\<lambda>n. n < 64) ?ns" by (rule sextets_range [OF char_bytes])
  have "DecodeString (EncodeToString raw) = map_option (map char_of) (octets ?ns)"
    by (simp only: DecodeString_def EncodeToString_def filter_encode [OF r] allSome_decode [OF r] option.case)
  then show ?thesis by (simp add: octets_sextets [OF char_bytes] map_idI)
qed

lemma sextets_length: "length (sextets bs) = (4 * length bs + 2) div 3"
proof (induction bs rule: sextets.induct)
  case (4 a b c r)
  then show ?case by simp
qed auto

lemma newToken_valid: "length raw = 32 \<Longrightarrow> validToken (newToken raw)"
  by (simp add: validToken_def newToken_def decode_encode) (simp add: EncodeToString_def sextets_length)

lemma newToken_length: "length raw = 32 \<Longrightarrow> length (EncodeToString raw) = 43"
  by (simp add: EncodeToString_def sextets_length)

end
