(* ===== verification/Vault_Seal.thy ===== *)
theory Vault_Seal
  imports Store
begin

text \<open>
  Sealed secrets (\<open>internal/vault/vault.go\<close>, \<open>content.go\<close>, \<open>settings.go\<close>): every ciphertext is bound to the kind of resource, its owner
  and its record. The cipher itself is \<open>crypto/cipher\<close>'s AEAD, an argument: \<open>genuine\<close> states that it opens
  what it sealed under the same associated data, adds at least its overhead, and refuses other associated data.
\<close>

section \<open>The cipher\<close>

record AEAD =
  nonceSize :: nat
  overhead :: nat
  aeadSeal :: "string \<Rightarrow> string \<Rightarrow> string \<Rightarrow> string"
  aeadOpen :: "string \<Rightarrow> string \<Rightarrow> string \<Rightarrow> string option"

definition genuine :: "AEAD \<Rightarrow> bool" where
  "genuine v \<longleftrightarrow> (\<forall>nonce plain binding. length nonce = nonceSize v \<longrightarrow>
     overhead v \<le> length (aeadSeal v nonce plain binding) \<and>
     aeadOpen v nonce (aeadSeal v nonce plain binding) binding = Some plain \<and>
     (\<forall>other. other \<noteq> binding \<longrightarrow> aeadOpen v nonce (aeadSeal v nonce plain binding) other = None))"

section \<open>Envelopes\<close>

text \<open>\<open>seal\<close> draws a fresh nonce; \<open>nonce\<close> is what it drew.\<close>

definition seal :: "AEAD \<Rightarrow> string \<Rightarrow> string \<Rightarrow> string \<Rightarrow> string" where
  "seal v nonce binding plain = CHR 0x01 # nonce @ aeadSeal v nonce plain binding"

definition openEnvelope :: "AEAD \<Rightarrow> string \<Rightarrow> string \<Rightarrow> string result" where
  "openEnvelope v binding encrypted =
     (if length encrypted < 1 + nonceSize v + overhead v \<or> hd encrypted \<noteq> CHR 0x01 then Inl (Vault VErrDecrypt)
      else case aeadOpen v (take (nonceSize v) (drop 1 encrypted)) (drop (1 + nonceSize v) encrypted) binding of
        None \<Rightarrow> Inl (Vault VErrDecrypt)
      | Some plain \<Rightarrow> Inr plain)"

definition accountBinding :: "string \<Rightarrow> string" where
  "accountBinding account = ''sublane:account:'' @ account"

definition webhookBinding :: "int \<Rightarrow> string" where
  "webhookBinding tenant = ''sublane:webhook:'' @ FormatInt tenant"

definition keyBinding :: "int \<Rightarrow> int \<Rightarrow> string" where
  "keyBinding owner key = ''sublane:api-key:'' @ FormatInt owner @ '':'' @ FormatInt key"

definition totpBinding :: "int \<Rightarrow> string" where
  "totpBinding user = ''sublane:totp:'' @ FormatInt user"

definition contentBinding :: "int \<Rightarrow> string" where
  "contentBinding tenant = ''sublane:content:'' @ FormatInt tenant"

definition settingBinding :: "string \<Rightarrow> string" where
  "settingBinding name = ''sublane:setting:'' @ name"

definition Seal :: "AEAD \<Rightarrow> string \<Rightarrow> string \<Rightarrow> string \<Rightarrow> string result" where
  "Seal v nonce account plain =
     (if account = [] then Inl (Vault VErrAccountID) else Inr (seal v nonce (accountBinding account) plain))"

definition Open :: "AEAD \<Rightarrow> string \<Rightarrow> string \<Rightarrow> string result" where
  "Open v account encrypted =
     (if account = [] then Inl (Vault VErrDecrypt) else openEnvelope v (accountBinding account) encrypted)"

definition SealWebhook :: "AEAD \<Rightarrow> string \<Rightarrow> int \<Rightarrow> string \<Rightarrow> string result" where
  "SealWebhook v nonce tenant plain =
     (if tenant \<le> 0 then Inl (Vault VErrDecrypt) else Inr (seal v nonce (webhookBinding tenant) plain))"

definition OpenWebhook :: "AEAD \<Rightarrow> int \<Rightarrow> string \<Rightarrow> string result" where
  "OpenWebhook v tenant encrypted =
     (if tenant \<le> 0 then Inl (Vault VErrDecrypt) else openEnvelope v (webhookBinding tenant) encrypted)"

definition SealAPIKey :: "AEAD \<Rightarrow> string \<Rightarrow> int \<Rightarrow> int \<Rightarrow> string \<Rightarrow> string result" where
  "SealAPIKey v nonce owner key plain =
     (if owner \<le> 0 \<or> key \<le> 0 then Inl (Vault VErrOwnerID) else Inr (seal v nonce (keyBinding owner key) plain))"

definition OpenAPIKey :: "AEAD \<Rightarrow> int \<Rightarrow> int \<Rightarrow> string \<Rightarrow> string result" where
  "OpenAPIKey v owner key encrypted =
     (if owner \<le> 0 \<or> key \<le> 0 then Inl (Vault VErrDecrypt) else openEnvelope v (keyBinding owner key) encrypted)"

definition SealTOTP :: "AEAD \<Rightarrow> string \<Rightarrow> int \<Rightarrow> string \<Rightarrow> string result" where
  "SealTOTP v nonce user plain =
     (if user \<le> 0 then Inl (Vault VErrDecrypt) else Inr (seal v nonce (totpBinding user) plain))"

definition OpenTOTP :: "AEAD \<Rightarrow> int \<Rightarrow> string \<Rightarrow> string result" where
  "OpenTOTP v user encrypted =
     (if user \<le> 0 then Inl (Vault VErrDecrypt) else openEnvelope v (totpBinding user) encrypted)"

definition SealContent :: "AEAD \<Rightarrow> string \<Rightarrow> int \<Rightarrow> string \<Rightarrow> string result" where
  "SealContent v nonce tenant plain =
     (if tenant \<le> 0 then Inl (Vault VErrDecrypt) else Inr (seal v nonce (contentBinding tenant) plain))"

definition OpenContent :: "AEAD \<Rightarrow> int \<Rightarrow> string \<Rightarrow> string result" where
  "OpenContent v tenant encrypted =
     (if tenant \<le> 0 then Inl (Vault VErrDecrypt) else openEnvelope v (contentBinding tenant) encrypted)"

definition SealSetting :: "AEAD \<Rightarrow> string \<Rightarrow> string \<Rightarrow> string \<Rightarrow> string result" where
  "SealSetting v nonce name plain =
     (if name = [] then Inl (Vault VErrDecrypt) else Inr (seal v nonce (settingBinding name) plain))"

definition OpenSetting :: "AEAD \<Rightarrow> string \<Rightarrow> string \<Rightarrow> string result" where
  "OpenSetting v name encrypted =
     (if name = [] then Inl (Vault VErrDecrypt) else openEnvelope v (settingBinding name) encrypted)"

text \<open>The records a secret can belong to, and the operations of each.\<close>

datatype secret_owner = OfAccount string | OfWebhook int | OfKey int int | OfTOTP int | OfContent int | OfSetting string

fun sealFor :: "AEAD \<Rightarrow> string \<Rightarrow> secret_owner \<Rightarrow> string \<Rightarrow> string result" where
  "sealFor v nonce (OfAccount account) plain = Seal v nonce account plain"
| "sealFor v nonce (OfWebhook tenant) plain = SealWebhook v nonce tenant plain"
| "sealFor v nonce (OfKey owner key) plain = SealAPIKey v nonce owner key plain"
| "sealFor v nonce (OfTOTP user) plain = SealTOTP v nonce user plain"
| "sealFor v nonce (OfContent tenant) plain = SealContent v nonce tenant plain"
| "sealFor v nonce (OfSetting name) plain = SealSetting v nonce name plain"

fun openFor :: "AEAD \<Rightarrow> secret_owner \<Rightarrow> string \<Rightarrow> string result" where
  "openFor v (OfAccount account) encrypted = Open v account encrypted"
| "openFor v (OfWebhook tenant) encrypted = OpenWebhook v tenant encrypted"
| "openFor v (OfKey owner key) encrypted = OpenAPIKey v owner key encrypted"
| "openFor v (OfTOTP user) encrypted = OpenTOTP v user encrypted"
| "openFor v (OfContent tenant) encrypted = OpenContent v tenant encrypted"
| "openFor v (OfSetting name) encrypted = OpenSetting v name encrypted"

section \<open>Decimal numbers\<close>

definition readNat :: "string \<Rightarrow> nat" where
  "readNat s = foldl (\<lambda>n c. n * 10 + (of_char c - 48)) 0 s"

lemma digit_char: "n < 10 \<Longrightarrow> (of_char (char_of (48 + n) :: char) :: nat) = 48 + n"
  by simp

lemma readNat_showNat: "readNat (showNat n) = n"
proof (induction n rule: showNat.induct)
  case (1 n)
  then show ?case
    by (subst showNat.simps) (auto simp: readNat_def simp del: showNat.simps)
qed

lemma showNat_digits: "c \<in> set (showNat n) \<Longrightarrow> \<exists>k<10. c = char_of (48 + k :: nat)"
proof (induction n rule: showNat.induct)
  case (1 n)
  show ?case
  proof (cases "n < 10")
    case True
    then show ?thesis using 1(2) by (subst (asm) showNat.simps) auto
  next
    case False
    then have "c \<in> set (showNat (n div 10)) \<or> c = char_of (48 + n mod 10)"
      using 1(2) by (subst (asm) showNat.simps) (auto simp del: showNat.simps)
    moreover have "n mod 10 < 10" by simp
    ultimately show ?thesis using 1(1) [OF False] by blast
  qed
qed

lemma showNat_no_colon: "CHR '':'' \<notin> set (showNat n)"
proof
  assume "CHR '':'' \<in> set (showNat n)"
  then obtain k :: nat where k: "k < 10" "CHR '':'' = (char_of (48 + k) :: char)" using showNat_digits by blast
  then have "(of_char CHR '':'' :: nat) = 48 + k" by simp
  then show False using k(1) by simp
qed

lemma FormatInt_inject: "0 < a \<Longrightarrow> 0 < b \<Longrightarrow> FormatInt a = FormatInt b \<longleftrightarrow> a = b"
  by (metis FormatInt_def readNat_showNat nat_eq_iff2 not_less_iff_gr_or_eq order.strict_trans2 order_less_imp_le nat_0_le)

lemma FormatInt_no_colon: "0 < a \<Longrightarrow> CHR '':'' \<notin> set (FormatInt a)"
  using showNat_no_colon by (simp add: FormatInt_def del: showNat.simps)

lemma split_once:
  assumes "x \<notin> set a" "x \<notin> set b" "a @ x # c = b @ x # d"
  shows "a = b \<and> c = d"
  using assms(3,1,2)
proof (induction a arbitrary: b)
  case Nil
  then show ?case by (cases b) auto
next
  case (Cons y a)
  then show ?case by (cases b) auto
qed

lemma keyBinding_inject:
  assumes "0 < owner" "0 < key" "0 < owner'" "0 < key'"
  shows "keyBinding owner key = keyBinding owner' key' \<longleftrightarrow> owner = owner' \<and> key = key'"
proof
  assume "keyBinding owner key = keyBinding owner' key'"
  then have "FormatInt owner @ CHR '':'' # FormatInt key = FormatInt owner' @ CHR '':'' # FormatInt key'"
    by (simp add: keyBinding_def)
  from split_once [OF FormatInt_no_colon [OF assms(1)] FormatInt_no_colon [OF assms(3)] this]
  show "owner = owner' \<and> key = key'" using FormatInt_inject assms by blast
qed simp

text \<open>The binding of a record, and whether the record has an identity at all.\<close>

fun bindingOf :: "secret_owner \<Rightarrow> string" where
  "bindingOf (OfAccount account) = accountBinding account"
| "bindingOf (OfWebhook tenant) = webhookBinding tenant"
| "bindingOf (OfKey owner key) = keyBinding owner key"
| "bindingOf (OfTOTP user) = totpBinding user"
| "bindingOf (OfContent tenant) = contentBinding tenant"
| "bindingOf (OfSetting name) = settingBinding name"

fun identified :: "secret_owner \<Rightarrow> bool" where
  "identified (OfAccount account) = (account \<noteq> [])"
| "identified (OfWebhook tenant) = (0 < tenant)"
| "identified (OfKey owner key) = (0 < owner \<and> 0 < key)"
| "identified (OfTOTP user) = (0 < user)"
| "identified (OfContent tenant) = (0 < tenant)"
| "identified (OfSetting name) = (name \<noteq> [])"

lemmas binding_defs = accountBinding_def webhookBinding_def keyBinding_def totpBinding_def contentBinding_def settingBinding_def

lemma bindingOf_inject: "identified r \<Longrightarrow> identified r' \<Longrightarrow> bindingOf r = bindingOf r' \<longleftrightarrow> r = r'"
proof (cases r; cases r')
  fix a b c e assume "r = OfKey a b" "r' = OfKey c e" "identified r" "identified r'"
  then show "bindingOf r = bindingOf r' \<longleftrightarrow> r = r'" using keyBinding_inject [of a b c e] by auto
qed (auto simp: binding_defs FormatInt_inject simp del: showNat.simps)

lemma sealFor_Inr: "sealFor v nonce r plain = Inr sealed \<longleftrightarrow> identified r \<and> sealed = seal v nonce (bindingOf r) plain"
  by (cases r) (auto simp: Seal_def SealWebhook_def SealAPIKey_def SealTOTP_def SealContent_def SealSetting_def)

lemma openFor_eq: "openFor v r encrypted = (if identified r then openEnvelope v (bindingOf r) encrypted else Inl (Vault VErrDecrypt))"
  by (cases r) (auto simp: Open_def OpenWebhook_def OpenAPIKey_def OpenTOTP_def OpenContent_def OpenSetting_def)

section \<open>Opening an envelope\<close>

lemma open_seal:
  assumes "genuine v" "length nonce = nonceSize v"
  shows "openEnvelope v other (seal v nonce binding plain) = (if other = binding then Inr plain else Inl (Vault VErrDecrypt))"
proof -
  have g: "overhead v \<le> length (aeadSeal v nonce plain binding)" "aeadOpen v nonce (aeadSeal v nonce plain binding) binding = Some plain"
    "other \<noteq> binding \<Longrightarrow> aeadOpen v nonce (aeadSeal v nonce plain binding) other = None"
    using assms unfolding genuine_def by blast+
  then show ?thesis using assms(2) by (auto simp: openEnvelope_def seal_def)
qed

lemma open_own_key:
  assumes "genuine v" "length nonce = nonceSize v" "SealAPIKey v nonce owner key plain = Inr sealed"
  shows "OpenAPIKey v owner key sealed = Inr plain"
  using assms(3) by (auto simp: SealAPIKey_def OpenAPIKey_def open_seal [OF assms(1,2)] split: if_splits)

text \<open>
  C22: A sealed secret opens for the record it was sealed for, to the text that was sealed, and for no other
  record of any kind: an account's credentials, a webhook, an API key, a second factor, the content rules of a
  workspace or a setting.
\<close>

theorem sealed_for_one_record:
  assumes "genuine v" and "length nonce = nonceSize v" and "sealFor v nonce r plain = Inr sealed"
  shows "openFor v r' sealed = (if r' = r then Inr plain else Inl (Vault VErrDecrypt))"
  using assms(3) bindingOf_inject [of r' r] by (auto simp: sealFor_Inr openFor_eq open_seal [OF assms(1,2)])

text \<open>A cipher that writes the associated data, with its length in unary, in front of the plaintext.\<close>

definition plainHeader :: "string \<Rightarrow> string" where
  "plainHeader binding = replicate (length binding) CHR 0x01 @ CHR 0x00 # binding @ replicate 16 CHR 0x00"

definition plainCipher :: AEAD where
  "plainCipher = \<lparr>nonceSize = 12, overhead = 16, aeadSeal = (\<lambda>nonce plain binding. plainHeader binding @ plain),
     aeadOpen = (\<lambda>nonce c binding. if take (length (plainHeader binding)) c = plainHeader binding
       then Some (drop (length (plainHeader binding)) c) else None)\<rparr>"

lemma plainHeader_length: "length (plainHeader b) = 2 * length b + 17"
  by (simp add: plainHeader_def)

lemma plainHeader_other:
  assumes "take (length (plainHeader other)) (plainHeader binding @ plain) = plainHeader other"
  shows "other = binding"
proof -
  have ones: "takeWhile ((=) CHR 0x01) (plainHeader b @ r) = replicate (length b) CHR 0x01" for b r
    by (simp add: plainHeader_def takeWhile_append)
  obtain rest where e: "plainHeader binding @ plain = plainHeader other @ rest" using assms by (metis append_take_drop_id)
  then have l: "length other = length binding" using ones [of other rest] ones [of binding plain] by (metis length_replicate)
  have "take (length (plainHeader other)) (plainHeader binding @ plain) = plainHeader binding"
    using l by (simp add: plainHeader_length)
  then have "plainHeader binding = plainHeader other" using assms by simp
  then show ?thesis using l by (simp add: plainHeader_def)
qed

lemma plainCipher_genuine: "genuine plainCipher"
proof -
  have "overhead plainCipher \<le> length (aeadSeal plainCipher nonce plain binding)" for nonce plain binding
    by (simp add: plainCipher_def plainHeader_length)
  moreover have "aeadOpen plainCipher nonce (aeadSeal plainCipher nonce plain binding) binding = Some plain" for nonce plain binding
    by (simp add: plainCipher_def)
  moreover have "aeadOpen plainCipher nonce (aeadSeal plainCipher nonce plain binding) other = None" if "other \<noteq> binding"
    for nonce plain binding other
    using plainHeader_other [of other binding plain] that by (simp only: plainCipher_def AEAD.simps) presburger
  ultimately show ?thesis by (simp add: genuine_def)
qed

theorem sealed_for_one_record_witness:
  "\<exists>sealed. SealAPIKey plainCipher (replicate 12 CHR ''n'') 7 3 ''secret'' = Inr sealed \<and>
     OpenAPIKey plainCipher 7 3 sealed = Inr ''secret'' \<and> OpenAPIKey plainCipher 7 4 sealed = Inl (Vault VErrDecrypt) \<and>
     OpenTOTP plainCipher 7 sealed = Inl (Vault VErrDecrypt)"
proof -
  let ?s = "seal plainCipher (replicate 12 CHR ''n'') (keyBinding 7 3) ''secret''"
  have s: "SealAPIKey plainCipher (replicate 12 CHR ''n'') 7 3 ''secret'' = Inr ?s" by (simp add: SealAPIKey_def)
  then have f: "sealFor plainCipher (replicate 12 CHR ''n'') (OfKey 7 3) ''secret'' = Inr ?s" by simp
  have n: "length (replicate 12 CHR ''n'') = nonceSize plainCipher" by (simp add: plainCipher_def)
  note P = sealed_for_one_record [OF plainCipher_genuine n f]
  have "OpenAPIKey plainCipher 7 3 ?s = Inr ''secret''" "OpenAPIKey plainCipher 7 4 ?s = Inl (Vault VErrDecrypt)"
    using P [of "OfKey 7 3"] P [of "OfKey 7 4"] by simp_all
  moreover have "OpenTOTP plainCipher 7 ?s = Inl (Vault VErrDecrypt)" using P [of "OfTOTP 7"] by simp
  ultimately show ?thesis using s by blast
qed

end
