(* ===== verification/Keys.thy ===== *)
theory Keys
  imports Alloc_Accounting Gateway_Store Names Pagination Tokens Vault_Seal
begin

text \<open>
  API keys (\<open>internal/apikey/keys.go\<close>, \<open>bindings.go\<close>, \<open>secrets.go\<close>): their creation in a pool or a scheme,
  what a member sees of them, changes, revocation, authentication and the disclosure of a stored secret.
  The clock of an operation is read several times: \<open>clk k\<close> is its \<open>k\<close>-th reading. \<open>raw\<close> and \<open>nonce\<close> are
  the random bytes an operation draws.
\<close>

section \<open>Statements\<close>

definition keyTenant :: "store \<Rightarrow> int \<Rightarrow> key_row \<Rightarrow> bool" where
  "keyTenant d tenant k \<longleftrightarrow> list_ex (\<lambda>g. g_id g = k_group k \<and> g_tenant g = tenant) (account_groups d)"

definition liveKey :: "key_row \<Rightarrow> int \<Rightarrow> bool" where
  "liveKey k now \<longleftrightarrow> k_revoked_at k = None \<and> k_enabled k \<and> (case k_expires_at k of None \<Rightarrow> True | Some t \<Rightarrow> t > now)"

definition GetKeyOwnerEnabled :: "store \<Rightarrow> int \<Rightarrow> bool result" where
  "GetKeyOwnerEnabled d user = queryRow d ''GetKeyOwnerEnabled'' (map_option u_enabled (first_of (\<lambda>u. u_id u = user) (users d)))"

definition CountActiveKeys :: "store \<Rightarrow> int \<Rightarrow> int \<Rightarrow> int result" where
  "CountActiveKeys d user tenant = query d ''CountActiveKeys''
     (int (length (filter (\<lambda>k. k_user k = user \<and> keyTenant d tenant k \<and> k_revoked_at k = None) (api_keys d))))"

text \<open>The view \<open>routable_group_resources\<close>: API channels of a pool that prefers its subscriptions and forbids the fallback are not routable.\<close>

definition routable :: "store \<Rightarrow> group_row \<Rightarrow> account_row \<Rightarrow> bool" where
  "routable d g a \<longleftrightarrow> (g_id g, a_id a) \<in> set (group_accounts d) \<and>
     (a_provider a \<noteq> ''openai'' \<or> g_routing_preference g \<noteq> ''subscription_first'' \<or> g_allow_api_fallback g \<or>
      \<not> list_ex (\<lambda>s. a_provider s \<noteq> ''openai'') (poolAccounts d (g_id g)))"

definition gatewayProviders :: "string list" where
  "gatewayProviders = [''codex'', ''claude'', ''antigravity'', ''xai'', ''openai'']"

definition readyKey :: "store \<Rightarrow> int \<Rightarrow> int \<Rightarrow> int \<Rightarrow> key_row \<Rightarrow> bool" where
  "readyKey d user tenant now k \<longleftrightarrow> k_user k = user \<and> liveKey k now \<and> list_ex (\<lambda>u. u_id u = user \<and> u_enabled u) (users d) \<and>
     effective_group_access d user (k_group k) \<and>
     list_ex (\<lambda>g. g_id g = k_group k \<and> g_tenant g = tenant \<and> g_enabled g \<and>
       list_ex (\<lambda>a. routable d g a \<and> a_enabled a \<and> a_provider a \<in> set gatewayProviders \<and> a_status a = ''ready'') (accounts d))
       (account_groups d)"

text \<open>The identifier and the pool of up to twenty keys, newest first.\<close>

definition ListKeyReadinessCandidates :: "store \<Rightarrow> int \<Rightarrow> int \<Rightarrow> int \<Rightarrow> (int \<times> int) list result" where
  "ListKeyReadinessCandidates d user tenant now = query d ''ListKeyReadinessCandidates''
     (map (\<lambda>k. (k_id k, k_group k)) (take 20 (rev (sort_key k_id (filter (readyKey d user tenant now) (api_keys d))))))"

definition CreateKey :: "store \<Rightarrow> int \<Rightarrow> int \<Rightarrow> string \<Rightarrow> string \<Rightarrow> string \<Rightarrow> int \<Rightarrow> int option \<Rightarrow> (store \<times> int) result" where
  "CreateKey d user grp name pre hash createdAt expiry =
     (let i = nextID (map k_id (api_keys d)) in
      exec d ''CreateKey'' (list_ex (\<lambda>u. u_id u = user) (users d) \<and> list_ex (\<lambda>g. g_id g = grp) (account_groups d) \<and>
          length hash = 32 \<and> \<not> list_ex (\<lambda>k. k_token_hash k = hash) (api_keys d))
        (d\<lparr>api_keys := api_keys d @ [\<lparr>k_id = i, k_user = user, k_group = grp, k_revoked_at = None, k_enabled = True,
             k_expires_at = expiry, k_name = name, k_prefix = pre, k_token_hash = hash, k_created_at = createdAt,
             k_last_used_at = None, k_secret = None\<rparr>]\<rparr>, i))"

definition mapKeys :: "(key_row \<Rightarrow> bool) \<Rightarrow> (key_row \<Rightarrow> key_row) \<Rightarrow> store \<Rightarrow> store" where
  "mapKeys hit f d = d\<lparr>api_keys := map (\<lambda>k. if hit k then f k else k) (api_keys d)\<rparr>"

definition SaveKeySecret :: "store \<Rightarrow> int \<Rightarrow> string \<Rightarrow> store result" where
  "SaveKeySecret d key secret = exec d ''SaveKeySecret''
     (list_ex (\<lambda>k. k_id k = key) (api_keys d) \<longrightarrow> 1 \<le> length secret \<and> length secret \<le> 512)
     (mapKeys (\<lambda>k. k_id k = key) (\<lambda>k. k\<lparr>k_secret := Some secret\<rparr>) d)"

definition revokedRow :: "int \<Rightarrow> key_row \<Rightarrow> key_row" where
  "revokedRow now k = k\<lparr>k_revoked_at := Some (case k_revoked_at k of None \<Rightarrow> now | Some t \<Rightarrow> t), k_secret := None\<rparr>"

definition RevokeKey :: "store \<Rightarrow> int \<Rightarrow> int \<Rightarrow> int \<Rightarrow> store result" where
  "RevokeKey d now key user = exec d ''RevokeKey'' True (mapKeys (\<lambda>k. k_id k = key \<and> k_user k = user) (revokedRow now) d)"

definition UpdateKey :: "store \<Rightarrow> int \<Rightarrow> int \<Rightarrow> string \<Rightarrow> bool \<Rightarrow> int option \<Rightarrow> store result" where
  "UpdateKey d key user name enabled expiry = exec d ''UpdateKey'' True
     (mapKeys (\<lambda>k. k_id k = key \<and> k_user k = user \<and> k_revoked_at k = None)
        (\<lambda>k. k\<lparr>k_name := name, k_enabled := enabled, k_expires_at := expiry\<rparr>) d)"

text \<open>The trigger \<open>api_keys_group_update\<close> keeps a key in its workspace.\<close>

definition poolTenant :: "store \<Rightarrow> int \<Rightarrow> int option" where
  "poolTenant d grp = map_option g_tenant (first_of (\<lambda>g. g_id g = grp) (account_groups d))"

definition RebindKeyGroup :: "store \<Rightarrow> int \<Rightarrow> int \<Rightarrow> int \<Rightarrow> store result" where
  "RebindKeyGroup d key user grp =
     (let hit = (\<lambda>k. k_id k = key \<and> k_user k = user \<and> k_revoked_at k = None) in
      exec d ''RebindKeyGroup''
        (list_all (\<lambda>k. hit k \<longrightarrow> poolTenant d grp \<noteq> None \<and> poolTenant d grp = poolTenant d (k_group k)) (api_keys d))
        (mapKeys hit (\<lambda>k. k\<lparr>k_group := grp\<rparr>) d))"

definition ClearKeyAllocation :: "store \<Rightarrow> int \<Rightarrow> store result" where
  "ClearKeyAllocation d key = exec d ''ClearKeyAllocation'' True
     (d\<lparr>allocation_keys := filter (\<lambda>ak. fst ak \<noteq> key) (allocation_keys d)\<rparr>)"

text \<open>The identifier, owner and pool of the key.\<close>

definition AuthenticateKey :: "store \<Rightarrow> string \<Rightarrow> int \<Rightarrow> int \<Rightarrow> (int \<times> int \<times> int) result" where
  "AuthenticateKey d hash tenant now = queryRow d ''AuthenticateKey''
     (map_option (\<lambda>k. (k_id k, k_user k, k_group k))
        (first_of (\<lambda>k. k_token_hash k = hash \<and> liveKey k now \<and> list_ex (\<lambda>u. u_id u = k_user k \<and> u_enabled u) (users d) \<and>
           list_ex (\<lambda>g. g_id g = k_group k \<and> g_tenant g = tenant \<and> g_enabled g) (account_groups d) \<and>
           effective_group_access d (k_user k) (k_group k)) (api_keys d)))"

definition TouchKey :: "store \<Rightarrow> int \<Rightarrow> int \<Rightarrow> int \<Rightarrow> store result" where
  "TouchKey d now key threshold = exec d ''TouchKey'' True
     (mapKeys (\<lambda>k. k_id k = key \<and> k_revoked_at k = None \<and> (case k_last_used_at k of None \<Rightarrow> True | Some t \<Rightarrow> t \<le> threshold))
        (\<lambda>k. k\<lparr>k_last_used_at := Some now\<rparr>) d)"

definition GetKeySecret :: "store \<Rightarrow> int \<Rightarrow> int \<Rightarrow> int \<Rightarrow> key_row result" where
  "GetKeySecret d key user tenant = queryRow d ''GetKeySecret''
     (first_of (\<lambda>k. k_id k = key \<and> k_user k = user \<and> keyTenant d tenant k \<and>
        list_ex (\<lambda>u. u_id u = user \<and> u_enabled u) (users d)) (api_keys d))"

definition ListKeySecrets :: "store \<Rightarrow> int \<Rightarrow> key_row list result" where
  "ListKeySecrets d cursor = query d ''ListKeySecrets''
     (take 100 (sort_key k_id (filter (\<lambda>k. k_secret k \<noteq> None \<and> k_id k > cursor) (api_keys d))))"

section \<open>What a member sees of a key\<close>

record Key =
  KeyID' :: int
  KeyGroupID :: int
  KeyGroupName :: string
  KeyGroupAccess :: string
  KeyName :: string
  KeyPrefix :: string
  KeyCreatedAt :: int
  KeyLastUsedAt :: "int option"
  KeyRevokedAt :: "int option"
  KeyEnabled :: bool
  KeyExpiresAt :: "int option"
  Copyable :: bool
  KeySchemeID :: int
  KeySchemeName :: string
  AllocationRequired :: bool
  CanRestore :: bool

text \<open>The columns \<open>GetKey\<close> and \<open>ListKeys\<close> join to a row, as \<open>keyValue\<close> copies them.\<close>

definition keyValue :: "store \<Rightarrow> key_row \<Rightarrow> Key" where
  "keyValue d k =
     (let allowed = list_ex (\<lambda>g. g_id g = k_group k \<and> g_enabled g) (account_groups d) \<and>
            list_ex (\<lambda>u. u_id u = k_user k \<and> u_enabled u) (users d) \<and> effective_group_access d (k_user k) (k_group k);
          scheme = map_of (allocation_keys d) (k_id k)
      in \<lparr>KeyID' = k_id k, KeyGroupID = k_group k,
          KeyGroupName = (case first_of (\<lambda>g. g_id g = k_group k) (account_groups d) of None \<Rightarrow> [] | Some g \<Rightarrow> g_name g),
          KeyGroupAccess = (if allowed then ''allowed'' else ''blocked''), KeyName = k_name k, KeyPrefix = k_prefix k,
          KeyCreatedAt = k_created_at k, KeyLastUsedAt = k_last_used_at k, KeyRevokedAt = k_revoked_at k, KeyEnabled = k_enabled k,
          KeyExpiresAt = k_expires_at k, Copyable = (k_secret k \<noteq> None \<and> k_revoked_at k = None),
          KeySchemeID = (case scheme of None \<Rightarrow> 0 | Some i \<Rightarrow> i),
          KeySchemeName = (case scheme of None \<Rightarrow> [] | Some i \<Rightarrow>
            (case first_of (\<lambda>s. s_id s = i) (allocation_schemes d) of None \<Rightarrow> [] | Some s \<Rightarrow> s_name s)),
          AllocationRequired = False, CanRestore = False\<rparr>)"

definition describeKey :: "store \<Rightarrow> Key \<Rightarrow> int \<Rightarrow> int \<Rightarrow> Key result" where
  "describeKey d key user now = (case KeyScheme d (KeyID' key) user (KeyGroupID key) now of
     Inr _ \<Rightarrow> Inr key
   | Inl e \<Rightarrow>
       guardR e (\<not> errorsIs e (Alloc AErrUnavailable)) (
       bindR (if KeySchemeID key \<noteq> 0 then Inr key
         else bindR (GetPoolAllocation d (KeyGroupID key)) (\<lambda>scheme.
           if KeyGroupAccess key = ''allowed'' \<and> KeyEnabled key \<and> KeyRevokedAt key = None \<and>
              (case KeyExpiresAt key of None \<Rightarrow> True | Some t \<Rightarrow> t > now)
           then (case Authorize d scheme user (KeyGroupID key) now of
               Inr _ \<Rightarrow> Inr (key\<lparr>AllocationRequired := True, CanRestore := True\<rparr>)
             | Inl e \<Rightarrow> if \<not> errorsIs e (Alloc AErrUnavailable) then Inl e
                 else Inr (key\<lparr>AllocationRequired := True, CanRestore := False\<rparr>))
           else Inr (key\<lparr>AllocationRequired := True\<rparr>))) (\<lambda>key.
       Inr (key\<lparr>KeyGroupAccess := ''blocked''\<rparr>))))"

section \<open>Operations\<close>

text \<open>The key service of a workspace: its vault, SHA-256 and the workspace.\<close>

record KeyService =
  ks_vault :: AEAD
  ks_sum :: "string \<Rightarrow> string"
  ks_tenant :: int

record CreatedKey = CreatedKey' :: Key  Secret :: string

definition maxActiveKeys :: int where
  "maxActiveKeys = 20"

definition validExpiry :: "int option \<Rightarrow> int \<Rightarrow> bool" where
  "validExpiry expiry now = (case expiry of None \<Rightarrow> True | Some t \<Rightarrow> t > now \<and> t \<le> 253402300799)"

definition HasUsableKey :: "KeyService \<Rightarrow> store \<Rightarrow> int \<Rightarrow> int \<Rightarrow> bool result" where
  "HasUsableKey s d user now =
     bindR (ListKeyReadinessCandidates d user (ks_tenant s) now) (\<lambda>candidates.
     foldR (\<lambda>found key. if found then Inr True
       else case KeyScheme d (fst key) user (snd key) now of
         Inr _ \<Rightarrow> Inr True
       | Inl e \<Rightarrow> if \<not> errorsIs e (Alloc AErrUnavailable) then Inl e else Inr False) False candidates)"

text \<open>The secret of a key: a prefix and 32 random bytes.\<close>

definition keySecret :: "string \<Rightarrow> string" where
  "keySecret raw = ''sl_'' @ EncodeToString raw"

text \<open>The pool and the scheme a new key may use.\<close>

definition checkScope :: "KeyService \<Rightarrow> store \<Rightarrow> int \<Rightarrow> int \<Rightarrow> int \<Rightarrow> int \<Rightarrow> group_row result" where
  "checkScope s d user grp scheme now =
     bindR (case GetKeyOwnerEnabled d user of
         Inl e \<Rightarrow> if errorsIs e NoRows then Inl (ApiKey KErrOwnerUnavailable) else Inl e
       | Inr enabled \<Rightarrow> guardR (ApiKey KErrOwnerUnavailable) (\<not> enabled) (Inr ())) (\<lambda>_.
     bindR (CanUseGroup d user grp) (\<lambda>allowed.
     guardR (Groups GErrUnavailable) (\<not> allowed) (
     bindR (if scheme \<noteq> 0
       then (case Authorize d scheme user grp now of Inl e \<Rightarrow> Inl (Groups GErrUnavailable) | Inr _ \<Rightarrow> Inr ())
       else (case GetPoolAllocation d grp of
           Inr _ \<Rightarrow> Inl (Groups GErrUnavailable)
         | Inl e \<Rightarrow> if \<not> errorsIs e NoRows then Inl e else Inr ())) (\<lambda>_.
     case GetTenantGroup d grp (ks_tenant s) of
       Inl e \<Rightarrow> if errorsIs e NoRows then Inl (Groups GErrUnavailable) else Inl e
     | Inr g \<Rightarrow> Inr g))))"

text \<open>The row, its sealed secret and its binding.\<close>

definition storeKey ::
    "KeyService \<Rightarrow> store \<Rightarrow> int \<Rightarrow> int \<Rightarrow> int \<Rightarrow> string \<Rightarrow> int option \<Rightarrow> string \<Rightarrow> string \<Rightarrow> int \<Rightarrow> (store \<times> int \<times> string) result" where
  "storeKey s d user grp scheme name expiry secret nonce createdAt =
     bindR (CreateKey d user grp name (take 11 secret) (ks_sum s secret) createdAt expiry) (\<lambda>(d, i).
     bindR (SealAPIKey (ks_vault s) nonce user i secret) (\<lambda>encrypted.
     bindR (SaveKeySecret d i encrypted) (\<lambda>d.
     if scheme \<noteq> 0
     then bindR (BindKeyAllocation d i scheme) (\<lambda>d.
          bindR (GetAllocationScheme d scheme) (\<lambda>row. Inr (d, i, s_name (fst row))))
     else Inr (d, i, []))))"

definition createKey ::
    "KeyService \<Rightarrow> Actor option \<Rightarrow> (nat \<Rightarrow> int) \<Rightarrow> string \<Rightarrow> string \<Rightarrow> store \<Rightarrow> int \<Rightarrow> int \<Rightarrow> int \<Rightarrow> string \<Rightarrow> int option \<Rightarrow>
     (store \<times> CreatedKey) result" where
  "createKey s actor clk raw nonce d user grp scheme name expiry =
     guardR (ApiKey KErrInput) (grp \<le> 0 \<or> \<not> validExpiry expiry (clk 0)) (
     let name = TrimSpace name; secret = keySecret raw in
     guardR (ApiKey KErrInput) (\<not> plainName name) (
     transaction d (\<lambda>d.
       bindR (checkScope s d user grp scheme (clk 1)) (\<lambda>g.
       bindR (CountActiveKeys d user (ks_tenant s)) (\<lambda>count.
       guardR (ApiKey KErrLimit) (count \<ge> maxActiveKeys) (
       bindR (storeKey s d user grp scheme name expiry secret nonce (clk 2)) (\<lambda>(d, i, schemeName).
       bindR (Record actor (clk 3) d ''key.create'' ''key'' (FormatInt i)) (\<lambda>d.
       Inr (d, \<lparr>CreatedKey' = \<lparr>KeyID' = i, KeyGroupID = grp, KeyGroupName = g_name g, KeyGroupAccess = ''allowed'', KeyName = name,
           KeyPrefix = take 11 secret, KeyCreatedAt = clk 2, KeyLastUsedAt = None, KeyRevokedAt = None, KeyEnabled = True,
           KeyExpiresAt = expiry, Copyable = True, KeySchemeID = scheme, KeySchemeName = schemeName,
           AllocationRequired = False, CanRestore = False\<rparr>, Secret = secret\<rparr>)))))))))"

definition CreateWithExpiry ::
    "KeyService \<Rightarrow> Actor option \<Rightarrow> (nat \<Rightarrow> int) \<Rightarrow> string \<Rightarrow> string \<Rightarrow> store \<Rightarrow> int \<Rightarrow> int \<Rightarrow> string \<Rightarrow> int option \<Rightarrow>
     (store \<times> CreatedKey) result" where
  "CreateWithExpiry s actor clk raw nonce d user grp name expiry = createKey s actor clk raw nonce d user grp 0 name expiry"

definition CreateInGroup ::
    "KeyService \<Rightarrow> Actor option \<Rightarrow> (nat \<Rightarrow> int) \<Rightarrow> string \<Rightarrow> string \<Rightarrow> store \<Rightarrow> int \<Rightarrow> int \<Rightarrow> string \<Rightarrow> (store \<times> CreatedKey) result" where
  "CreateInGroup s actor clk raw nonce d user grp name = CreateWithExpiry s actor clk raw nonce d user grp name None"

definition CreateInScheme ::
    "KeyService \<Rightarrow> Actor option \<Rightarrow> (nat \<Rightarrow> int) \<Rightarrow> string \<Rightarrow> string \<Rightarrow> store \<Rightarrow> int \<Rightarrow> int \<Rightarrow> string \<Rightarrow> int option \<Rightarrow>
     (store \<times> CreatedKey) result" where
  "CreateInScheme s actor clk raw nonce d user scheme name expiry =
     guardR (ApiKey KErrInput) (scheme \<le> 0) (
     case GetAllocationScheme d scheme of
       Inl e \<Rightarrow> Inl (Groups GErrUnavailable)
     | Inr row \<Rightarrow> createKey s actor clk raw nonce d user (s_group (fst row)) scheme name expiry)"

text \<open>A key without a scope is not created.\<close>

definition Create :: "int \<Rightarrow> string \<Rightarrow> CreatedKey result" where
  "Create user name = Inl (ApiKey KErrInput)"

definition ownKey :: "KeyService \<Rightarrow> store \<Rightarrow> int \<Rightarrow> int \<Rightarrow> key_row result" where
  "ownKey s d user key = (case GetKey d key user (ks_tenant s) of
     Inl e \<Rightarrow> if errorsIs e NoRows then Inl (ApiKey KErrNotFound) else Inl e
   | Inr k \<Rightarrow> Inr k)"

text \<open>The pool of a key whose models its owner may list, without its secret.\<close>

definition CatalogGroup :: "KeyService \<Rightarrow> (nat \<Rightarrow> int) \<Rightarrow> store \<Rightarrow> int \<Rightarrow> int \<Rightarrow> int result" where
  "CatalogGroup s clk d user key =
     bindR (ownKey s d user key) (\<lambda>k.
     guardR (ApiKey KErrInactive) (k_revoked_at k \<noteq> None \<or> \<not> k_enabled k \<or>
         (case k_expires_at k of None \<Rightarrow> False | Some t \<Rightarrow> t \<le> clk 0)) (
     case KeyScheme d (k_id k) user (k_group k) (clk 1) of
       Inl e \<Rightarrow> Inl (Groups GErrUnavailable)
     | Inr _ \<Rightarrow> guardR (Groups GErrUnavailable) (KeyGroupAccess (keyValue d k) \<noteq> ''allowed'') (Inr (k_group k))))"

definition Update ::
    "KeyService \<Rightarrow> Actor option \<Rightarrow> (nat \<Rightarrow> int) \<Rightarrow> store \<Rightarrow> int \<Rightarrow> int \<Rightarrow> string \<Rightarrow> bool \<Rightarrow> int option \<Rightarrow> (store \<times> Key) result" where
  "Update s actor clk d user key name enabled expiry =
     (let name = TrimSpace name in
      guardR (ApiKey KErrInput) (\<not> plainName name) (
      transaction d (\<lambda>d.
        bindR (ownKey s d user key) (\<lambda>k.
        guardR (ApiKey KErrRevoked) (k_revoked_at k \<noteq> None) (
        let unchanged = k_expires_at k \<noteq> None \<and> expiry = k_expires_at k;
            value = (keyValue d k)\<lparr>KeyName := name, KeyEnabled := enabled, KeyExpiresAt := expiry\<rparr> in
        guardR (ApiKey KErrInput) (\<not> unchanged \<and> \<not> validExpiry expiry (clk 0)) (
        bindR (UpdateKey d key user name enabled expiry) (\<lambda>d.
        bindR (Record actor (clk 1) d ''key.update'' ''key'' (FormatInt key)) (\<lambda>d.
        bindR (describeKey d value user (clk 2)) (\<lambda>value. Inr (d, value)))))))))) "

text \<open>Revoking a key again changes nothing. The answer does not describe a revoked key as copyable.\<close>

definition Revoke :: "KeyService \<Rightarrow> Actor option \<Rightarrow> (nat \<Rightarrow> int) \<Rightarrow> store \<Rightarrow> int \<Rightarrow> int \<Rightarrow> (store \<times> Key) result" where
  "Revoke s actor clk d user key =
     transaction d (\<lambda>d.
       bindR (ownKey s d user key) (\<lambda>k.
       let value = keyValue d k in
       if k_revoked_at k \<noteq> None then Inr (d, value)
       else bindR (RevokeKey d (clk 0) key user) (\<lambda>d.
            bindR (Record actor (clk 1) d ''key.revoke'' ''key'' (FormatInt key)) (\<lambda>d.
            Inr (d, value\<lparr>Copyable := False, KeyRevokedAt := Some (clk 0)\<rparr>)))))"

text \<open>A key moves to another pool; its binding to a scheme is replaced by that of the pool.\<close>

definition Rebind :: "KeyService \<Rightarrow> Actor option \<Rightarrow> (nat \<Rightarrow> int) \<Rightarrow> store \<Rightarrow> int \<Rightarrow> int \<Rightarrow> int \<Rightarrow> (store \<times> Key) result" where
  "Rebind s actor clk d user key grp =
     guardR (ApiKey KErrInput) (key \<le> 0 \<or> grp \<le> 0) (
     transaction d (\<lambda>d.
       bindR (ownKey s d user key) (\<lambda>k.
       guardR (ApiKey KErrRevoked) (k_revoked_at k \<noteq> None) (
       bindR (case GetTenantGroup d grp (ks_tenant s) of
           Inl e \<Rightarrow> if errorsIs e NoRows then Inl (Groups GErrUnavailable) else Inl e
         | Inr g \<Rightarrow> Inr g) (\<lambda>_.
       bindR (CanUseGroup d user grp) (\<lambda>allowed.
       guardR (Groups GErrUnavailable) (\<not> allowed) (
       bindR (case GetPoolAllocation d grp of
           Inr scheme \<Rightarrow> (case Authorize d scheme user grp (clk 0) of
               Inl e \<Rightarrow> Inl (if errorsIs e (Alloc AErrUnavailable) then Groups GErrUnavailable else e)
             | Inr _ \<Rightarrow> Inr scheme)
         | Inl e \<Rightarrow> if \<not> errorsIs e NoRows then Inl e else Inr 0) (\<lambda>scheme.
       bindR (ClearKeyAllocation d key) (\<lambda>d.
       bindR (RebindKeyGroup d key user grp) (\<lambda>d.
       bindR (if scheme \<noteq> 0 then BindKeyAllocation d key scheme else Inr d) (\<lambda>d.
       bindR (Record actor (clk 1) d ''key.update'' ''key'' (FormatInt key)) (\<lambda>d.
       bindR (GetKey d key user (ks_tenant s)) (\<lambda>k. Inr (d, keyValue d k))))))))))))))"

text \<open>
  The principal of a request. Authentication writes the time of use at most once a minute; the
  principal Go returns beside an error of this write is not used by its callers.
\<close>

record Principal = PrincipalKey :: int  PrincipalUser :: int  PrincipalGroup :: int  PrincipalTenant :: int

definition secretBytes :: "string \<Rightarrow> string option" where
  "secretBytes secret = (if length secret \<noteq> 46 \<or> take 3 secret \<noteq> ''sl_'' then None
     else case DecodeString (drop 3 secret) of None \<Rightarrow> None | Some raw \<Rightarrow> if length raw = 32 then Some raw else None)"

definition Authenticate :: "KeyService \<Rightarrow> int \<Rightarrow> store \<Rightarrow> string \<Rightarrow> (store \<times> Principal) result" where
  "Authenticate s now d secret =
     guardR (ApiKey KErrInvalidKey) (secretBytes secret = None) (
     case AuthenticateKey d (ks_sum s secret) (ks_tenant s) now of
       Inl e \<Rightarrow> if errorsIs e NoRows then Inl (ApiKey KErrInvalidKey) else Inl e
     | Inr (i, user, grp) \<Rightarrow> (case KeyScheme d i user grp now of
         Inl e \<Rightarrow> if errorsIs e (Alloc AErrUnavailable) then Inl (ApiKey KErrInvalidKey) else Inl e
       | Inr _ \<Rightarrow> bindR (TouchKey d now i (now - 60)) (\<lambda>d.
           Inr (d, \<lparr>PrincipalKey = i, PrincipalUser = user, PrincipalGroup = grp, PrincipalTenant = ks_tenant s\<rparr>))))"

section \<open>Disclosure\<close>

definition decryptSecret :: "KeyService \<Rightarrow> int \<Rightarrow> int \<Rightarrow> string \<Rightarrow> string \<Rightarrow> string result" where
  "decryptSecret s user key encrypted hash =
     bindR (OpenAPIKey (ks_vault s) user key encrypted) (\<lambda>plain.
     guardR (Vault VErrDecrypt) (length plain \<noteq> 46 \<or> ks_sum s plain \<noteq> hash) (Inr plain))"

definition Reveal :: "KeyService \<Rightarrow> Actor option \<Rightarrow> int \<Rightarrow> store \<Rightarrow> int \<Rightarrow> int \<Rightarrow> (store \<times> string) result" where
  "Reveal s actor now d user key =
     transaction d (\<lambda>d.
       case GetKeySecret d key user (ks_tenant s) of
         Inl e \<Rightarrow> if errorsIs e NoRows then Inl (ApiKey KErrNotFound) else Inl e
       | Inr row \<Rightarrow>
         guardR (ApiKey KErrRevoked) (k_revoked_at row \<noteq> None) (
         case k_secret row of None \<Rightarrow> Inl (ApiKey KErrNotCopyable)
         | Some secret \<Rightarrow>
           bindR (decryptSecret s (k_user row) (k_id row) secret (k_token_hash row)) (\<lambda>plain.
           bindR (Record actor now d ''key.reveal'' ''key'' (FormatInt key)) (\<lambda>d. Inr (d, plain)))))"

definition checkSecret :: "KeyService \<Rightarrow> key_row \<Rightarrow> string result" where
  "checkSecret s k = (case k_secret k of None \<Rightarrow> Inr [] | Some secret \<Rightarrow> decryptSecret s (k_user k) (k_id k) secret (k_token_hash k))"

text \<open>The pages of a start-up check of every stored secret; the cursor is the last key checked.\<close>

function Verify :: "KeyService \<Rightarrow> store \<Rightarrow> int \<Rightarrow> unit result" where
  "Verify s d cursor = (case ListKeySecrets d cursor of
     Inl e \<Rightarrow> Inl e
   | Inr rows \<Rightarrow>
       (case mapR (checkSecret s) rows of Inl e \<Rightarrow> Inl e
        | Inr _ \<Rightarrow> if length rows < 100 then Inr () else Verify s d (k_id (last rows))))"
  by pat_completeness auto

lemma ListKeySecrets_page:
  assumes "ListKeySecrets d cursor = Inr rows" "rows \<noteq> []"
  shows "last rows \<in> set (api_keys d)" "cursor < k_id (last rows)"
proof -
  have "last rows \<in> set rows" using assms(2) by simp
  then have "last rows \<in> set (sort_key k_id (filter (\<lambda>k. k_secret k \<noteq> None \<and> k_id k > cursor) (api_keys d)))"
    using assms(1) by (auto simp: ListKeySecrets_def res_simps dest: in_set_takeD)
  then show "last rows \<in> set (api_keys d)" "cursor < k_id (last rows)" by simp_all
qed

termination Verify
proof (relation "measure (\<lambda>(s, d, cursor). length (filter (\<lambda>k. k_id k > cursor) (api_keys d)))")
  fix s d cursor rows us
  assume r: "ListKeySecrets d cursor = Inr rows" and n: "\<not> length rows < 100"
  then have P: "last rows \<in> set (api_keys d)" "cursor < k_id (last rows)" using ListKeySecrets_page [OF r] by force+
  let ?n = "\<lambda>c. filter (\<lambda>k. k_id k > c) (api_keys d)"
  have "?n (k_id (last rows)) = filter (\<lambda>k. k_id k > k_id (last rows)) (?n cursor)" using P(2) by (auto intro!: filter_cong)
  moreover have "last rows \<in> set (?n cursor)" using P by simp
  ultimately have "length (?n (k_id (last rows))) < length (?n cursor)"
    by (metis (mono_tags, lifting) filter_id_conv length_filter_less less_irrefl)
  then show "((s, d, k_id (last rows)), (s, d, cursor)) \<in> measure (\<lambda>(s, d, cursor). length (filter (\<lambda>k. k_id k > cursor) (api_keys d)))"
    by simp
qed simp

declare Verify.simps [simp del]

section \<open>Lists of keys\<close>

record KeyFilter =
  kf_BeforeID :: int
  kf_Page :: int
  kf_Limit :: int
  kf_IncludeRevoked :: bool

record KeyPage =
  kp_Metadata :: Metadata
  kp_ServerTime :: int
  kp_Keys :: "Key list"
  kp_NextCursor :: int

definition listedKey :: "store \<Rightarrow> int \<Rightarrow> int \<Rightarrow> bool \<Rightarrow> key_row \<Rightarrow> bool" where
  "listedKey d user tenant includeRevoked k \<longleftrightarrow> k_user k = user \<and> keyTenant d tenant k \<and> list_ex (\<lambda>u. u_id u = user) (users d) \<and>
     (k_revoked_at k = None \<or> includeRevoked)"

definition CountKeys :: "store \<Rightarrow> int \<Rightarrow> int \<Rightarrow> bool \<Rightarrow> int result" where
  "CountKeys d user tenant includeRevoked = query d ''CountKeys''
     (int (length (filter (listedKey d user tenant includeRevoked) (api_keys d))))"

definition ListKeys :: "store \<Rightarrow> int \<Rightarrow> int \<Rightarrow> int \<Rightarrow> bool \<Rightarrow> int \<Rightarrow> int \<Rightarrow> key_row list result" where
  "ListKeys d user tenant beforeID includeRevoked pageLimit pageOffset = query d ''ListKeys''
     (take (nat pageLimit) (drop (nat pageOffset) (rev (sort_key k_id
        (filter (\<lambda>k. listedKey d user tenant includeRevoked k \<and> (k_id k < beforeID \<or> beforeID = 0)) (api_keys d))))))"

definition ListPage :: "KeyService \<Rightarrow> (nat \<Rightarrow> int) \<Rightarrow> store \<Rightarrow> int \<Rightarrow> KeyFilter \<Rightarrow> KeyPage result" where
  "ListPage s clk d user f =
     (let bounds = \<lparr>in_Page = kf_Page f, in_Limit = kf_Limit f, in_Cursor = kf_BeforeID f\<rparr> in
      guardR (ApiKey KErrInput) (\<not> validInput bounds) (
      bindR (query d ''BeginTx'' ()) (\<lambda>_.
      bindR (CountKeys d user (ks_tenant s) (kf_IncludeRevoked f)) (\<lambda>n.
      let meta = Resolve bounds n in
      bindR (ListKeys d user (ks_tenant s) (kf_BeforeID f) (kf_IncludeRevoked f) (PageSize meta + 1) (Offset meta)) (\<lambda>rows.
      let more = int (length rows) > PageSize meta;
          rows = (if more then take (nat (PageSize meta)) rows else rows) in
      bindR (mapR (\<lambda>k. describeKey d (keyValue d k) user (clk 1)) rows) (\<lambda>keys.
      bindR (query d ''Commit'' ()) (\<lambda>_.
      Inr \<lparr>kp_Metadata = meta, kp_ServerTime = clk 0, kp_Keys = keys,
           kp_NextCursor = (if more then k_id (last rows) else 0)\<rparr>)))))))"

end
