(* ===== verification/User_Names.thy ===== *)
theory User_Names
  imports Names
begin

text \<open>User names and pool names: the lower case of a text, and equality under SQLite's \<open>NOCASE\<close> collation.\<close>

text \<open>
  \<open>strings.ToLower\<close>, as far as it decides which ASCII name a text becomes: the letters, and the two other
  runes whose lower case is ASCII (the Kelvin sign and the dotted capital I). Other text stays outside ASCII.
\<close>

fun ToLower :: "string \<Rightarrow> string" where
  "ToLower [] = []"
| "ToLower (c # r) =
     (if c = CHR 0xE2 \<and> take 2 r = [CHR 0x84, CHR 0xAA] then CHR ''k'' # ToLower (drop 2 r)
      else if c = CHR 0xC4 \<and> take 1 r = [CHR 0xB0] then CHR ''i'' # ToLower (drop 1 r)
      else (if 65 \<le> (of_char c :: nat) \<and> (of_char c :: nat) \<le> 90 then char_of ((of_char c :: nat) + 32) else c) # ToLower r)"

text \<open>Equality under SQLite's \<open>NOCASE\<close> collation, which folds ASCII letters only.\<close>

definition nocase :: "char \<Rightarrow> char" where
  "nocase c = (let n = of_char c :: nat in if 65 \<le> n \<and> n \<le> 90 then char_of (n + 32) else c)"

definition sameName :: "string \<Rightarrow> string \<Rightarrow> bool" where
  "sameName a b \<longleftrightarrow> map nocase a = map nocase b"

lemma sameName_refl [simp]: "sameName a a"
  by (simp add: sameName_def)

lemma sameName_sym: "sameName a b \<Longrightarrow> sameName b a"
  by (simp add: sameName_def)

lemma sameName_trans: "sameName a b \<Longrightarrow> sameName b c \<Longrightarrow> sameName a c"
  by (simp add: sameName_def)

end
