(* ===== verification/Tenants.thy ===== *)
theory Tenants
  imports Keys User_Names
begin

text \<open>
  Workspaces and their members (\<open>internal/tenants/tenants.go\<close>, \<open>removal.go\<close>): creation, roles, joining,
  removal and the pages of members, with the statements they run. Statements the code spells out are named
  after what they do.
\<close>

section \<open>Statements\<close>

definition ownsWorkspaces :: "store \<Rightarrow> int \<Rightarrow> nat" where
  "ownsWorkspaces d user = length (filter (\<lambda>t. t_owner t = user) (tenants d))"

text \<open>The partial index \<open>memberships_one_owner\<close>.\<close>

definition oneOwner :: "membership_row list \<Rightarrow> bool" where
  "oneOwner ms \<longleftrightarrow> distinct (map m_tenant (filter (\<lambda>m. m_role m = ''owner'') ms))"

definition newMembership :: "int \<Rightarrow> int \<Rightarrow> string \<Rightarrow> int \<Rightarrow> membership_row" where
  "newMembership tenant user role now =
     \<lparr>m_tenant = tenant, m_user = user, m_role = role, m_enabled = True, m_requests_per_minute = 0, m_max_concurrency = 10,
      m_removed_at = None, m_first_request_at = 0, m_created_at = now\<rparr>"

definition isMember :: "int \<Rightarrow> int \<Rightarrow> membership_row \<Rightarrow> bool" where
  "isMember tenant user m \<longleftrightarrow> m_tenant m = tenant \<and> m_user m = user"

definition InsertTenant :: "store \<Rightarrow> int \<Rightarrow> string \<Rightarrow> int \<Rightarrow> int \<Rightarrow> store result" where
  "InsertTenant d i name owner now = exec d ''InsertTenant''
     (\<not> list_ex (\<lambda>t. t_id t = i) (tenants d) \<and> list_ex (\<lambda>u. u_id u = owner) (users d))
     (d\<lparr>tenants := tenants d @ [\<lparr>t_id = i, t_status = ''active'', t_name = name, t_owner = owner, t_created_at = now\<rparr>]\<rparr>)"

definition InsertMembership :: "store \<Rightarrow> int \<Rightarrow> int \<Rightarrow> string \<Rightarrow> int \<Rightarrow> store result" where
  "InsertMembership d tenant user role now = exec d ''InsertMembership''
     (list_ex (\<lambda>t. t_id t = tenant) (tenants d) \<and> list_ex (\<lambda>u. u_id u = user) (users d) \<and>
      \<not> list_ex (isMember tenant user) (memberships d) \<and> oneOwner (memberships d @ [newMembership tenant user role now]))
     (d\<lparr>memberships := memberships d @ [newMembership tenant user role now]\<rparr>)"

text \<open>A membership whose tenant is active and whose member is enabled, with the owner of the workspace.\<close>

definition liveMembership :: "store \<Rightarrow> int \<Rightarrow> int \<Rightarrow> (membership_row \<times> tenant_row) option" where
  "liveMembership d tenant user =
     (case first_of (\<lambda>m. isMember tenant user m \<and> m_enabled m) (memberships d) of None \<Rightarrow> None
      | Some m \<Rightarrow> (case first_of (\<lambda>t. t_id t = tenant \<and> t_status t = ''active'') (tenants d) of None \<Rightarrow> None
        | Some t \<Rightarrow> if list_ex (\<lambda>u. u_id u = user \<and> u_enabled u) (users d) then Some (m, t) else None))"

definition ActorRole' :: "store \<Rightarrow> int \<Rightarrow> int \<Rightarrow> (string \<times> int) result" where
  "ActorRole' d tenant actor = queryRow d ''ActorRole'' (map_option (\<lambda>(m, t). (m_role m, t_owner t)) (liveMembership d tenant actor))"

definition EnabledUserNamed :: "store \<Rightarrow> string \<Rightarrow> int result" where
  "EnabledUserNamed d name = queryRow d ''EnabledUserNamed''
     (map_option u_id (first_of (\<lambda>u. sameName (u_username u) name \<and> u_enabled u) (users d)))"

definition manages :: "store \<Rightarrow> int \<Rightarrow> int \<Rightarrow> bool" where
  "manages d tenant actor \<longleftrightarrow>
     list_ex (\<lambda>m. isMember tenant actor m \<and> (m_role m = ''owner'' \<or> m_role m = ''admin'') \<and> m_enabled m) (memberships d) \<and>
     list_ex (\<lambda>t. t_id t = tenant \<and> t_status t = ''active'') (tenants d) \<and> list_ex (\<lambda>u. u_id u = actor \<and> u_enabled u) (users d)"

definition CanManageTenant :: "store \<Rightarrow> int \<Rightarrow> int \<Rightarrow> bool result" where
  "CanManageTenant d tenant actor = query d ''CanManageTenant'' (manages d tenant actor)"

definition MemberExistsInTenant :: "store \<Rightarrow> int \<Rightarrow> int \<Rightarrow> bool result" where
  "MemberExistsInTenant d tenant user = query d ''MemberExistsInTenant''
     (list_ex (\<lambda>m. isMember tenant user m \<and> m_removed_at m = None) (memberships d))"

definition GetTenantMember :: "store \<Rightarrow> int \<Rightarrow> int \<Rightarrow> (user_row \<times> membership_row) result" where
  "GetTenantMember d tenant user = queryRow d ''GetTenantMember''
     (case first_of (isMember tenant user) (memberships d) of None \<Rightarrow> None
      | Some m \<Rightarrow> map_option (\<lambda>u. (u, m)) (first_of (\<lambda>u. u_id u = user) (users d)))"

definition mapMembers :: "(membership_row \<Rightarrow> bool) \<Rightarrow> (membership_row \<Rightarrow> membership_row) \<Rightarrow> store \<Rightarrow> store" where
  "mapMembers hit f d = d\<lparr>memberships := map (\<lambda>m. if hit m then f m else m) (memberships d)\<rparr>"

text \<open>The number of rows it changed.\<close>

definition SetTenantMemberEnabled :: "store \<Rightarrow> int \<Rightarrow> int \<Rightarrow> bool \<Rightarrow> (store \<times> nat) result" where
  "SetTenantMemberEnabled d tenant user enabled =
     (let hit = (\<lambda>m. isMember tenant user m \<and> m_role m = ''member'' \<and> m_removed_at m = None) in
      exec d ''SetTenantMemberEnabled'' True
        (mapMembers hit (\<lambda>m. m\<lparr>m_enabled := enabled\<rparr>) d, length (filter hit (memberships d))))"

definition UpdateTenantMemberRole :: "store \<Rightarrow> int \<Rightarrow> int \<Rightarrow> string \<Rightarrow> store result" where
  "UpdateTenantMemberRole d tenant user role =
     (let d' = mapMembers (\<lambda>m. isMember tenant user m \<and> (m_role m = ''member'' \<or> m_role m = ''admin'') \<and> m_removed_at m = None)
            (\<lambda>m. m\<lparr>m_role := role\<rparr>) d in
      exec d ''UpdateTenantMemberRole'' (role \<in> {''owner'', ''admin'', ''member''} \<and> oneOwner (memberships d')) d')"

text \<open>A member who comes back starts with the limits of a new one.\<close>

definition rejoined :: "string \<Rightarrow> int \<Rightarrow> membership_row \<Rightarrow> membership_row" where
  "rejoined role now m = (if m_removed_at m = None then m\<lparr>m_role := role, m_enabled := True\<rparr>
     else m\<lparr>m_role := role, m_enabled := True, m_requests_per_minute := 0, m_max_concurrency := 10, m_first_request_at := 0,
         m_created_at := now, m_removed_at := None\<rparr>)"

definition AddTenantMember :: "store \<Rightarrow> int \<Rightarrow> int \<Rightarrow> string \<Rightarrow> int \<Rightarrow> (store \<times> nat) result" where
  "AddTenantMember d tenant user role now =
     (if \<not> list_ex (\<lambda>u. u_id u = user \<and> u_enabled u) (users d) then exec d ''AddTenantMember'' True (d, 0)
      else let d' = (if list_ex (isMember tenant user) (memberships d) then mapMembers (isMember tenant user) (rejoined role now) d
             else d\<lparr>memberships := memberships d @ [newMembership tenant user role now]\<rparr>) in
        exec d ''AddTenantMember'' (list_ex (\<lambda>t. t_id t = tenant) (tenants d) \<and> role \<in> {''owner'', ''admin'', ''member''} \<and>
          oneOwner (memberships d')) (d', 1))"

text \<open>The check of the column \<open>removed_at\<close> only admits positive times.\<close>

definition RemoveTenantMember :: "store \<Rightarrow> int \<Rightarrow> int \<Rightarrow> int \<Rightarrow> store result" where
  "RemoveTenantMember d tenant user now =
     (let hit = (\<lambda>m. isMember tenant user m \<and> m_role m \<noteq> ''owner'' \<and> m_removed_at m = None) in
      exec d ''RemoveTenantMember'' (now > 0 \<or> \<not> list_ex hit (memberships d))
        (mapMembers hit (\<lambda>m. m\<lparr>m_enabled := False, m_removed_at := Some now\<rparr>) d))"

definition ClearMemberGroups :: "store \<Rightarrow> int \<Rightarrow> int \<Rightarrow> store result" where
  "ClearMemberGroups d tenant user = exec d ''ClearMemberGroups'' True
     (d\<lparr>group_members := filter (\<lambda>(g, u). \<not> (u = user \<and> list_ex (\<lambda>r. g_id r = g \<and> g_tenant r = tenant) (account_groups d)))
        (group_members d)\<rparr>)"

definition RevokeTenantMemberKeys :: "store \<Rightarrow> int \<Rightarrow> int \<Rightarrow> int \<Rightarrow> store result" where
  "RevokeTenantMemberKeys d tenant user now = exec d ''RevokeTenantMemberKeys'' True
     (mapKeys (\<lambda>k. k_user k = user \<and> keyTenant d tenant k) (revokedRow now) d)"

definition SuspendTenant :: "store \<Rightarrow> int \<Rightarrow> (store \<times> nat) result" where
  "SuspendTenant d tenant = exec d ''SuspendTenant'' True
     (d\<lparr>tenants := map (\<lambda>t. if t_id t = tenant then t\<lparr>t_status := ''suspended''\<rparr> else t) (tenants d)\<rparr>,
      length (filter (\<lambda>t. t_id t = tenant) (tenants d)))"

text \<open>The members of a workspace with their user, by user.\<close>

definition tenantMembers :: "store \<Rightarrow> int \<Rightarrow> (user_row \<times> membership_row) list" where
  "tenantMembers d tenant = sort_key (\<lambda>(u, m). u_id u)
     (concat (map (\<lambda>m. if m_tenant m = tenant \<and> m_removed_at m = None \<and> m_role m \<in> {''owner'', ''member'', ''admin''}
        then map (\<lambda>u. (u, m)) (filter (\<lambda>u. u_id u = m_user m) (users d)) else []) (memberships d)))"

definition CountTenantMembers :: "store \<Rightarrow> int \<Rightarrow> int result" where
  "CountTenantMembers d tenant = query d ''CountTenantMembers'' (int (length (tenantMembers d tenant)))"

definition ListTenantMembers :: "store \<Rightarrow> int \<Rightarrow> int \<Rightarrow> int \<Rightarrow> int \<Rightarrow> (user_row \<times> membership_row) list result" where
  "ListTenantMembers d tenant beforeID pageLimit pageOffset = query d ''ListTenantMembers''
     (take (nat pageLimit) (drop (nat pageOffset)
        (rev (filter (\<lambda>(u, m). u_id u < beforeID \<or> beforeID = 0) (tenantMembers d tenant)))))"

section \<open>Operations\<close>

record Tenant = TenantID' :: int  TenantName :: string  TenantStatus :: string

record MemberSummary =
  ms_ID :: int
  ms_Username :: string
  ms_Role :: string
  ms_Enabled :: bool
  ms_CreatedAt :: int
  ms_CanRemove :: bool

record MemberPage = mp_Metadata :: Metadata  mp_Members :: "MemberSummary list"  mp_NextCursor :: int

record Member = MemberTenantID :: int  MemberUserID :: int  MemberRole :: string

definition memberSummary :: "user_row \<times> membership_row \<Rightarrow> MemberSummary" where
  "memberSummary = (\<lambda>(u, m). \<lparr>ms_ID = u_id u, ms_Username = u_username u, ms_Role = m_role m, ms_Enabled = (m_enabled m \<and> u_enabled u),
     ms_CreatedAt = m_created_at m, ms_CanRemove = False\<rparr>)"

definition MaxOwnedWorkspaces :: nat where
  "MaxOwnedWorkspaces = 10"

definition NormalizeName :: "string \<Rightarrow> string result" where
  "NormalizeName name = (let name = TrimSpace name in guardR (Tenant TErrInput) (\<not> plainName name) (Inr name))"

definition ListMembersPage :: "store \<Rightarrow> int \<Rightarrow> Input \<Rightarrow> MemberPage result" where
  "ListMembersPage d tenant bounds =
     guardR (Tenant TErrInput) (\<not> validInput bounds) (
     bindR (query d ''BeginTx'' ()) (\<lambda>_.
     bindR (CountTenantMembers d tenant) (\<lambda>n.
     let meta = Resolve bounds n in
     bindR (ListTenantMembers d tenant (in_Cursor bounds) (PageSize meta + 1) (Offset meta)) (\<lambda>rows.
     let members = map memberSummary rows;
         more = int (length members) > PageSize meta;
         members = (if more then take (nat (PageSize meta)) members else members) in
     bindR (query d ''Commit'' ()) (\<lambda>_.
     Inr \<lparr>mp_Metadata = meta, mp_Members = members, mp_NextCursor = (if more then ms_ID (last members) else 0)\<rparr>)))))"

definition ListMembers :: "store \<Rightarrow> int \<Rightarrow> int \<Rightarrow> MemberPage result" where
  "ListMembers d tenant beforeID = ListMembersPage d tenant \<lparr>in_Page = 0, in_Limit = 0, in_Cursor = beforeID\<rparr>"

definition SetMemberEnabled :: "Actor option \<Rightarrow> int \<Rightarrow> store \<Rightarrow> int \<Rightarrow> int \<Rightarrow> int \<Rightarrow> bool \<Rightarrow> (store \<times> MemberSummary) result" where
  "SetMemberEnabled ctx now d actor tenant user enabled =
     transaction d (\<lambda>d.
       bindR (CanManageTenant d tenant actor) (\<lambda>allowed.
       guardR (Tenant TErrForbidden) (\<not> allowed) (
       bindR (SetTenantMemberEnabled d tenant user enabled) (\<lambda>(d, updated).
       guardR (Tenant TErrNotFound) (updated \<noteq> 1) (
       bindR (GetTenantMember d tenant user) (\<lambda>row.
       bindR (Record ctx now d ''member.update'' ''member'' (FormatInt user)) (\<lambda>d. Inr (d, memberSummary row))))))))"

definition AllIDs :: "store \<Rightarrow> int list result" where
  "AllIDs d = query d ''AllIDs'' (sort (map t_id (tenants d)))"

text \<open>The first workspace and the membership of an accepted invitation, inside the caller's transaction.\<close>

definition CreateInitial :: "store \<Rightarrow> int \<Rightarrow> int \<Rightarrow> string \<Rightarrow> store result" where
  "CreateInitial d owner now name =
     bindR (InsertTenant d 1 name owner now) (\<lambda>d. InsertMembership d 1 owner ''owner'' now)"

definition AddNewMember :: "store \<Rightarrow> int \<Rightarrow> int \<Rightarrow> int \<Rightarrow> store result" where
  "AddNewMember d tenant user now = InsertMembership d tenant user ''member'' now"

definition ListTenants :: "store \<Rightarrow> int \<Rightarrow> Tenant list result" where
  "ListTenants d user = query d ''ListTenants''
     (map (\<lambda>t. \<lparr>TenantID' = t_id t, TenantName = t_name t, TenantStatus = t_status t\<rparr>)
        (sort_key t_id (filter (\<lambda>t. list_ex (\<lambda>m. isMember (t_id t) user m \<and> m_enabled m) (memberships d) \<and>
           list_ex (\<lambda>u. u_id u = user \<and> u_enabled u) (users d)) (tenants d))))"

definition CreateTenant :: "int \<Rightarrow> store \<Rightarrow> int \<Rightarrow> string \<Rightarrow> (store \<times> Tenant) result" where
  "CreateTenant now d owner name =
     bindR (NormalizeName name) (\<lambda>name.
     transaction d (\<lambda>d.
       bindR (case queryRow d ''OwnerEnabled'' (map_option u_enabled (first_of (\<lambda>u. u_id u = owner) (users d))) of
           Inl e \<Rightarrow> if errorsIs e NoRows then Inl (Tenant TErrForbidden) else Inl e
         | Inr enabled \<Rightarrow> guardR (Tenant TErrForbidden) (\<not> enabled) (Inr ())) (\<lambda>_.
       bindR (query d ''CountOwned'' (ownsWorkspaces d owner)) (\<lambda>owned.
       guardR (Tenant TErrWorkspaceLimit) (owned \<ge> MaxOwnedWorkspaces) (
       let i = nextID (map t_id (tenants d)) in
       bindR (InsertTenant d i name owner now) (\<lambda>d.
       bindR (InsertMembership d i owner ''owner'' now) (\<lambda>d.
       Inr (d, \<lparr>TenantID' = i, TenantName = name, TenantStatus = ''active''\<rparr>))))))))"

text \<open>Someone joins by identifier or, when \<open>name\<close> is not empty, by user name.\<close>

definition addMember ::
    "Actor option \<Rightarrow> (nat \<Rightarrow> int) \<Rightarrow> store \<Rightarrow> int \<Rightarrow> int \<Rightarrow> int \<Rightarrow> string \<Rightarrow> string \<Rightarrow> (store \<times> MemberSummary) result" where
  "addMember ctx clk d actor tenant user name role =
     guardR (Tenant TErrInput) (role \<noteq> ''admin'' \<and> role \<noteq> ''member'') (
     transaction d (\<lambda>d.
       bindR (case ActorRole' d tenant actor of
           Inl e \<Rightarrow> if errorsIs e NoRows then Inl (Tenant TErrForbidden) else Inl e
         | Inr r \<Rightarrow> Inr r) (\<lambda>(actorRole, owner).
       guardR (Tenant TErrForbidden) (actorRole \<noteq> ''owner'' \<and> actorRole \<noteq> ''admin'') (
       bindR (if name \<noteq> [] then (case EnabledUserNamed d name of
             Inl e \<Rightarrow> if errorsIs e NoRows then Inl (Tenant TErrInput) else Inl e
           | Inr i \<Rightarrow> Inr i) else Inr user) (\<lambda>user.
       guardR (Tenant TErrForbidden) (user = owner) (
       bindR (if name \<noteq> [] then MemberExistsInTenant d tenant user else Inr False) (\<lambda>exists.
       guardR (Tenant TErrAlreadyMember) exists (
       bindR (AddTenantMember d tenant user role (clk 0)) (\<lambda>(d, affected).
       guardR (Tenant TErrInput) (affected = 0) (
       bindR (GetTenantMember d tenant user) (\<lambda>row.
       bindR (Record ctx (clk 1) d ''member.update'' ''member'' (FormatInt user)) (\<lambda>d. Inr (d, memberSummary row)))))))))))))"

definition AddMember ::
    "Actor option \<Rightarrow> (nat \<Rightarrow> int) \<Rightarrow> store \<Rightarrow> int \<Rightarrow> int \<Rightarrow> int \<Rightarrow> string \<Rightarrow> store result" where
  "AddMember ctx clk d actor tenant user role = bindR (addMember ctx clk d actor tenant user [] role) (\<lambda>(d, _). Inr d)"

definition AddMemberByUsername ::
    "Actor option \<Rightarrow> (nat \<Rightarrow> int) \<Rightarrow> store \<Rightarrow> int \<Rightarrow> int \<Rightarrow> string \<Rightarrow> string \<Rightarrow> (store \<times> MemberSummary) result" where
  "AddMemberByUsername ctx clk d actor tenant name role =
     (let name = ToLower (TrimSpace name) in
      guardR (Tenant TErrInput) (name = []) (addMember ctx clk d actor tenant 0 name role))"

definition SetMemberRole :: "Actor option \<Rightarrow> int \<Rightarrow> store \<Rightarrow> int \<Rightarrow> int \<Rightarrow> int \<Rightarrow> string \<Rightarrow> (store \<times> MemberSummary) result" where
  "SetMemberRole ctx now d actor tenant user role =
     guardR (Tenant TErrInput) (role \<noteq> ''admin'' \<and> role \<noteq> ''member'') (
     guardR (Tenant TErrForbidden) (actor = user) (
     transaction d (\<lambda>d.
       bindR (CanManageTenant d tenant actor) (\<lambda>allowed.
       guardR (Tenant TErrForbidden) (\<not> allowed) (
       bindR (case GetTenantMember d tenant user of
           Inl e \<Rightarrow> if errorsIs e NoRows then Inl (Tenant TErrNotFound) else Inl e
         | Inr row \<Rightarrow> Inr row) (\<lambda>current.
       guardR (Tenant TErrNotFound) (m_removed_at (snd current) \<noteq> None) (
       guardR (Tenant TErrForbidden) (m_role (snd current) = ''owner'') (
       guardR (Tenant TErrInput) (role = ''admin'' \<and> (\<not> m_enabled (snd current) \<or> \<not> u_enabled (fst current))) (
       bindR (UpdateTenantMemberRole d tenant user role) (\<lambda>d.
       bindR (Record ctx now d ''member.update'' ''member'' (FormatInt user)) (\<lambda>d.
       Inr (d, (memberSummary current)\<lparr>ms_Role := role\<rparr>))))))))))))"

definition Membership :: "store \<Rightarrow> int \<Rightarrow> int \<Rightarrow> Member option result" where
  "Membership d tenant user =
     (case queryRow d ''Membership'' (liveMembership d tenant user) of
        Inl e \<Rightarrow> if errorsIs e NoRows then Inr None else Inl e
      | Inr (m, t) \<Rightarrow> Inr (Some \<lparr>MemberTenantID = m_tenant m, MemberUserID = m_user m, MemberRole = m_role m\<rparr>))"

definition Suspend :: "store \<Rightarrow> int \<Rightarrow> store result" where
  "Suspend d tenant = bindR (SuspendTenant d tenant) (\<lambda>(d, affected). guardR (Tenant TErrInput) (affected = 0) (Inr d))"

text \<open>Only an owner removes an administrator. Grants and keys go with the member.\<close>

definition RemoveMember :: "Actor option \<Rightarrow> (nat \<Rightarrow> int) \<Rightarrow> store \<Rightarrow> int \<Rightarrow> int \<Rightarrow> int \<Rightarrow> store result" where
  "RemoveMember ctx clk d actor tenant user =
     guardR (Tenant TErrForbidden) (actor = user) (
     bindR (transaction d (\<lambda>d.
       bindR (CanManageTenant d tenant actor) (\<lambda>allowed.
       guardR (Tenant TErrForbidden) (\<not> allowed) (
       bindR (GetTenantMember d tenant actor) (\<lambda>manager.
       bindR (case GetTenantMember d tenant user of
           Inl e \<Rightarrow> if errorsIs e NoRows then Inl (Tenant TErrNotFound) else Inl e
         | Inr row \<Rightarrow> Inr row) (\<lambda>member.
       guardR (Tenant TErrNotFound) (m_removed_at (snd member) \<noteq> None) (
       guardR (Tenant TErrForbidden) (m_role (snd member) = ''owner'' \<or> m_role (snd member) = ''admin'' \<and> m_role (snd manager) \<noteq> ''owner'') (
       bindR (RemoveTenantMember d tenant user (clk 0)) (\<lambda>d.
       bindR (ClearMemberGroups d tenant user) (\<lambda>d.
       bindR (RevokeTenantMemberKeys d tenant user (clk 0)) (\<lambda>d.
       bindR (Record ctx (clk 1) d ''member.remove'' ''member'' (FormatInt user)) (\<lambda>d. Inr (d, ()))))))))))))) (\<lambda>(d, _). Inr d))"

end
