(* ===== verification/Groups_Manage.thy ===== *)
theory Groups_Manage
  imports Keys User_Names Accounts_Catalog Tenants
begin

text \<open>
  Pools of accounts (\<open>internal/groups/groups.go\<close>): their list and details, creation and changes, the grants of
  a member and what a member can use. The triggers of the schema keep the accounts of a pool with an allowance
  fixed and exclusive, and pools and accounts in one workspace.
\<close>

section \<open>Statements\<close>

text \<open>The users of the view \<open>effective_group_access\<close> for a pool, with their membership.\<close>

definition poolUsers :: "store \<Rightarrow> int \<Rightarrow> (user_row \<times> membership_row) list" where
  "poolUsers d grp = concat (map (\<lambda>m. map (\<lambda>u. (u, m)) (filter (\<lambda>u. u_id u = m_user m \<and> m_enabled m \<and> u_enabled u \<and>
       list_ex (\<lambda>t. t_id t = m_tenant m \<and> t_status t = ''active'') (tenants d) \<and>
       list_ex (\<lambda>g. g_id g = grp \<and> g_tenant g = m_tenant m \<and> g_enabled g) (account_groups d) \<and>
       (m_role m = ''owner'' \<or> m_role m = ''admin'' \<or> (grp, m_user m) \<in> set (group_members d))) (users d))) (memberships d))"

definition subscriptionsOf :: "store \<Rightarrow> int \<Rightarrow> int" where
  "subscriptionsOf d grp = int (length (filter (\<lambda>a. a_provider a \<noteq> ''openai'') (poolAccounts d grp)))"

definition channelsOf :: "store \<Rightarrow> int \<Rightarrow> int" where
  "channelsOf d grp = int (length (filter (\<lambda>a. a_provider a = ''openai'') (poolAccounts d grp)))"

definition ListGroups :: "store \<Rightarrow> int \<Rightarrow> group_row list result" where
  "ListGroups d tenant = query d ''ListGroups'' (sort_key g_id (filter (\<lambda>g. g_tenant g = tenant) (account_groups d)))"

definition CountGroups :: "store \<Rightarrow> int \<Rightarrow> nat result" where
  "CountGroups d tenant = query d ''CountGroups'' (length (filter (\<lambda>g. g_tenant g = tenant) (account_groups d)))"

text \<open>\<open>UNIQUE(tenant_id,name)\<close>, where names are compared without case.\<close>

definition nameTaken :: "store \<Rightarrow> int \<Rightarrow> int \<Rightarrow> string \<Rightarrow> bool" where
  "nameTaken d tenant except name \<longleftrightarrow> list_ex (\<lambda>g. g_tenant g = tenant \<and> g_id g \<noteq> except \<and> sameName (g_name g) name) (account_groups d)"

definition CreateGroup :: "store \<Rightarrow> int \<Rightarrow> string \<Rightarrow> bool \<Rightarrow> int \<Rightarrow> (store \<times> int) result" where
  "CreateGroup d tenant name enabled now =
     (let i = nextID (map g_id (account_groups d)) in
      exec d ''CreateGroup'' (list_ex (\<lambda>t. t_id t = tenant) (tenants d) \<and> \<not> nameTaken d tenant i name)
        (d\<lparr>account_groups := account_groups d @ [\<lparr>g_id = i, g_name = name, g_enabled = enabled, g_restricted_models = False,
           g_tenant = tenant, g_routing_preference = ''protocol'', g_allow_api_fallback = True, g_created_at = now,
           g_updated_at = now\<rparr>]\<rparr>, i))"

definition FindGroupName :: "store \<Rightarrow> int \<Rightarrow> string \<Rightarrow> int result" where
  "FindGroupName d tenant name = queryRow d ''FindGroupName''
     (map_option g_id (first_of (\<lambda>g. g_tenant g = tenant \<and> sameName (g_name g) name) (account_groups d)))"

definition mapGroups :: "(group_row \<Rightarrow> bool) \<Rightarrow> (group_row \<Rightarrow> group_row) \<Rightarrow> store \<Rightarrow> store" where
  "mapGroups hit f d = d\<lparr>account_groups := map (\<lambda>g. if hit g then f g else g) (account_groups d)\<rparr>"

definition UpdateGroup :: "store \<Rightarrow> int \<Rightarrow> int \<Rightarrow> string \<Rightarrow> bool \<Rightarrow> int \<Rightarrow> store result" where
  "UpdateGroup d grp tenant name enabled now =
     (let hit = (\<lambda>g. g_id g = grp \<and> g_tenant g = tenant) in
      exec d ''UpdateGroup'' (list_ex hit (account_groups d) \<longrightarrow> \<not> nameTaken d tenant grp name)
        (mapGroups hit (\<lambda>g. g\<lparr>g_name := name, g_enabled := enabled, g_updated_at := now\<rparr>) d))"

text \<open>The trigger \<open>allocation_fixed_pool\<close>.\<close>

definition hasScheme :: "store \<Rightarrow> int \<Rightarrow> bool" where
  "hasScheme d grp \<longleftrightarrow> list_ex (\<lambda>s. s_group s = grp) (allocation_schemes d)"

definition ClearGroupAccounts :: "store \<Rightarrow> int \<Rightarrow> store result" where
  "ClearGroupAccounts d grp = exec d ''ClearGroupAccounts'' (list_ex (\<lambda>ga. fst ga = grp) (group_accounts d) \<longrightarrow> \<not> hasScheme d grp)
     (d\<lparr>group_accounts := filter (\<lambda>ga. fst ga \<noteq> grp) (group_accounts d)\<rparr>)"

text \<open>
  The trigger \<open>allocation_exclusive_account\<close>: no account joins a pool with an allowance, or leaves one it is in for
  another. Its message starts with \<open>allocation_\<close>, which the caller tells from other failures.
\<close>

definition exclusiveAccount :: "store \<Rightarrow> int \<Rightarrow> string \<Rightarrow> bool" where
  "exclusiveAccount d grp account \<longleftrightarrow> hasScheme d grp \<or>
     list_ex (\<lambda>(g, a). a = account \<and> g \<noteq> grp \<and> hasScheme d g) (group_accounts d)"

definition accountTenant :: "store \<Rightarrow> string \<Rightarrow> int option" where
  "accountTenant d account = map_option a_tenant (first_of (\<lambda>a. a_id a = account) (accounts d))"

definition AddGroupAccount :: "store \<Rightarrow> int \<Rightarrow> string \<Rightarrow> store result" where
  "AddGroupAccount d grp account = exec d ''AddGroupAccount''
     (\<not> exclusiveAccount d grp account \<and> poolTenant d grp \<noteq> None \<and> poolTenant d grp = accountTenant d account \<and>
      (grp, account) \<notin> set (group_accounts d))
     (d\<lparr>group_accounts := group_accounts d @ [(grp, account)]\<rparr>)"

definition GroupAccountExists :: "store \<Rightarrow> string \<Rightarrow> int \<Rightarrow> bool result" where
  "GroupAccountExists d account tenant = query d ''GroupAccountExists''
     (list_ex (\<lambda>a. a_id a = account \<and> a_tenant a = tenant) (accounts d))"

definition ListMemberGroups :: "store \<Rightarrow> int \<Rightarrow> int \<Rightarrow> int list result" where
  "ListMemberGroups d user tenant = query d ''ListMemberGroups''
     (sort (map fst (filter (\<lambda>(g, u). u = user \<and> list_ex (\<lambda>r. g_id r = g \<and> g_tenant r = tenant) (account_groups d)) (group_members d))))"

definition GrantMemberGroup :: "store \<Rightarrow> int \<Rightarrow> int \<Rightarrow> store result" where
  "GrantMemberGroup d grp user = exec d ''GrantMemberGroup''
     (list_ex (\<lambda>g. g_id g = grp) (account_groups d) \<and> list_ex (\<lambda>u. u_id u = user) (users d) \<and> (grp, user) \<notin> set (group_members d))
     (d\<lparr>group_members := group_members d @ [(grp, user)]\<rparr>)"

definition ListAvailableGroups :: "store \<Rightarrow> int \<Rightarrow> int \<Rightarrow> group_row list result" where
  "ListAvailableGroups d user tenant = query d ''ListAvailableGroups''
     (sort_key g_id (filter (\<lambda>g. g_tenant g = tenant \<and> g_enabled g \<and> list_ex (\<lambda>u. u_id u = user \<and> u_enabled u) (users d) \<and>
        effective_group_access d user (g_id g)) (account_groups d)))"

definition servingPool :: "store \<Rightarrow> int \<Rightarrow> int \<Rightarrow> (account_row \<Rightarrow> bool) \<Rightarrow> bool" where
  "servingPool d user tenant ready \<longleftrightarrow> list_ex (\<lambda>g. g_tenant g = tenant \<and> g_enabled g \<and>
     list_ex (\<lambda>a. routable d g a \<and> a_enabled a \<and> a_provider a \<in> set gatewayProviders \<and> ready a) (accounts d) \<and>
     list_ex (\<lambda>u. u_id u = user \<and> u_enabled u) (users d) \<and> effective_group_access d user (g_id g)) (account_groups d)"

definition GroupConnectionStatus :: "store \<Rightarrow> int \<Rightarrow> int \<Rightarrow> string result" where
  "GroupConnectionStatus d user tenant = query d ''GroupConnectionStatus''
     (if servingPool d user tenant (\<lambda>a. a_status a = ''ready'') then ''ready''
      else if servingPool d user tenant (\<lambda>a. True) then ''needs_attention'' else ''not_configured'')"

definition CountGroupMembers :: "store \<Rightarrow> int \<Rightarrow> int result" where
  "CountGroupMembers d grp = query d ''CountGroupMembers'' (int (length (poolUsers d grp)))"

definition roleRank :: "string \<Rightarrow> nat" where
  "roleRank role = (if role = ''owner'' then 0 else if role = ''admin'' then 1 else 2)"

definition ListPoolMembers :: "store \<Rightarrow> int \<Rightarrow> (int \<times> string) list result" where
  "ListPoolMembers d grp = query d ''ListPoolMembers''
     (take 100 (map (\<lambda>(u, m). (u_id u, u_username u)) (sort_key (\<lambda>(u, m). roleRank (m_role m))
        (sort_key (\<lambda>(u, m). map nocase (u_username u)) (sort_key (\<lambda>(u, m). u_id u) (poolUsers d grp))))))"

definition SetGroupModelPolicy :: "store \<Rightarrow> int \<Rightarrow> bool \<Rightarrow> store result" where
  "SetGroupModelPolicy d grp restricted = exec d ''SetGroupModelPolicy'' True
     (mapGroups (\<lambda>g. g_id g = grp) (\<lambda>g. g\<lparr>g_restricted_models := restricted\<rparr>) d)"

definition ClearGroupModels :: "store \<Rightarrow> int \<Rightarrow> store result" where
  "ClearGroupModels d grp = exec d ''ClearGroupModels'' True
     (d\<lparr>group_models := filter (\<lambda>gm. fst gm \<noteq> grp) (group_models d)\<rparr>)"

definition AddGroupModel :: "store \<Rightarrow> int \<Rightarrow> string \<Rightarrow> store result" where
  "AddGroupModel d grp model = exec d ''AddGroupModel''
     (list_ex (\<lambda>g. g_id g = grp) (account_groups d) \<and> (grp, model) \<notin> set (group_models d))
     (d\<lparr>group_models := group_models d @ [(grp, model)]\<rparr>)"

definition SetGroupRouting :: "store \<Rightarrow> int \<Rightarrow> Routing \<Rightarrow> store result" where
  "SetGroupRouting d grp r = exec d ''SetGroupRouting''
     (list_ex (\<lambda>g. g_id g = grp) (account_groups d) \<longrightarrow> routing_valid r)
     (mapGroups (\<lambda>g. g_id g = grp) (\<lambda>g. g\<lparr>g_routing_preference := Preference r, g_allow_api_fallback := AllowAPIFallback r\<rparr>) d)"

section \<open>Operations\<close>

definition MaxGroups :: nat where
  "MaxGroups = 32"

record Group =
  SubscriptionCount :: int
  ChannelCount :: int
  GroupRouting :: Routing
  RestrictedModels :: bool
  GroupID' :: int
  GroupName' :: string
  GroupEnabled :: bool
  GroupCreatedAt :: int
  GroupUpdatedAt :: int
  AccountCount :: int
  MemberCount :: int

record Detail =
  DetailGroup :: Group
  DetailResources :: "Resource list"
  DetailAccounts :: "string list"
  AllowedModels :: "string list"

record GroupInput =
  gi_Resources :: "Resource list option"
  gi_Routing :: "Routing option"
  gi_ModelPolicy :: "ModelPolicy option"
  gi_Name :: string
  gi_Enabled :: bool
  gi_AccountIDs :: "string list option"

definition groupView :: "group_row \<Rightarrow> int \<Rightarrow> int \<Rightarrow> int \<Rightarrow> int \<Rightarrow> Group" where
  "groupView g subscriptions channels members n =
     \<lparr>SubscriptionCount = subscriptions, ChannelCount = channels,
      GroupRouting = \<lparr>Preference = g_routing_preference g, AllowAPIFallback = g_allow_api_fallback g\<rparr>,
      RestrictedModels = g_restricted_models g, GroupID' = g_id g, GroupName' = g_name g, GroupEnabled = g_enabled g,
      GroupCreatedAt = g_created_at g, GroupUpdatedAt = g_updated_at g, AccountCount = n, MemberCount = members\<rparr>"

definition GroupList :: "store \<Rightarrow> int \<Rightarrow> Group list result" where
  "GroupList d tenant = bindR (ListGroups d tenant) (\<lambda>rows.
     Inr (map (\<lambda>g. groupView g (subscriptionsOf d (g_id g)) (channelsOf d (g_id g)) (int (length (poolUsers d (g_id g))))
       (int (length (filter (\<lambda>ga. fst ga = g_id g) (group_accounts d))))) rows))"

definition tenantPool :: "store \<Rightarrow> int \<Rightarrow> int \<Rightarrow> error \<Rightarrow> group_row result" where
  "tenantPool d grp tenant missing = (case GetTenantGroup d grp tenant of
     Inl e \<Rightarrow> if errorsIs e NoRows then Inl missing else Inl e
   | Inr g \<Rightarrow> Inr g)"

definition readResource :: "store \<Rightarrow> int \<Rightarrow> string \<Rightarrow> Resource result" where
  "readResource d tenant i = bindR (GetAccount d i tenant) (\<lambda>source. Inr \<lparr>Kind' = resourceKind (a_provider source), ResourceID = i\<rparr>)"

definition GetDetail :: "store \<Rightarrow> int \<Rightarrow> int \<Rightarrow> Detail result" where
  "GetDetail d tenant i =
     bindR (query d ''BeginTx'' ()) (\<lambda>_.
     bindR (tenantPool d i tenant (Groups GErrNotFound)) (\<lambda>row.
     bindR (ListGroupAccounts d i) (\<lambda>ids.
     bindR (CountGroupMembers d i) (\<lambda>count.
     bindR (mapR (readResource d tenant) ids) (\<lambda>resources.
     let channels = int (length (filter (\<lambda>r. Kind' r = ''channel'') resources)) in
     bindR (ListGroupModels d i) (\<lambda>models.
     bindR (query d ''Commit'' ()) (\<lambda>_.
     Inr \<lparr>DetailGroup = groupView row (int (length ids) - channels) channels count (int (length ids)),
          DetailResources = resources, DetailAccounts = ids, AllowedModels = models\<rparr>)))))))"

text \<open>The accounts a pool is to have: distinct, of the workspace, and of the kind they were declared with.\<close>

definition checkAccount :: "store \<Rightarrow> int \<Rightarrow> (string \<rightharpoonup> string) option \<Rightarrow> string list \<Rightarrow> string \<Rightarrow> string list result" where
  "checkAccount d tenant kinds seen account =
     guardR (Groups GErrInput) (account \<in> set seen) (
     bindR (GroupAccountExists d account tenant) (\<lambda>exists.
     guardR (Groups GErrInput) (\<not> exists) (
     case kinds of None \<Rightarrow> Inr (account # seen)
     | Some declared \<Rightarrow> bindR (GetAccount d account tenant) (\<lambda>row.
         guardR (Groups GErrInput) (declared account \<noteq> Some (resourceKind (a_provider row))) (Inr (account # seen))))))"

definition writeGroup :: "store \<Rightarrow> int \<Rightarrow> int \<Rightarrow> string \<Rightarrow> bool \<Rightarrow> int \<Rightarrow> (store \<times> int) result" where
  "writeGroup d tenant i name enabled now =
     (if i = 0
      then bindR (CountGroups d tenant) (\<lambda>count.
           guardR (Groups GErrLimit) (count \<ge> MaxGroups) (CreateGroup d tenant name enabled now))
      else bindR (UpdateGroup d i tenant name enabled now) (\<lambda>d. Inr (d, i)))"

definition attachAccount :: "int \<Rightarrow> store \<Rightarrow> string \<Rightarrow> store result" where
  "attachAccount i d account = (case AddGroupAccount d i account of
     Inr d' \<Rightarrow> Inr d'
   | Inl e \<Rightarrow> if \<not> fails d ''AddGroupAccount'' \<and> exclusiveAccount d i account then Inl (Groups GErrAllocated) else Inl e)"

text \<open>A pool with an allowance keeps its accounts; another pool's accounts are replaced.\<close>

definition writeAccounts :: "store \<Rightarrow> int \<Rightarrow> string list \<Rightarrow> store result" where
  "writeAccounts d i ids = (case GetPoolAllocation d i of
     Inr _ \<Rightarrow> bindR (ListGroupAccounts d i) (\<lambda>old. guardR (Groups GErrAllocated) (old \<noteq> sort ids) (Inr d))
   | Inl e \<Rightarrow> if \<not> errorsIs e NoRows then Inl e
       else bindR (ClearGroupAccounts d i) (\<lambda>d. foldR (attachAccount i) d ids))"

definition writeModels :: "store \<Rightarrow> int \<Rightarrow> ModelPolicy option \<Rightarrow> store result" where
  "writeModels d i policy = (case policy of None \<Rightarrow> Inr d
   | Some p \<Rightarrow> bindR (SetGroupModelPolicy d i (Restricted p)) (\<lambda>d.
       bindR (ClearGroupModels d i) (\<lambda>d. foldR (\<lambda>d model. AddGroupModel d i model) d (Models p))))"

definition writeRouting :: "store \<Rightarrow> int \<Rightarrow> Routing option \<Rightarrow> store result" where
  "writeRouting d i routing = (case routing of None \<Rightarrow> Inr d | Some r \<Rightarrow> SetGroupRouting d i r)"

text \<open>
  The checks of an input before any statement: the identifiers, their kinds, the normalised policy and the name.
\<close>

definition checkInput :: "int \<Rightarrow> GroupInput \<Rightarrow> (string list \<times> (string \<rightharpoonup> string) option \<times> ModelPolicy option \<times> string) result" where
  "checkInput i input =
     bindR (resourceIDs (gi_Resources input) (gi_AccountIDs input)) (\<lambda>(ids, kinds).
     guardR (Groups GErrInput) (case gi_Routing input of None \<Rightarrow> False | Some r \<Rightarrow> \<not> routing_valid r) (
     bindR (case gi_ModelPolicy input of None \<Rightarrow> Inr None | Some p \<Rightarrow> bindR (normalized p) (\<lambda>p. Inr (Some p))) (\<lambda>policy.
     let name = TrimSpace (gi_Name input) in
     case ids of None \<Rightarrow> Inl (Groups GErrInput)
     | Some ids \<Rightarrow> guardR (Groups GErrInput) (i < 0 \<or> \<not> plainName name \<or> length ids > 100) (Inr (ids, kinds, policy, name)))))"

definition saveGroup :: "Actor option \<Rightarrow> (nat \<Rightarrow> int) \<Rightarrow> store \<Rightarrow> int \<Rightarrow> int \<Rightarrow> GroupInput \<Rightarrow> (store \<times> int) result" where
  "saveGroup ctx clk d tenant i input =
     bindR (checkInput i input) (\<lambda>(ids, kinds, policy, name).
     transaction d (\<lambda>d.
       bindR (if i \<noteq> 0 then bindR (tenantPool d i tenant (Groups GErrNotFound)) (\<lambda>_. Inr ()) else Inr ()) (\<lambda>_.
       bindR (case FindGroupName d tenant name of
           Inr other \<Rightarrow> guardR (Groups GErrDuplicate) (other \<noteq> i) (Inr ())
         | Inl e \<Rightarrow> if \<not> errorsIs e NoRows then Inl e else Inr ()) (\<lambda>_.
       bindR (foldR (checkAccount d tenant kinds) [] ids) (\<lambda>_.
       bindR (writeGroup d tenant i name (gi_Enabled input) (clk 0)) (\<lambda>(d, j).
       bindR (writeAccounts d j ids) (\<lambda>d.
       bindR (writeModels d j policy) (\<lambda>d.
       bindR (writeRouting d j (gi_Routing input)) (\<lambda>d.
       bindR (Record ctx (clk 1) d (if i = 0 then ''group.create'' else ''group.update'') ''group'' (FormatInt j)) (\<lambda>d.
       Inr (d, j)))))))))))"

text \<open>What is committed, and the answer read back afterwards, which may fail on its own.\<close>

definition Save :: "Actor option \<Rightarrow> (nat \<Rightarrow> int) \<Rightarrow> store \<Rightarrow> int \<Rightarrow> int \<Rightarrow> GroupInput \<Rightarrow> (store \<times> Detail result) result" where
  "Save ctx clk d tenant i input =
     bindR (saveGroup ctx clk d tenant i input) (\<lambda>(d, j). Inr (d, GetDetail d tenant j))"

text \<open>The pools a member can choose, with the number of accounts the gateway serves.\<close>

definition Available :: "store \<Rightarrow> int \<Rightarrow> int \<Rightarrow> (int \<times> string \<times> int) list result" where
  "Available d user tenant = bindR (ListAvailableGroups d user tenant) (\<lambda>rows.
     Inr (map (\<lambda>g. (g_id g, g_name g, int (length (filter (\<lambda>a. a_provider a \<in> set gatewayProviders) (poolAccounts d (g_id g)))))) rows))"

definition MemberGroups :: "store \<Rightarrow> int \<Rightarrow> int \<Rightarrow> int list result" where
  "MemberGroups d tenant user =
     bindR (MemberExistsInTenant d tenant user) (\<lambda>exists.
     guardR (Groups GErrNotFound) (\<not> exists) (ListMemberGroups d user tenant))"

definition PoolMembers :: "store \<Rightarrow> int \<Rightarrow> int \<Rightarrow> (int \<times> string) list result" where
  "PoolMembers d tenant grp = bindR (tenantPool d grp tenant (Groups GErrNotFound)) (\<lambda>_. ListPoolMembers d grp)"

definition checkGrant :: "store \<Rightarrow> int \<Rightarrow> int list \<Rightarrow> int \<Rightarrow> int list result" where
  "checkGrant d tenant seen i =
     guardR (Groups GErrInput) (i \<in> set seen) (
     bindR (tenantPool d i tenant (Groups GErrInput)) (\<lambda>_. Inr (i # seen)))"

definition SetMemberGroups :: "Actor option \<Rightarrow> int \<Rightarrow> store \<Rightarrow> int \<Rightarrow> int \<Rightarrow> int list option \<Rightarrow> store result" where
  "SetMemberGroups ctx now d tenant user ids = (case ids of None \<Rightarrow> Inl (Groups GErrInput)
   | Some ids \<Rightarrow>
     guardR (Groups GErrInput) (length ids > MaxGroups) (
     bindR (transaction d (\<lambda>d.
       bindR (MemberExistsInTenant d tenant user) (\<lambda>exists.
       guardR (Groups GErrNotFound) (\<not> exists) (
       bindR (foldR (checkGrant d tenant) [] ids) (\<lambda>_.
       bindR (ClearMemberGroups d tenant user) (\<lambda>d.
       bindR (foldR (\<lambda>d i. GrantMemberGroup d i user) d ids) (\<lambda>d.
       bindR (Record ctx now d ''member.groups'' ''member'' (FormatInt user)) (\<lambda>d. Inr (d, ()))))))))) (\<lambda>(d, _). Inr d)))"

definition Connection :: "store \<Rightarrow> int \<Rightarrow> int \<Rightarrow> string result" where
  "Connection d user tenant = GroupConnectionStatus d user tenant"

end
