(* ===== verification/Keys_Life.thy ===== *)
theory Keys_Life
  imports Keys Alloc_Admission
begin

text \<open>
  The life of API keys under every operation of the key service and whatever the rest of the program does
  to their workspace: keys are unique and bounded in number, a revoked key stays revoked and its secret is
  gone, every stored secret opens to the text whose hash authenticates, and a new key works.
\<close>

section \<open>The invariant\<close>

definition activeKeys :: "store \<Rightarrow> int \<Rightarrow> int \<Rightarrow> nat" where
  "activeKeys d user tenant = length (filter (\<lambda>k. k_user k = user \<and> keyTenant d tenant k \<and> k_revoked_at k = None) (api_keys d))"

definition secretOK :: "KeyService \<Rightarrow> key_row \<Rightarrow> bool" where
  "secretOK s k \<longleftrightarrow> (k_revoked_at k \<noteq> None \<longrightarrow> k_secret k = None) \<and> \<not> isl (checkSecret s k)"

definition keysOK :: "KeyService \<Rightarrow> store \<Rightarrow> bool" where
  "keysOK s d \<longleftrightarrow> distinct (map k_id (api_keys d)) \<and> distinct (map k_token_hash (api_keys d)) \<and>
     distinct (map g_id (account_groups d)) \<and> fst ` set (allocation_keys d) \<subseteq> k_id ` set (api_keys d) \<and>
     (\<forall>k \<in> set (api_keys d). secretOK s k) \<and> (\<forall>user tenant. activeKeys d user tenant \<le> 20)"

text \<open>A row may change, but not its identity; revocation is final and erases the secret.\<close>

definition evolved :: "key_row \<Rightarrow> key_row \<Rightarrow> bool" where
  "evolved k k' \<longleftrightarrow> k_id k' = k_id k \<and> k_user k' = k_user k \<and> k_token_hash k' = k_token_hash k \<and>
     (k_revoked_at k \<noteq> None \<longrightarrow> k' = k) \<and> (k_revoked_at k' = None \<longrightarrow> k_secret k' = k_secret k) \<and>
     (k_revoked_at k' \<noteq> None \<longrightarrow> k_secret k' = None)"

definition aged :: "store \<Rightarrow> store \<Rightarrow> bool" where
  "aged d d' \<longleftrightarrow> (\<exists>old new. api_keys d' = old @ new \<and> list_all2 evolved (api_keys d) old)"

lemma evolved_trans: "evolved a b \<Longrightarrow> evolved b c \<Longrightarrow> evolved a c"
  by (auto simp: evolved_def)

lemma aged_trans: "aged a b \<Longrightarrow> aged b c \<Longrightarrow> aged a c"
proof -
  assume "aged a b" "aged b c"
  then obtain ob nb oc nc where b: "api_keys b = ob @ nb" "list_all2 evolved (api_keys a) ob"
    and c: "api_keys c = oc @ nc" "list_all2 evolved (ob @ nb) oc" unfolding aged_def by fastforce
  from c(2) obtain first rest where o: "oc = first @ rest" "list_all2 evolved ob first" by (auto simp: list_all2_append1)
  have "list_all2 evolved (api_keys a) first" by (rule list_all2_trans [OF evolved_trans b(2) o(2)])
  then show "aged a c" unfolding aged_def using c(1) o(1) by (intro exI [of _ first] exI [of _ "rest @ nc"]) simp
qed

text \<open>What the rest of the program may do: it revokes keys and keeps pools in their workspace.\<close>

definition sameTenants :: "store \<Rightarrow> store \<Rightarrow> bool" where
  "sameTenants d d' \<longleftrightarrow> distinct (map g_id (account_groups d')) \<and>
     (\<forall>k \<in> set (api_keys d). \<forall>tenant. keyTenant d' tenant k = keyTenant d tenant k)"

definition spared :: "store \<Rightarrow> store \<Rightarrow> bool" where
  "spared d d' \<longleftrightarrow> sameTenants d d' \<and> fst ` set (allocation_keys d') \<subseteq> k_id ` set (api_keys d) \<and>
     list_all2 (\<lambda>k k'. k' = k \<or> (\<exists>now. k' = revokedRow now k)) (api_keys d) (api_keys d')"

inductive key_step :: "KeyService \<Rightarrow> store \<Rightarrow> store \<Rightarrow> bool" for s where
  creates: "createKey (s\<lparr>ks_tenant := t\<rparr>) actor clk raw nonce d user grp scheme name expiry = Inr (d', created) \<Longrightarrow>
    length raw = 32 \<Longrightarrow> length nonce = nonceSize (ks_vault s) \<Longrightarrow> key_step s d d'"
| updates: "Update (s\<lparr>ks_tenant := t\<rparr>) actor clk d user key name enabled expiry = Inr (d', shown) \<Longrightarrow> key_step s d d'"
| revokes: "Revoke (s\<lparr>ks_tenant := t\<rparr>) actor clk d user key = Inr (d', shown) \<Longrightarrow> key_step s d d'"
| rebinds: "Rebind (s\<lparr>ks_tenant := t\<rparr>) actor clk d user key grp = Inr (d', shown) \<Longrightarrow> key_step s d d'"
| authenticates: "Authenticate (s\<lparr>ks_tenant := t\<rparr>) now d secret = Inr (d', p) \<Longrightarrow> key_step s d d'"
| reveals: "Reveal (s\<lparr>ks_tenant := t\<rparr>) actor now d user key = Inr (d', plain) \<Longrightarrow> key_step s d d'"
| elsewhere: "spared d d' \<Longrightarrow> key_step s d d'"

inductive_cases key_stepE: "key_step s d d'"

definition noKeys :: "store \<Rightarrow> bool" where
  "noKeys d \<longleftrightarrow> api_keys d = [] \<and> allocation_keys d = [] \<and> distinct (map g_id (account_groups d))"

section \<open>Steps keep the invariant\<close>

lemma keyTenant_frame: "account_groups d' = account_groups d \<Longrightarrow> keyTenant d' tenant k = keyTenant d tenant k"
  by (simp add: keyTenant_def)

lemma checkSecret_tenant [simp]: "checkSecret (s\<lparr>ks_tenant := t\<rparr>) k = checkSecret s k"
  by (simp add: checkSecret_def decryptSecret_def split: option.split)

lemma secretOK_evolved: "secretOK s k \<Longrightarrow> evolved k k' \<Longrightarrow> secretOK s k'"
  by (auto simp: secretOK_def evolved_def checkSecret_def split: option.splits)

lemma evolved_keys: "list_all2 evolved ks ks' \<Longrightarrow> map k_id ks' = map k_id ks \<and> map k_token_hash ks' = map k_token_hash ks"
  by (induction rule: list_all2_induct) (simp_all add: evolved_def)

text \<open>Rows that evolve and stay in their workspace.\<close>

lemma keysOK_evolved:
  assumes ok: "keysOK s d" and ev: "list_all2 evolved (api_keys d) (api_keys d')"
    and groups: "distinct (map g_id (account_groups d'))"
    and stay: "\<And>j tenant. j < length (api_keys d) \<Longrightarrow> k_revoked_at (api_keys d' ! j) = None \<Longrightarrow>
      keyTenant d' tenant (api_keys d' ! j) = keyTenant d tenant (api_keys d ! j)"
    and bound: "fst ` set (allocation_keys d') \<subseteq> k_id ` set (api_keys d)"
  shows "keysOK s d'"
proof -
  note same = evolved_keys [OF ev]
  have len: "length (api_keys d') = length (api_keys d)" using ev by (simp add: list_all2_lengthD)
  have nth: "evolved (api_keys d ! j) (api_keys d' ! j)" if "j < length (api_keys d)" for j using ev that by (rule list_all2_nthD)
  have "secretOK s k'" if "k' \<in> set (api_keys d')" for k'
  proof -
    obtain j where "j < length (api_keys d)" "k' = api_keys d' ! j" using \<open>k' \<in> _\<close> len by (metis in_set_conv_nth)
    then show ?thesis using ok nth secretOK_evolved by (metis keysOK_def nth_mem)
  qed
  moreover have "activeKeys d' user tenant \<le> activeKeys d user tenant" for user tenant
  proof -
    let ?P = "\<lambda>d k. k_user k = user \<and> keyTenant d tenant k \<and> k_revoked_at k = None"
    have "{j. j < length (api_keys d') \<and> ?P d' (api_keys d' ! j)} \<subseteq> {j. j < length (api_keys d) \<and> ?P d (api_keys d ! j)}"
      using nth stay len by (fastforce simp: evolved_def)
    then have "card {j. j < length (api_keys d') \<and> ?P d' (api_keys d' ! j)} \<le> card {j. j < length (api_keys d) \<and> ?P d (api_keys d ! j)}"
      by (intro card_mono) simp_all
    then show ?thesis by (simp add: activeKeys_def length_filter_conv_card)
  qed
  then have "activeKeys d' user tenant \<le> 20" for user tenant using ok by (meson keysOK_def order_trans)
  ultimately show ?thesis using ok groups bound same by (metis (no_types, lifting) keysOK_def list.set_map)
qed

lemma evolved_refl_ok: "secretOK s k \<Longrightarrow> evolved k k"
  by (auto simp: evolved_def secretOK_def)

lemma evolved_map:
  assumes "keysOK s d" and "\<And>k. k \<in> set (api_keys d) \<Longrightarrow> hit k \<Longrightarrow> evolved k (f k)"
  shows "list_all2 evolved (api_keys d) (api_keys (mapKeys hit f d))"
  using assms by (auto simp: mapKeys_def list_all2_conv_all_nth keysOK_def intro: evolved_refl_ok)

lemma mapKeys_simps [simp]:
  "account_groups (mapKeys hit f d) = account_groups d" "allocation_keys (mapKeys hit f d) = allocation_keys d"
  "length (api_keys (mapKeys hit f d)) = length (api_keys d)" "faults (mapKeys hit f d) = faults d"
  "users (mapKeys hit f d) = users d" "allocation_schemes (mapKeys hit f d) = allocation_schemes d"
  by (simp_all add: mapKeys_def)

text \<open>Changes of rows in place, which leave the pool of a key alone.\<close>

lemma keysOK_map:
  assumes ok: "keysOK s d" and f: "\<And>k. k \<in> set (api_keys d) \<Longrightarrow> hit k \<Longrightarrow> evolved k (f k) \<and> k_group (f k) = k_group k"
  shows "keysOK s (mapKeys hit f d)" "aged d (mapKeys hit f d)"
proof -
  have ev: "list_all2 evolved (api_keys d) (api_keys (mapKeys hit f d))" by (rule evolved_map [OF ok]) (use f in blast)
  show "keysOK s (mapKeys hit f d)"
  proof (rule keysOK_evolved [OF ok ev])
    fix j tenant assume "j < length (api_keys d)"
    then show "keyTenant (mapKeys hit f d) tenant (api_keys (mapKeys hit f d) ! j) = keyTenant d tenant (api_keys d ! j)"
      using f [of "api_keys d ! j"] by (simp add: keyTenant_def mapKeys_def)
  qed (use ok in \<open>simp_all add: keysOK_def\<close>)
  show "aged d (mapKeys hit f d)" using ev by (auto simp: aged_def intro: exI [of _ "[]"])
qed

lemma evolved_revoked: "secretOK s k \<Longrightarrow> evolved k (revokedRow now k)"
  by (cases k) (auto simp: evolved_def revokedRow_def secretOK_def split: option.splits)

lemma revokedRow_group: "k_group (revokedRow now k) = k_group k"
  by (simp add: revokedRow_def)

lemma keysOK_audit: "keysOK s (d\<lparr>audit_events := evs\<rparr>) = keysOK s d" "aged d (d'\<lparr>audit_events := evs\<rparr>) = aged d d'"
  by (simp_all add: keysOK_def activeKeys_def keyTenant_def aged_def)

lemma unchanged_rows: "keysOK s d \<Longrightarrow> list_all2 evolved (api_keys d) (api_keys d)"
  by (auto simp: keysOK_def list_all2_conv_all_nth intro: evolved_refl_ok)

lemma aged_refl: "keysOK s d \<Longrightarrow> aged d d"
  unfolding aged_def by (intro exI [of _ "api_keys d"] exI [of _ "[]"]) (simp add: unchanged_rows)

lemma Record_keys:
  assumes "Record actor now d action resource i = Inr d'"
  shows "keysOK s d' = keysOK s d" "aged c d' = aged c d"
  using Record_frame [OF assms] by (auto simp: keysOK_audit)

subsection \<open>Creation\<close>

definition newKey :: "KeyService \<Rightarrow> store \<Rightarrow> int \<Rightarrow> int \<Rightarrow> string \<Rightarrow> int option \<Rightarrow> string \<Rightarrow> string \<Rightarrow> int \<Rightarrow> key_row" where
  "newKey s d user grp name expiry secret encrypted createdAt =
     \<lparr>k_id = nextID (map k_id (api_keys d)), k_user = user, k_group = grp, k_revoked_at = None, k_enabled = True,
      k_expires_at = expiry, k_name = name, k_prefix = take 11 secret, k_token_hash = ks_sum s secret,
      k_created_at = createdAt, k_last_used_at = None, k_secret = Some encrypted\<rparr>"

lemma nextID_not_in: "k \<in> set (api_keys d) \<Longrightarrow> k_id k \<noteq> nextID (map k_id (api_keys d))"
  using nextID_fresh [of "k_id k" "map k_id (api_keys d)"] by simp

lemma storeKey_Inr:
  assumes "storeKey s d user grp scheme name expiry secret nonce createdAt = Inr (d', i, schemeName)"
  shows "\<exists>encrypted. SealAPIKey (ks_vault s) nonce user i secret = Inr encrypted \<and> i = nextID (map k_id (api_keys d)) \<and>
    ks_sum s secret \<notin> k_token_hash ` set (api_keys d) \<and>
    d' = d\<lparr>api_keys := api_keys d @ [newKey s d user grp name expiry secret encrypted createdAt],
      allocation_keys := allocation_keys d @ (if scheme = 0 then [] else [(i, scheme)])\<rparr>"
proof -
  have keep: "map (\<lambda>k. if k_id k = nextID (map k_id (api_keys d)) then k\<lparr>k_secret := Some c\<rparr> else k) (api_keys d) = api_keys d" for c
    by (rule map_idI) (use nextID_not_in [of _ d] in auto)
  obtain d1 encrypted d2 where c: "CreateKey d user grp name (take 11 secret) (ks_sum s secret) createdAt expiry = Inr (d1, i)"
    and e: "SealAPIKey (ks_vault s) nonce user i secret = Inr encrypted" and sv: "SaveKeySecret d1 i encrypted = Inr d2"
    and b: "d' = d2 \<and> scheme = 0 \<or> BindKeyAllocation d2 i scheme = Inr d' \<and> scheme \<noteq> 0"
    using assms unfolding storeKey_def by (auto simp: res_simps split: if_splits)
  have i: "i = nextID (map k_id (api_keys d))" "ks_sum s secret \<notin> k_token_hash ` set (api_keys d)"
    using c by (auto simp: CreateKey_def res_simps Let_def list_ex_iff)
  have "d2 = d\<lparr>api_keys := api_keys d @ [newKey s d user grp name expiry secret encrypted createdAt]\<rparr>"
    using c sv keep by (auto simp: CreateKey_def SaveKeySecret_def mapKeys_def newKey_def res_simps Let_def)
  then show ?thesis using b e i by (auto simp: BindKeyAllocation_def res_simps)
qed

lemma createKey_Inr:
  assumes "createKey s actor clk raw nonce d user grp scheme name expiry = Inr (d', c)"
  shows "\<exists>encrypted evs g. SealAPIKey (ks_vault s) nonce user (KeyID' (CreatedKey' c)) (keySecret raw) = Inr encrypted \<and>
    KeyID' (CreatedKey' c) = nextID (map k_id (api_keys d)) \<and> Secret c = keySecret raw \<and> ks_sum s (keySecret raw) \<notin> k_token_hash ` set (api_keys d) \<and>
    checkScope s d user grp scheme (clk 1) = Inr g \<and> activeKeys d user (ks_tenant s) < 20 \<and> validExpiry expiry (clk 0) \<and>
    d' = d\<lparr>api_keys := api_keys d @ [newKey s d user grp (TrimSpace name) expiry (keySecret raw) encrypted (clk 2)],
      allocation_keys := allocation_keys d @ (if scheme = 0 then [] else [(KeyID' (CreatedKey' c), scheme)]), audit_events := evs\<rparr>"
proof -
  obtain g count d1 i schemeName where g: "checkScope s d user grp scheme (clk 1) = Inr g"
    and n: "CountActiveKeys d user (ks_tenant s) = Inr count" "count < maxActiveKeys" and v: "validExpiry expiry (clk 0)"
    and st: "storeKey s d user grp scheme (TrimSpace name) expiry (keySecret raw) nonce (clk 2) = Inr (d1, i, schemeName)"
    and r: "Record actor (clk 3) d1 ''key.create'' ''key'' (FormatInt i) = Inr d'"
    and c: "KeyID' (CreatedKey' c) = i" "Secret c = keySecret raw"
    using assms unfolding createKey_def by (auto simp: res_simps Let_def)
  obtain evs where evs: "d' = d1\<lparr>audit_events := evs\<rparr>" using Record_frame [OF r] by blast
  have "activeKeys d user (ks_tenant s) < 20" using n by (auto simp: CountActiveKeys_def res_simps activeKeys_def maxActiveKeys_def)
  then show ?thesis using storeKey_Inr [OF st] g v c evs by fastforce
qed

lemma checkScope_tenant:
  assumes "checkScope s d user grp scheme now = Inr g"
  shows "g \<in> set (account_groups d) \<and> g_id g = grp \<and> g_tenant g = ks_tenant s"
  using assms
  by (auto simp: checkScope_def GetTenantGroup_def res_simps dest: first_of_SomeD split: sum.splits if_splits)

lemma group_unique: "distinct (map g_id gs) \<Longrightarrow> g \<in> set gs \<Longrightarrow> g' \<in> set gs \<Longrightarrow> g_id g = g_id g' \<Longrightarrow> g = g'"
  unfolding distinct_map by (blast dest: inj_onD)

lemma keysOK_create:
  assumes ok: "keysOK s d" and r: "createKey (s\<lparr>ks_tenant := t\<rparr>) actor clk raw nonce d user grp scheme name expiry = Inr (d', c)"
    and raw: "length raw = 32" and nonce: "length nonce = nonceSize (ks_vault s)" and v: "genuine (ks_vault s)"
  shows "keysOK s d'" "aged d d'"
proof -
  define st where "st = s\<lparr>ks_tenant := t\<rparr>"
  have st: "ks_vault st = ks_vault s" "ks_sum st = ks_sum s" "ks_tenant st = t" by (simp_all add: st_def)
  obtain encrypted evs g where P: "SealAPIKey (ks_vault s) nonce user (KeyID' (CreatedKey' c)) (keySecret raw) = Inr encrypted \<and>
    KeyID' (CreatedKey' c) = nextID (map k_id (api_keys d)) \<and> Secret c = keySecret raw \<and> ks_sum s (keySecret raw) \<notin> k_token_hash ` set (api_keys d) \<and>
    checkScope st d user grp scheme (clk 1) = Inr g \<and> activeKeys d user t < 20 \<and> validExpiry expiry (clk 0) \<and>
    d' = d\<lparr>api_keys := api_keys d @ [newKey st d user grp (TrimSpace name) expiry (keySecret raw) encrypted (clk 2)],
      allocation_keys := allocation_keys d @ (if scheme = 0 then [] else [(KeyID' (CreatedKey' c), scheme)]), audit_events := evs\<rparr>"
    using createKey_Inr [OF r [folded st_def], unfolded st] by (elim exE)
  from P have e: "SealAPIKey (ks_vault s) nonce user (KeyID' (CreatedKey' c)) (keySecret raw) = Inr encrypted"
    and i: "KeyID' (CreatedKey' c) = nextID (map k_id (api_keys d))" and h: "ks_sum s (keySecret raw) \<notin> k_token_hash ` set (api_keys d)"
    and g: "checkScope st d user grp scheme (clk 1) = Inr g" and n: "activeKeys d user t < 20" by blast+
  have d': "d' = d\<lparr>api_keys := api_keys d @ [newKey st d user grp (TrimSpace name) expiry (keySecret raw) encrypted (clk 2)],
      allocation_keys := allocation_keys d @ (if scheme = 0 then [] else [(KeyID' (CreatedKey' c), scheme)]), audit_events := evs\<rparr>"
    using P by blast
  define k where "k = newKey st d user grp (TrimSpace name) expiry (keySecret raw) encrypted (clk 2)"
  have k: "k_id k = nextID (map k_id (api_keys d))" "k_token_hash k = ks_sum s (keySecret raw)" "k_user k = user" "k_group k = grp"
    "k_revoked_at k = None" "k_secret k = Some encrypted" by (simp_all add: k_def newKey_def st)
  have "OpenAPIKey (ks_vault s) user (k_id k) encrypted = Inr (keySecret raw)"
    unfolding k(1) i [symmetric] by (rule open_own_key [OF v nonce e])
  then have "secretOK s k" using raw by (simp add: secretOK_def checkSecret_def decryptSecret_def k keySecret_def newToken_length)
  moreover have "activeKeys d' u t' \<le> 20" for u t'
  proof -
    have kt: "keyTenant d' t' = keyTenant d t'" for t' by (rule ext) (simp add: d' keyTenant_def)
    have rows: "api_keys d' = api_keys d @ [k]" by (simp add: d' k_def)
    have "keyTenant d t' k \<longleftrightarrow> t' = t"
    proof -
      have G: "g \<in> set (account_groups d)" "g_id g = grp" "g_tenant g = t" using checkScope_tenant [OF g] st by simp_all
      have "h = g" if "h \<in> set (account_groups d)" "g_id h = grp" for h
        using that G group_unique [of "account_groups d" h g] ok by (simp add: keysOK_def)
      then show ?thesis unfolding keyTenant_def list_ex_iff k(4) using G by metis
    qed
    then have "activeKeys d' u t' = activeKeys d u t' + (if u = user \<and> t' = t then 1 else 0)"
      using k(3,5) by (auto simp: activeKeys_def kt rows)
    then show ?thesis using n ok by (auto simp: keysOK_def)
  qed
  moreover have "api_keys d' = api_keys d @ [k]" by (simp add: d' k_def)
  moreover have "distinct (map k_id (api_keys d @ [k]))" "distinct (map k_token_hash (api_keys d @ [k]))"
  proof -
    have "k_id k \<notin> k_id ` set (api_keys d)" using nextID_not_in [of _ d] unfolding k(1) by (metis imageE)
    then show "distinct (map k_id (api_keys d @ [k]))" "distinct (map k_token_hash (api_keys d @ [k]))"
      using ok h unfolding keysOK_def k(2) [symmetric] by simp_all
  qed
  moreover have "fst ` set (allocation_keys d') \<subseteq> k_id ` set (api_keys d @ [k])" "distinct (map g_id (account_groups d'))"
    using ok k(1) i by (auto simp: keysOK_def d')
  moreover have "\<forall>k' \<in> set (api_keys d). secretOK s k'" using ok by (simp add: keysOK_def)
  ultimately show "keysOK s d'" unfolding keysOK_def by simp
  show "aged d d'" unfolding aged_def
    by (intro exI [of _ "api_keys d"] exI [of _ "[k]"]) (use unchanged_rows [OF ok] in \<open>simp add: d' k_def\<close>)
qed

subsection \<open>The other operations\<close>

lemma ownKey_Inr:
  assumes "ownKey s d user key = Inr k"
  shows "k \<in> set (api_keys d)" "k_id k = key" "k_user k = user" "keyTenant d (ks_tenant s) k"
  using assms by (auto simp: ownKey_def GetKey_def keyTenant_def res_simps dest: first_of_SomeD split: sum.splits if_splits)

lemma evolvedI:
  assumes "k_id k' = k_id k" "k_user k' = k_user k" "k_token_hash k' = k_token_hash k" "k_secret k' = k_secret k"
    "k_revoked_at k = None" "k_revoked_at k' = None"
  shows "evolved k k'"
  using assms by (simp add: evolved_def)

lemma Update_Inr:
  assumes "Update s actor clk d user key name enabled expiry = Inr (d', shown)"
  shows "\<exists>evs. d' = (mapKeys (\<lambda>k. k_id k = key \<and> k_user k = user \<and> k_revoked_at k = None)
      (\<lambda>k. k\<lparr>k_name := TrimSpace name, k_enabled := enabled, k_expires_at := expiry\<rparr>) d)\<lparr>audit_events := evs\<rparr>"
proof -
  obtain d1 where u: "UpdateKey d key user (TrimSpace name) enabled expiry = Inr d1"
    and a: "Record actor (clk 1) d1 ''key.update'' ''key'' (FormatInt key) = Inr d'"
    using assms unfolding Update_def by (auto simp: res_simps Let_def)
  then show ?thesis using Record_frame [OF a] by (simp add: UpdateKey_def res_simps)
qed

lemma keysOK_update:
  assumes ok: "keysOK s d" and r: "Update s' actor clk d user key name enabled expiry = Inr (d', shown)"
  shows "keysOK s d' \<and> aged d d'"
proof -
  obtain evs where d': "d' = (mapKeys (\<lambda>k. k_id k = key \<and> k_user k = user \<and> k_revoked_at k = None)
      (\<lambda>k. k\<lparr>k_name := TrimSpace name, k_enabled := enabled, k_expires_at := expiry\<rparr>) d)\<lparr>audit_events := evs\<rparr>"
    using Update_Inr [OF r] by blast
  show ?thesis unfolding d' keysOK_audit by (intro conjI keysOK_map [OF ok]) (auto intro: evolvedI)
qed

lemma Revoke_Inr:
  assumes "Revoke s actor clk d user key = Inr (d', shown)"
  shows "d' = d \<or> (\<exists>evs. d' = (mapKeys (\<lambda>k. k_id k = key \<and> k_user k = user) (revokedRow (clk 0)) d)\<lparr>audit_events := evs\<rparr>)"
proof -
  have "d' = d \<or> (\<exists>d1. RevokeKey d (clk 0) key user = Inr d1 \<and> Record actor (clk 1) d1 ''key.revoke'' ''key'' (FormatInt key) = Inr d')"
    using assms unfolding Revoke_def by (auto simp: res_simps Let_def split: if_splits)
  then show ?thesis
  proof
    assume "\<exists>d1. RevokeKey d (clk 0) key user = Inr d1 \<and> Record actor (clk 1) d1 ''key.revoke'' ''key'' (FormatInt key) = Inr d'"
    then obtain d1 where u: "RevokeKey d (clk 0) key user = Inr d1" and a: "Record actor (clk 1) d1 ''key.revoke'' ''key'' (FormatInt key) = Inr d'"
      by blast
    then show ?thesis using Record_frame [OF a] by (simp add: RevokeKey_def res_simps)
  qed simp
qed

lemma keysOK_revoke:
  assumes ok: "keysOK s d" and r: "Revoke s' actor clk d user key = Inr (d', shown)"
  shows "keysOK s d' \<and> aged d d'"
proof (rule disjE [OF Revoke_Inr [OF r]])
  assume "d' = d"
  then show ?thesis using ok aged_refl by simp
next
  assume "\<exists>evs. d' = (mapKeys (\<lambda>k. k_id k = key \<and> k_user k = user) (revokedRow (clk 0)) d)\<lparr>audit_events := evs\<rparr>"
  then obtain evs where d': "d' = (mapKeys (\<lambda>k. k_id k = key \<and> k_user k = user) (revokedRow (clk 0)) d)\<lparr>audit_events := evs\<rparr>" by blast
  show ?thesis unfolding d' keysOK_audit
    by (intro conjI keysOK_map [OF ok]) (use ok in \<open>auto simp: keysOK_def revokedRow_group intro: evolved_revoked\<close>)
qed

lemma keysOK_touch:
  assumes ok: "keysOK s d" and r: "TouchKey d now key threshold = Inr d'"
  shows "keysOK s d' \<and> aged d d'"
proof -
  have d': "d' = mapKeys (\<lambda>k. k_id k = key \<and> k_revoked_at k = None \<and> (case k_last_used_at k of None \<Rightarrow> True | Some t \<Rightarrow> t \<le> threshold))
      (\<lambda>k. k\<lparr>k_last_used_at := Some now\<rparr>) d" using r by (simp add: TouchKey_def res_simps)
  show ?thesis unfolding d' by (intro conjI keysOK_map [OF ok]) (auto intro: evolvedI)
qed

lemma Authenticate_Inr:
  assumes "Authenticate s now d secret = Inr (d', p)"
  shows "AuthenticateKey d (ks_sum s secret) (ks_tenant s) now = Inr (PrincipalKey p, PrincipalUser p, PrincipalGroup p)"
    "\<not> isl (KeyScheme d (PrincipalKey p) (PrincipalUser p) (PrincipalGroup p) now)"
    "TouchKey d now (PrincipalKey p) (now - 60) = Inr d'" "PrincipalTenant p = ks_tenant s" "secretBytes secret \<noteq> None"
  using assms unfolding Authenticate_def by (auto simp: res_simps split: sum.splits if_splits)

lemma Reveal_Inr:
  assumes "Reveal s actor now d user key = Inr (d', plain)"
  shows "\<exists>k secret evs. k \<in> set (api_keys d) \<and> k_id k = key \<and> k_user k = user \<and> k_revoked_at k = None \<and> k_secret k = Some secret \<and>
    decryptSecret s user key secret (k_token_hash k) = Inr plain \<and> d' = d\<lparr>audit_events := evs\<rparr>"
proof -
  obtain k secret where k: "GetKeySecret d key user (ks_tenant s) = Inr k" "k_revoked_at k = None" "k_secret k = Some secret"
    and p: "decryptSecret s (k_user k) (k_id k) secret (k_token_hash k) = Inr plain"
    and a: "Record actor now d ''key.reveal'' ''key'' (FormatInt key) = Inr d'"
    using assms unfolding Reveal_def by (auto simp: res_simps split: sum.splits option.splits if_splits)
  have "k \<in> set (api_keys d)" "k_id k = key" "k_user k = user" using k(1) by (auto simp: GetKeySecret_def res_simps dest: first_of_SomeD)
  then show ?thesis using k p Record_frame [OF a] by auto
qed

lemma keyTenant_pool:
  assumes ids: "distinct (map g_id (account_groups d))"
  shows "keyTenant d t k = (poolTenant d (k_group k) = Some t)"
proof
  assume "keyTenant d t k"
  then obtain g where g: "g \<in> set (account_groups d)" "g_id g = k_group k" "g_tenant g = t" by (auto simp: keyTenant_def list_ex_iff)
  have "first_of (\<lambda>h. g_id h = g_id g) (account_groups d) = Some g"
    using g(1) group_unique [OF ids] by (metis (mono_tags, lifting) first_of_None_iff first_of_SomeD option.exhaust)
  then show "poolTenant d (k_group k) = Some t" using g by (simp add: poolTenant_def)
next
  assume "poolTenant d (k_group k) = Some t"
  then show "keyTenant d t k" by (auto simp: keyTenant_def poolTenant_def list_ex_iff dest: first_of_SomeD)
qed

lemma Rebind_Inr:
  assumes "Rebind s actor clk d user key grp = Inr (d', shown)"
  shows "\<exists>scheme aks evs. d' = (mapKeys (\<lambda>k. k_id k = key \<and> k_user k = user \<and> k_revoked_at k = None) (\<lambda>k. k\<lparr>k_group := grp\<rparr>) d)
      \<lparr>allocation_keys := aks, audit_events := evs\<rparr> \<and> set aks \<subseteq> set (allocation_keys d) \<union> {(key, scheme)} \<and> key \<in> k_id ` set (api_keys d) \<and>
    (\<forall>k \<in> set (api_keys d). k_id k = key \<and> k_user k = user \<and> k_revoked_at k = None \<longrightarrow>
      poolTenant d grp \<noteq> None \<and> poolTenant d grp = poolTenant d (k_group k))"
proof -
  obtain k where own: "ownKey s d user key = Inr k" using assms unfolding Rebind_def by (auto simp: res_simps)
  obtain scheme d1 d2 d3 where c: "ClearKeyAllocation d key = Inr d1" and g: "RebindKeyGroup d1 key user grp = Inr d2"
    and b: "(if scheme \<noteq> 0 then BindKeyAllocation d2 key scheme else Inr d2) = Inr d3"
    and a: "Record actor (clk 1) d3 ''key.update'' ''key'' (FormatInt key) = Inr d'"
    using assms unfolding Rebind_def by (auto simp: res_simps)
  have d1: "d1 = d\<lparr>allocation_keys := filter (\<lambda>ak. fst ak \<noteq> key) (allocation_keys d)\<rparr>" using c by (simp add: ClearKeyAllocation_def res_simps)
  let ?hit = "\<lambda>k. k_id k = key \<and> k_user k = user \<and> k_revoked_at k = None"
  have pt: "poolTenant d1 = poolTenant d" "api_keys d1 = api_keys d" by (simp_all add: d1 poolTenant_def fun_eq_iff)
  have "(\<forall>k \<in> set (api_keys d1). ?hit k \<longrightarrow> poolTenant d1 grp \<noteq> None \<and> poolTenant d1 grp = poolTenant d1 (k_group k)) \<and>
      d2 = mapKeys ?hit (\<lambda>k. k\<lparr>k_group := grp\<rparr>) d1"
    using g unfolding RebindKeyGroup_def res_simps Let_def list_all_iff by blast
  then have d2: "d2 = mapKeys ?hit (\<lambda>k. k\<lparr>k_group := grp\<rparr>) d1" and same: "\<forall>k \<in> set (api_keys d). ?hit k \<longrightarrow>
      poolTenant d grp \<noteq> None \<and> poolTenant d grp = poolTenant d (k_group k)" unfolding pt by blast+
  have d3: "d3 = d2 \<or> d3 = d2\<lparr>allocation_keys := allocation_keys d2 @ [(key, scheme)]\<rparr>"
    using b by (auto simp: BindKeyAllocation_def res_simps split: if_splits)
  obtain evs where evs: "d' = d3\<lparr>audit_events := evs\<rparr>" using Record_frame [OF a] by blast
  have "d' = (mapKeys ?hit (\<lambda>k. k\<lparr>k_group := grp\<rparr>) d)\<lparr>allocation_keys := allocation_keys d3, audit_events := evs\<rparr>"
    using d3 by (auto simp: evs d2 d1 mapKeys_def)
  moreover have "set (allocation_keys d3) \<subseteq> set (allocation_keys d) \<union> {(key, scheme)}" using d3 by (auto simp: d2 d1 mapKeys_def)
  ultimately show ?thesis using same ownKey_Inr(1,2) [OF own] by blast
qed

lemma keysOK_rebind:
  assumes ok: "keysOK s d" and r: "Rebind s' actor clk d user key grp = Inr (d', shown)"
  shows "keysOK s d' \<and> aged d d'"
proof -
  let ?hit = "\<lambda>k. k_id k = key \<and> k_user k = user \<and> k_revoked_at k = None"
  let ?d = "mapKeys ?hit (\<lambda>k. k\<lparr>k_group := grp\<rparr>) d"
  obtain scheme aks evs where d': "d' = ?d\<lparr>allocation_keys := aks, audit_events := evs\<rparr>" and
    aks: "set aks \<subseteq> set (allocation_keys d) \<union> {(key, scheme)}" "key \<in> k_id ` set (api_keys d)" and
    same: "\<forall>k \<in> set (api_keys d). ?hit k \<longrightarrow> poolTenant d grp \<noteq> None \<and> poolTenant d grp = poolTenant d (k_group k)"
    using Rebind_Inr [OF r] by blast
  have ids: "distinct (map g_id (account_groups d))" using ok by (simp add: keysOK_def)
  have rows: "api_keys d' = api_keys ?d" "account_groups d' = account_groups d" by (simp_all add: d')
  have ev: "list_all2 evolved (api_keys d) (api_keys d')"
    unfolding rows by (rule evolved_map [OF ok]) (auto intro: evolvedI)
  have "keysOK s d'"
  proof (rule keysOK_evolved [OF ok ev])
    show "distinct (map g_id (account_groups d'))" using ids rows by simp
    fix j tenant assume j: "j < length (api_keys d)"
    have "api_keys d' ! j = (if ?hit (api_keys d ! j) then (api_keys d ! j)\<lparr>k_group := grp\<rparr> else api_keys d ! j)"
      using j by (simp add: rows mapKeys_def)
    then have "keyTenant d tenant (api_keys d' ! j) = keyTenant d tenant (api_keys d ! j)" using same j by (auto simp: keyTenant_pool [OF ids])
    then show "keyTenant d' tenant (api_keys d' ! j) = keyTenant d tenant (api_keys d ! j)" using rows by (simp add: keyTenant_def)
  next
    have "fst ` set (allocation_keys d) \<subseteq> k_id ` set (api_keys d)" using ok by (simp add: keysOK_def)
    then show "fst ` set (allocation_keys d') \<subseteq> k_id ` set (api_keys d)" using aks by (fastforce simp: d')
  qed
  moreover have "aged d d'" using ev by (auto simp: aged_def intro: exI [of _ "[]"])
  ultimately show ?thesis by simp
qed

lemma keysOK_elsewhere:
  assumes ok: "keysOK s d" and sp: "spared d d'"
  shows "keysOK s d' \<and> aged d d'"
proof -
  have rows: "list_all2 (\<lambda>k k'. k' = k \<or> (\<exists>now. k' = revokedRow now k)) (api_keys d) (api_keys d')" using sp by (simp add: spared_def)
  have ev: "list_all2 evolved (api_keys d) (api_keys d')"
    unfolding list_all2_conv_all_nth
  proof (intro conjI allI impI)
    show l: "length (api_keys d) = length (api_keys d')" using rows by (rule list_all2_lengthD)
    fix j assume j: "j < length (api_keys d)"
    then have "secretOK s (api_keys d ! j)" using ok by (simp add: keysOK_def)
    then show "evolved (api_keys d ! j) (api_keys d' ! j)" using list_all2_nthD [OF rows j] evolved_revoked evolved_refl_ok by metis
  qed
  have "keysOK s d'"
  proof (rule keysOK_evolved [OF ok ev])
    fix j tenant assume j: "j < length (api_keys d)"
    have "k_group (api_keys d' ! j) = k_group (api_keys d ! j)" using list_all2_nthD [OF rows j] by (auto simp: revokedRow_def)
    moreover have "keyTenant d' tenant (api_keys d ! j) = keyTenant d tenant (api_keys d ! j)"
      using sp j by (simp add: spared_def sameTenants_def)
    ultimately show "keyTenant d' tenant (api_keys d' ! j) = keyTenant d tenant (api_keys d ! j)" by (simp add: keyTenant_def)
  qed (use sp in \<open>simp_all add: spared_def sameTenants_def\<close>)
  then show ?thesis using ev by (auto simp: aged_def intro: exI [of _ "[]"])
qed

lemma key_step_OK:
  assumes st: "key_step s d d'" and ok: "keysOK s d" and v: "genuine (ks_vault s)"
  shows "keysOK s d' \<and> aged d d'"
  using st
proof (cases rule: key_step.cases)
  case (creates t actor clk raw nonce user grp scheme name expiry c)
  then show ?thesis using keysOK_create [OF ok creates(1-3) v] by simp
next
  case (authenticates t now secret p)
  then show ?thesis using keysOK_touch [OF ok Authenticate_Inr(3)] by blast
next
  case (reveals t actor now user key plain)
  then obtain evs where "d' = d\<lparr>audit_events := evs\<rparr>" using Reveal_Inr by blast
  then show ?thesis using ok aged_refl by (simp add: keysOK_audit)
next
  case (updates t actor clk user key name enabled expiry shown)
  then show ?thesis using keysOK_update [OF ok] by simp
next
  case (revokes t actor clk user key shown)
  then show ?thesis using keysOK_revoke [OF ok] by simp
next
  case (rebinds t actor clk user key grp shown)
  then show ?thesis using keysOK_rebind [OF ok] by simp
next
  case elsewhere
  then show ?thesis using keysOK_elsewhere [OF ok] by simp
qed

lemma noKeys_OK: "noKeys d \<Longrightarrow> keysOK s d"
  by (simp add: noKeys_def keysOK_def activeKeys_def)

section \<open>Properties\<close>

text \<open>The invariant holds of every store the steps reach, for a service with a genuine cipher.\<close>

definition keys_reach :: "KeyService \<Rightarrow> store \<Rightarrow> bool" where
  "keys_reach s d \<longleftrightarrow> genuine (ks_vault s) \<and> reach noKeys (key_step s) d"

lemma keys_reach_OK: "keys_reach s d \<Longrightarrow> keysOK s d"
proof -
  assume r: "keys_reach s d"
  have "reach noKeys (key_step s) d \<Longrightarrow> keysOK s d"
    by (induction rule: reach.induct) (use r key_step_OK noKeys_OK in \<open>auto simp: keys_reach_def\<close>)
  then show ?thesis using r by (simp add: keys_reach_def)
qed

lemma keys_steps_OK:
  assumes "(key_step s)\<^sup>*\<^sup>* d d'" "keysOK s d" "genuine (ks_vault s)"
  shows "keysOK s d' \<and> aged d d'"
  using assms(1)
proof (induction rule: rtranclp_induct)
  case base
  then show ?case using assms(2) aged_refl by simp
next
  case (step e e')
  then show ?case using key_step_OK [OF step(2) _ assms(3)] aged_trans by blast
qed

lemma checked_rows:
  assumes "\<And>k. k \<in> set ks \<Longrightarrow> \<not> isl (checkSecret s k)"
  shows "\<exists>vs. mapR (checkSecret s) ks = Inr vs"
  using assms
proof (induction ks)
  case (Cons k ks)
  then obtain vs v where "mapR (checkSecret s) ks = Inr vs" "checkSecret s k = Inr v" by (metis list.set_intros sum.collapse(2))
  then show ?case by simp
qed simp

lemma Verify_OK:
  "\<forall>k \<in> set (api_keys d). \<not> isl (checkSecret s k) \<Longrightarrow> \<not> fails d ''ListKeySecrets'' \<Longrightarrow> Verify s d cursor = Inr ()"
proof (induction s d cursor rule: Verify.induct)
  case (1 s d cursor)
  obtain rows where r: "ListKeySecrets d cursor = Inr rows" using 1(3) by (simp add: ListKeySecrets_def query_def)
  have "set rows \<subseteq> set (api_keys d)" using r by (auto simp: ListKeySecrets_def res_simps dest: in_set_takeD)
  then obtain vs where vs: "mapR (checkSecret s) rows = Inr vs" using checked_rows [of rows s] 1(2) by blast
  show ?case using 1 r vs by (subst Verify.simps) simp
qed

text \<open>
  C21: In every store the key service can reach, interleaved with anything the rest of the program does to
  its workspaces, keys have distinct identifiers and hashes, a member has at most twenty active keys in a
  workspace, a revoked key has no stored secret, and the start-up check of all stored secrets succeeds.
\<close>

theorem keys_invariant:
  assumes "keys_reach s d"
  shows "distinct (map k_id (api_keys d)) \<and> distinct (map k_token_hash (api_keys d)) \<and> int (activeKeys d user tenant) \<le> maxActiveKeys \<and>
    (\<forall>k \<in> set (api_keys d). k_revoked_at k \<noteq> None \<longrightarrow> k_secret k = None) \<and>
    (\<not> fails d ''ListKeySecrets'' \<longrightarrow> Verify s d 0 = Inr ())"
proof -
  have ok: "keysOK s d" by (rule keys_reach_OK [OF assms])
  then have "\<forall>k \<in> set (api_keys d). secretOK s k" by (simp add: keysOK_def)
  then show ?thesis using ok Verify_OK [of d s 0] by (auto simp: keysOK_def secretOK_def maxActiveKeys_def)
qed

lemma revoked_stays:
  assumes "keys_reach s d" and "k \<in> set (api_keys d)" and "k_revoked_at k = Some t" and "(key_step s)\<^sup>*\<^sup>* d d'"
  shows "k \<in> set (api_keys d') \<and>
    (ks_sum s secret = k_token_hash k \<longrightarrow> isl (Authenticate (s\<lparr>ks_tenant := tenant\<rparr>) now d' secret)) \<and>
    isl (Reveal (s\<lparr>ks_tenant := tenant\<rparr>) actor now d' user (k_id k))"
proof -
  have ok: "keysOK s d" and v: "genuine (ks_vault s)" using assms(1) keys_reach_OK by (auto simp: keys_reach_def)
  note P = keys_steps_OK [OF assms(4) ok v]
  obtain old new where rows: "api_keys d' = old @ new" "list_all2 evolved (api_keys d) old" using P by (auto simp: aged_def)
  obtain j where j: "j < length (api_keys d)" "k = api_keys d ! j" using assms(2) by (metis in_set_conv_nth)
  then have "old ! j = k" using list_all2_nthD [OF rows(2) j(1)] assms(3) by (simp add: evolved_def)
  then have k: "k \<in> set (api_keys d')" using j rows list_all2_lengthD [OF rows(2)] by (metis UnCI nth_mem set_append)
  have u: "k' = k" if "k' \<in> set (api_keys d')" "k_id k' = k_id k \<or> k_token_hash k' = k_token_hash k" for k'
    using P k that by (auto simp: keysOK_def distinct_map dest: inj_onD)
  have "isl (Authenticate (s\<lparr>ks_tenant := tenant\<rparr>) now d' secret)" if h: "ks_sum s secret = k_token_hash k"
  proof (rule ccontr)
    assume "\<not> ?thesis"
    then obtain e p where "Authenticate (s\<lparr>ks_tenant := tenant\<rparr>) now d' secret = Inr (e, p)" by (cases "Authenticate (s\<lparr>ks_tenant := tenant\<rparr>) now d' secret") auto
    from Authenticate_Inr(1) [OF this] obtain k' where "k' \<in> set (api_keys d')" "k_token_hash k' = k_token_hash k" "liveKey k' now"
      using h by (auto simp: AuthenticateKey_def res_simps dest: first_of_SomeD)
    then show False using u [of k'] assms(3) by (simp add: liveKey_def)
  qed
  moreover have "isl (Reveal (s\<lparr>ks_tenant := tenant\<rparr>) actor now d' user (k_id k))"
  proof (rule ccontr)
    assume "\<not> ?thesis"
    then obtain e p where "Reveal (s\<lparr>ks_tenant := tenant\<rparr>) actor now d' user (k_id k) = Inr (e, p)" by (cases "Reveal (s\<lparr>ks_tenant := tenant\<rparr>) actor now d' user (k_id k)") auto
    from Reveal_Inr [OF this] show False using u assms(3) by fastforce
  qed
  ultimately show ?thesis using k by blast
qed

text \<open>
  C18: Revocation is final. Whatever happens after a key is revoked, its row stays as it is, no secret with its
  hash authenticates in any workspace at any time, and its secret is never disclosed again.
\<close>

theorem revoked_forever:
  assumes "keys_reach s d" and "k \<in> set (api_keys d)" and "k_revoked_at k = Some t" and "(key_step s)\<^sup>*\<^sup>* d d'"
  shows "k \<in> set (api_keys d') \<and>
    (ks_sum s secret = k_token_hash k \<longrightarrow> isl (Authenticate (s\<lparr>ks_tenant := tenant\<rparr>) now d' secret)) \<and>
    isl (Reveal (s\<lparr>ks_tenant := tenant\<rparr>) actor now d' user (k_id k))"
  by (rule revoked_stays [OF assms])

text \<open>
  C19: Authentication is sound. A secret that authenticates is the one of a stored key that is enabled, not
  revoked and not expired, whose owner is enabled and may use the key's pool, which is enabled and belongs to
  the workspace; a pool with a scheme is used only through a key whose scheme admits the owner. Nothing but the
  time of use of this key changes, and only when it is older than a minute.
\<close>

theorem authenticate_sound:
  assumes "Authenticate s now d secret = Inr (d', p)"
  shows "\<exists>k \<in> set (api_keys d). k_id k = PrincipalKey p \<and> k_user k = PrincipalUser p \<and> k_group k = PrincipalGroup p \<and>
    k_token_hash k = ks_sum s secret \<and> secretBytes secret \<noteq> None \<and> liveKey k now \<and>
    (\<exists>u \<in> set (users d). u_id u = k_user k \<and> u_enabled u) \<and>
    (\<exists>g \<in> set (account_groups d). g_id g = k_group k \<and> g_tenant g = ks_tenant s \<and> g_enabled g) \<and>
    effective_group_access d (k_user k) (k_group k) \<and>
    (case map_of (allocation_keys d) (k_id k) of
       None \<Rightarrow> \<not> (\<exists>sch \<in> set (allocation_schemes d). s_group sch = k_group k)
     | Some i \<Rightarrow> \<not> isl (Authorize d i (k_user k) (k_group k) now)) \<and>
    d' = mapKeys (\<lambda>k'. k_id k' = k_id k \<and> k_revoked_at k' = None \<and> (case k_last_used_at k' of None \<Rightarrow> True | Some t \<Rightarrow> t \<le> now - 60))
      (\<lambda>k. k\<lparr>k_last_used_at := Some now\<rparr>) d"
proof -
  note A = Authenticate_Inr [OF assms]
  obtain k where k: "k \<in> set (api_keys d)" "k_token_hash k = ks_sum s secret" "liveKey k now"
      "list_ex (\<lambda>u. u_id u = k_user k \<and> u_enabled u) (users d)"
      "list_ex (\<lambda>g. g_id g = k_group k \<and> g_tenant g = ks_tenant s \<and> g_enabled g) (account_groups d)"
      "effective_group_access d (k_user k) (k_group k)"
    and p: "PrincipalKey p = k_id k" "PrincipalUser p = k_user k" "PrincipalGroup p = k_group k"
    using A(1) by (auto simp: AuthenticateKey_def res_simps dest!: first_of_SomeD)
  have "case map_of (allocation_keys d) (k_id k) of None \<Rightarrow> \<not> (\<exists>sch \<in> set (allocation_schemes d). s_group sch = k_group k)
     | Some i \<Rightarrow> \<not> isl (Authorize d i (k_user k) (k_group k) now)"
    using A(2) unfolding p KeyScheme_def GetKeyAllocation_def GetPoolAllocation_def
    by (auto simp: queryRow_def bindR_def errorsIs_def Unwrap_def first_of_None_iff split: option.splits sum.splits if_splits)
  moreover have "d' = mapKeys (\<lambda>k'. k_id k' = k_id k \<and> k_revoked_at k' = None \<and> (case k_last_used_at k' of None \<Rightarrow> True | Some t \<Rightarrow> t \<le> now - 60))
      (\<lambda>k. k\<lparr>k_last_used_at := Some now\<rparr>) d"
    using A(3) by (simp add: TouchKey_def res_simps p)
  ultimately show ?thesis using k p A(5) by (auto simp: list_ex_iff)
qed

subsection \<open>A new key works\<close>

lemma keySecret_bytes: "length raw = 32 \<Longrightarrow> secretBytes (keySecret raw) = Some raw"
  by (simp add: secretBytes_def keySecret_def newToken_length decode_encode)

lemma first_of_new: "(\<And>x. x \<in> set xs \<Longrightarrow> \<not> P x) \<Longrightarrow> P y \<Longrightarrow> first_of P (xs @ [y]) = Some y"
  by (simp add: first_of_append first_of_None_iff [THEN iffD2])

text \<open>What reading keys, audit events and bindings aside leaves alone.\<close>

lemma key_frames:
  fixes d :: store and ks aks evs
  defines "d' \<equiv> d\<lparr>api_keys := ks, allocation_keys := aks, audit_events := evs\<rparr>"
  shows "effective_group_access d' = effective_group_access d" "schemeGroup d' = schemeGroup d" "currentRow d' = currentRow d"
    "faults d' = faults d" "allocation_schemes d' = allocation_schemes d" "account_groups d' = account_groups d" "users d' = users d"
  unfolding d'_def by (simp_all add: effective_group_access_def schemeGroup_def currentRow_def fun_eq_iff)

lemma Authorize_frame:
  fixes d :: store and ks aks evs
  defines "d' \<equiv> d\<lparr>api_keys := ks, allocation_keys := aks, audit_events := evs\<rparr>"
  shows "Authorize d' = Authorize d"
proof -
  note F = key_frames [where d = d and ks = ks and aks = aks and evs = evs, folded d'_def]
  have G: "GetAllocationScheme d' = GetAllocationScheme d" "CanUseAllocation d' = CanUseAllocation d" "Current d' = Current d"
    unfolding GetAllocationScheme_def CanUseAllocation_def Current_def CurrentAllocationRevision_def query_def queryRow_def F
    by (rule refl)+
  have "Authorize d' i u g now = Authorize d i u g now" for i u g now unfolding Authorize_def G by (rule refl)
  then show ?thesis by (intro ext)
qed

lemma Record_again:
  assumes "Record actor now d ''key.create'' ''key'' (FormatInt i) = Inr d'" and "faults d'' = []"
  shows "\<not> isl (Record actor now' d'' ''key.reveal'' ''key'' (FormatInt i))"
  using assms by (auto simp: Record_def ValidTarget_def actions_def bindR_def exec_def split: option.splits if_splits)

text \<open>
  C20: A new key works. Without database errors, its secret authenticates as its owner in its pool until it
  expires, with a scheme at the moment of its creation, and its owner can read the secret again.
\<close>

theorem created_key_works:
  assumes "keys_reach s d" and "createKey (s\<lparr>ks_tenant := tenant\<rparr>) actor clk raw nonce d user grp scheme name expiry = Inr (d', c)"
    and "length raw = 32" and "length nonce = nonceSize (ks_vault s)" and "faults d = []"
    and "case expiry of None \<Rightarrow> True | Some t \<Rightarrow> now < t" and "scheme = 0 \<or> now = clk 1"
  shows "(\<exists>e. Authenticate (s\<lparr>ks_tenant := tenant\<rparr>) now d' (Secret c) =
      Inr (e, \<lparr>PrincipalKey = KeyID' (CreatedKey' c), PrincipalUser = user, PrincipalGroup = grp, PrincipalTenant = tenant\<rparr>)) \<and>
    (\<exists>e. Reveal (s\<lparr>ks_tenant := tenant\<rparr>) actor later d' user (KeyID' (CreatedKey' c)) = Inr (e, Secret c))"
proof -
  define st where "st = s\<lparr>ks_tenant := tenant\<rparr>"
  have st: "ks_vault st = ks_vault s" "ks_sum st = ks_sum s" "ks_tenant st = tenant" by (simp_all add: st_def)
  have ok: "keysOK s d" and v: "genuine (ks_vault s)" using assms(1) keys_reach_OK by (auto simp: keys_reach_def)
  let ?i = "KeyID' (CreatedKey' c)"
  obtain encrypted evs g where P: "SealAPIKey (ks_vault s) nonce user ?i (keySecret raw) = Inr encrypted \<and>
    ?i = nextID (map k_id (api_keys d)) \<and> Secret c = keySecret raw \<and> ks_sum s (keySecret raw) \<notin> k_token_hash ` set (api_keys d) \<and>
    checkScope st d user grp scheme (clk 1) = Inr g \<and> activeKeys d user tenant < 20 \<and> validExpiry expiry (clk 0) \<and>
    d' = d\<lparr>api_keys := api_keys d @ [newKey st d user grp (TrimSpace name) expiry (keySecret raw) encrypted (clk 2)],
      allocation_keys := allocation_keys d @ (if scheme = 0 then [] else [(?i, scheme)]), audit_events := evs\<rparr>"
    using createKey_Inr [OF assms(2) [folded st_def], unfolded st] by (elim exE)
  define k where "k = newKey st d user grp (TrimSpace name) expiry (keySecret raw) encrypted (clk 2)"
  have k: "k_id k = ?i" "k_token_hash k = ks_sum s (keySecret raw)" "k_user k = user" "k_group k = grp"
    "k_revoked_at k = None" "k_secret k = Some encrypted" "k_enabled k" "k_expires_at k = expiry"
    using P by (simp_all add: k_def newKey_def st)
  have d': "d' = d\<lparr>api_keys := api_keys d @ [k],
      allocation_keys := allocation_keys d @ (if scheme = 0 then [] else [(?i, scheme)]), audit_events := evs\<rparr>"
    using P unfolding k_def by blast
  have rows: "api_keys d' = api_keys d @ [k]" and binds: "allocation_keys d' = allocation_keys d @ (if scheme = 0 then [] else [(?i, scheme)])"
    by (simp_all add: d')
  note F = key_frames [where d = d and ks = "api_keys d @ [k]" and
      aks = "allocation_keys d @ (if scheme = 0 then [] else [(?i, scheme)])" and evs = evs, folded d']
  note A = Authorize_frame [where d = d and ks = "api_keys d @ [k]" and
      aks = "allocation_keys d @ (if scheme = 0 then [] else [(?i, scheme)])" and evs = evs, folded d']
  have i: "?i = nextID (map k_id (api_keys d))" and h: "ks_sum s (keySecret raw) \<notin> k_token_hash ` set (api_keys d)"
    and sec: "Secret c = keySecret raw" and scope: "checkScope st d user grp scheme (clk 1) = Inr g"
    and sl: "SealAPIKey (ks_vault s) nonce user ?i (keySecret raw) = Inr encrypted" using P by blast+
  have live: "liveKey k now" using assms(6) by (simp add: liveKey_def k)
  have user: "list_ex (\<lambda>u. u_id u = user \<and> u_enabled u) (users d)" "effective_group_access d user grp"
    "list_ex (\<lambda>g. g_id g = grp \<and> g_enabled g) (account_groups d)"
    and auth: "scheme \<noteq> 0 \<Longrightarrow> \<not> isl (Authorize d scheme user grp (clk 1))" "scheme = 0 \<Longrightarrow> isl (GetPoolAllocation d grp)"
    using scope unfolding checkScope_def CanUseGroup_def by (auto simp: res_simps split: sum.splits if_splits)
  have group: "list_ex (\<lambda>g. g_id g = grp \<and> g_tenant g = tenant \<and> g_enabled g) (account_groups d)"
    using user(3) checkScope_tenant [OF scope] group_unique [of "account_groups d"] ok by (auto simp: list_ex_iff keysOK_def st)
  have "AuthenticateKey d' (ks_sum st (Secret c)) tenant now = Inr (?i, user, grp)"
  proof -
    have other: "k_token_hash x \<noteq> ks_sum s (keySecret raw)" if "x \<in> set (api_keys d)" for x using h that by (metis imageI)
    have "first_of (\<lambda>k. k_token_hash k = ks_sum s (keySecret raw) \<and> liveKey k now \<and> list_ex (\<lambda>u. u_id u = k_user k \<and> u_enabled u) (users d) \<and>
           list_ex (\<lambda>g. g_id g = k_group k \<and> g_tenant g = tenant \<and> g_enabled g) (account_groups d) \<and>
           effective_group_access d (k_user k) (k_group k)) (api_keys d @ [k]) = Some k"
      by (rule first_of_new) (use other live user group in \<open>simp_all add: k\<close>)
    then show ?thesis unfolding AuthenticateKey_def F rows sec st by (simp add: queryRow_def F assms(5) k)
  qed
  moreover have "KeyScheme d' ?i user grp now = Inr scheme"
  proof -
    have "?i \<notin> fst ` set (allocation_keys d)" using ok nextID_fresh [of ?i "map k_id (api_keys d)"] i by (auto simp: keysOK_def)
    then have m: "map_of (allocation_keys d) ?i = None" by (simp add: map_of_eq_None_iff)
    show ?thesis
    proof (cases "scheme = 0")
      case True
      then have "first_of (\<lambda>s. s_group s = grp) (allocation_schemes d) = None"
        using auth(2) assms(5) by (auto simp: GetPoolAllocation_def queryRow_def split: option.splits)
      then show ?thesis using True m by (simp add: KeyScheme_def GetKeyAllocation_def GetPoolAllocation_def queryRow_def F binds assms(5))
    next
      case False
      then show ?thesis using auth(1) assms(7) m
        by (auto simp: KeyScheme_def GetKeyAllocation_def queryRow_def F binds assms(5) A map_add_def bindR_def split: sum.splits)
    qed
  qed
  moreover obtain d2 where "TouchKey d' now ?i (now - 60) = Inr d2" by (simp add: TouchKey_def exec_def F assms(5))
  ultimately have "\<exists>e. Authenticate st now d' (Secret c) =
      Inr (e, \<lparr>PrincipalKey = ?i, PrincipalUser = user, PrincipalGroup = grp, PrincipalTenant = tenant\<rparr>)"
    unfolding Authenticate_def st using keySecret_bytes [OF assms(3)] sec by (simp add: st)
  moreover have "\<exists>e. Reveal st actor later d' user ?i = Inr (e, Secret c)"
  proof -
    have "first_of (\<lambda>k. k_id k = ?i \<and> k_user k = user \<and> keyTenant d' tenant k \<and> list_ex (\<lambda>u. u_id u = user \<and> u_enabled u) (users d')) (api_keys d @ [k]) = Some k"
      by (rule first_of_new) (use nextID_not_in [of _ d] i user group in \<open>auto simp: k keyTenant_def F list_ex_iff\<close>)
    then have row: "GetKeySecret d' ?i user tenant = Inr k" by (simp add: GetKeySecret_def queryRow_def rows F assms(5))
    have "OpenAPIKey (ks_vault s) user ?i encrypted = Inr (keySecret raw)"
      by (rule open_own_key [OF v assms(4) sl])
    then have dec: "decryptSecret st user ?i encrypted (ks_sum s (keySecret raw)) = Inr (keySecret raw)"
      using assms(3) by (simp add: decryptSecret_def st keySecret_def newToken_length)
    obtain e where e: "Record actor later d' ''key.reveal'' ''key'' (FormatInt ?i) = Inr e"
    proof -
      have "\<exists>d1 j. Record actor (clk 3) d1 ''key.create'' ''key'' (FormatInt j) = Inr d' \<and> j = ?i"
        using assms(2) unfolding createKey_def by (auto simp: res_simps Let_def)
      then show ?thesis using that Record_again [of actor "clk 3" _ ?i d' d' later] F assms(5)
        by (cases "Record actor later d' ''key.reveal'' ''key'' (FormatInt ?i)") auto
    qed
    then have "faults e = []" using Record_frame [OF e] F assms(5) by auto
    then show ?thesis using row dec e by (auto simp: Reveal_def transaction_def query_def F assms(5) st k sec)
  qed
  ultimately show ?thesis by (simp add: st_def)
qed

section \<open>Examples\<close>

text \<open>Member 7 creates a key in the pool of the example store, which has no scheme here, and revokes it.\<close>

definition exampleKeyService :: KeyService where
  "exampleKeyService = \<lparr>ks_vault = plainCipher, ks_sum = (\<lambda>secret. take 32 (secret @ replicate 32 CHR ''-'')), ks_tenant = 1\<rparr>"

definition exampleKeyStore :: store where
  "exampleKeyStore = (exampleStore [])\<lparr>allocation_schemes := []\<rparr>"

definition exampleKeyed :: "(store \<times> CreatedKey) result" where
  "exampleKeyed = createKey (exampleKeyService\<lparr>ks_tenant := 1\<rparr>) None (\<lambda>_. 20000) (replicate 32 CHR ''r'') (replicate 12 CHR ''n'')
     exampleKeyStore 7 1 0 ''laptop'' None"

definition exampleRevoked :: "(store \<times> Key) result" where
  "exampleRevoked = bindR exampleKeyed (\<lambda>(d, c). Revoke (exampleKeyService\<lparr>ks_tenant := 1\<rparr>) None (\<lambda>_. 30000) d 7 (KeyID' (CreatedKey' c)))"

lemma exampleKeyed_run: "case exampleKeyed of Inl _ \<Rightarrow> False | Inr (d, c) \<Rightarrow> KeyID' (CreatedKey' c) = 1 \<and> length (api_keys d) = 1"
  unfolding exampleKeyed_def exampleKeyService_def exampleKeyStore_def by code_simp

lemma exampleRevoked_run: "case exampleRevoked of Inl _ \<Rightarrow> False | Inr (d, c) \<Rightarrow>
    map (\<lambda>k. (k_id k, k_revoked_at k, k_token_hash k)) (api_keys d) = [(1, Some 30000, ''sl_cnJycnJycnJycnJycnJycnJycnJyc'')] \<and> faults d = []"
  unfolding exampleRevoked_def exampleKeyed_def exampleKeyService_def exampleKeyStore_def by code_simp

lemma exampleKeyStore_empty: "noKeys exampleKeyStore"
  by (simp add: noKeys_def exampleKeyStore_def exampleStore_def)

lemma exampleKeys:
  obtains d c d' v where "exampleKeyed = Inr (d, c)" and "KeyID' (CreatedKey' c) = 1" and "exampleRevoked = Inr (d', v)"
    and "keys_reach exampleKeyService exampleKeyStore" and "keys_reach exampleKeyService d" and "keys_reach exampleKeyService d'"
    and "map (\<lambda>k. (k_id k, k_revoked_at k, k_token_hash k)) (api_keys d') = [(1, Some 30000, ''sl_cnJycnJycnJycnJycnJycnJycnJyc'')]"
proof -
  obtain d c where d: "exampleKeyed = Inr (d, c)" "KeyID' (CreatedKey' c) = 1" using exampleKeyed_run by (auto split: sum.splits)
  obtain d' v where d': "exampleRevoked = Inr (d', v)"
    and rows: "map (\<lambda>k. (k_id k, k_revoked_at k, k_token_hash k)) (api_keys d') = [(1, Some 30000, ''sl_cnJycnJycnJycnJycnJycnJycnJyc'')]"
    using exampleRevoked_run by (auto split: sum.splits)
  have v: "ks_vault exampleKeyService = plainCipher" by (simp add: exampleKeyService_def)
  have "key_step exampleKeyService exampleKeyStore d"
    by (rule key_step.creates [OF d(1) [unfolded exampleKeyed_def]]) (simp_all add: v plainCipher_def)
  moreover have "key_step exampleKeyService d d'"
  proof (rule key_step.revokes)
    show "Revoke (exampleKeyService\<lparr>ks_tenant := 1\<rparr>) None (\<lambda>_. 30000) d 7 1 = Inr (d', v)"
      using d' unfolding exampleRevoked_def d(1) by (simp add: d(2) bindR_def)
  qed
  moreover have "reach noKeys (key_step exampleKeyService) exampleKeyStore" by (rule reach.intros(1)) (rule exampleKeyStore_empty)
  ultimately have r: "keys_reach exampleKeyService exampleKeyStore" "keys_reach exampleKeyService d" "keys_reach exampleKeyService d'"
    unfolding keys_reach_def v using plainCipher_genuine by (blast intro: reach.intros)+
  show thesis by (rule that [OF d d' r rows])
qed

theorem keys_invariant_witness:
  "\<exists>d' v. exampleRevoked = Inr (d', v) \<and> Verify exampleKeyService d' 0 = Inr () \<and> length (api_keys d') = 1"
proof -
  obtain d' v where r: "exampleRevoked = Inr (d', v)" "keys_reach exampleKeyService d'"
    "map (\<lambda>k. (k_id k, k_revoked_at k, k_token_hash k)) (api_keys d') = [(1, Some 30000, ''sl_cnJycnJycnJycnJycnJycnJycnJyc'')]"
    by (rule exampleKeys)
  have "faults d' = []" using exampleRevoked_run unfolding r(1) by simp
  then show ?thesis using keys_invariant [OF r(2)] r by (auto dest: arg_cong [where f = length])
qed

theorem revoked_forever_witness:
  "\<exists>d' v. exampleRevoked = Inr (d', v) \<and> isl (Authenticate (exampleKeyService\<lparr>ks_tenant := 1\<rparr>) 40000 d' (keySecret (replicate 32 CHR ''r'')))"
proof -
  obtain d' v where r: "exampleRevoked = Inr (d', v)" "keys_reach exampleKeyService d'"
    "map (\<lambda>k. (k_id k, k_revoked_at k, k_token_hash k)) (api_keys d') = [(1, Some 30000, ''sl_cnJycnJycnJycnJycnJycnJycnJyc'')]"
    by (rule exampleKeys)
  then obtain k where k: "k \<in> set (api_keys d')" "k_revoked_at k = Some 30000" "k_token_hash k = ''sl_cnJycnJycnJycnJycnJycnJycnJyc''"
    by (cases "api_keys d'") auto
  have "ks_sum exampleKeyService (keySecret (replicate 32 CHR ''r'')) = ''sl_cnJycnJycnJycnJycnJycnJycnJyc''"
    unfolding exampleKeyService_def by code_simp
  then show ?thesis using revoked_forever [OF r(2) k(1,2) rtranclp.rtrancl_refl] r(1) k(3) by metis
qed

theorem created_key_works_witness:
  "\<exists>d c e. exampleKeyed = Inr (d, c) \<and> Authenticate (exampleKeyService\<lparr>ks_tenant := 1\<rparr>) 40000 d (Secret c) =
     Inr (e, \<lparr>PrincipalKey = 1, PrincipalUser = 7, PrincipalGroup = 1, PrincipalTenant = 1\<rparr>)"
proof -
  obtain d c where d: "exampleKeyed = Inr (d, c)" "KeyID' (CreatedKey' c) = 1" "keys_reach exampleKeyService exampleKeyStore"
    by (rule exampleKeys)
  have v: "nonceSize (ks_vault exampleKeyService) = 12" by (simp add: exampleKeyService_def plainCipher_def)
  have f: "faults exampleKeyStore = []" by (simp add: exampleKeyStore_def exampleStore_def)
  have "\<exists>e. Authenticate (exampleKeyService\<lparr>ks_tenant := 1\<rparr>) 40000 d (Secret c) =
     Inr (e, \<lparr>PrincipalKey = KeyID' (CreatedKey' c), PrincipalUser = 7, PrincipalGroup = 1, PrincipalTenant = 1\<rparr>)"
    by (rule conjunct1 [OF created_key_works [OF d(3) d(1) [unfolded exampleKeyed_def]]]) (simp_all add: v f)
  then show ?thesis using d(1,2) by auto
qed

theorem authenticate_sound_witness:
  "\<exists>d c. exampleKeyed = Inr (d, c) \<and> (\<exists>k \<in> set (api_keys d). k_id k = 1 \<and> k_user k = 7 \<and> liveKey k 40000)"
proof -
  obtain d c where d: "exampleKeyed = Inr (d, c)" "KeyID' (CreatedKey' c) = 1" by (rule exampleKeys)
  have "case exampleKeyed of Inl _ \<Rightarrow> False | Inr (d, c) \<Rightarrow> (case Authenticate exampleKeyService 40000 d (Secret c) of Inl _ \<Rightarrow> False
      | Inr (_, p) \<Rightarrow> PrincipalKey p = 1 \<and> PrincipalUser p = 7)"
    unfolding exampleKeyed_def exampleKeyService_def exampleKeyStore_def by code_simp
  then obtain e p where "Authenticate exampleKeyService 40000 d (Secret c) = Inr (e, p)" "PrincipalKey p = 1" "PrincipalUser p = 7"
    unfolding d(1) by (auto split: sum.splits)
  then show ?thesis using authenticate_sound [of exampleKeyService 40000 d "Secret c" e p] d(1) by auto
qed

end
