(* ===== verification/Workspaces.thy ===== *)
theory Workspaces
  imports Tenants Groups_Manage Keys_Life
begin

text \<open>
  Workspaces, their members, pools, grants and keys together: the operations of \<open>tenants\<close>, \<open>groups\<close> and
  \<open>apikey\<close> interleave, and every workspace keeps exactly one owner, who is never disabled or removed, while
  someone who was removed holds no grant and no live key there.
\<close>

section \<open>The invariant\<close>

definition poolIn :: "store \<Rightarrow> int \<Rightarrow> int \<Rightarrow> bool" where
  "poolIn d g tenant \<longleftrightarrow> (\<exists>r \<in> set (account_groups d). g_id r = g \<and> g_tenant r = tenant)"

text \<open>What a removed member leaves behind.\<close>

definition gone :: "store \<Rightarrow> int \<Rightarrow> int \<Rightarrow> bool" where
  "gone d tenant user \<longleftrightarrow> (\<forall>g. (g, user) \<in> set (group_members d) \<longrightarrow> \<not> poolIn d g tenant) \<and>
     (\<forall>k \<in> set (api_keys d). k_user k = user \<and> poolIn d (k_group k) tenant \<longrightarrow> k_revoked_at k \<noteq> None)"

definition ownersOK :: "store \<Rightarrow> bool" where
  "ownersOK d \<longleftrightarrow> distinct (map t_id (tenants d)) \<and> distinct (map (\<lambda>m. (m_tenant m, m_user m)) (memberships d)) \<and>
     (\<forall>t \<in> set (tenants d). \<exists>m \<in> set (memberships d). isMember (t_id t) (t_owner t) m \<and> m_role m = ''owner'' \<and> m_enabled m \<and> m_removed_at m = None) \<and>
     (\<forall>m \<in> set (memberships d). m_role m = ''owner'' \<longrightarrow> (\<exists>t \<in> set (tenants d). t_id t = m_tenant m \<and> t_owner t = m_user m)) \<and>
     (\<forall>user. ownsWorkspaces d user \<le> MaxOwnedWorkspaces)"

definition removedOK :: "store \<Rightarrow> bool" where
  "removedOK d \<longleftrightarrow> (\<forall>m \<in> set (memberships d). m_removed_at m \<noteq> None \<longrightarrow> \<not> m_enabled m \<and> gone d (m_tenant m) (m_user m))"

definition poolsOK :: "store \<Rightarrow> bool" where
  "poolsOK d \<longleftrightarrow> distinct (map g_id (account_groups d)) \<and> fst ` set (group_members d) \<subseteq> g_id ` set (account_groups d) \<and>
     k_group ` set (api_keys d) \<subseteq> g_id ` set (account_groups d)"

definition workspacesOK :: "store \<Rightarrow> bool" where
  "workspacesOK d \<longleftrightarrow> ownersOK d \<and> removedOK d \<and> poolsOK d"

text \<open>The part of the store the invariant reads.\<close>

definition workspaceView where
  "workspaceView d = (map (\<lambda>t. (t_id t, t_owner t)) (tenants d),
     map (\<lambda>m. (m_tenant m, m_user m, m_role m, m_enabled m, m_removed_at m)) (memberships d),
     map (\<lambda>g. (g_id g, g_tenant g)) (account_groups d), group_members d,
     map (\<lambda>k. (k_user k, k_group k, k_revoked_at k)) (api_keys d))"

inductive workspace_step :: "KeyService \<Rightarrow> store \<Rightarrow> store \<Rightarrow> bool" for s where
  founds: "CreateTenant now d owner name = Inr (d', shown) \<Longrightarrow> workspace_step s d d'"
| sets_up: "tenants d = [] \<Longrightarrow> CreateInitial d owner now name = Inr d' \<Longrightarrow> workspace_step s d d'"
| joins: "addMember ctx clk d actor tenant user name role = Inr (d', summ) \<Longrightarrow> workspace_step s d d'"
| invited: "AddNewMember d tenant user now = Inr d' \<Longrightarrow> workspace_step s d d'"
| enables: "SetMemberEnabled ctx now d actor tenant user enabled = Inr (d', summ) \<Longrightarrow> workspace_step s d d'"
| promotes: "SetMemberRole ctx now d actor tenant user role = Inr (d', summ) \<Longrightarrow> workspace_step s d d'"
| removes: "RemoveMember ctx clk d actor tenant user = Inr d' \<Longrightarrow> workspace_step s d d'"
| suspends: "Suspend d tenant = Inr d' \<Longrightarrow> workspace_step s d d'"
| grants: "SetMemberGroups ctx now d tenant user ids = Inr d' \<Longrightarrow> workspace_step s d d'"
| saves: "Save ctx clk d tenant i input = Inr (d', detail) \<Longrightarrow> workspace_step s d d'"
| creates_key: "createKey (s\<lparr>ks_tenant := t\<rparr>) ctx clk raw nonce d user grp scheme name expiry = Inr (d', created) \<Longrightarrow>
    length raw = 32 \<Longrightarrow> length nonce = nonceSize (ks_vault s) \<Longrightarrow> workspace_step s d d'"
| updates_key: "Update (s\<lparr>ks_tenant := t\<rparr>) ctx clk d user key name enabled expiry = Inr (d', shown) \<Longrightarrow> workspace_step s d d'"
| revokes_key: "Revoke (s\<lparr>ks_tenant := t\<rparr>) ctx clk d user key = Inr (d', shown) \<Longrightarrow> workspace_step s d d'"
| rebinds_key: "Rebind (s\<lparr>ks_tenant := t\<rparr>) ctx clk d user key grp = Inr (d', shown) \<Longrightarrow> workspace_step s d d'"
| authenticates: "Authenticate (s\<lparr>ks_tenant := t\<rparr>) now d secret = Inr (d', p) \<Longrightarrow> workspace_step s d d'"
| reveals: "Reveal (s\<lparr>ks_tenant := t\<rparr>) ctx now d user key = Inr (d', plain) \<Longrightarrow> workspace_step s d d'"
| elsewhere: "workspaceView d' = workspaceView d \<Longrightarrow> spared d d' \<Longrightarrow> workspace_step s d d'"

inductive_cases workspace_stepE: "workspace_step s d d'"

section \<open>Frames\<close>

lemma keyTenant_poolIn: "keyTenant d tenant k = poolIn d (k_group k) tenant"
  by (simp add: keyTenant_def poolIn_def list_ex_iff)

lemma image_of_map: "map f xs = map f ys \<Longrightarrow> f ` set xs = f ` set ys"
  by (metis list.set_map)

lemma twin: "f ` X = f ` Y \<Longrightarrow> x \<in> X \<Longrightarrow> \<exists>y \<in> Y. f y = f x"
  by (metis imageE imageI)

lemma view_rows:
  assumes "workspaceView d' = workspaceView d"
  shows "(\<lambda>t. (t_id t, t_owner t)) ` set (tenants d') = (\<lambda>t. (t_id t, t_owner t)) ` set (tenants d)"
    "(\<lambda>m. (m_tenant m, m_user m, m_role m, m_enabled m, m_removed_at m)) ` set (memberships d') =
     (\<lambda>m. (m_tenant m, m_user m, m_role m, m_enabled m, m_removed_at m)) ` set (memberships d)"
    "(\<lambda>g. (g_id g, g_tenant g)) ` set (account_groups d') = (\<lambda>g. (g_id g, g_tenant g)) ` set (account_groups d)"
    "group_members d' = group_members d"
    "(\<lambda>k. (k_user k, k_group k, k_revoked_at k)) ` set (api_keys d') = (\<lambda>k. (k_user k, k_group k, k_revoked_at k)) ` set (api_keys d)"
proof -
  note v = assms [unfolded workspaceView_def prod.inject]
  show "(\<lambda>t. (t_id t, t_owner t)) ` set (tenants d') = (\<lambda>t. (t_id t, t_owner t)) ` set (tenants d)"
    using v by (elim conjE) (erule image_of_map)
  show "(\<lambda>m. (m_tenant m, m_user m, m_role m, m_enabled m, m_removed_at m)) ` set (memberships d') =
     (\<lambda>m. (m_tenant m, m_user m, m_role m, m_enabled m, m_removed_at m)) ` set (memberships d)"
    using v by (elim conjE) (erule image_of_map)
  show "(\<lambda>g. (g_id g, g_tenant g)) ` set (account_groups d') = (\<lambda>g. (g_id g, g_tenant g)) ` set (account_groups d)"
    using v by (elim conjE) (erule image_of_map)
  show "group_members d' = group_members d" using v by blast
  show "(\<lambda>k. (k_user k, k_group k, k_revoked_at k)) ` set (api_keys d') = (\<lambda>k. (k_user k, k_group k, k_revoked_at k)) ` set (api_keys d)"
    using v by (elim conjE) (erule image_of_map)
qed

lemma view_lists:
  assumes "workspaceView d' = workspaceView d"
  shows "map t_id (tenants d') = map t_id (tenants d)" "map t_owner (tenants d') = map t_owner (tenants d)"
    "map (\<lambda>m. (m_tenant m, m_user m)) (memberships d') = map (\<lambda>m. (m_tenant m, m_user m)) (memberships d)"
    "map g_id (account_groups d') = map g_id (account_groups d)"
proof -
  have v: "map (\<lambda>t. (t_id t, t_owner t)) (tenants d') = map (\<lambda>t. (t_id t, t_owner t)) (tenants d)"
    "map (\<lambda>m. (m_tenant m, m_user m, m_role m, m_enabled m, m_removed_at m)) (memberships d') =
     map (\<lambda>m. (m_tenant m, m_user m, m_role m, m_enabled m, m_removed_at m)) (memberships d)"
    "map (\<lambda>g. (g_id g, g_tenant g)) (account_groups d') = map (\<lambda>g. (g_id g, g_tenant g)) (account_groups d)"
    using assms unfolding workspaceView_def prod.inject by blast+
  show "map t_id (tenants d') = map t_id (tenants d)" "map t_owner (tenants d') = map t_owner (tenants d)"
    using arg_cong [OF v(1), where f = "map fst"] arg_cong [OF v(1), where f = "map snd"] by (simp_all add: comp_def)
  show "map (\<lambda>m. (m_tenant m, m_user m)) (memberships d') = map (\<lambda>m. (m_tenant m, m_user m)) (memberships d)"
    using arg_cong [OF v(2), where f = "map (\<lambda>(t, u, r). (t, u))"] by (simp add: comp_def)
  show "map g_id (account_groups d') = map g_id (account_groups d)"
    using arg_cong [OF v(3), where f = "map fst"] by (simp add: comp_def)
qed

lemma poolIn_view: "workspaceView d' = workspaceView d \<Longrightarrow> poolIn d' g t = poolIn d g t"
  using twin [OF view_rows(3) [of d' d]] twin [OF view_rows(3) [of d' d, symmetric]] unfolding poolIn_def prod.inject by metis

lemma ownsWorkspaces_owners: "ownsWorkspaces d user = length (filter ((=) user) (map t_owner (tenants d)))"
  by (simp add: ownsWorkspaces_def filter_map comp_def eq_commute)

lemma workspacesOK_view:
  assumes v: "workspaceView d' = workspaceView d" and ok: "workspacesOK d"
  shows "workspacesOK d'"
proof -
  note R = view_rows [OF v] and L = view_lists [OF v] and P = poolIn_view [OF v]
  have o: "\<exists>m' \<in> set (memberships d'). m_tenant m' = m_tenant m \<and> m_user m' = m_user m \<and> m_role m' = m_role m \<and>
      m_enabled m' = m_enabled m \<and> m_removed_at m' = m_removed_at m" if "m \<in> set (memberships d)" for m
    using twin [OF R(2) [symmetric] that] by (simp only: prod.inject)
  have o': "\<exists>m \<in> set (memberships d). m_tenant m = m_tenant m' \<and> m_user m = m_user m' \<and> m_role m = m_role m' \<and>
      m_enabled m = m_enabled m' \<and> m_removed_at m = m_removed_at m'" if "m' \<in> set (memberships d')" for m'
    using twin [OF R(2) that] by (simp only: prod.inject)
  have t: "\<exists>t \<in> set (tenants d). t_id t = t_id t' \<and> t_owner t = t_owner t'" if "t' \<in> set (tenants d')" for t'
    using twin [OF R(1) that] by (simp only: prod.inject)
  have t': "\<exists>t' \<in> set (tenants d'). t_id t' = t_id t \<and> t_owner t' = t_owner t" if "t \<in> set (tenants d)" for t
    using twin [OF R(1) [symmetric] that] by (simp only: prod.inject)
  have k: "\<exists>k \<in> set (api_keys d). k_user k = k_user k' \<and> k_group k = k_group k' \<and> k_revoked_at k = k_revoked_at k'"
    if "k' \<in> set (api_keys d')" for k' using twin [OF R(5) that] by (simp only: prod.inject)
  have owner: "\<exists>m \<in> set (memberships d). isMember (t_id t) (t_owner t) m \<and> m_role m = ''owner'' \<and> m_enabled m \<and> m_removed_at m = None"
    if "t \<in> set (tenants d)" for t using ok that by (simp add: workspacesOK_def ownersOK_def)
  have "ownersOK d'" unfolding ownersOK_def
  proof (intro conjI ballI allI impI)
    show "distinct (map t_id (tenants d'))" "distinct (map (\<lambda>m. (m_tenant m, m_user m)) (memberships d'))"
      using ok unfolding L by (simp_all add: workspacesOK_def ownersOK_def)
    show "ownsWorkspaces d' user \<le> MaxOwnedWorkspaces" for user
      using ok unfolding ownsWorkspaces_owners L by (simp add: workspacesOK_def ownersOK_def ownsWorkspaces_owners)
  next
    fix u assume "u \<in> set (tenants d')"
    then obtain u0 where "u0 \<in> set (tenants d)" "t_id u0 = t_id u" "t_owner u0 = t_owner u" using t by blast
    then show "\<exists>m \<in> set (memberships d'). isMember (t_id u) (t_owner u) m \<and> m_role m = ''owner'' \<and> m_enabled m \<and> m_removed_at m = None"
    proof -
      obtain m0 where m0: "m0 \<in> set (memberships d)" "isMember (t_id u0) (t_owner u0) m0" "m_role m0 = ''owner''" "m_enabled m0" "m_removed_at m0 = None"
        using owner [OF \<open>u0 \<in> set (tenants d)\<close>] by blast
      then show ?thesis using o [OF m0(1)] \<open>t_id u0 = t_id u\<close> \<open>t_owner u0 = t_owner u\<close> by (auto simp: isMember_def)
    qed
  next
    fix m assume "m \<in> set (memberships d')" "m_role m = ''owner''"
    then obtain m0 where "m0 \<in> set (memberships d)" "m_tenant m0 = m_tenant m" "m_user m0 = m_user m" "m_role m0 = ''owner''" using o' by metis
    then show "\<exists>t \<in> set (tenants d'). t_id t = m_tenant m \<and> t_owner t = m_user m"
      using ok t' unfolding workspacesOK_def ownersOK_def by metis
  qed
  moreover have "gone d t u \<Longrightarrow> gone d' t u" for t u
    using k unfolding gone_def P R(4) by metis
  then have "removedOK d'" using ok o' unfolding workspacesOK_def removedOK_def by metis
  moreover have "poolsOK d'"
  proof -
    have g: "g_id ` set (account_groups d') = g_id ` set (account_groups d)" using arg_cong [OF L(4), where f = set] by simp
    have "k_group ` set (api_keys d') \<subseteq> k_group ` set (api_keys d)" using k by (metis image_eqI image_subsetI)
    moreover have "k_group ` set (api_keys d) \<subseteq> g_id ` set (account_groups d)" using ok by (simp add: workspacesOK_def poolsOK_def)
    ultimately have "k_group ` set (api_keys d') \<subseteq> g_id ` set (account_groups d')" unfolding g by (rule subset_trans)
    then show ?thesis using ok R(4) L(4) g by (simp add: workspacesOK_def poolsOK_def)
  qed
  ultimately show ?thesis by (simp add: workspacesOK_def)
qed

text \<open>Audit events and limits are outside the view.\<close>

lemma view_audit [simp]: "workspaceView (d\<lparr>audit_events := x\<rparr>) = workspaceView d"
  by (simp add: workspaceView_def)

section \<open>Members\<close>

lemma mapMembers_simps [simp]:
  "tenants (mapMembers hit f d) = tenants d" "account_groups (mapMembers hit f d) = account_groups d"
  "group_members (mapMembers hit f d) = group_members d" "api_keys (mapMembers hit f d) = api_keys d"
  "users (mapMembers hit f d) = users d" "allocation_keys (mapMembers hit f d) = allocation_keys d"
  by (simp_all add: mapMembers_def)

lemma gone_frame: "account_groups d' = account_groups d \<Longrightarrow> group_members d' = group_members d \<Longrightarrow> api_keys d' = api_keys d \<Longrightarrow>
    gone d' = gone d"
  by (simp add: gone_def poolIn_def fun_eq_iff)

text \<open>Rows that are not of owners may change, but not whose they are.\<close>

lemma ownersOK_members:
  assumes ok: "ownersOK d" and f: "\<And>m. m \<in> set (memberships d) \<Longrightarrow> hit m \<Longrightarrow>
      m_role m \<noteq> ''owner'' \<and> m_role (f m) \<noteq> ''owner'' \<and> m_tenant (f m) = m_tenant m \<and> m_user (f m) = m_user m"
  shows "ownersOK (mapMembers hit f d)"
proof -
  let ?h = "\<lambda>m. if hit m then f m else m"
  have rows: "memberships (mapMembers hit f d) = map ?h (memberships d)" by (simp add: mapMembers_def)
  have same: "map (\<lambda>m. (m_tenant m, m_user m)) (map ?h (memberships d)) = map (\<lambda>m. (m_tenant m, m_user m)) (memberships d)"
    using f by auto
  have "distinct (map (\<lambda>m. (m_tenant m, m_user m)) (memberships (mapMembers hit f d)))"
    unfolding rows same using ok by (simp add: ownersOK_def)
  moreover have owner: "\<exists>m \<in> set (memberships d). isMember (t_id t) (t_owner t) m \<and> m_role m = ''owner'' \<and> m_enabled m \<and> m_removed_at m = None"
    if "t \<in> set (tenants d)" for t using ok that by (simp add: ownersOK_def)
  have "\<exists>m \<in> set (memberships (mapMembers hit f d)). isMember (t_id t) (t_owner t) m \<and> m_role m = ''owner'' \<and> m_enabled m \<and> m_removed_at m = None"
    if t: "t \<in> set (tenants d)" for t
  proof -
    obtain m where m: "m \<in> set (memberships d)" "isMember (t_id t) (t_owner t) m" "m_role m = ''owner''" "m_enabled m" "m_removed_at m = None"
      using owner [OF t] by blast
    then have "\<not> hit m" using f by blast
    then have "m \<in> set (memberships (mapMembers hit f d))" unfolding rows using m(1) by force
    then show ?thesis using m by blast
  qed
  moreover have "\<exists>t \<in> set (tenants d). t_id t = m_tenant m \<and> t_owner t = m_user m"
    if m: "m \<in> set (memberships (mapMembers hit f d))" "m_role m = ''owner''" for m
  proof -
    obtain m0 where "m0 \<in> set (memberships d)" "m = ?h m0" using m(1) unfolding rows by auto
    then have "m0 = m" "m_role m0 = ''owner''" using f [of m0] m(2) by (auto split: if_splits)
    then show ?thesis using ok \<open>m0 \<in> _\<close> unfolding ownersOK_def by blast
  qed
  ultimately show ?thesis using ok by (simp add: ownersOK_def ownsWorkspaces_def)
qed

lemma gone_members [simp]: "gone (mapMembers hit f d) = gone d"
  by (rule gone_frame) simp_all

lemma removedOK_members:
  assumes ok: "removedOK d" and f: "\<And>m. m \<in> set (memberships d) \<Longrightarrow> hit m \<Longrightarrow> m_removed_at (f m) \<noteq> None \<Longrightarrow>
      \<not> m_enabled (f m) \<and> gone d (m_tenant (f m)) (m_user (f m))"
  shows "removedOK (mapMembers hit f d)"
  using ok f unfolding removedOK_def gone_members by (auto simp: mapMembers_def)

lemma poolsOK_frame: "account_groups d' = account_groups d \<Longrightarrow> group_members d' = group_members d \<Longrightarrow> api_keys d' = api_keys d \<Longrightarrow>
    poolsOK d' = poolsOK d"
  by (simp add: poolsOK_def)

lemma ownersOK_frame: "tenants d' = tenants d \<Longrightarrow> memberships d' = memberships d \<Longrightarrow> ownersOK d' = ownersOK d"
  by (simp add: ownersOK_def ownsWorkspaces_def)

lemma workspacesOK_members:
  assumes ok: "workspacesOK d" and f: "\<And>m. m \<in> set (memberships d) \<Longrightarrow> hit m \<Longrightarrow>
      m_role m \<noteq> ''owner'' \<and> m_role (f m) \<noteq> ''owner'' \<and> m_tenant (f m) = m_tenant m \<and> m_user (f m) = m_user m \<and>
      (m_removed_at (f m) \<noteq> None \<longrightarrow> \<not> m_enabled (f m) \<and> gone d (m_tenant m) (m_user m))"
  shows "workspacesOK (mapMembers hit f d)"
  unfolding workspacesOK_def
proof (intro conjI)
  show "ownersOK (mapMembers hit f d)" by (rule ownersOK_members) (use ok f in \<open>auto simp: workspacesOK_def\<close>)
  show "removedOK (mapMembers hit f d)" by (rule removedOK_members) (use ok f in \<open>auto simp: workspacesOK_def\<close>)
  show "poolsOK (mapMembers hit f d)" using ok poolsOK_frame [of "mapMembers hit f d" d] by (simp add: workspacesOK_def)
qed

text \<open>A new row that is not an owner's.\<close>

lemma workspacesOK_joins:
  assumes ok: "workspacesOK d" and new: "\<not> list_ex (isMember (m_tenant m) (m_user m)) (memberships d)" and r: "m_role m \<noteq> ''owner''" "m_removed_at m = None"
  shows "workspacesOK (d\<lparr>memberships := memberships d @ [m]\<rparr>)"
proof -
  let ?d = "d\<lparr>memberships := memberships d @ [m]\<rparr>"
  have "(m_tenant m, m_user m) \<notin> (\<lambda>m. (m_tenant m, m_user m)) ` set (memberships d)"
    using new by (auto simp: list_ex_iff isMember_def)
  then have "ownersOK ?d" using ok r unfolding workspacesOK_def ownersOK_def ownsWorkspaces_def by auto
  moreover have "gone ?d = gone d" by (rule gone_frame) simp_all
  then have "removedOK ?d" using ok r by (auto simp: workspacesOK_def removedOK_def)
  moreover have "poolsOK ?d" using ok poolsOK_frame [of ?d d] by (simp add: workspacesOK_def)
  ultimately show ?thesis by (simp add: workspacesOK_def)
qed

subsection \<open>What the operations do\<close>

lemma liveMembership_Some:
  assumes "liveMembership d tenant user = Some (m, t)"
  shows "m \<in> set (memberships d)" "isMember tenant user m" "m_enabled m" "t \<in> set (tenants d)" "t_id t = tenant" "t_status t = ''active''"
    "list_ex (\<lambda>u. u_id u = user \<and> u_enabled u) (users d)"
  using assms by (auto simp: liveMembership_def dest!: first_of_SomeD split: option.splits if_splits)

definition joined :: "store \<Rightarrow> int \<Rightarrow> int \<Rightarrow> string \<Rightarrow> int \<Rightarrow> store" where
  "joined d tenant user role now = (if list_ex (isMember tenant user) (memberships d) then mapMembers (isMember tenant user) (rejoined role now) d
     else d\<lparr>memberships := memberships d @ [newMembership tenant user role now]\<rparr>)"

lemma addMember_Inr:
  assumes "addMember ctx clk d actor tenant user name role = Inr (d', v)"
  shows "\<exists>t user' evs. role \<in> {''admin'', ''member''} \<and> manages d tenant actor \<and> t \<in> set (tenants d) \<and> t_id t = tenant \<and> user' \<noteq> t_owner t \<and>
     (name = [] \<longrightarrow> user' = user) \<and> d' = (joined d tenant user' role (clk 0))\<lparr>audit_events := evs\<rparr>"
proof -
  obtain actorRole owner user' d1 where r: "role \<in> {''admin'', ''member''}" and a: "ActorRole' d tenant actor = Inr (actorRole, owner)"
    "actorRole = ''owner'' \<or> actorRole = ''admin''" and u: "name = [] \<longrightarrow> user' = user" "user' \<noteq> owner"
    and m: "AddTenantMember d tenant user' role (clk 0) = Inr (d1, 1)"
    and e: "Record ctx (clk 1) d1 ''member.update'' ''member'' (FormatInt user') = Inr d'"
    using assms unfolding addMember_def AddTenantMember_def Let_def
    by (auto simp: res_simps split: sum.splits if_splits)
  obtain mm t where l: "liveMembership d tenant actor = Some (mm, t)" "m_role mm = actorRole" "t_owner t = owner"
    using a(1) by (auto simp: ActorRole'_def res_simps)
  note L = liveMembership_Some [OF l(1)]
  have "manages d tenant actor" using L l a(2) by (auto simp: manages_def list_ex_iff)
  moreover have "d1 = joined d tenant user' role (clk 0)"
    using m by (auto simp: AddTenantMember_def joined_def Let_def res_simps split: if_splits)
  moreover obtain evs where "d' = d1\<lparr>audit_events := evs\<rparr>" using Record_frame [OF e] by blast
  ultimately show ?thesis using r u L l by blast
qed

lemma owner_tenant: "workspacesOK d \<Longrightarrow> m \<in> set (memberships d) \<Longrightarrow> m_role m = ''owner'' \<Longrightarrow>
    \<exists>t \<in> set (tenants d). t_id t = m_tenant m \<and> t_owner t = m_user m"
  by (simp add: workspacesOK_def ownersOK_def)

lemma owner_not_target:
  assumes ok: "workspacesOK d" and t: "t \<in> set (tenants d)" "t_id t = tenant" "user \<noteq> t_owner t"
    and m: "m \<in> set (memberships d)" "isMember tenant user m"
  shows "m_role m \<noteq> ''owner''"
proof
  assume "m_role m = ''owner''"
  then obtain t' where t': "t' \<in> set (tenants d)" "t_id t' = m_tenant m" "t_owner t' = m_user m" using owner_tenant [OF ok m(1)] by blast
  have "inj_on t_id (set (tenants d))" using ok by (simp add: workspacesOK_def ownersOK_def distinct_map)
  then have "t' = t" by (rule inj_onD) (use t t' m(2) in \<open>simp_all add: isMember_def\<close>)
  then show False using t' t(3) m(2) by (simp add: isMember_def)
qed

lemma workspacesOK_joined:
  assumes ok: "workspacesOK d" and t: "t \<in> set (tenants d)" "t_id t = tenant" "user \<noteq> t_owner t" and r: "role \<noteq> ''owner''"
  shows "workspacesOK (joined d tenant user role now)"
proof (cases "list_ex (isMember tenant user) (memberships d)")
  case True
  have "workspacesOK (mapMembers (isMember tenant user) (rejoined role now) d)"
    by (intro workspacesOK_members [OF ok]) (use owner_not_target [OF ok t] in \<open>auto simp: rejoined_def r\<close>)
  then show ?thesis using True by (simp add: joined_def)
next
  case False
  then show ?thesis using workspacesOK_joins [OF ok, of "newMembership tenant user role now"] r by (simp add: joined_def newMembership_def)
qed

lemma addMember_OK: "workspacesOK d \<Longrightarrow> addMember ctx clk d actor tenant user name role = Inr (d', v) \<Longrightarrow> workspacesOK d'"
proof -
  assume ok: "workspacesOK d" and r: "addMember ctx clk d actor tenant user name role = Inr (d', v)"
  from addMember_Inr [OF r] obtain t user' evs where P: "role \<in> {''admin'', ''member''}" "t \<in> set (tenants d)" "t_id t = tenant"
    "user' \<noteq> t_owner t" "d' = (joined d tenant user' role (clk 0))\<lparr>audit_events := evs\<rparr>" by blast
  have "workspacesOK (joined d tenant user' role (clk 0))" by (rule workspacesOK_joined [OF ok P(2-4)]) (use P(1) in auto)
  then show ?thesis unfolding P(5) by (rule workspacesOK_view [OF view_audit])
qed

lemma AddNewMember_OK: "workspacesOK d \<Longrightarrow> AddNewMember d tenant user now = Inr d' \<Longrightarrow> workspacesOK d'"
  using workspacesOK_joins [of d "newMembership tenant user ''member'' now"]
  by (auto simp: AddNewMember_def InsertMembership_def res_simps newMembership_def)

lemma SetMemberEnabled_Inr:
  assumes "SetMemberEnabled ctx now d actor tenant user enabled = Inr (d', v)"
  shows "\<exists>evs. manages d tenant actor \<and> d' = (mapMembers (\<lambda>m. isMember tenant user m \<and> m_role m = ''member'' \<and> m_removed_at m = None)
     (\<lambda>m. m\<lparr>m_enabled := enabled\<rparr>) d)\<lparr>audit_events := evs\<rparr>"
proof -
  let ?d = "mapMembers (\<lambda>m. isMember tenant user m \<and> m_role m = ''member'' \<and> m_removed_at m = None) (\<lambda>m. m\<lparr>m_enabled := enabled\<rparr>) d"
  have "manages d tenant actor" "Record ctx now ?d ''member.update'' ''member'' (FormatInt user) = Inr d'"
    using assms unfolding SetMemberEnabled_def SetTenantMemberEnabled_def CanManageTenant_def Let_def by (auto simp: res_simps)
  then show ?thesis using Record_frame by blast
qed

lemma SetMemberEnabled_OK: "workspacesOK d \<Longrightarrow> SetMemberEnabled ctx now d actor tenant user enabled = Inr (d', v) \<Longrightarrow> workspacesOK d'"
  using workspacesOK_members [of d "\<lambda>m. isMember tenant user m \<and> m_role m = ''member'' \<and> m_removed_at m = None" "\<lambda>m. m\<lparr>m_enabled := enabled\<rparr>"]
  by (auto dest!: SetMemberEnabled_Inr intro: workspacesOK_view [OF view_audit])

lemma SetMemberRole_Inr:
  assumes "SetMemberRole ctx now d actor tenant user role = Inr (d', v)"
  shows "\<exists>evs. actor \<noteq> user \<and> role \<in> {''admin'', ''member''} \<and> manages d tenant actor \<and>
     d' = (mapMembers (\<lambda>m. isMember tenant user m \<and> (m_role m = ''member'' \<or> m_role m = ''admin'') \<and> m_removed_at m = None)
     (\<lambda>m. m\<lparr>m_role := role\<rparr>) d)\<lparr>audit_events := evs\<rparr>"
proof -
  let ?d = "mapMembers (\<lambda>m. isMember tenant user m \<and> (m_role m = ''member'' \<or> m_role m = ''admin'') \<and> m_removed_at m = None) (\<lambda>m. m\<lparr>m_role := role\<rparr>) d"
  have "actor \<noteq> user" "role \<in> {''admin'', ''member''}" "manages d tenant actor" "Record ctx now ?d ''member.update'' ''member'' (FormatInt user) = Inr d'"
    using assms unfolding SetMemberRole_def UpdateTenantMemberRole_def CanManageTenant_def Let_def
    by (auto simp: res_simps)
  then show ?thesis using Record_frame by blast
qed

lemma SetMemberRole_OK:
  assumes ok: "workspacesOK d" and r: "SetMemberRole ctx now d actor tenant user role = Inr (d', v)"
  shows "workspacesOK d'"
proof -
  obtain evs where role: "role \<in> {''admin'', ''member''}"
    and d': "d' = (mapMembers (\<lambda>m. isMember tenant user m \<and> (m_role m = ''member'' \<or> m_role m = ''admin'') \<and> m_removed_at m = None)
     (\<lambda>m. m\<lparr>m_role := role\<rparr>) d)\<lparr>audit_events := evs\<rparr>" using SetMemberRole_Inr [OF r] by blast
  show ?thesis unfolding d' by (rule workspacesOK_view [OF view_audit], rule workspacesOK_members [OF ok]) (use role in auto)
qed

text \<open>The store after someone was removed.\<close>

definition removed :: "store \<Rightarrow> int \<Rightarrow> int \<Rightarrow> int \<Rightarrow> store" where
  "removed d tenant user now = mapMembers (\<lambda>m. isMember tenant user m \<and> m_role m \<noteq> ''owner'' \<and> m_removed_at m = None)
     (\<lambda>m. m\<lparr>m_enabled := False, m_removed_at := Some now\<rparr>)
     (mapKeys (\<lambda>k. k_user k = user \<and> keyTenant d tenant k) (revokedRow now)
       (d\<lparr>group_members := filter (\<lambda>(g, u). \<not> (u = user \<and> list_ex (\<lambda>r. g_id r = g \<and> g_tenant r = tenant) (account_groups d)))
          (group_members d)\<rparr>))"

lemma RemoveMember_Inr:
  assumes "RemoveMember ctx clk d actor tenant user = Inr d'"
  shows "\<exists>evs m mm. actor \<noteq> user \<and> manages d tenant actor \<and> first_of (isMember tenant user) (memberships d) = Some m \<and> m_role m \<noteq> ''owner'' \<and>
     m_removed_at m = None \<and> first_of (isMember tenant actor) (memberships d) = Some mm \<and> (m_role m = ''admin'' \<longrightarrow> m_role mm = ''owner'') \<and>
     d' = (removed d tenant user (clk 0))\<lparr>audit_events := evs\<rparr>"
proof -
  obtain d1 d2 d3 m mm where c: "actor \<noteq> user" "manages d tenant actor"
    and m: "first_of (isMember tenant user) (memberships d) = Some m" "m_role m \<noteq> ''owner''" "m_removed_at m = None"
      "first_of (isMember tenant actor) (memberships d) = Some mm" "m_role m = ''admin'' \<longrightarrow> m_role mm = ''owner''"
    and a: "RemoveTenantMember d tenant user (clk 0) = Inr d1" and b: "ClearMemberGroups d1 tenant user = Inr d2"
    and r: "RevokeTenantMemberKeys d2 tenant user (clk 0) = Inr d3" and e: "Record ctx (clk 1) d3 ''member.remove'' ''member'' (FormatInt user) = Inr d'"
    using assms unfolding RemoveMember_def CanManageTenant_def GetTenantMember_def
    by (auto simp: res_simps split: sum.splits option.splits if_splits)
  have d1: "d1 = mapMembers (\<lambda>m. isMember tenant user m \<and> m_role m \<noteq> ''owner'' \<and> m_removed_at m = None)
      (\<lambda>m. m\<lparr>m_enabled := False, m_removed_at := Some (clk 0)\<rparr>) d" using a by (simp add: RemoveTenantMember_def Let_def res_simps)
  have d2: "d2 = d1\<lparr>group_members := filter (\<lambda>(g, u). \<not> (u = user \<and> list_ex (\<lambda>r. g_id r = g \<and> g_tenant r = tenant) (account_groups d1)))
          (group_members d1)\<rparr>" using b by (simp add: ClearMemberGroups_def res_simps)
  have d3: "d3 = mapKeys (\<lambda>k. k_user k = user \<and> keyTenant d2 tenant k) (revokedRow (clk 0)) d2"
    using r by (simp add: RevokeTenantMemberKeys_def res_simps)
  have "d3 = removed d tenant user (clk 0)"
    unfolding d3 d2 d1 removed_def by (simp add: mapMembers_def mapKeys_def keyTenant_def)
  then show ?thesis using Record_frame [OF e] c m by blast
qed

section \<open>Grants and keys\<close>

text \<open>Grants may go, and keys may change except that a revoked one stays revoked and none leaves its workspace.\<close>

definition keyStays :: "store \<Rightarrow> key_row \<Rightarrow> key_row \<Rightarrow> bool" where
  "keyStays d k k' \<longleftrightarrow> k_user k' = k_user k \<and> (\<forall>t. poolIn d (k_group k') t = poolIn d (k_group k) t) \<and>
     (k_revoked_at k \<noteq> None \<longrightarrow> k_revoked_at k' \<noteq> None)"

lemma poolIn_ids: "k_group k \<in> g_id ` set (account_groups d) \<longleftrightarrow> (\<exists>t. poolIn d (k_group k) t)"
  by (force simp: poolIn_def)

lemma workspacesOK_less:
  assumes ok: "workspacesOK d" and same: "tenants d' = tenants d" "memberships d' = memberships d" "account_groups d' = account_groups d"
    and less: "set (group_members d') \<subseteq> set (group_members d)"
    and keys: "\<And>k'. k' \<in> set (api_keys d') \<Longrightarrow> \<exists>k \<in> set (api_keys d). keyStays d k k'"
  shows "workspacesOK d'"
proof -
  have pool: "poolIn d' g t = poolIn d g t" for g t by (simp add: poolIn_def same)
  have "gone d' t u" if g: "gone d t u" for t u
    unfolding gone_def pool
  proof (intro conjI allI ballI impI)
    fix x assume "(x, u) \<in> set (group_members d')"
    then show "\<not> poolIn d x t" using g less by (auto simp: gone_def)
  next
    fix k' assume k': "k' \<in> set (api_keys d')" "k_user k' = u \<and> poolIn d (k_group k') t"
    then obtain k where k: "k \<in> set (api_keys d)" "keyStays d k k'" using keys by blast
    then have "k_revoked_at k \<noteq> None" using g k'(2) by (auto simp: gone_def keyStays_def)
    then show "k_revoked_at k' \<noteq> None" using k(2) by (simp add: keyStays_def)
  qed
  then have "removedOK d'" using ok by (auto simp: workspacesOK_def removedOK_def same)
  moreover have "ownersOK d'" using ok ownersOK_frame [OF same(1,2)] by (simp add: workspacesOK_def)
  moreover have "k_group k' \<in> g_id ` set (account_groups d)" if k': "k' \<in> set (api_keys d')" for k'
  proof -
    obtain k where k: "k \<in> set (api_keys d)" "keyStays d k k'" using keys [OF k'] by blast
    then have "k_group k \<in> g_id ` set (account_groups d)" using ok by (auto simp: workspacesOK_def poolsOK_def)
    then obtain t where "poolIn d (k_group k) t" unfolding poolIn_ids ..
    then have "poolIn d (k_group k') t" using k(2) by (simp add: keyStays_def)
    then show ?thesis unfolding poolIn_ids ..
  qed
  then have K: "k_group ` set (api_keys d') \<subseteq> g_id ` set (account_groups d)" by blast
  have P: "distinct (map g_id (account_groups d))" "fst ` set (group_members d) \<subseteq> g_id ` set (account_groups d)"
    using ok by (simp_all add: workspacesOK_def poolsOK_def)
  have "fst ` set (group_members d') \<subseteq> g_id ` set (account_groups d)"
    by (rule subset_trans [OF image_mono [OF less] P(2)])
  then have "poolsOK d'" using K P(1) by (simp add: poolsOK_def same)
  ultimately show ?thesis by (simp add: workspacesOK_def)
qed

lemma workspacesOK_keys:
  assumes "workspacesOK d" and "\<And>k. k \<in> set (api_keys d) \<Longrightarrow> hit k \<Longrightarrow> keyStays d k (f k)"
  shows "workspacesOK (mapKeys hit f d)"
proof (rule workspacesOK_less [OF assms(1)])
  fix k' assume "k' \<in> set (api_keys (mapKeys hit f d))"
  then obtain k where "k \<in> set (api_keys d)" "k' = (if hit k then f k else k)" by (auto simp: mapKeys_def)
  moreover have "keyStays d k k" by (simp add: keyStays_def)
  ultimately show "\<exists>k \<in> set (api_keys d). keyStays d k k'" using assms(2) by (auto split: if_splits)
qed (simp_all add: mapKeys_def)

lemma keyStays_revoked: "keyStays d k (revokedRow now k)"
  by (simp add: keyStays_def revokedRow_def)

lemma removed_OK:
  assumes ok: "workspacesOK d"
  shows "workspacesOK (removed d tenant user now)" "gone (removed d tenant user now) tenant user"
proof -
  let ?g = "d\<lparr>group_members := filter (\<lambda>(g, u). \<not> (u = user \<and> list_ex (\<lambda>r. g_id r = g \<and> g_tenant r = tenant) (account_groups d)))
          (group_members d)\<rparr>"
  let ?d = "mapKeys (\<lambda>k. k_user k = user \<and> keyTenant d tenant k) (revokedRow now) ?g"
  have "workspacesOK ?g" by (rule workspacesOK_less [OF ok]) (auto simp: keyStays_def)
  then have d: "workspacesOK ?d" by (rule workspacesOK_keys) (rule keyStays_revoked)
  have pool: "poolIn ?d g t = poolIn d g t" for g t by (simp add: poolIn_def)
  have g: "gone ?d tenant user" unfolding gone_def pool
  proof (intro conjI allI ballI impI)
    fix g assume "(g, user) \<in> set (group_members ?d)"
    then show "\<not> poolIn d g tenant" by (auto simp: mapKeys_def poolIn_def list_ex_iff)
  next
    fix k assume "k \<in> set (api_keys ?d)" "k_user k = user \<and> poolIn d (k_group k) tenant"
    moreover from this(1) have "k \<in> (\<lambda>k0. if k_user k0 = user \<and> poolIn d (k_group k0) tenant then revokedRow now k0 else k0) ` set (api_keys d)"
      by (simp add: mapKeys_def keyTenant_poolIn)
    then obtain k0 where "k = (if k_user k0 = user \<and> poolIn d (k_group k0) tenant then revokedRow now k0 else k0)" ..
    ultimately show "k_revoked_at k \<noteq> None" by (cases "k_user k0 = user \<and> poolIn d (k_group k0) tenant") (simp_all add: revokedRow_def)
  qed
  have r: "removed d tenant user now = mapMembers (\<lambda>m. isMember tenant user m \<and> m_role m \<noteq> ''owner'' \<and> m_removed_at m = None)
      (\<lambda>m. m\<lparr>m_enabled := False, m_removed_at := Some now\<rparr>) ?d" by (simp add: removed_def)
  show "workspacesOK (removed d tenant user now)"
    unfolding r by (rule workspacesOK_members [OF d]) (use g in \<open>auto simp: isMember_def\<close>)
  show "gone (removed d tenant user now) tenant user" unfolding r gone_members by (rule g)
qed

lemma RemoveMember_OK: "workspacesOK d \<Longrightarrow> RemoveMember ctx clk d actor tenant user = Inr d' \<Longrightarrow> workspacesOK d'"
  by (drule RemoveMember_Inr) (auto intro: workspacesOK_view [OF view_audit] removed_OK(1))

lemma Suspend_OK: "workspacesOK d \<Longrightarrow> Suspend d tenant = Inr d' \<Longrightarrow> workspacesOK d'"
proof -
  assume ok: "workspacesOK d" and r: "Suspend d tenant = Inr d'"
  have d': "d' = d\<lparr>tenants := map (\<lambda>t. if t_id t = tenant then t\<lparr>t_status := ''suspended''\<rparr> else t) (tenants d)\<rparr>"
    using r by (auto simp: Suspend_def SuspendTenant_def res_simps)
  have "map (\<lambda>t. (t_id t, t_owner t)) (map (\<lambda>t. if t_id t = tenant then t\<lparr>t_status := ''suspended''\<rparr> else t) (tenants d)) =
      map (\<lambda>t. (t_id t, t_owner t)) (tenants d)" by simp
  then have "workspaceView d' = workspaceView d" unfolding d' workspaceView_def by simp
  then show ?thesis using ok by (rule workspacesOK_view)
qed

section \<open>New workspaces\<close>

lemma CreateTenant_Inr:
  assumes "CreateTenant now d owner name = Inr (d', v)"
  shows "\<exists>row. ownsWorkspaces d owner < MaxOwnedWorkspaces \<and> row = \<lparr>t_id = nextID (map t_id (tenants d)), t_status = ''active'', t_name = TrimSpace name, t_owner = owner, t_created_at = now\<rparr> \<and>
    \<not> list_ex (isMember (t_id row) owner) (memberships d) \<and>
    d' = d\<lparr>tenants := tenants d @ [row], memberships := memberships d @ [newMembership (t_id row) owner ''owner'' now]\<rparr>"
proof -
  obtain d1 where "ownsWorkspaces d owner < MaxOwnedWorkspaces"
    and t: "InsertTenant d (nextID (map t_id (tenants d))) (TrimSpace name) owner now = Inr d1"
    and m: "InsertMembership d1 (nextID (map t_id (tenants d))) owner ''owner'' now = Inr d'"
    using assms unfolding CreateTenant_def NormalizeName_def Let_def by (auto simp: res_simps)
  then show ?thesis by (auto simp: InsertTenant_def InsertMembership_def res_simps)
qed

lemma workspacesOK_founded:
  assumes ok: "workspacesOK d" and n: "ownsWorkspaces d owner < MaxOwnedWorkspaces" "t_owner row = owner"
    and fresh: "t_id row \<notin> t_id ` set (tenants d)" and new: "\<not> list_ex (isMember (t_id row) owner) (memberships d)"
  shows "workspacesOK (d\<lparr>tenants := tenants d @ [row], memberships := memberships d @ [newMembership (t_id row) owner ''owner'' now]\<rparr>)"
    (is "workspacesOK ?d")
proof -
  let ?m = "newMembership (t_id row) owner ''owner'' now"
  have m: "m_tenant ?m = t_id row" "m_user ?m = owner" "m_role ?m = ''owner''" "m_enabled ?m" "m_removed_at ?m = None"
    by (simp_all add: newMembership_def)
  have O: "ownersOK d" using ok by (simp add: workspacesOK_def)
  define d' where "d' = ?d"
  have rows: "tenants d' = tenants d @ [row]" "memberships d' = memberships d @ [?m]" by (simp_all add: d'_def)
  have "ownersOK d'" unfolding ownersOK_def rows
  proof (intro conjI ballI allI impI)
    show "distinct (map t_id (tenants d @ [row]))" using O fresh by (simp add: ownersOK_def)
    have "(t_id row, owner) \<notin> (\<lambda>m. (m_tenant m, m_user m)) ` set (memberships d)" using new by (auto simp: list_ex_iff isMember_def)
    then show "distinct (map (\<lambda>m. (m_tenant m, m_user m)) (memberships d @ [?m]))" using O m by (simp add: ownersOK_def)
    show "ownsWorkspaces d' user \<le> MaxOwnedWorkspaces" for user
      using O n by (cases "user = owner") (auto simp: ownersOK_def ownsWorkspaces_def rows Suc_le_eq)
  next
    fix t assume "t \<in> set (tenants d @ [row])"
    then consider "t \<in> set (tenants d)" | "t = row" by auto
    then show "\<exists>m \<in> set (memberships d @ [?m]). isMember (t_id t) (t_owner t) m \<and> m_role m = ''owner'' \<and> m_enabled m \<and> m_removed_at m = None"
    proof cases
      case 1
      then have "\<exists>m \<in> set (memberships d). isMember (t_id t) (t_owner t) m \<and> m_role m = ''owner'' \<and> m_enabled m \<and> m_removed_at m = None"
        using O by (simp add: ownersOK_def)
      then show ?thesis by auto
    next
      case 2
      then show ?thesis using m n(2) by (auto simp: isMember_def)
    qed
  next
    fix m assume a: "m \<in> set (memberships d @ [?m])" "m_role m = ''owner''"
    show "\<exists>t \<in> set (tenants d @ [row]). t_id t = m_tenant m \<and> t_owner t = m_user m"
    proof (cases "m = ?m")
      case False
      then have "\<exists>t \<in> set (tenants d). t_id t = m_tenant m \<and> t_owner t = m_user m" using O a by (simp add: ownersOK_def)
      then show ?thesis by auto
    qed (use m n(2) in auto)
  qed
  moreover have g: "gone d' = gone d" by (rule gone_frame) (simp_all add: d'_def)
  have "removedOK d'" using ok m(5) unfolding removedOK_def rows g by (auto simp: workspacesOK_def removedOK_def)
  moreover have "poolsOK d'" using ok poolsOK_frame [of d' d] by (simp add: workspacesOK_def d'_def)
  ultimately show ?thesis by (simp add: workspacesOK_def d'_def)
qed

lemma CreateTenant_OK: "workspacesOK d \<Longrightarrow> CreateTenant now d owner name = Inr (d', v) \<Longrightarrow> workspacesOK d'"
proof -
  assume ok: "workspacesOK d" and r: "CreateTenant now d owner name = Inr (d', v)"
  obtain row where n: "ownsWorkspaces d owner < MaxOwnedWorkspaces" "t_id row = nextID (map t_id (tenants d))" "t_owner row = owner"
    and new: "\<not> list_ex (isMember (t_id row) owner) (memberships d)"
    and d': "d' = d\<lparr>tenants := tenants d @ [row], memberships := memberships d @ [newMembership (t_id row) owner ''owner'' now]\<rparr>"
    using CreateTenant_Inr [OF r] by force
  have "t_id row \<notin> t_id ` set (tenants d)" using nextID_fresh [of "t_id row" "map t_id (tenants d)"] n(2) by auto
  then show ?thesis unfolding d' by (rule workspacesOK_founded [OF ok n(1,3) _ new])
qed

lemma CreateInitial_OK:
  assumes ok: "workspacesOK d" and none: "tenants d = []" and r: "CreateInitial d owner now name = Inr d'"
  shows "workspacesOK d'"
proof -
  define row where "row = \<lparr>t_id = 1, t_status = ''active'', t_name = name, t_owner = owner, t_created_at = now\<rparr>"
  have row: "t_id row = 1" "t_owner row = owner" by (simp_all add: row_def)
  have "\<not> list_ex (isMember 1 owner) (memberships d)" and
    d': "d' = d\<lparr>tenants := tenants d @ [row], memberships := memberships d @ [newMembership (t_id row) owner ''owner'' now]\<rparr>"
    using r none unfolding row by (simp_all add: CreateInitial_def InsertTenant_def InsertMembership_def res_simps row_def)
  then show ?thesis unfolding d' by (intro workspacesOK_founded [OF ok]) (simp_all add: row none ownsWorkspaces_def MaxOwnedWorkspaces_def)
qed

section \<open>Pools and grants\<close>

text \<open>What a change of a pool leaves alone.\<close>

definition untouched :: "store \<Rightarrow> store \<Rightarrow> bool" where
  "untouched d d' \<longleftrightarrow> workspaceView d' = workspaceView d \<and> api_keys d' = api_keys d \<and> allocation_keys d' = allocation_keys d"

lemma untouched_refl [simp]: "untouched d d"
  by (simp add: untouched_def)

lemma untouched_trans: "untouched a b \<Longrightarrow> untouched b c \<Longrightarrow> untouched a c"
  by (simp add: untouched_def)

lemma untouched_fields [simp]: "untouched d (d\<lparr>group_accounts := x\<rparr>)" "untouched d (d\<lparr>group_models := y\<rparr>)" "untouched d (d\<lparr>audit_events := z\<rparr>)"
  by (simp_all add: untouched_def workspaceView_def)

lemma mapGroups_untouched:
  assumes "\<And>g. g \<in> set (account_groups d) \<Longrightarrow> hit g \<Longrightarrow> g_id (f g) = g_id g \<and> g_tenant (f g) = g_tenant g"
  shows "untouched d (mapGroups hit f d)"
proof -
  have "map (\<lambda>g. (g_id g, g_tenant g)) (map (\<lambda>g. if hit g then f g else g) (account_groups d)) = map (\<lambda>g. (g_id g, g_tenant g)) (account_groups d)"
    using assms by (auto simp: comp_def)
  then show ?thesis by (simp add: untouched_def workspaceView_def mapGroups_def)
qed

lemma foldR_untouched:
  assumes "foldR f d xs = Inr d'" and "\<And>d x d'. f d x = Inr d' \<Longrightarrow> untouched d d'"
  shows "untouched d d'"
  by (rule foldR_invariant [OF assms(1), of "untouched d"]) (auto intro: untouched_trans assms(2))

lemma attachAccount_untouched: "attachAccount i d account = Inr d' \<Longrightarrow> untouched d d'"
  by (auto simp: attachAccount_def AddGroupAccount_def res_simps split: sum.splits if_splits)

lemma writeAccounts_untouched: "writeAccounts d i ids = Inr d' \<Longrightarrow> untouched d d'"
  by (auto simp: writeAccounts_def ClearGroupAccounts_def res_simps split: sum.splits if_splits
      dest!: foldR_untouched [where f = "attachAccount i"] intro: attachAccount_untouched untouched_trans [OF untouched_fields(1)])

lemma AddGroupModel_untouched: "AddGroupModel d i model = Inr d' \<Longrightarrow> untouched d d'"
  by (auto simp: AddGroupModel_def res_simps)

lemma writeModels_untouched: "writeModels d i policy = Inr d' \<Longrightarrow> untouched d d'"
proof (cases policy)
  case (Some p)
  assume "writeModels d i policy = Inr d'"
  then obtain d1 d2 where a: "SetGroupModelPolicy d i (Restricted p) = Inr d1" "ClearGroupModels d1 i = Inr d2"
    "foldR (\<lambda>d model. AddGroupModel d i model) d2 (Models p) = Inr d'" using Some by (auto simp: writeModels_def res_simps)
  have "untouched d2 d'" by (rule foldR_untouched [OF a(3)]) (rule AddGroupModel_untouched)
  moreover have "untouched d1 d2" using a(2) by (auto simp: ClearGroupModels_def res_simps)
  moreover have "untouched d d1" using a(1) by (auto simp: SetGroupModelPolicy_def res_simps intro!: mapGroups_untouched)
  ultimately show ?thesis by (blast intro: untouched_trans)
qed (simp add: writeModels_def)

lemma writeRouting_untouched: "writeRouting d i routing = Inr d' \<Longrightarrow> untouched d d'"
  by (auto simp: writeRouting_def SetGroupRouting_def res_simps split: option.splits intro!: mapGroups_untouched)

lemma Record_untouched: "Record ctx now d action resource i = Inr d' \<Longrightarrow> untouched d d'"
  by (drule Record_frame) auto

lemma workspacesOK_newPool:
  assumes ok: "workspacesOK d" and new: "g_id g \<notin> g_id ` set (account_groups d)"
  shows "workspacesOK (d\<lparr>account_groups := account_groups d @ [g]\<rparr>)"
proof -
  let ?d = "d\<lparr>account_groups := account_groups d @ [g]\<rparr>"
  have old: "poolIn ?d x t = poolIn d x t" if "x \<noteq> g_id g" for x t using that by (auto simp: poolIn_def)
  have P: "distinct (map g_id (account_groups d))" "fst ` set (group_members d) \<subseteq> g_id ` set (account_groups d)"
    "k_group ` set (api_keys d) \<subseteq> g_id ` set (account_groups d)" using ok by (simp_all add: workspacesOK_def poolsOK_def)
  have G: "x \<noteq> g_id g" if "(x, u) \<in> set (group_members d)" for x u using P(2) new that by force
  have K: "k_group k \<noteq> g_id g" if "k \<in> set (api_keys d)" for k using P(3) new that by (metis image_eqI subsetD)
  have "gone ?d t u" if g: "gone d t u" for t u
    unfolding gone_def
  proof (intro conjI allI ballI impI)
    fix x assume a: "(x, u) \<in> set (group_members ?d)"
    then have "(x, u) \<in> set (group_members d)" by simp
    then show "\<not> poolIn ?d x t" using G [of x u] g old by (auto simp: gone_def)
  next
    fix k assume "k \<in> set (api_keys ?d)" "k_user k = u \<and> poolIn ?d (k_group k) t"
    then show "k_revoked_at k \<noteq> None" using K [of k] g old by (auto simp: gone_def)
  qed
  then have "removedOK ?d" using ok by (auto simp: workspacesOK_def removedOK_def)
  moreover have "ownersOK ?d" using ok ownersOK_frame [of ?d d] by (simp add: workspacesOK_def)
  moreover have "poolsOK ?d" using P new by (auto simp: poolsOK_def)
  ultimately show ?thesis by (simp add: workspacesOK_def)
qed

lemma writeGroup_Inr:
  assumes r: "writeGroup d tenant i name enabled now = Inr (d', j)"
  shows "untouched d d' \<or> (\<exists>g. g_id g \<notin> g_id ` set (account_groups d) \<and> d' = d\<lparr>account_groups := account_groups d @ [g]\<rparr>)"
proof (cases "i = 0")
  case True
  then have "CreateGroup d tenant name enabled now = Inr (d', j)" using r by (auto simp: writeGroup_def res_simps)
  then show ?thesis using nextID_fresh [of _ "map g_id (account_groups d)"] by (fastforce simp: CreateGroup_def Let_def res_simps)
next
  case False
  then have u: "UpdateGroup d i tenant name enabled now = Inr d'" using r by (auto simp: writeGroup_def res_simps)
  have d': "d' = mapGroups (\<lambda>g. g_id g = i \<and> g_tenant g = tenant) (\<lambda>g. g\<lparr>g_name := name, g_enabled := enabled, g_updated_at := now\<rparr>) d"
    using u by (simp add: UpdateGroup_def Let_def res_simps)
  have "untouched d d'" unfolding d' by (rule mapGroups_untouched) simp
  then show ?thesis ..
qed

lemma saveGroup_Inr:
  assumes "saveGroup ctx clk d tenant i input = Inr (d', j)"
  shows "\<exists>ids kinds policy name d1 d2 d3 d4. checkInput i input = Inr (ids, kinds, policy, name) \<and>
    writeGroup d tenant i name (gi_Enabled input) (clk 0) = Inr (d1, j) \<and> writeAccounts d1 j ids = Inr d2 \<and>
    writeModels d2 j policy = Inr d3 \<and> writeRouting d3 j (gi_Routing input) = Inr d4 \<and>
    Record ctx (clk 1) d4 (if i = 0 then ''group.create'' else ''group.update'') ''group'' (FormatInt j) = Inr d'"
  using assms unfolding saveGroup_def by (auto simp: res_simps)

lemma Save_Inr:
  assumes "Save ctx clk d tenant i input = Inr (d', detail)"
  shows "\<exists>d1. untouched d1 d' \<and> (untouched d d1 \<or> (\<exists>g. g_id g \<notin> g_id ` set (account_groups d) \<and> d1 = d\<lparr>account_groups := account_groups d @ [g]\<rparr>))"
proof -
  obtain j where "saveGroup ctx clk d tenant i input = Inr (d', j)" using assms by (auto simp: Save_def res_simps)
  from saveGroup_Inr [OF this] obtain ids policy name d1 d2 d3 d4 where
    w: "writeGroup d tenant i name (gi_Enabled input) (clk 0) = Inr (d1, j)" and v: "writeAccounts d1 j ids = Inr d2"
    "writeModels d2 j policy = Inr d3" "writeRouting d3 j (gi_Routing input) = Inr d4"
    "Record ctx (clk 1) d4 (if i = 0 then ''group.create'' else ''group.update'') ''group'' (FormatInt j) = Inr d'" by blast
  have "untouched d1 d'"
    by (rule untouched_trans [OF writeAccounts_untouched [OF v(1)] untouched_trans [OF writeModels_untouched [OF v(2)]
      untouched_trans [OF writeRouting_untouched [OF v(3)] Record_untouched [OF v(4)]]]])
  then show ?thesis using writeGroup_Inr [OF w] by blast
qed

lemma Save_OK:
  assumes ok: "workspacesOK d" and r: "Save ctx clk d tenant i input = Inr (d', detail)"
  shows "workspacesOK d'"
proof -
  obtain d1 where u: "untouched d1 d'" and d1: "untouched d d1 \<or> (\<exists>g. g_id g \<notin> g_id ` set (account_groups d) \<and> d1 = d\<lparr>account_groups := account_groups d @ [g]\<rparr>)"
    using Save_Inr [OF r] by blast
  have "workspacesOK d1" using d1 workspacesOK_view [OF _ ok] workspacesOK_newPool [OF ok] by (auto simp: untouched_def)
  then show ?thesis using u workspacesOK_view by (auto simp: untouched_def)
qed

lemma grants_foldR:
  assumes "foldR (\<lambda>d i. GrantMemberGroup d i user) d ids = Inr d'"
  shows "d' = d\<lparr>group_members := group_members d @ map (\<lambda>i. (i, user)) ids\<rparr>"
  using assms
proof (induction ids arbitrary: d)
  case (Cons i ids)
  then obtain d1 where "GrantMemberGroup d i user = Inr d1" "foldR (\<lambda>d i. GrantMemberGroup d i user) d1 ids = Inr d'"
    by (auto simp: res_simps)
  moreover from this(1) have "d1 = d\<lparr>group_members := group_members d @ [(i, user)]\<rparr>" by (simp add: GrantMemberGroup_def res_simps)
  ultimately show ?case using Cons.IH [of d1] by simp
qed simp

lemma checkGrants_pools: "foldR (checkGrant d tenant) seen ids = Inr out \<Longrightarrow> \<forall>i \<in> set ids. poolIn d i tenant"
proof (induction ids arbitrary: seen)
  case (Cons i ids)
  then have "poolIn d i tenant"
    by (auto simp: checkGrant_def tenantPool_def GetTenantGroup_def poolIn_def res_simps split: sum.splits if_splits dest: first_of_SomeD)
  then show ?case using Cons by (auto simp: res_simps)
qed simp

lemma SetMemberGroups_Inr:
  assumes "SetMemberGroups ctx now d tenant user ids = Inr d'"
  shows "\<exists>is evs. ids = Some is \<and> length is \<le> MaxGroups \<and> list_ex (\<lambda>m. isMember tenant user m \<and> m_removed_at m = None) (memberships d) \<and>
    (\<forall>i \<in> set is. poolIn d i tenant) \<and> d' = d\<lparr>group_members := filter (\<lambda>(g, u). \<not> (u = user \<and>
       list_ex (\<lambda>r. g_id r = g \<and> g_tenant r = tenant) (account_groups d))) (group_members d) @ map (\<lambda>i. (i, user)) is, audit_events := evs\<rparr>"
proof (cases ids)
  case (Some "is")
  obtain d1 d2 out where m: "length is \<le> MaxGroups" "list_ex (\<lambda>m. isMember tenant user m \<and> m_removed_at m = None) (memberships d)"
    and c: "foldR (checkGrant d tenant) [] is = Inr out" and d1: "ClearMemberGroups d tenant user = Inr d1"
    and d2: "foldR (\<lambda>d i. GrantMemberGroup d i user) d1 is = Inr d2" and e: "Record ctx now d2 ''member.groups'' ''member'' (FormatInt user) = Inr d'"
    using assms Some unfolding SetMemberGroups_def MemberExistsInTenant_def by (auto simp: res_simps)
  obtain evs where "d' = d2\<lparr>audit_events := evs\<rparr>" using Record_frame [OF e] by blast
  then show ?thesis using m checkGrants_pools [OF c] d1 grants_foldR [OF d2] Some by (auto simp: ClearMemberGroups_def res_simps)
qed (use assms in \<open>simp add: SetMemberGroups_def\<close>)

lemma membership_unique:
  assumes "workspacesOK d" "m \<in> set (memberships d)" "m' \<in> set (memberships d)" "m_tenant m = m_tenant m'" "m_user m = m_user m'"
  shows "m = m'"
proof -
  have "distinct (map (\<lambda>m. (m_tenant m, m_user m)) (memberships d))" using assms(1) by (simp add: workspacesOK_def ownersOK_def)
  then have "inj_on (\<lambda>m. (m_tenant m, m_user m)) (set (memberships d))" by (simp add: distinct_map)
  then show ?thesis by (rule inj_onD) (use assms in simp_all)
qed

lemma poolIn_unique: "workspacesOK d \<Longrightarrow> poolIn d g t \<Longrightarrow> poolIn d g t' \<Longrightarrow> t = t'"
proof -
  assume ok: "workspacesOK d" and "poolIn d g t" "poolIn d g t'"
  then obtain a b where r: "a \<in> set (account_groups d)" "b \<in> set (account_groups d)" "g_id a = g" "g_id b = g" "g_tenant a = t" "g_tenant b = t'"
    by (auto simp: poolIn_def)
  have "distinct (map g_id (account_groups d))" using ok by (simp add: workspacesOK_def poolsOK_def)
  from group_unique [OF this r(1,2)] show ?thesis using r by simp
qed

text \<open>What a current member is granted or creates does not touch someone who was removed.\<close>

lemma SetMemberGroups_OK: "workspacesOK d \<Longrightarrow> SetMemberGroups ctx now d tenant user ids = Inr d' \<Longrightarrow> workspacesOK d'"
proof -
  assume ok: "workspacesOK d" and r: "SetMemberGroups ctx now d tenant user ids = Inr d'"
  obtain "is" evs m where m: "m \<in> set (memberships d)" "isMember tenant user m" "m_removed_at m = None"
    and pools: "\<forall>i \<in> set is. poolIn d i tenant"
    and d': "d' = d\<lparr>group_members := filter (\<lambda>(g, u). \<not> (u = user \<and>
       list_ex (\<lambda>r. g_id r = g \<and> g_tenant r = tenant) (account_groups d))) (group_members d) @ map (\<lambda>i. (i, user)) is, audit_events := evs\<rparr>"
    using SetMemberGroups_Inr [OF r] unfolding list_ex_iff by blast
  have rows: "set (group_members d') \<subseteq> set (group_members d) \<union> (\<lambda>i. (i, user)) ` set is" by (auto simp: d')
  have pool: "poolIn d' g t = poolIn d g t" for g t by (simp add: d' poolIn_def)
  have gone: "gone d' t u" if g: "gone d t u" "(t, u) \<noteq> (tenant, user)" for t u
    unfolding gone_def pool
  proof (intro conjI allI impI ballI)
    fix x assume "(x, u) \<in> set (group_members d')"
    then consider "(x, u) \<in> set (group_members d)" | "u = user" "x \<in> set is" using rows by auto
    then show "\<not> poolIn d x t"
    proof cases
      case 1
      then show ?thesis using g by (simp add: gone_def)
    next
      case 2
      then have "poolIn d x tenant" using pools by blast
      then show ?thesis using poolIn_unique [OF ok] g(2) 2(1) by blast
    qed
  next
    fix k assume "k \<in> set (api_keys d')" "k_user k = u \<and> poolIn d (k_group k) t"
    then show "k_revoked_at k \<noteq> None" using g(1) by (simp add: d' gone_def)
  qed
  have "removedOK d'" unfolding removedOK_def
  proof (intro ballI impI)
    fix x assume x: "x \<in> set (memberships d')" "m_removed_at x \<noteq> None"
    then have x': "x \<in> set (memberships d)" by (simp add: d')
    have "x \<noteq> m" using x(2) m(3) by blast
    then have "(m_tenant x, m_user x) \<noteq> (tenant, user)" using membership_unique [OF ok x' m(1)] m(2) by (auto simp: isMember_def)
    moreover have "\<not> m_enabled x \<and> gone d (m_tenant x) (m_user x)" using ok x' x(2) by (simp add: workspacesOK_def removedOK_def)
    ultimately show "\<not> m_enabled x \<and> gone d' (m_tenant x) (m_user x)" using gone by blast
  qed
  moreover have "ownersOK d'" using ok ownersOK_frame [of d' d] by (simp add: workspacesOK_def d')
  moreover have "poolsOK d'"
  proof -
    have "fst ` set (group_members d') \<subseteq> fst ` set (group_members d) \<union> set is" using rows by force
    moreover have "set is \<subseteq> g_id ` set (account_groups d)" using pools by (auto simp: poolIn_def)
    moreover have "fst ` set (group_members d) \<subseteq> g_id ` set (account_groups d)" using ok by (simp add: workspacesOK_def poolsOK_def)
    ultimately have "fst ` set (group_members d') \<subseteq> g_id ` set (account_groups d)" by blast
    then show ?thesis using ok by (simp add: workspacesOK_def poolsOK_def d')
  qed
  ultimately show ?thesis by (simp add: workspacesOK_def)
qed

section \<open>Keys of a workspace\<close>

lemma view_bindings [simp]: "workspaceView (d\<lparr>allocation_keys := x\<rparr>) = workspaceView d"
  by (simp add: workspaceView_def)

lemma checkScope_access:
  assumes "checkScope s d user grp scheme now = Inr g"
  shows "effective_group_access d user grp"
  using assms by (auto simp: checkScope_def CanUseGroup_def res_simps split: sum.splits if_splits)

lemma createKey_OK:
  assumes ok: "workspacesOK d" and r: "createKey s ctx clk raw nonce d user grp scheme name expiry = Inr (d', c)"
  shows "workspacesOK d'"
proof -
  obtain g encrypted evs where sc: "checkScope s d user grp scheme (clk 1) = Inr g" and
    d': "d' = d\<lparr>api_keys := api_keys d @ [newKey s d user grp (TrimSpace name) expiry (keySecret raw) encrypted (clk 2)],
      allocation_keys := allocation_keys d @ (if scheme = 0 then [] else [(KeyID' (CreatedKey' c), scheme)]), audit_events := evs\<rparr>"
    using createKey_Inr [OF r] by blast
  define k where "k = newKey s d user grp (TrimSpace name) expiry (keySecret raw) encrypted (clk 2)"
  have k: "k_user k = user" "k_group k = grp" by (simp_all add: k_def newKey_def)
  have rows: "api_keys d' = api_keys d @ [k]" by (simp add: d' k_def)
  obtain m h where m: "m \<in> set (memberships d)" "m_user m = user" "m_enabled m" "h \<in> set (account_groups d)" "g_id h = grp" "g_tenant h = m_tenant m"
    using checkScope_access [OF sc] by (auto simp: effective_group_access_def list_ex_iff)
  have pool: "poolIn d' g t = poolIn d g t" for g t by (simp add: d' poolIn_def)
  have here: "poolIn d grp (m_tenant m)" using m by (auto simp: poolIn_def)
  have gone: "gone d' t u" if g: "gone d t u" "(t, u) \<noteq> (m_tenant m, user)" for t u
    unfolding gone_def pool
  proof (intro conjI allI impI ballI)
    fix x assume "(x, u) \<in> set (group_members d')"
    then show "\<not> poolIn d x t" using g(1) by (simp add: d' gone_def)
  next
    fix k' assume k': "k' \<in> set (api_keys d')" "k_user k' = u \<and> poolIn d (k_group k') t"
    have "k' \<noteq> k"
    proof
      assume "k' = k"
      then have "u = user" "poolIn d grp t" using k' k by simp_all
      then show False using poolIn_unique [OF ok here] g(2) by blast
    qed
    then show "k_revoked_at k' \<noteq> None" using k' g(1) by (simp add: rows gone_def)
  qed
  have "removedOK d'" unfolding removedOK_def
  proof (intro ballI impI)
    fix x assume x: "x \<in> set (memberships d')" "m_removed_at x \<noteq> None"
    then have x': "x \<in> set (memberships d)" by (simp add: d')
    have e: "\<not> m_enabled x \<and> gone d (m_tenant x) (m_user x)" using ok x' x(2) by (simp add: workspacesOK_def removedOK_def)
    then have "x \<noteq> m" using m(3) by blast
    then have "(m_tenant x, m_user x) \<noteq> (m_tenant m, user)" using membership_unique [OF ok x' m(1)] m(2) by auto
    then show "\<not> m_enabled x \<and> gone d' (m_tenant x) (m_user x)" using gone e by blast
  qed
  moreover have "ownersOK d'" using ok ownersOK_frame [of d' d] by (simp add: workspacesOK_def d')
  moreover have "poolsOK d'" using ok m(4,5) k(2) rows by (auto simp: workspacesOK_def poolsOK_def d')
  ultimately show ?thesis by (simp add: workspacesOK_def)
qed

lemma Update_OK: "workspacesOK d \<Longrightarrow> Update s ctx clk d user key name enabled expiry = Inr (d', shown) \<Longrightarrow> workspacesOK d'"
  by (drule Update_Inr) (auto intro!: workspacesOK_view [OF view_audit] workspacesOK_keys simp: keyStays_def)

lemma Revoke_OK: "workspacesOK d \<Longrightarrow> Revoke s ctx clk d user key = Inr (d', shown) \<Longrightarrow> workspacesOK d'"
  by (drule Revoke_Inr) (auto intro!: workspacesOK_view [OF view_audit] workspacesOK_keys keyStays_revoked)

lemma TouchKey_OK: "workspacesOK d \<Longrightarrow> TouchKey d now key threshold = Inr d' \<Longrightarrow> workspacesOK d'"
  by (auto simp: TouchKey_def res_simps keyStays_def intro!: workspacesOK_keys)

lemma Rebind_OK:
  assumes ok: "workspacesOK d" and r: "Rebind s ctx clk d user key grp = Inr (d', shown)"
  shows "workspacesOK d'"
proof -
  let ?hit = "\<lambda>k. k_id k = key \<and> k_user k = user \<and> k_revoked_at k = None"
  let ?d = "mapKeys ?hit (\<lambda>k. k\<lparr>k_group := grp\<rparr>) d"
  obtain aks evs where d': "d' = ?d\<lparr>allocation_keys := aks, audit_events := evs\<rparr>" and
    same: "\<forall>k \<in> set (api_keys d). ?hit k \<longrightarrow> poolTenant d grp \<noteq> None \<and> poolTenant d grp = poolTenant d (k_group k)"
    using Rebind_Inr [OF r] by blast
  have ids: "distinct (map g_id (account_groups d))" using ok by (simp add: workspacesOK_def poolsOK_def)
  have "workspacesOK ?d"
  proof (rule workspacesOK_keys [OF ok])
    fix k assume k: "k \<in> set (api_keys d)" "?hit k"
    have "poolIn d grp t = poolIn d (k_group k) t" for t
      using same k keyTenant_pool [OF ids, of t k] keyTenant_pool [OF ids, of t "k\<lparr>k_group := grp\<rparr>"] by (auto simp: keyTenant_poolIn)
    then show "keyStays d k (k\<lparr>k_group := grp\<rparr>)" using k(2) by (simp add: keyStays_def)
  qed
  moreover have "workspaceView d' = workspaceView ?d" by (simp add: d')
  ultimately show ?thesis by (rule workspacesOK_view [rotated])
qed

lemma workspace_step_OK: "workspace_step s d d' \<Longrightarrow> workspacesOK d \<Longrightarrow> workspacesOK d'"
proof (induction rule: workspace_step.induct)
  case (founds now d owner name d' shown)
  then show ?case using CreateTenant_OK by blast
next
  case (sets_up d owner now name d')
  then show ?case using CreateInitial_OK by blast
next
  case (joins ctx clk d actor tenant user name role d' summ)
  then show ?case using addMember_OK by blast
next
  case (invited d tenant user now d')
  then show ?case using AddNewMember_OK by blast
next
  case (enables ctx now d actor tenant user enabled d' summ)
  then show ?case using SetMemberEnabled_OK by blast
next
  case (promotes ctx now d actor tenant user role d' summ)
  then show ?case using SetMemberRole_OK by blast
next
  case (removes ctx clk d actor tenant user d')
  then show ?case using RemoveMember_OK by blast
next
  case (suspends d tenant d')
  then show ?case using Suspend_OK by blast
next
  case (grants ctx now d tenant user ids d')
  then show ?case using SetMemberGroups_OK by blast
next
  case (saves ctx clk d tenant i input d' detail)
  then show ?case using Save_OK by blast
next
  case (creates_key t ctx clk raw nonce d user grp scheme name expiry d' created)
  then show ?case using createKey_OK by blast
next
  case (updates_key t ctx clk d user key name enabled expiry d' shown)
  then show ?case using Update_OK by blast
next
  case (revokes_key t ctx clk d user key d' shown)
  then show ?case using Revoke_OK by blast
next
  case (rebinds_key t ctx clk d user key grp d' shown)
  then show ?case using Rebind_OK by blast
next
  case (authenticates t now d secret d' p)
  then show ?case using Authenticate_Inr(3) TouchKey_OK by blast
next
  case (reveals t ctx now d user key d' plain)
  then obtain evs where "d' = d\<lparr>audit_events := evs\<rparr>" using Reveal_Inr by blast
  then show ?case using reveals(2) workspacesOK_view [OF view_audit] by simp
next
  case (elsewhere d' d)
  then show ?case using workspacesOK_view by blast
qed

definition noWorkspaces :: "store \<Rightarrow> bool" where
  "noWorkspaces d \<longleftrightarrow> tenants d = [] \<and> memberships d = [] \<and> account_groups d = [] \<and> group_members d = [] \<and> api_keys d = [] \<and>
     allocation_keys d = []"

lemma noWorkspaces_OK: "noWorkspaces d \<Longrightarrow> workspacesOK d"
  by (simp add: noWorkspaces_def workspacesOK_def ownersOK_def removedOK_def poolsOK_def ownsWorkspaces_def)

interpretation workspace: step_invariant noWorkspaces "workspace_step s" workspacesOK for s
  by unfold_locales (auto intro: noWorkspaces_OK workspace_step_OK)

section \<open>Workspace steps are steps of the key service\<close>

text \<open>Pools may be added, since the keys there are belong to older ones.\<close>

lemma spared_pools:
  assumes ok: "workspacesOK d" "keysOK s d" and rows: "api_keys d' = api_keys d" "allocation_keys d' = allocation_keys d"
    and pools: "map (\<lambda>g. (g_id g, g_tenant g)) (account_groups d') = map (\<lambda>g. (g_id g, g_tenant g)) (account_groups d) @ new"
    and fresh: "distinct (map fst new)" "set (map fst new) \<inter> g_id ` set (account_groups d) = {}"
  shows "spared d d'"
proof -
  have ids: "map g_id (account_groups d') = map g_id (account_groups d) @ map fst new"
    using arg_cong [OF pools, where f = "map fst"] by (simp add: comp_def)
  have "distinct (map g_id (account_groups d'))" unfolding ids using ok(1) fresh by (auto simp: workspacesOK_def poolsOK_def)
  moreover have "keyTenant d' t k = keyTenant d t k" if k: "k \<in> set (api_keys d)" for t k
  proof -
    have "k_group k \<in> g_id ` set (account_groups d)" using ok(1) k by (auto simp: workspacesOK_def poolsOK_def)
    then have "(k_group k, t) \<notin> set new" using fresh(2) by force
    then have "(k_group k, t) \<in> set (map (\<lambda>g. (g_id g, g_tenant g)) (account_groups d')) \<longleftrightarrow>
        (k_group k, t) \<in> set (map (\<lambda>g. (g_id g, g_tenant g)) (account_groups d))" unfolding pools by simp
    moreover have "poolIn e x t \<longleftrightarrow> (x, t) \<in> set (map (\<lambda>g. (g_id g, g_tenant g)) (account_groups e))" for e x
      by (auto simp: poolIn_def)
    ultimately show ?thesis by (simp add: keyTenant_poolIn)
  qed
  ultimately have "sameTenants d d'" by (simp add: sameTenants_def)
  moreover have "list_all2 (\<lambda>k k'. k' = k \<or> (\<exists>now. k' = revokedRow now k)) (api_keys d) (api_keys d')"
    unfolding rows by (rule list_all2_refl) simp
  moreover have "fst ` set (allocation_keys d') \<subseteq> k_id ` set (api_keys d)" using ok(2) rows by (simp add: keysOK_def)
  ultimately show ?thesis by (simp add: spared_def)
qed

lemma spared_same:
  assumes "workspacesOK d" "keysOK s d" "api_keys d' = api_keys d" "allocation_keys d' = allocation_keys d" "account_groups d' = account_groups d"
  shows "spared d d'"
  by (rule spared_pools [OF assms(1-4), of "[]"]) (simp_all add: assms(5))

lemma spared_removed:
  assumes ok: "keysOK s d"
  shows "spared d ((removed d tenant user now)\<lparr>audit_events := evs\<rparr>)"
proof -
  let ?d = "(removed d tenant user now)\<lparr>audit_events := evs\<rparr>"
  have rows: "account_groups ?d = account_groups d" "allocation_keys ?d = allocation_keys d"
    "api_keys ?d = map (\<lambda>k. if k_user k = user \<and> keyTenant d tenant k then revokedRow now k else k) (api_keys d)"
    by (simp_all add: removed_def mapKeys_def)
  have "sameTenants d ?d" using ok rows(1) by (simp add: sameTenants_def keyTenant_def keysOK_def)
  moreover have "list_all2 (\<lambda>k k'. k' = k \<or> (\<exists>now. k' = revokedRow now k)) (api_keys d) (api_keys ?d)"
    unfolding rows(3) by (auto simp: list_all2_conv_all_nth)
  moreover have "fst ` set (allocation_keys ?d) \<subseteq> k_id ` set (api_keys d)" using ok rows(2) by (simp add: keysOK_def)
  ultimately show ?thesis by (simp add: spared_def)
qed

text \<open>A new pool has no keys yet.\<close>

lemma spared_Save:
  assumes ok: "workspacesOK d" "keysOK s d" and r: "Save ctx clk d tenant i input = Inr (d', detail)"
  shows "spared d d'"
proof -
  obtain d1 where u: "untouched d1 d'" and d1: "untouched d d1 \<or> (\<exists>g. g_id g \<notin> g_id ` set (account_groups d) \<and> d1 = d\<lparr>account_groups := account_groups d @ [g]\<rparr>)"
    using Save_Inr [OF r] by blast
  have e: "api_keys d' = api_keys d1" "allocation_keys d' = allocation_keys d1"
    "map (\<lambda>g. (g_id g, g_tenant g)) (account_groups d') = map (\<lambda>g. (g_id g, g_tenant g)) (account_groups d1)"
    using u unfolding untouched_def workspaceView_def prod.inject by blast+
  from d1 show ?thesis
  proof
    assume "untouched d d1"
    then have "api_keys d1 = api_keys d" "allocation_keys d1 = allocation_keys d"
      "map (\<lambda>g. (g_id g, g_tenant g)) (account_groups d1) = map (\<lambda>g. (g_id g, g_tenant g)) (account_groups d)"
      unfolding untouched_def workspaceView_def prod.inject by blast+
    then show ?thesis by (intro spared_pools [OF ok, of _ "[]"]) (simp_all only: e append_Nil2, simp_all)
  next
    assume "\<exists>g. g_id g \<notin> g_id ` set (account_groups d) \<and> d1 = d\<lparr>account_groups := account_groups d @ [g]\<rparr>"
    then obtain g where "g_id g \<notin> g_id ` set (account_groups d)" "d1 = d\<lparr>account_groups := account_groups d @ [g]\<rparr>" by blast
    then show ?thesis by (intro spared_pools [OF ok, of _ "[(g_id g, g_tenant g)]"]) (simp_all only: e, simp_all)
  qed
qed

lemma workspace_key_step:
  assumes ok: "workspacesOK d" "keysOK s d" and st: "workspace_step s d d'"
  shows "key_step s d d'"
  using st
proof (cases rule: workspace_step.cases)
  case (founds now owner name shown)
  then show ?thesis using CreateTenant_Inr by (fastforce intro: key_step.elsewhere spared_same [OF ok])
next
  case (sets_up owner now name)
  then show ?thesis
    by (auto simp: CreateInitial_def InsertTenant_def InsertMembership_def res_simps intro!: key_step.elsewhere spared_same [OF ok])
next
  case (joins ctx clk actor tenant user name role summ)
  from addMember_Inr [OF this] obtain user' evs where "d' = (joined d tenant user' role (clk 0))\<lparr>audit_events := evs\<rparr>" by blast
  then show ?thesis by (intro key_step.elsewhere spared_same [OF ok]) (simp_all add: joined_def)
next
  case (invited tenant user now)
  then show ?thesis
    by (auto simp: AddNewMember_def InsertMembership_def res_simps intro!: key_step.elsewhere spared_same [OF ok])
next
  case (enables ctx now actor tenant user enabled summ)
  from SetMemberEnabled_Inr [OF this] show ?thesis by (auto intro!: key_step.elsewhere spared_same [OF ok])
next
  case (promotes ctx now actor tenant user role summ)
  from SetMemberRole_Inr [OF this] show ?thesis by (auto intro!: key_step.elsewhere spared_same [OF ok])
next
  case (removes ctx clk actor tenant user)
  from RemoveMember_Inr [OF this] show ?thesis by (auto intro!: key_step.elsewhere spared_removed [OF ok(2)])
next
  case (suspends tenant)
  then show ?thesis by (auto simp: Suspend_def SuspendTenant_def res_simps intro!: key_step.elsewhere spared_same [OF ok])
next
  case (grants ctx now tenant user ids)
  from SetMemberGroups_Inr [OF this] show ?thesis by (auto intro!: key_step.elsewhere spared_same [OF ok])
next
  case (saves ctx clk tenant i input detail)
  then show ?thesis by (rule key_step.elsewhere [OF spared_Save [OF ok]])
qed (rule key_step.intros; assumption)+

lemma workspace_reach:
  assumes "reach noWorkspaces (workspace_step s) d" and "genuine (ks_vault s)"
  shows "workspacesOK d \<and> keys_reach s d"
  using assms(1)
proof (induction rule: reach.induct)
  case (reach_init d)
  then have "noKeys d" by (simp add: noWorkspaces_def noKeys_def)
  then show ?case using noWorkspaces_OK [OF reach_init] assms(2) by (simp add: keys_reach_def reach.intros)
next
  case (reach_step d d')
  then have ok: "workspacesOK d" "keysOK s d" using keys_reach_OK by blast+
  have "key_step s d d'" by (rule workspace_key_step [OF ok reach_step(2)])
  then show ?case using reach_step workspace_step_OK ok(1) by (auto simp: keys_reach_def intro: reach.intros)
qed

lemma workspace_steps:
  assumes "(workspace_step s)\<^sup>*\<^sup>* d e" and "workspacesOK d" "keysOK s d" "genuine (ks_vault s)"
  shows "(key_step s)\<^sup>*\<^sup>* d e \<and> workspacesOK e \<and> keysOK s e"
  using assms(1)
proof (induction rule: rtranclp_induct)
  case base
  then show ?case using assms by simp
next
  case (step e f)
  then have ok: "workspacesOK e" "keysOK s e" by blast+
  have k: "key_step s e f" by (rule workspace_key_step [OF ok step(2)])
  then have "keysOK s f" using keys_steps_OK [of s e f] ok(2) assms(4) by blast
  then show ?case using step k workspace_step_OK ok(1) by (blast intro: rtranclp.rtrancl_into_rtrancl)
qed

section \<open>Owners and other workspaces\<close>

definition kept :: "int \<Rightarrow> store \<Rightarrow> store \<Rightarrow> bool" where
  "kept tenant d d' \<longleftrightarrow>
     (\<forall>m \<in> set (memberships d). m_role m = ''owner'' \<or> m_tenant m \<noteq> tenant \<longrightarrow> m \<in> set (memberships d')) \<and>
     (\<forall>m \<in> set (memberships d'). m_role m = ''owner'' \<longrightarrow> m \<in> set (memberships d))"

lemma kept_members:
  assumes "\<And>m. m \<in> set (memberships d) \<Longrightarrow> hit m \<Longrightarrow> m_role m \<noteq> ''owner'' \<and> m_tenant m = tenant \<and> m_role (f m) \<noteq> ''owner''"
    and "memberships e = memberships d"
  shows "kept tenant d (mapMembers hit f e)"
proof -
  let ?h = "\<lambda>m. if hit m then f m else m"
  have rows: "set (memberships (mapMembers hit f e)) = ?h ` set (memberships d)" using assms(2) by (simp add: mapMembers_def)
  have "m \<in> ?h ` set (memberships d)" if "m \<in> set (memberships d)" "m_role m = ''owner'' \<or> m_tenant m \<noteq> tenant" for m
    using assms(1) [of m] that by (intro image_eqI [of _ _ m]) auto
  moreover have "m \<in> set (memberships d)" if "m \<in> ?h ` set (memberships d)" "m_role m = ''owner''" for m
    using assms(1) that by (auto split: if_splits)
  ultimately show ?thesis unfolding kept_def rows by blast
qed

lemma kept_audit [simp]: "kept tenant d (d'\<lparr>audit_events := x\<rparr>) = kept tenant d d'"
  by (simp add: kept_def)

lemma kept_joined:
  assumes "workspacesOK d" "t \<in> set (tenants d)" "t_id t = tenant" "user \<noteq> t_owner t" "role \<noteq> ''owner''"
  shows "kept tenant d (joined d tenant user role now)"
proof (cases "list_ex (isMember tenant user) (memberships d)")
  case True
  have "kept tenant d (mapMembers (isMember tenant user) (rejoined role now) d)"
    by (rule kept_members) (use assms owner_not_target [OF assms(1-4)] in \<open>auto simp: rejoined_def isMember_def\<close>)
  then show ?thesis using True by (simp add: joined_def)
next
  case False
  then show ?thesis using assms(5) by (auto simp: joined_def kept_def newMembership_def)
qed

section \<open>Properties\<close>

text \<open>
  C37: In every reachable store each workspace has exactly one owner: the recorded one, whose membership is enabled
  and was never removed. Nobody owns more than ten workspaces. Someone who was removed is disabled there, holds
  no grant on its pools and has no key in them that is not revoked.
\<close>

theorem workspace_invariant:
  assumes "reach noWorkspaces (workspace_step s) d"
  shows "(\<forall>t \<in> set (tenants d). \<exists>m \<in> set (memberships d). m_user m = t_owner t \<and> m_enabled m \<and> m_removed_at m = None \<and>
      (\<forall>m' \<in> set (memberships d). m_tenant m' = t_id t \<and> m_role m' = ''owner'' \<longleftrightarrow> m' = m)) \<and>
    ownsWorkspaces d user \<le> MaxOwnedWorkspaces \<and>
    (\<forall>m \<in> set (memberships d). m_removed_at m \<noteq> None \<longrightarrow> \<not> m_enabled m \<and>
      (\<forall>g \<in> set (account_groups d). g_tenant g = m_tenant m \<longrightarrow> (g_id g, m_user m) \<notin> set (group_members d) \<and>
        (\<forall>k \<in> set (api_keys d). k_group k = g_id g \<and> k_user k = m_user m \<longrightarrow> k_revoked_at k \<noteq> None)))"
proof (intro conjI ballI impI allI)
  have ok: "workspacesOK d" by (rule workspace.reach_inv [OF assms])
  note O = ok [unfolded workspacesOK_def ownersOK_def]
  {
    fix t assume t: "t \<in> set (tenants d)"
    have "\<exists>m \<in> set (memberships d). isMember (t_id t) (t_owner t) m \<and> m_role m = ''owner'' \<and> m_enabled m \<and> m_removed_at m = None"
      using O t by simp
    then obtain m where m: "m \<in> set (memberships d)" "isMember (t_id t) (t_owner t) m" "m_role m = ''owner''" "m_enabled m" "m_removed_at m = None"
      by blast
    have only: "m' = m" if m': "m' \<in> set (memberships d)" "m_tenant m' = t_id t" "m_role m' = ''owner''" for m'
    proof -
      obtain t' where t': "t' \<in> set (tenants d)" "t_id t' = m_tenant m'" "t_owner t' = m_user m'" using owner_tenant [OF ok m'(1,3)] by blast
      have "inj_on t_id (set (tenants d))" using O by (simp add: distinct_map)
      then have "t' = t" by (rule inj_onD) (use t t' m'(2) in simp_all)
      then show ?thesis using membership_unique [OF ok m'(1) m(1)] m(2) m'(2) t'(3) by (simp add: isMember_def)
    qed
    have whose: "m_user m = t_owner t" "m_tenant m = t_id t" using m(2) by (simp_all add: isMember_def)
    show "\<exists>m \<in> set (memberships d). m_user m = t_owner t \<and> m_enabled m \<and> m_removed_at m = None \<and>
      (\<forall>m' \<in> set (memberships d). m_tenant m' = t_id t \<and> m_role m' = ''owner'' \<longleftrightarrow> m' = m)"
    proof (rule bexI [OF _ m(1)], intro conjI ballI iffI)
      show "m' = m" if "m' \<in> set (memberships d)" "m_tenant m' = t_id t \<and> m_role m' = ''owner''" for m'
        by (rule only) (use that in blast)+
      show "m_tenant m' = t_id t" "m_role m' = ''owner''" if "m' = m" for m' unfolding that by (rule whose(2), rule m(3))
    qed (rule whose(1), rule m(4), rule m(5))
  }
  show "ownsWorkspaces d user \<le> MaxOwnedWorkspaces" using O by simp
  fix m assume "m \<in> set (memberships d)" "m_removed_at m \<noteq> None"
  then have e: "\<not> m_enabled m" "gone d (m_tenant m) (m_user m)" using ok by (simp_all add: workspacesOK_def removedOK_def)
  show "\<not> m_enabled m" by (rule e)
  fix g assume g: "g \<in> set (account_groups d)" "g_tenant g = m_tenant m"
  then have "poolIn d (g_id g) (m_tenant m)" by (auto simp: poolIn_def)
  then show "(g_id g, m_user m) \<notin> set (group_members d)"
    "\<And>k. k \<in> set (api_keys d) \<Longrightarrow> k_group k = g_id g \<and> k_user k = m_user m \<Longrightarrow> k_revoked_at k \<noteq> None"
    using e(2) by (auto simp: gone_def)
qed

text \<open>
  C38: Removal from a workspace is complete and final. A removed member can use none of its pools, and no key they
  had there authenticates or is disclosed again, in any workspace, whatever happens afterwards, even if they
  rejoin.
\<close>

theorem removal_is_final:
  assumes "reach noWorkspaces (workspace_step s) d" and "genuine (ks_vault s)"
    and "RemoveMember ctx clk d actor tenant user = Inr d'" and "(workspace_step s)\<^sup>*\<^sup>* d' e"
  shows "(\<forall>g \<in> set (account_groups d'). g_tenant g = tenant \<longrightarrow> \<not> effective_group_access d' user (g_id g)) \<and>
    (\<forall>k \<in> set (api_keys d). k_user k = user \<and> keyTenant d tenant k \<longrightarrow>
      (\<forall>secret. ks_sum s secret = k_token_hash k \<longrightarrow> isl (Authenticate (s\<lparr>ks_tenant := t\<rparr>) now e secret)) \<and>
      isl (Reveal (s\<lparr>ks_tenant := t\<rparr>) ctx' now e user' (k_id k)))"
proof -
  have ok: "workspacesOK d" and kr: "keys_reach s d" using workspace_reach [OF assms(1,2)] by blast+
  have st: "workspace_step s d d'" by (rule workspace_step.removes [OF assms(3)])
  have ok': "workspacesOK d'" by (rule workspace_step_OK [OF st ok])
  have keys: "keysOK s d" by (rule keys_reach_OK [OF kr])
  have ks: "key_step s d d'" by (rule workspace_key_step [OF ok keys st])
  have kr': "keys_reach s d'" using kr ks by (auto simp: keys_reach_def intro: reach.intros)
  obtain evs m where m: "first_of (isMember tenant user) (memberships d) = Some m" "m_role m \<noteq> ''owner''" "m_removed_at m = None"
    and d': "d' = (removed d tenant user (clk 0))\<lparr>audit_events := evs\<rparr>" using RemoveMember_Inr [OF assms(3)] by blast
  have "\<not> effective_group_access d' user (g_id g)" if g: "g \<in> set (account_groups d')" "g_tenant g = tenant" for g
  proof
    assume "effective_group_access d' user (g_id g)"
    then obtain x where x: "x \<in> set (memberships d')" "m_user x = user" "m_enabled x" "poolIn d' (g_id g) (m_tenant x)"
      by (auto simp: effective_group_access_def list_ex_iff poolIn_def)
    have "poolIn d' (g_id g) tenant" using g by (auto simp: poolIn_def)
    then have xt: "m_tenant x = tenant" by (rule poolIn_unique [OF ok' x(4)])
    let ?h = "\<lambda>m. if isMember tenant user m \<and> m_role m \<noteq> ''owner'' \<and> m_removed_at m = None then m\<lparr>m_enabled := False, m_removed_at := Some (clk 0)\<rparr> else m"
    have "x \<in> ?h ` set (memberships d)" using x(1) unfolding d' by (simp add: removed_def mapMembers_def mapKeys_def)
    then obtain x0 where x0: "x0 \<in> set (memberships d)" "x = ?h x0" by blast
    then have "isMember tenant user x0" using x(2) xt by (auto simp: isMember_def split: if_splits)
    moreover have "m \<in> set (memberships d)" "isMember tenant user m" using first_of_SomeD [OF m(1)] by simp_all
    ultimately have "x0 = m" using membership_unique [OF ok x0(1)] by (simp add: isMember_def)
    then show False using x0(2) x(3) m(2,3) \<open>isMember tenant user m\<close> by simp
  qed
  moreover have "(\<forall>secret. ks_sum s secret = k_token_hash k \<longrightarrow> isl (Authenticate (s\<lparr>ks_tenant := t\<rparr>) now e secret)) \<and>
      isl (Reveal (s\<lparr>ks_tenant := t\<rparr>) ctx' now e user' (k_id k))"
    if k: "k \<in> set (api_keys d)" "k_user k = user" "keyTenant d tenant k" for k
  proof -
    define r where "r = revokedRow (clk 0) k"
    have r: "r \<in> set (api_keys d')" "k_id r = k_id k" "k_token_hash r = k_token_hash k" "k_revoked_at r \<noteq> None"
      using k by (auto simp: d' removed_def mapKeys_def r_def revokedRow_def keyTenant_def)
    then obtain at where at: "k_revoked_at r = Some at" by blast
    have s: "(key_step s)\<^sup>*\<^sup>* d' e" using workspace_steps [OF assms(4) ok' keys_reach_OK [OF kr'] assms(2)] by blast
    show ?thesis using revoked_stays [OF kr' r(1) at s] r(2,3) by metis
  qed
  ultimately show ?thesis by blast
qed


section \<open>Examples\<close>

text \<open>User 3 sets up a workspace, takes in user 7, who gets a pool and creates a key there, and removes them.\<close>

definition exampleBare :: store where
  "exampleBare = (exampleStore [])\<lparr>tenants := [], memberships := [], account_groups := [], group_members := [], group_accounts := [],
     accounts := [], allocation_schemes := [], allocation_revisions := []\<rparr>"

definition exampleInput :: GroupInput where
  "exampleInput = \<lparr>gi_Resources = None, gi_Routing = None, gi_ModelPolicy = None, gi_Name = ''pool'', gi_Enabled = True,
     gi_AccountIDs = Some []\<rparr>"

definition exampleHired :: "(store \<times> CreatedKey) result" where
  "exampleHired =
     bindR (CreateInitial exampleBare 3 1000 ''home'') (\<lambda>d.
     bindR (addMember None (\<lambda>_. 1001) d 3 1 7 [] ''member'') (\<lambda>(d, _).
     bindR (Save None (\<lambda>_. 1002) d 1 0 exampleInput) (\<lambda>(d, _).
     bindR (SetMemberGroups None 1003 d 1 7 (Some [1])) (\<lambda>d.
     createKey (exampleKeyService\<lparr>ks_tenant := 1\<rparr>) None (\<lambda>_. 1004) (replicate 32 CHR ''r'') (replicate 12 CHR ''n'')
       d 7 1 0 ''laptop'' None))))"

definition exampleExpelled :: "store result" where
  "exampleExpelled = bindR exampleHired (\<lambda>(d, _). RemoveMember None (\<lambda>_. 2000) d 3 1 7)"

lemma exampleHired_run: "case exampleHired of Inl _ \<Rightarrow> False | Inr (d, _) \<Rightarrow>
    map (\<lambda>k. (k_id k, k_user k, k_token_hash k, keyTenant d 1 k)) (api_keys d) = [(1, 7, ''sl_cnJycnJycnJycnJycnJycnJycnJyc'', True)]"
  unfolding exampleHired_def exampleBare_def exampleInput_def exampleKeyService_def by code_simp

lemma exampleExpelled_run: "case exampleExpelled of Inl _ \<Rightarrow> False | Inr d \<Rightarrow>
    map (\<lambda>m. (m_user m, m_role m, m_tenant m, m_removed_at m)) (memberships d) = [(3, ''owner'', 1, None), (7, ''member'', 1, Some 2000)] \<and>
    map (\<lambda>g. (g_id g, g_tenant g)) (account_groups d) = [(1, 1)]"
  unfolding exampleExpelled_def exampleHired_def exampleBare_def exampleInput_def exampleKeyService_def by code_simp

lemma exampleHired_reach:
  assumes "exampleHired = Inr (d, c)"
  shows "reach noWorkspaces (workspace_step exampleKeyService) d"
proof -
  obtain d1 d2 m d3 i d4 where st: "CreateInitial exampleBare 3 1000 ''home'' = Inr d1"
    "addMember None (\<lambda>_. 1001) d1 3 1 7 [] ''member'' = Inr (d2, m)" "Save None (\<lambda>_. 1002) d2 1 0 exampleInput = Inr (d3, i)"
    "SetMemberGroups None 1003 d3 1 7 (Some [1]) = Inr d4"
    "createKey (exampleKeyService\<lparr>ks_tenant := 1\<rparr>) None (\<lambda>_. 1004) (replicate 32 CHR ''r'') (replicate 12 CHR ''n'')
       d4 7 1 0 ''laptop'' None = Inr (d, c)"
    using assms unfolding exampleHired_def by (auto simp: bindR_eq_Inr)
  have n: "noWorkspaces exampleBare" "tenants exampleBare = []" by (simp_all add: noWorkspaces_def exampleBare_def exampleStore_def)
  have v: "nonceSize (ks_vault exampleKeyService) = 12" by (simp add: exampleKeyService_def plainCipher_def)
  have "workspace_step exampleKeyService d4 d" by (rule workspace_step.creates_key [OF st(5)]) (simp_all add: v)
  then show ?thesis
    using reach.intros(1) [of noWorkspaces, OF n(1)] workspace_step.sets_up [OF n(2) st(1)] workspace_step.joins [OF st(2)]
      workspace_step.saves [OF st(3)] workspace_step.grants [OF st(4)] by (meson reach.intros(2))
qed

lemma exampleExpelled_steps:
  obtains d c d' where "exampleHired = Inr (d, c)" and "RemoveMember None (\<lambda>_. 2000) d 3 1 7 = Inr d'" and "exampleExpelled = Inr d'"
    and "reach noWorkspaces (workspace_step exampleKeyService) d" and "reach noWorkspaces (workspace_step exampleKeyService) d'"
proof -
  obtain d' where d': "exampleExpelled = Inr d'" using exampleExpelled_run by (auto split: sum.splits)
  then obtain d c where d: "exampleHired = Inr (d, c)" "RemoveMember None (\<lambda>_. 2000) d 3 1 7 = Inr d'"
    unfolding exampleExpelled_def by (auto simp: bindR_eq_Inr)
  note r = exampleHired_reach [OF d(1)]
  have "reach noWorkspaces (workspace_step exampleKeyService) d'"
    by (rule reach.intros(2) [OF r workspace_step.removes [OF d(2)]])
  then show thesis by (rule that [OF d d' r])
qed

theorem workspace_invariant_witness:
  "\<exists>d. exampleExpelled = Inr d \<and> (\<exists>m \<in> set (memberships d). m_user m = 7 \<and> \<not> m_enabled m \<and> (1, 7) \<notin> set (group_members d)) \<and>
     ownsWorkspaces d 3 \<le> 10"
proof -
  obtain d where d: "exampleExpelled = Inr d" "reach noWorkspaces (workspace_step exampleKeyService) d" by (rule exampleExpelled_steps)
  note P = workspace_invariant [OF d(2), of 3]
  have rows: "map (\<lambda>m. (m_user m, m_role m, m_tenant m, m_removed_at m)) (memberships d) = [(3, ''owner'', 1, None), (7, ''member'', 1, Some 2000)]"
    "map (\<lambda>g. (g_id g, g_tenant g)) (account_groups d) = [(1, 1)]"
    using exampleExpelled_run unfolding d(1) by simp_all
  have "(7, ''member'', 1, Some 2000) \<in> set (map (\<lambda>m. (m_user m, m_role m, m_tenant m, m_removed_at m)) (memberships d))"
    unfolding rows(1) by simp
  then obtain m where m: "m \<in> set (memberships d)" "m_user m = 7" "m_tenant m = 1" "m_removed_at m = Some 2000" by auto
  obtain g where g: "g \<in> set (account_groups d)" "g_id g = 1" "g_tenant g = 1" using rows(2) by (auto simp: map_eq_Cons_conv)
  have "\<not> m_enabled m \<and> (\<forall>g \<in> set (account_groups d). g_tenant g = m_tenant m \<longrightarrow> (g_id g, m_user m) \<notin> set (group_members d))"
    using P m(1,4) by (metis option.distinct(1))
  then have "\<not> m_enabled m" "(1, 7) \<notin> set (group_members d)" using g m by auto
  moreover have "ownsWorkspaces d 3 \<le> 10" using P by (simp add: MaxOwnedWorkspaces_def)
  ultimately show ?thesis using d(1) m(1,2) by blast
qed

theorem removal_is_final_witness:
  "\<exists>d. exampleExpelled = Inr d \<and> \<not> effective_group_access d 7 1 \<and>
     isl (Authenticate (exampleKeyService\<lparr>ks_tenant := 1\<rparr>) 3000 d (keySecret (replicate 32 CHR ''r'')))"
proof -
  obtain d c e where st: "exampleHired = Inr (d, c)" "RemoveMember None (\<lambda>_. 2000) d 3 1 7 = Inr e" "exampleExpelled = Inr e"
    and r: "reach noWorkspaces (workspace_step exampleKeyService) d" by (rule exampleExpelled_steps)
  have v: "genuine (ks_vault exampleKeyService)" using plainCipher_genuine by (simp add: exampleKeyService_def)
  note P = removal_is_final [OF r v st(2) rtranclp.rtrancl_refl, of 1 3000]
  have "map (\<lambda>g. (g_id g, g_tenant g)) (account_groups e) = [(1, 1)]" using exampleExpelled_run unfolding st(3) by simp
  then obtain g where "g \<in> set (account_groups e)" "g_id g = 1" "g_tenant g = 1" by (auto simp: map_eq_Cons_conv)
  then have "\<not> effective_group_access e 7 1" using P by metis
  moreover have "map (\<lambda>k. (k_id k, k_user k, k_token_hash k, keyTenant d 1 k)) (api_keys d) = [(1, 7, ''sl_cnJycnJycnJycnJycnJycnJycnJyc'', True)]"
    using exampleHired_run unfolding st(1) by simp
  then obtain k where k: "k \<in> set (api_keys d)" "k_user k = 7" "keyTenant d 1 k" "k_token_hash k = ''sl_cnJycnJycnJycnJycnJycnJycnJyc''"
    by (auto simp: map_eq_Cons_conv)
  have "ks_sum exampleKeyService (keySecret (replicate 32 CHR ''r'')) = ''sl_cnJycnJycnJycnJycnJycnJycnJyc''"
    unfolding exampleKeyService_def by code_simp
  then have "isl (Authenticate (exampleKeyService\<lparr>ks_tenant := 1\<rparr>) 3000 e (keySecret (replicate 32 CHR ''r'')))"
    using P k by metis
  ultimately show ?thesis using st(3) by blast
qed


end
