(* ===== verification/Groups_Pools.thy ===== *)
theory Groups_Pools
  imports Groups_Manage Alloc_Admission
begin

text \<open>
  Pools with an allowance: their accounts are neither changed nor shared by any change of a pool, which is
  what the accounting of the allowance rests on.
\<close>

definition exclusivePools :: "store \<Rightarrow> bool" where
  "exclusivePools d \<longleftrightarrow> (\<forall>s \<in> set (allocation_schemes d). \<forall>a g.
     (s_group s, a) \<in> set (group_accounts d) \<and> (g, a) \<in> set (group_accounts d) \<longrightarrow> g = s_group s)"

definition accountsOf :: "store \<Rightarrow> int \<Rightarrow> string set" where
  "accountsOf d grp = {a. (grp, a) \<in> set (group_accounts d)}"

section \<open>Steps of a change\<close>

text \<open>What a change of the pool \<open>i\<close> keeps: the schemes, and the accounts of every pool but its own.\<close>

definition poolsKept :: "int \<Rightarrow> store \<Rightarrow> store \<Rightarrow> bool" where
  "poolsKept i d d' \<longleftrightarrow> allocation_schemes d' = allocation_schemes d \<and> (\<forall>g. g \<noteq> i \<longrightarrow> accountsOf d' g = accountsOf d g) \<and>
     (exclusivePools d \<longrightarrow> exclusivePools d') \<and> (hasScheme d i \<longrightarrow> accountsOf d' i = accountsOf d i)"

lemma poolsKept_refl [simp]: "poolsKept i d d"
  by (simp add: poolsKept_def)

lemma poolsKept_trans: "poolsKept i a b \<Longrightarrow> poolsKept i b c \<Longrightarrow> poolsKept i a c"
  by (simp add: poolsKept_def hasScheme_def)

lemma poolsKept_frame: "allocation_schemes d' = allocation_schemes d \<Longrightarrow> group_accounts d' = group_accounts d \<Longrightarrow> poolsKept i d d'"
  by (simp add: poolsKept_def accountsOf_def exclusivePools_def)

lemma attachAccount_kept:
  assumes "attachAccount i d account = Inr d'" and "\<not> hasScheme d i"
  shows "poolsKept i d d'"
proof -
  have "AddGroupAccount d i account = Inr d'" using assms(1) by (auto simp: attachAccount_def split: sum.splits if_splits)
  then have free: "\<not> exclusiveAccount d i account" and d': "d' = d\<lparr>group_accounts := group_accounts d @ [(i, account)]\<rparr>"
    by (simp_all add: AddGroupAccount_def res_simps)
  have "exclusivePools d'" if e: "exclusivePools d"
    unfolding exclusivePools_def
  proof (intro ballI allI impI)
    fix s a g assume s: "s \<in> set (allocation_schemes d')" and m: "(s_group s, a) \<in> set (group_accounts d') \<and> (g, a) \<in> set (group_accounts d')"
    have s': "s \<in> set (allocation_schemes d)" using s by (simp add: d')
    have own: "s_group s \<noteq> i" using assms(2) s' by (auto simp: hasScheme_def list_ex_iff)
    then have a: "(s_group s, a) \<in> set (group_accounts d)" using m by (simp add: d')
    have "hasScheme d (s_group s)" using s' by (auto simp: hasScheme_def list_ex_iff)
    then have "a \<noteq> account" using free a own by (auto simp: exclusiveAccount_def list_ex_iff)
    then have "(g, a) \<in> set (group_accounts d)" using m by (simp add: d')
    then show "g = s_group s" using e s' a unfolding exclusivePools_def by blast
  qed
  then show ?thesis using assms(2) by (simp add: poolsKept_def accountsOf_def d')
qed

lemma addAccounts_kept:
  assumes "foldR (attachAccount i) d ids = Inr d'" and "\<not> hasScheme d i"
  shows "poolsKept i d d'"
proof -
  have "poolsKept i d d' \<and> \<not> hasScheme d' i"
  proof (rule foldR_invariant [OF assms(1), of "\<lambda>e. poolsKept i d e \<and> \<not> hasScheme e i"])
    fix e a e' assume e: "poolsKept i d e \<and> \<not> hasScheme e i" and a: "attachAccount i e a = Inr e'"
    have k: "poolsKept i e e'" by (rule attachAccount_kept [OF a]) (use e in simp)
    then have "allocation_schemes e' = allocation_schemes e" by (simp add: poolsKept_def)
    then have "\<not> hasScheme e' i" using e by (simp add: hasScheme_def)
    then show "poolsKept i d e' \<and> \<not> hasScheme e' i" using e k poolsKept_trans by blast
  qed (use assms(2) in simp)
  then show ?thesis by blast
qed

lemma writeAccounts_kept:
  assumes "writeAccounts d i ids = Inr d'"
  shows "poolsKept i d d'"
proof (cases "GetPoolAllocation d i")
  case (Inr x)
  then have "d' = d" using assms by (auto simp: writeAccounts_def res_simps)
  then show ?thesis by simp
next
  case (Inl e)
  obtain d1 where e: "errorsIs e NoRows" and c: "ClearGroupAccounts d i = Inr d1" and f: "foldR (attachAccount i) d1 ids = Inr d'"
    using assms Inl by (auto simp: writeAccounts_def res_simps split: if_splits)
  have none: "\<not> hasScheme d i"
    using Inl e by (auto simp: GetPoolAllocation_def queryRow_def hasScheme_def list_ex_iff errorsIs_def Unwrap_def first_of_None_iff
      split: option.splits if_splits)
  have d1: "d1 = d\<lparr>group_accounts := filter (\<lambda>ga. fst ga \<noteq> i) (group_accounts d)\<rparr>" using c by (simp add: ClearGroupAccounts_def res_simps)
  have "exclusivePools d \<longrightarrow> exclusivePools d1" by (auto simp: exclusivePools_def d1)
  then have "poolsKept i d d1" using none by (simp add: poolsKept_def accountsOf_def d1)
  moreover have "poolsKept i d1 d'" by (rule addAccounts_kept [OF f]) (use none in \<open>simp add: hasScheme_def d1\<close>)
  ultimately show ?thesis by (rule poolsKept_trans)
qed

lemma foldR_frame:
  assumes "foldR f d xs = Inr d'" and "\<And>d x d'. f d x = Inr d' \<Longrightarrow> poolsKept i d d'"
  shows "poolsKept i d d'"
  by (rule foldR_invariant [OF assms(1), of "poolsKept i d"]) (auto intro: poolsKept_trans assms(2))

lemma writeModels_kept:
  assumes "writeModels d j policy = Inr d'"
  shows "poolsKept i d d'"
proof (cases policy)
  case (Some p)
  then obtain d1 d2 where a: "SetGroupModelPolicy d j (Restricted p) = Inr d1" "ClearGroupModels d1 j = Inr d2"
    "foldR (\<lambda>d model. AddGroupModel d j model) d2 (Models p) = Inr d'" using assms by (auto simp: writeModels_def res_simps)
  have "poolsKept i d2 d'" by (rule foldR_frame [OF a(3)]) (auto simp: AddGroupModel_def res_simps intro!: poolsKept_frame)
  moreover have "poolsKept i d d2" using a(1,2)
    by (auto simp: SetGroupModelPolicy_def ClearGroupModels_def res_simps mapGroups_def intro!: poolsKept_frame)
  ultimately show ?thesis by (blast intro: poolsKept_trans)
qed (use assms in \<open>simp add: writeModels_def\<close>)

lemma writeGroup_kept: "writeGroup d tenant i name enabled now = Inr (d', j) \<Longrightarrow> poolsKept k d d'"
  by (auto simp: writeGroup_def CreateGroup_def UpdateGroup_def Let_def mapGroups_def res_simps split: if_splits intro!: poolsKept_frame)

lemma writeRouting_kept: "writeRouting d j routing = Inr d' \<Longrightarrow> poolsKept k d d'"
  by (auto simp: writeRouting_def SetGroupRouting_def mapGroups_def res_simps split: option.splits intro!: poolsKept_frame)

lemma Record_kept: "Record ctx now d action resource i = Inr d' \<Longrightarrow> poolsKept k d d'"
  by (drule Record_frame) (auto intro!: poolsKept_frame)

lemma saveGroup_kept:
  assumes "saveGroup ctx clk d tenant i input = Inr (d', j)"
  shows "poolsKept j d d'"
proof -
  obtain ids policy name d1 d2 d3 d4 where
    w: "writeGroup d tenant i name (gi_Enabled input) (clk 0) = Inr (d1, j)" "writeAccounts d1 j ids = Inr d2"
    "writeModels d2 j policy = Inr d3" "writeRouting d3 j (gi_Routing input) = Inr d4"
    "Record ctx (clk 1) d4 (if i = 0 then ''group.create'' else ''group.update'') ''group'' (FormatInt j) = Inr d'"
    using assms unfolding saveGroup_def by (auto simp: res_simps)
  show ?thesis
    by (rule poolsKept_trans [OF writeGroup_kept [OF w(1)] poolsKept_trans [OF writeAccounts_kept [OF w(2)]
      poolsKept_trans [OF writeModels_kept [OF w(3)] poolsKept_trans [OF writeRouting_kept [OF w(4)] Record_kept [OF w(5)]]]]])
qed

text \<open>
  C40: A pool with an allowance keeps its accounts, and keeps them to itself: whatever pool is created or changed,
  every allowance's pool has the accounts it had, and none of them is in another pool.
\<close>

theorem allowance_pools_fixed:
  assumes "exclusivePools d" and "Save ctx clk d tenant i input = Inr (d', detail)"
  shows "exclusivePools d' \<and> allocation_schemes d' = allocation_schemes d \<and>
    (\<forall>s \<in> set (allocation_schemes d). accountsOf d' (s_group s) = accountsOf d (s_group s))"
proof -
  obtain j where "saveGroup ctx clk d tenant i input = Inr (d', j)" using assms(2) by (auto simp: Save_def res_simps)
  from saveGroup_kept [OF this] have k: "poolsKept j d d'" .
  have "accountsOf d' (s_group s) = accountsOf d (s_group s)" if "s \<in> set (allocation_schemes d)" for s
    using k that by (cases "s_group s = j") (auto simp: poolsKept_def hasScheme_def list_ex_iff)
  then show ?thesis using k assms(1) by (simp add: poolsKept_def)
qed

definition exampleRenamed :: GroupInput where
  "exampleRenamed = \<lparr>gi_Resources = Some [\<lparr>Kind' = ''subscription'', ResourceID = ''a''\<rparr>], gi_Routing = None, gi_ModelPolicy = None,
     gi_Name = ''renamed'', gi_Enabled = True, gi_AccountIDs = None\<rparr>"

lemma exampleRenamed_run: "case Save None (\<lambda>_. 5000) (exampleStore []) 1 1 exampleRenamed of Inl _ \<Rightarrow> False | Inr (d, _) \<Rightarrow> map g_name (account_groups d) = [''renamed'']"
  unfolding exampleRenamed_def by code_simp

theorem allowance_pools_fixed_witness:
  "\<exists>d r. Save None (\<lambda>_. 5000) (exampleStore []) 1 1 exampleRenamed = Inr (d, r) \<and> exclusivePools d \<and>
     map g_name (account_groups d) = [''renamed'']"
proof -
  obtain d r where s: "Save None (\<lambda>_. 5000) (exampleStore []) 1 1 exampleRenamed = Inr (d, r)" "map g_name (account_groups d) = [''renamed'']"
    using exampleRenamed_run by (auto split: sum.splits)
  have "exclusivePools (exampleStore [])" by (simp add: exclusivePools_def exampleStore_def)
  from allowance_pools_fixed [OF this s(1)] have "exclusivePools d" by simp
  then show ?thesis using s by (intro exI [of _ d] exI [of _ r]) simp
qed

end
