(* ===== verification/Spec2Isabelle.thy ===== *)
theory Spec2Isabelle
  imports Alloc_Versions Groups_Policy Accounts_Catalog Calendar Timezone Gateway_Runtime Gateway_Retry Gateway_Choice
    Maintenance Gateway_History Gateway_Leases Gateway_Books Workspaces Groups_Pools
begin

text \<open>
  SubLane shares a few subscription accounts of model providers among the members of a workspace. A
  member's request arrives with an API key, is admitted against the limits of the member and of an
  allowance, is routed to one of the accounts of the key's pool, is sent and perhaps retried, and is
  charged and recorded when it ends. This development models the part of the program that decides, counts
  and charges: the packages \<open>allocations\<close>, \<open>groups\<close>, \<open>accounts\<close> (catalogs), \<open>timezone\<close>, \<open>gateway\<close>,
  \<open>pricing\<close>, \<open>audit\<close>, \<open>pagination\<close>, \<open>apikey\<close>, \<open>vault\<close> and \<open>tenants\<close> under \<open>src/internal\<close>, and the
  statements of \<open>internal/storage/db\<close> they run.

  \<^bold>\<open>How the code is represented.\<close>
  Strings are byte strings. Integers are \<^typ>\<open>int\<close> and every \<open>int64\<close> operation that can leave its range is
  written with \<open>wrap64\<close>, \<open>sdiv\<close> and \<open>smod\<close> (\<open>Prelude\<close>); SQLite's own overflow errors are not modelled.
  Instants are Unix seconds, in the gateway nanoseconds. \<open>float64\<close> percentages are dyadic rationals
  (\<open>Upstream_Usage\<close>, \<open>Gateway_Quota\<close>). An error is a value of \<open>error\<close> (\<open>Errors\<close>), a fallible
  function returns \<open>error + 'a\<close>, and every early return is a branch. The database is a record of tables
  (\<open>Store\<close>); a statement is a definition of the name the generated code gives it, with the constraints of
  the schema it can violate, and fails with \<open>StoreError\<close> when \<open>faults\<close> names it. A transaction works on a
  copy of the store that is dropped unless it commits; a commit whose outcome is unknown is not modelled. A
  statement that fails because its context ended is a \<open>StoreError\<close>. Stored JSON is either the value it decodes
  to or a value that does not decode. Clocks, random text, hashes, the zone of the workspace and answers
  of other packages are arguments (the records \<open>Host\<close>, \<open>Query\<close> and \<open>Round\<close>); operations that hold the
  gateway's lock read the clock once.

  \<^bold>\<open>Calendar and shared theories.\<close>
  \<open>Prelude\<close>: results, loops with early return, 64-bit integers, reachable states and the locale
  \<open>step_invariant\<close>. \<open>Calendar\<close> and \<open>Timezone\<close>: civil dates, locations as lists of transitions, and the first
  instant of a date (\<open>internal/timezone/calendar.go\<close>), with the locales \<open>civil_zone\<close> and \<open>zone_periods\<close>.

  \<^bold>\<open>Allowances\<close> (\<open>internal/allocations\<close>).
  \<open>Alloc_Config\<close> holds the rules, their normal form, limits, reservations and prices; \<open>Alloc_Pricing\<close> the
  prices a saved rule takes; \<open>Alloc_Calendar\<close> the accounting windows (\<open>calendar.go\<close>); \<open>Alloc_Store\<close> the
  statements; \<open>Alloc_Accounting\<close> admission and settlement (\<open>runtime.go\<close>, \<open>accounting.go\<close>);
  \<open>Alloc_Schemes\<close> the operations on schemes and their scheduled changes (\<open>allocations.go\<close>, \<open>changes.go\<close>,
  \<open>schedule.go\<close>). \<open>Alloc_Admission\<close> proves that the cached accounting is the reference count and that
  admission never over-commits a limit; \<open>Alloc_Settlement\<close> the life of an entry and the ledger invariant;
  \<open>Alloc_Changes\<close> that every operation keeps stored rules well formed; \<open>Alloc_Versions\<close> the
  reachable-state invariant of the whole package and that conditional writes lose no update. The clock
  of an operation is a function \<open>clk\<close> of the number of readings so far.

  \<^bold>\<open>Pools and catalogs.\<close>
  \<open>Groups_Policy\<close>: model policies and resources of a pool (\<open>policy.go\<close>, \<open>resources.go\<close>).
  \<open>Accounts_Catalog\<close>: the models an account offers (\<open>catalog.go\<close>, \<open>capabilities.go\<close>).

  \<^bold>\<open>Gateway\<close> (\<open>internal/gateway\<close>).
  \<open>Gateway_Runtime\<close> holds the state of the service (record \<open>gateway\<close>: the cooldowns and leases of accounts in
  \<open>health\<close>, shared model runtimes by address in \<open>objects\<close>, requests in progress by index in \<open>requests\<close>, the
  queue counts, the list of failed settlements) and the cooldowns (\<open>runtime.go\<close>, \<open>model_runtime.go\<close>,
  \<open>tuning.go\<close>); \<open>Gateway_Quota\<close> what a usage snapshot says about an account; \<open>Gateway_Members\<close> the limits of
  a member; \<open>Gateway_Affinity\<close>, \<open>Gateway_Selection\<close> and \<open>Gateway_Choice\<close> the choice of an account and what it
  guarantees (\<open>selection.go\<close>, \<open>affinity.go\<close>); \<open>Gateway_Route\<close> the recorded explanation and the
  classification of errors (\<open>route.go\<close>, \<open>history.go\<close>); \<open>Gateway_Retry\<close> the retry loop (\<open>retry.go\<close>);
  \<open>Gateway_Settlement\<close> what a finished request leaves in the database (\<open>allocations.go\<close>,
  \<open>history.go\<close>); \<open>Gateway_Lease\<close> the life of a request: \<open>begin\<close>, \<open>leaseAccount\<close>,
  \<open>recheckAttempt\<close> and \<open>finish\<close>. \<open>leaseAccount\<close> gives up the lock while it waits, so each round of its
  loop is a definition of its own (\<open>leaseRound\<close>), which ends the call or leaves it waiting until a deadline.
  \<open>Gateway_Concurrency\<close> interleaves these steps in the relation \<open>gateway_step\<close>: requests arrive, measure
  what they send, try, wake, finish, recheck, operators resume accounts and change limits, settlements
  are retried, the service stops, and other parts of the program write the database, but neither add entries
  or records of the gateway's requests nor make an entry of theirs active. \<open>Gateway_Leases\<close> shows that leases are
  counted exactly, that concurrency and the queue are bounded and that a completion wakes a waiting call;
  \<open>Gateway_Books\<close> that no settlement is lost and no request is recorded twice, whichever statements fail.
  \<open>Statistics\<close> models what a finished request adds to the counters (\<open>statistics.go\<close>), \<open>Maintenance\<close>
  the hourly pass (\<open>maintenance.go\<close>) and \<open>Gateway_History\<close> the pages of the history (\<open>requests.go\<close>).

  \<^bold>\<open>API keys\<close> (\<open>internal/apikey\<close>, \<open>internal/vault\<close>).
  \<open>Tokens\<close>: the text of random tokens. \<open>Vault_Seal\<close>: envelopes, and the data that binds each kind of sealed
  secret to its record; the cipher is an argument, of which \<open>genuine\<close> says that a box opens exactly to what was
  sealed under the same data. \<open>Keys\<close>: creation in a pool or a scheme, lists, changes, revocation, moves between
  pools, authentication, disclosure and the check of stored secrets (\<open>keys.go\<close>, \<open>bindings.go\<close>, \<open>secrets.go\<close>);
  the record \<open>KeyService\<close> holds the tenant, the hash and the vault, random bytes are arguments. \<open>Keys_Life\<close>:
  the relation \<open>key_step\<close>, in which the rest of the program changes anything but the keys, the invariant
  of reachable stores, and what authentication, disclosure and revocation guarantee.

  \<^bold>\<open>Workspaces and pools\<close> (\<open>internal/tenants\<close>, \<open>internal/groups\<close>).
  \<open>User_Names\<close>: user names without case. \<open>Tenants\<close>: workspaces, their members and roles (\<open>tenants.go\<close>,
  \<open>removal.go\<close>). \<open>Groups_Manage\<close>: creation and changes of pools and the grants of members (\<open>groups.go\<close>).
  \<open>Groups_Pools\<close>: the pool of an allowance is neither changed nor shared. \<open>Workspaces\<close>: the relation
  \<open>workspace_step\<close> of all these operations, of those of the keys and of steps of the rest of the program that
  leave workspaces, memberships, grants and keys alone; its invariant is about owners and removed members, and
  removal is shown to be final. \<open>Names\<close> and \<open>Pagination\<close>: names of things and pages of lists.

  \<^bold>\<open>Bounds and fuel.\<close>
  The binary search for the first instant of a day halves its interval, and the retry loop recurses on the
  attempts that are left. The maintenance loop takes as fuel the batches of one table, which suffices when
  they cover its rows; a client that follows the cursor of the history (\<open>walk\<close>) takes as fuel the pages
  it asks for; trimming takes the length of the string. The check of stored
  secrets recurses on the rows that are left. All other recursions are structural.

  \<^bold>\<open>Not modelled.\<close>
  Requests to providers and the translation of their JSON (\<open>upstream\<close>, \<open>exchange.go\<close>, \<open>conversation.go\<close>,
  \<open>content.go\<close>), the refresh of catalogs and usage in the background, what \<open>finish\<close> observes of a
  provider's quota headers and its log lines, the HTTP server, sessions and passwords,
  reading and creating the key file of the vault, alerts, updates, backups and configuration. The length limit of an encoded route is not modelled: its
  fields are bounded, so it is never reached. Request identifiers are fresh, as random text is.
\<close>

end
